(* ===== verification/Prelude.thy ===== *)
theory Prelude
  imports Main "HOL-Library.Multiset"
begin

text \<open>
  Shared vocabulary of the development.  Go's error values, the three ways a Go call can end
  (a result, an error, a panic), sequencing and loops over a mutable state, Go's fixed-width
  integer conversions, and the list idioms the power library repeats (linear search for an
  index, removal by swapping with the last element, appending an element once).
\<close>

named_theorems go_simps \<open>unfolding rules of sequencing, loops and conversions\<close>
named_theorems go_keeps \<open>facts of the form: an operation leaves a part of the state alone\<close>

section \<open>Errors and outcomes\<close>

text \<open>
  \<open>Msg\<close> is \<^verbatim>\<open>fmt.Errorf\<close> without a wrapped error, \<open>Wrap p e\<close> is
  \<^verbatim>\<open>fmt.Errorf("p: %w", e)\<close>, \<open>OSNotExist\<close> and \<open>OSFailure\<close> are errors of the
  operating system (only the first satisfies \<^verbatim>\<open>os.IsNotExist\<close>), \<open>NotFound\<close> and
  \<open>Unavailable\<close> are the Kubernetes API errors the controllers tell apart, and \<open>Joined\<close>
  is \<^verbatim>\<open>errors.Join\<close>.
\<close>

datatype gerr =
    Msg string
  | Wrap string gerr
  | OSNotExist string
  | OSFailure string
  | NotFound string
  | Unavailable string
  | Joined "gerr list"

text \<open>A Go call returns a value, returns an error, or panics.\<close>

datatype 'a gores = Ret 'a | Fail gerr | Panic string

text \<open>
  An operation on a state of type \<open>'s\<close>.  The state is returned with every outcome, because
  Go code that fails half way keeps the changes it has made.
\<close>

type_synonym ('a, 's) action = "'s \<Rightarrow> 'a gores \<times> 's"

definition andThen :: "'a gores \<times> 's \<Rightarrow> ('a \<Rightarrow> ('b, 's) action) \<Rightarrow> 'b gores \<times> 's" where
  "andThen r f = (case r of
      (Ret a, s) \<Rightarrow> f a s
    | (Fail e, s) \<Rightarrow> (Fail e, s)
    | (Panic m, s) \<Rightarrow> (Panic m, s))"

text \<open>\<^verbatim>\<open>if err != nil { return fmt.Errorf("p: %w", err) }\<close>\<close>

definition wrapErr :: "string \<Rightarrow> 'a gores \<times> 's \<Rightarrow> 'a gores \<times> 's" where
  "wrapErr p r = (case r of (Fail e, s) \<Rightarrow> (Fail (Wrap p e), s) | _ \<Rightarrow> r)"

text \<open>A computation that only reads the state.\<close>

definition reading :: "'a gores \<Rightarrow> ('a, 's) action" where
  "reading r s = (r, s)"

text \<open>\<^verbatim>\<open>for _, x := range xs { if err := f(x); err != nil { return err } }\<close>\<close>

primrec forEach :: "('x \<Rightarrow> (unit, 's) action) \<Rightarrow> 'x list \<Rightarrow> (unit, 's) action" where
  "forEach f [] s = (Ret (), s)"
| "forEach f (x # xs) s = andThen (f x s) (\<lambda>_ s'. forEach f xs s')"

fun isRet :: "'a gores \<Rightarrow> bool" where
  "isRet (Ret _) = True"
| "isRet _ = False"

fun isPanic :: "'a gores \<Rightarrow> bool" where
  "isPanic (Panic _) = True"
| "isPanic _ = False"

lemma andThen_simps [simp, go_simps]:
  "andThen (Ret a, s) f = f a s"
  "andThen (Fail e, s) f = (Fail e, s)"
  "andThen (Panic m, s) f = (Panic m, s)"
  by (simp_all add: andThen_def)

lemma wrapErr_simps [simp, go_simps]:
  "wrapErr p (Ret a, s) = (Ret a, s)"
  "wrapErr p (Fail e, s) = (Fail (Wrap p e), s)"
  "wrapErr p (Panic m, s) = (Panic m, s)"
  by (simp_all add: wrapErr_def)

lemma reading_simps [simp, go_simps]:
  "reading r s = (r, s)"
  by (simp add: reading_def)

lemma snd_wrapErr [simp]: "snd (wrapErr p r) = snd r"
  by (auto simp: wrapErr_def split: prod.splits gores.splits)

lemma fst_wrapErr_Ret [simp]: "fst (wrapErr p r) = Ret a \<longleftrightarrow> fst r = Ret a"
  by (auto simp: wrapErr_def split: prod.splits gores.splits)

lemma isPanic_wrapErr [simp]: "isPanic (fst (wrapErr p r)) = isPanic (fst r)"
  by (auto simp: wrapErr_def split: prod.splits gores.splits)

lemma isRet_wrapErr [simp]: "isRet (fst (wrapErr p r)) = isRet (fst r)"
  by (auto simp: wrapErr_def split: prod.splits gores.splits)

lemma isRet_iff: "isRet r \<longleftrightarrow> (\<exists>a. r = Ret a)"
  by (cases r) auto

lemma wrapErr_Ret_iff [simp]: "wrapErr p r = (Ret a, s) \<longleftrightarrow> r = (Ret a, s)"
  by (auto simp: wrapErr_def split: prod.splits gores.splits)

lemma Ret_run: "fst x = Ret a \<Longrightarrow> x = (Ret a, snd x)"
  by (cases x) simp

text \<open>Sequencing keeps what both parts keep, and returns only if both parts return.\<close>

lemma andThen_snd_cases:
  assumes "P (snd r)" and "\<And>a s. r = (Ret a, s) \<Longrightarrow> P (snd (f a s))"
  shows "P (snd (andThen r f))"
  using assms by (cases r; cases "fst r") auto

lemma andThen_Ret_iff:
  "andThen r f = (Ret b, s') \<longleftrightarrow> (\<exists>a s. r = (Ret a, s) \<and> f a s = (Ret b, s'))"
  by (cases r; cases "fst r") auto

lemma andThen_isPanic:
  assumes "\<not> isPanic (fst r)" and "\<And>a s. r = (Ret a, s) \<Longrightarrow> \<not> isPanic (fst (f a s))"
  shows "\<not> isPanic (fst (andThen r f))"
  using assms by (cases r; cases "fst r") auto

lemma andThen_isPanic_iff:
  "isPanic (fst (andThen r f)) \<longleftrightarrow> isPanic (fst r) \<or> (\<exists>a s. r = (Ret a, s) \<and> isPanic (fst (f a s)))"
  by (cases r; cases "fst r") auto

section \<open>Interfaces of stateful operations\<close>

text \<open>
  A family of operations that keeps a state predicate whatever its outcome.  Loops over the
  family keep it too.  Interpreted below for every pool mutation.
\<close>

locale keeping =
  fixes op :: "'x \<Rightarrow> (unit, 's) action" and I :: "'s \<Rightarrow> bool"
  assumes keep: "I s \<Longrightarrow> I (snd (op x s))"
begin

lemma forEach_keep: "I s \<Longrightarrow> I (snd (forEach op xs s))"
proof (induction xs arbitrary: s)
  case (Cons x xs)
  show ?case
    unfolding forEach.simps
  proof (rule andThen_snd_cases)
    show "I (snd (op x s))" using Cons.prems by (rule keep)
    show "I (snd (forEach op xs t))" if "op x s = (Ret a, t)" for a t
      using Cons.IH [of t] keep [OF Cons.prems, of x] that by simp
  qed
qed simp

end

text \<open>A family that keeps the predicate and, under it, never panics.\<close>

locale total_keeping = keeping op I
  for op :: "'x \<Rightarrow> (unit, 's) action" and I :: "'s \<Rightarrow> bool" +
  assumes no_panic: "I s \<Longrightarrow> \<not> isPanic (fst (op x s))"
begin

lemma forEach_no_panic: "I s \<Longrightarrow> \<not> isPanic (fst (forEach op xs s))"
proof (induction xs arbitrary: s)
  case (Cons x xs)
  show ?case
    unfolding forEach.simps
  proof (rule andThen_isPanic)
    show "\<not> isPanic (fst (op x s))" using Cons.prems by (rule no_panic)
    show "\<not> isPanic (fst (forEach op xs t))" if "op x s = (Ret a, t)" for a t
      using Cons.IH [of t] keep [OF Cons.prems, of x] that by simp
  qed
qed simp

end

text \<open>
  A family whose outcome depends only on a part of the state, given by a relation between
  states that agree on it.
\<close>

locale respecting =
  fixes op :: "'x \<Rightarrow> (unit, 's) action" and R :: "'s \<Rightarrow> 's \<Rightarrow> bool"
  assumes respects: "R s t \<Longrightarrow> fst (op x s) = fst (op x t) \<and> R (snd (op x s)) (snd (op x t))"
begin

lemma forEach_respects: "R s t \<Longrightarrow> fst (forEach op xs s) = fst (forEach op xs t) \<and> R (snd (forEach op xs s)) (snd (forEach op xs t))"
proof (induction xs arbitrary: s t)
  case (Cons x xs)
  obtain r s1 t1 where o: "op x s = (r, s1)" "op x t = (r, t1)" "R s1 t1"
    using respects [OF Cons.prems, of x] by (metis prod.collapse)
  show ?case
  proof (cases r)
    case (Ret u)
    with o Cons.IH [OF o(3)] show ?thesis by simp
  qed (use o in simp_all)
qed simp

end

section \<open>Machine integers\<close>

text \<open>Go conversions to the fixed-width types of a 64-bit platform.\<close>

definition to_int32 :: "int \<Rightarrow> int" where
  "to_int32 x = (x + 2 ^ 31) mod 2 ^ 32 - 2 ^ 31"

definition to_int64 :: "int \<Rightarrow> int" where
  "to_int64 x = (x + 2 ^ 63) mod 2 ^ 64 - 2 ^ 63"

definition to_uint64 :: "int \<Rightarrow> int" where
  "to_uint64 x = x mod 2 ^ 64"

lemma to_int32_id [simp]: "- (2 ^ 31) \<le> x \<Longrightarrow> x < 2 ^ 31 \<Longrightarrow> to_int32 x = x"
  by (simp add: to_int32_def)

lemma to_int64_id [simp]: "- (2 ^ 63) \<le> x \<Longrightarrow> x < 2 ^ 63 \<Longrightarrow> to_int64 x = x"
  by (simp add: to_int64_def)

lemma to_uint64_id [simp]: "0 \<le> x \<Longrightarrow> x < 2 ^ 64 \<Longrightarrow> to_uint64 x = x"
  by (simp add: to_uint64_def)

lemma to_int32_range: "- (2 ^ 31) \<le> to_int32 x \<and> to_int32 x < 2 ^ 31"
proof -
  have "0 \<le> (x + 2 ^ 31) mod 2 ^ 32" "(x + 2 ^ 31) mod 2 ^ 32 < (2::int) ^ 32"
    by (rule pos_mod_sign, simp) (rule pos_mod_bound, simp)
  then show ?thesis by (simp add: to_int32_def)
qed

lemma to_int64_range: "- (2 ^ 63) \<le> to_int64 x \<and> to_int64 x < 2 ^ 63"
proof -
  have "0 \<le> (x + 2 ^ 63) mod 2 ^ 64" "(x + 2 ^ 63) mod 2 ^ 64 < (2::int) ^ 64"
    by (rule pos_mod_sign, simp) (rule pos_mod_bound, simp)
  then show ?thesis by (simp add: to_int64_def)
qed

lemma to_uint64_range: "0 \<le> to_uint64 x \<and> to_uint64 x < 2 ^ 64"
  by (simp add: to_uint64_def)

section \<open>Linear search and removal from slices\<close>

text \<open>\<^verbatim>\<open>for i, x := range xs { if p(x) { return i } }; return -1\<close>\<close>

fun indexFrom :: "('a \<Rightarrow> bool) \<Rightarrow> nat \<Rightarrow> 'a list \<Rightarrow> int" where
  "indexFrom p i [] = -1"
| "indexFrom p i (x # xs) = (if p x then int i else indexFrom p (Suc i) xs)"

lemma indexFrom_neg: "indexFrom p i xs < 0 \<longleftrightarrow> (\<forall>x \<in> set xs. \<not> p x)"
  by (induction p i xs rule: indexFrom.induct) auto

lemma indexFrom_nonneg:
  assumes "0 \<le> indexFrom p i xs"
  shows "\<exists>k < length xs. indexFrom p i xs = int (i + k) \<and> p (xs ! k) \<and> (\<forall>j < k. \<not> p (xs ! j))"
  using assms
proof (induction p i xs rule: indexFrom.induct)
  case (2 p i x xs)
  show ?case
  proof (cases "p x")
    case True
    then show ?thesis by auto
  next
    case False
    with "2" obtain k where k: "k < length xs" "indexFrom p (Suc i) xs = int (Suc i + k)"
      "p (xs ! k)" "\<forall>j < k. \<not> p (xs ! j)" by auto
    with False show ?thesis
      by (intro exI [of _ "Suc k"]) (auto simp: less_Suc_eq_0_disj)
  qed
qed simp

lemma indexFrom_find:
  assumes "0 \<le> indexFrom p 0 xs"
  shows "nat (indexFrom p 0 xs) < length xs" "p (xs ! nat (indexFrom p 0 xs))"
  using indexFrom_nonneg [OF assms] by auto

text \<open>
  Removal by position as the library does it: the last element takes the place of the removed
  one and the slice is cut by one (\<^verbatim>\<open>xs[i] = xs[size]; xs = xs[:size]\<close>).
\<close>

definition swapRemove :: "nat \<Rightarrow> 'a list \<Rightarrow> 'a list" where
  "swapRemove i xs = (let size = length xs - 1 in take size (xs[i := xs ! size]))"

lemma swapRemove_snoc:
  "swapRemove i (ys @ [y]) = (if i < length ys then ys[i := y] else ys)"
  by (simp add: swapRemove_def Let_def list_update_append split: nat.splits)

lemma mset_swapRemove:
  assumes "i < length xs"
  shows "mset (swapRemove i xs) = mset xs - {#xs ! i#}"
proof (cases xs rule: rev_cases)
  case Nil
  with assms show ?thesis by simp
next
  case (snoc ys y)
  show ?thesis
  proof (cases "i < length ys")
    case True
    then have "ys ! i \<in># mset ys" by simp
    with True snoc show ?thesis
      by (simp add: swapRemove_snoc mset_update nth_append add_mset_remove_trivial_If)
  next
    case False
    with assms snoc have "i = length ys" by simp
    with snoc show ?thesis by (simp add: swapRemove_snoc)
  qed
qed

lemma set_swapRemove:
  assumes "distinct xs" "i < length xs"
  shows "set (swapRemove i xs) = set xs - {xs ! i}" "distinct (swapRemove i xs)"
proof -
  have m: "mset (swapRemove i xs) = mset (remove1 (xs ! i) xs)"
    using assms(2) by (simp add: mset_swapRemove)
  have "set (swapRemove i xs) = set (remove1 (xs ! i) xs)"
    by (rule mset_eq_setD [OF m])
  with assms(1) show "set (swapRemove i xs) = set xs - {xs ! i}" by simp
  have "distinct (remove1 (xs ! i) xs)" using assms(1) by simp
  with m show "distinct (swapRemove i xs)" by (metis mset_eq_imp_distinct_iff)
qed

end
