(* ===== verification/Go_Strings.thy ===== *)
theory Go_Strings
  imports Prelude
begin

text \<open>
  The parts of Go's \<^verbatim>\<open>strings\<close> and \<^verbatim>\<open>strconv\<close> packages the program uses: splitting and
  joining on a one-character separator, prefixes and suffixes, decimal printing
  (\<^verbatim>\<open>strconv.Itoa\<close>, \<^verbatim>\<open>%d\<close>) and parsing (\<^verbatim>\<open>strconv.Atoi\<close>,
  \<^verbatim>\<open>strconv.ParseUint(s, 10, bits)\<close>).  The central facts are the two round trips: parsing a
  printed number gives it back, and splitting a joined list of separator-free strings gives
  the list back.
\<close>

section \<open>Splitting, joining, prefixes and suffixes\<close>

text \<open>\<^verbatim>\<open>strings.Split(s, sep)\<close> for a separator of one character; never empty.\<close>

fun Split :: "char \<Rightarrow> string \<Rightarrow> string list" where
  "Split c [] = [[]]"
| "Split c (x # xs) =
     (if x = c then [] # Split c xs
      else (case Split c xs of [] \<Rightarrow> [[x]] | w # ws \<Rightarrow> (x # w) # ws))"

text \<open>\<^verbatim>\<open>strings.Join(ws, sep)\<close>\<close>

fun Join :: "string \<Rightarrow> string list \<Rightarrow> string" where
  "Join sep [] = []"
| "Join sep [w] = w"
| "Join sep (w # v # vs) = w @ sep @ Join sep (v # vs)"

definition HasPrefix :: "string \<Rightarrow> string \<Rightarrow> bool" where
  "HasPrefix s p \<longleftrightarrow> take (length p) s = p"

definition HasSuffix :: "string \<Rightarrow> string \<Rightarrow> bool" where
  "HasSuffix s p \<longleftrightarrow> length p \<le> length s \<and> drop (length s - length p) s = p"

definition TrimPrefix :: "string \<Rightarrow> string \<Rightarrow> string" where
  "TrimPrefix s p = (if HasPrefix s p then drop (length p) s else s)"

definition TrimSuffix :: "string \<Rightarrow> string \<Rightarrow> string" where
  "TrimSuffix s p = (if HasSuffix s p then take (length s - length p) s else s)"

text \<open>\<^verbatim>\<open>strings.Contains(s, p)\<close>\<close>

fun Contains :: "string \<Rightarrow> string \<Rightarrow> bool" where
  "Contains [] p = (p = [])"
| "Contains (x # xs) p = (HasPrefix (x # xs) p \<or> Contains xs p)"

text \<open>
  The lines a \<^verbatim>\<open>bufio.Scanner\<close> delivers, and whether it stopped with an error: the last line may
  lack its line feed, a carriage return before the line feed is dropped, and a line of
  \<^verbatim>\<open>bufio.MaxScanTokenSize\<close> (65536) bytes or more ends the scan.
\<close>

definition dropCR :: "string \<Rightarrow> string" where
  "dropCR l = (if l \<noteq> [] \<and> last l = CHR 0x0D then butlast l else l)"

definition scanLines :: "string \<Rightarrow> string list \<times> bool" where
  "scanLines c =
     (let ls = Split (CHR 0x0A) c;
          ls' = (if last ls = [] then butlast ls else ls);
          short = takeWhile (\<lambda>l. int (length l) < 65536) ls'
      in (map dropCR short, length short < length ls'))"

lemma Split_not_Nil [simp]: "Split c s \<noteq> []"
  by (induction c s rule: Split.induct) (auto split: list.splits)

lemma Split_free: "c \<notin> set s \<Longrightarrow> Split c s = [s]"
  by (induction c s rule: Split.induct) auto

lemma Split_append: "c \<notin> set s \<Longrightarrow> Split c (s @ c # t) = s # Split c t"
  by (induction s) (auto split: list.splits)

theorem Split_Join:
  assumes "ws \<noteq> []" "\<forall>w \<in> set ws. c \<notin> set w"
  shows "Split c (Join [c] ws) = ws"
  using assms
  by (induction "[c]" ws rule: Join.induct) (auto simp: Split_free Split_append)

lemma TrimSuffix_append [simp]: "TrimSuffix (s @ p) p = s"
  by (simp add: TrimSuffix_def HasSuffix_def)

lemma HasSuffix_append [simp]: "HasSuffix (s @ p) p"
  by (simp add: HasSuffix_def)

lemma HasPrefix_append [simp]: "HasPrefix (p @ s) p"
  by (simp add: HasPrefix_def)

lemma TrimPrefix_append [simp]: "TrimPrefix (p @ s) p = s"
  by (simp add: TrimPrefix_def)

lemma HasPrefix_iff: "HasPrefix s p \<longleftrightarrow> (\<exists>t. s = p @ t)"
  by (auto simp: HasPrefix_def) (metis append_take_drop_id)

section \<open>Decimal numbers\<close>

definition digit_char :: "nat \<Rightarrow> char" where
  "digit_char d = char_of (48 + d)"

definition is_digit :: "char \<Rightarrow> bool" where
  "is_digit c \<longleftrightarrow> 48 \<le> (of_char c :: nat) \<and> (of_char c :: nat) \<le> 57"

definition digit_val :: "char \<Rightarrow> nat" where
  "digit_val c = of_char c - 48"

fun digits :: "nat \<Rightarrow> string" where
  "digits n = (if n < 10 then [digit_char n] else digits (n div 10) @ [digit_char (n mod 10)])"

declare digits.simps [simp del]

text \<open>\<^verbatim>\<open>strconv.Itoa\<close> and the verb \<^verbatim>\<open>%d\<close>.\<close>

definition Itoa :: "int \<Rightarrow> string" where
  "Itoa i = (if i < 0 then CHR ''-'' # digits (nat (- i)) else digits (nat i))"

definition parse_digits :: "string \<Rightarrow> nat option" where
  "parse_digits s = (if s \<noteq> [] \<and> list_all is_digit s
     then Some (foldl (\<lambda>acc c. 10 * acc + digit_val c) 0 s) else None)"

text \<open>
  \<^verbatim>\<open>strconv.Atoi\<close>: an optional sign, at least one digit, and a value that fits a 64-bit
  \<^verbatim>\<open>int\<close>; anything else is an error.
\<close>

definition Atoi :: "string \<Rightarrow> int option" where
  "Atoi s = (case s of
      [] \<Rightarrow> None
    | c # cs \<Rightarrow>
        (if c = CHR ''-'' then
           (case parse_digits cs of
              Some n \<Rightarrow> if int n \<le> 2 ^ 63 then Some (- int n) else None
            | None \<Rightarrow> None)
         else
           (case parse_digits (if c = CHR ''+'' then cs else s) of
              Some n \<Rightarrow> if int n < 2 ^ 63 then Some (int n) else None
            | None \<Rightarrow> None)))"

text \<open>\<^verbatim>\<open>strconv.ParseUint(s, 10, bits)\<close>: digits only, no sign.\<close>

definition ParseUint10 :: "nat \<Rightarrow> string \<Rightarrow> nat option" where
  "ParseUint10 bits s = (case parse_digits s of
      Some n \<Rightarrow> if n < 2 ^ bits then Some n else None
    | None \<Rightarrow> None)"

lemma digit_char_digit: "d < 10 \<Longrightarrow> is_digit (digit_char d)"
  by (simp add: digit_char_def is_digit_def take_bit_nat_def)

lemma digit_val_char: "d < 10 \<Longrightarrow> digit_val (digit_char d) = d"
  by (simp add: digit_char_def digit_val_def take_bit_nat_def)

lemma is_digit_not_sign:
  "is_digit c \<Longrightarrow> c \<noteq> CHR ''-''" "is_digit c \<Longrightarrow> c \<noteq> CHR '',''" "is_digit c \<Longrightarrow> c \<noteq> CHR ''+''"
  "is_digit c \<Longrightarrow> c \<noteq> CHR ''/''"
  by (auto simp: is_digit_def)

lemma digits_not_Nil [simp]: "digits n \<noteq> []"
  by (subst digits.simps) simp

lemma digits_all_digit: "list_all is_digit (digits n)"
proof (induction n rule: digits.induct)
  case (1 n)
  then show ?case
    by (subst digits.simps) (auto simp: digit_char_digit)
qed

lemma digits_value: "foldl (\<lambda>acc c. 10 * acc + digit_val c) 0 (digits n) = n"
proof (induction n rule: digits.induct)
  case (1 n)
  then show ?case
    by (cases "n < 10") (simp_all add: digits.simps [of n] digit_val_char)
qed

lemma parse_digits_digits [simp]: "parse_digits (digits n) = Some n"
  by (simp add: parse_digits_def digits_all_digit digits_value)

lemma digits_inject [simp]: "digits m = digits n \<longleftrightarrow> m = n"
proof
  assume "digits m = digits n"
  then have "parse_digits (digits m) = parse_digits (digits n)" by (rule arg_cong)
  then show "m = n" by (simp only: parse_digits_digits option.inject)
qed simp

lemma digits_no_sep: "c \<in> {CHR ''-'', CHR '','', CHR ''+'', CHR ''/''} \<Longrightarrow> c \<notin> set (digits n)"
proof
  assume c: "c \<in> {CHR ''-'', CHR '','', CHR ''+'', CHR ''/''}" and "c \<in> set (digits n)"
  then have "is_digit c" using digits_all_digit [of n] by (simp add: list_all_iff)
  with c show False by (auto dest: is_digit_not_sign)
qed

lemma Itoa_nonneg: "0 \<le> i \<Longrightarrow> Itoa i = digits (nat i)"
  by (simp add: Itoa_def)

lemma Itoa_inject [simp]: "Itoa i = Itoa j \<longleftrightarrow> i = j"
proof -
  have "CHR ''-'' \<notin> set (digits n)" for n by (rule digits_no_sep) simp
  then have m: "digits n \<noteq> CHR ''-'' # x" for n x by (metis list.set_intros(1))
  show ?thesis using m [THEN not_sym] m by (auto simp: Itoa_def split: if_splits)
qed

theorem Atoi_Itoa:
  assumes "- (2 ^ 63) \<le> i" "i < 2 ^ 63"
  shows "Atoi (Itoa i) = Some i"
proof (cases "i < 0")
  case True
  with assms show ?thesis by (simp add: Atoi_def Itoa_def)
next
  case False
  obtain c cs where d: "digits (nat i) = c # cs" by (cases "digits (nat i)") auto
  then have "is_digit c" using digits_all_digit [of "nat i"] by simp
  with d have "Atoi (Itoa i) = (case parse_digits (digits (nat i)) of
      Some n \<Rightarrow> if int n < 2 ^ 63 then Some (int n) else None | None \<Rightarrow> None)"
    using False by (simp add: Atoi_def Itoa_def is_digit_not_sign)
  with False assms show ?thesis by simp
qed

lemma ParseUint10_digits: "n < 2 ^ b \<Longrightarrow> ParseUint10 b (digits n) = Some n"
  by (simp add: ParseUint10_def)

lemma Atoi_range: "Atoi s = Some i \<Longrightarrow> - (2 ^ 63) \<le> i \<and> i < 2 ^ 63"
  by (auto simp: Atoi_def split: list.splits option.splits if_splits)

lemma Atoi_Nil [simp]: "Atoi [] = None"
  by (simp add: Atoi_def)

lemma ParseUint10_Nil [simp]: "ParseUint10 b [] = None"
  by (simp add: ParseUint10_def parse_digits_def)

end
