(* ===== verification/Cpuset.thy ===== *)
theory Cpuset
  imports Go_Strings
begin

text \<open>
  The package \<^verbatim>\<open>pkg/cpuset\<close>: an immutable set of CPU numbers, its builder, the set algebra, and
  the conversion to and from the Linux list format (\<^verbatim>\<open>0-3,5,7-9\<close>).

  A Go map used as a set is the list of its keys, without repetition, in the order in which a
  \<^verbatim>\<open>range\<close> loop happens to visit them.  Go leaves that order open, so every fact below speaks
  of the set of elements or of sorted output, and \<open>CPUSet_String_cong\<close> shows that printing does
  not depend on the order.  A loop over a machine-integer range may not end (its upper bound
  may be the largest integer); parsing is therefore a partial function, whose value \<open>None\<close>
  means that it does not return.
\<close>

section \<open>The set and its builder\<close>

record CPUSet =
  elems :: "int list"

record Builder =
  result :: CPUSet
  builder_done :: bool

definition NewBuilder :: Builder where
  "NewBuilder = \<lparr>result = \<lparr>elems = []\<rparr>, builder_done = False\<rparr>"

text \<open>Storing a key in a map.\<close>

definition mapStore :: "int \<Rightarrow> CPUSet \<Rightarrow> CPUSet" where
  "mapStore e s = (if e \<in> set (elems s) then s else s\<lparr>elems := elems s @ [e]\<rparr>)"

definition Builder_Add :: "int list \<Rightarrow> Builder \<Rightarrow> Builder" where
  "Builder_Add es b =
     (if builder_done b then b
      else foldl (\<lambda>b' e. b'\<lparr>result := mapStore e (result b')\<rparr>) b es)"

definition Builder_Result :: "Builder \<Rightarrow> CPUSet \<times> Builder" where
  "Builder_Result b = (result b, b\<lparr>builder_done := True\<rparr>)"

definition NewCPUSet :: "int list \<Rightarrow> CPUSet" where
  "NewCPUSet cpus = fst (Builder_Result (foldl (\<lambda>b c. Builder_Add [c] b) NewBuilder cpus))"

section \<open>Queries and set algebra\<close>

definition CPUSet_Size :: "CPUSet \<Rightarrow> int" where
  "CPUSet_Size s = int (length (elems s))"

definition CPUSet_IsEmpty :: "CPUSet \<Rightarrow> bool" where
  "CPUSet_IsEmpty s \<longleftrightarrow> CPUSet_Size s = 0"

definition CPUSet_Contains :: "CPUSet \<Rightarrow> int \<Rightarrow> bool" where
  "CPUSet_Contains s cpu \<longleftrightarrow> cpu \<in> set (elems s)"

text \<open>\<^verbatim>\<open>reflect.DeepEqual\<close> on two maps: as many keys, and every key of one in the other.\<close>

definition CPUSet_Equals :: "CPUSet \<Rightarrow> CPUSet \<Rightarrow> bool" where
  "CPUSet_Equals s s2 \<longleftrightarrow> length (elems s) = length (elems s2) \<and>
     list_all (\<lambda>e. e \<in> set (elems s2)) (elems s)"

definition CPUSet_Filter :: "(int \<Rightarrow> bool) \<Rightarrow> CPUSet \<Rightarrow> CPUSet" where
  "CPUSet_Filter pred s = fst (Builder_Result
     (foldl (\<lambda>b cpu. if pred cpu then Builder_Add [cpu] b else b) NewBuilder (elems s)))"

definition CPUSet_FilterNot :: "(int \<Rightarrow> bool) \<Rightarrow> CPUSet \<Rightarrow> CPUSet" where
  "CPUSet_FilterNot pred s = fst (Builder_Result
     (foldl (\<lambda>b cpu. if \<not> pred cpu then Builder_Add [cpu] b else b) NewBuilder (elems s)))"

fun subsetLoop :: "CPUSet \<Rightarrow> int list \<Rightarrow> bool" where
  "subsetLoop s2 [] = True"
| "subsetLoop s2 (cpu # cpus) = (if \<not> CPUSet_Contains s2 cpu then False else subsetLoop s2 cpus)"

definition CPUSet_IsSubsetOf :: "CPUSet \<Rightarrow> CPUSet \<Rightarrow> bool" where
  "CPUSet_IsSubsetOf s s2 = subsetLoop s2 (elems s)"

definition CPUSet_Union :: "CPUSet \<Rightarrow> CPUSet \<Rightarrow> CPUSet" where
  "CPUSet_Union s s2 = fst (Builder_Result
     (foldl (\<lambda>b cpu. Builder_Add [cpu] b)
        (foldl (\<lambda>b cpu. Builder_Add [cpu] b) NewBuilder (elems s)) (elems s2)))"

definition CPUSet_UnionAll :: "CPUSet \<Rightarrow> CPUSet list \<Rightarrow> CPUSet" where
  "CPUSet_UnionAll s ss = fst (Builder_Result
     (foldl (\<lambda>b cs. foldl (\<lambda>b' cpu. Builder_Add [cpu] b') b (elems cs))
        (foldl (\<lambda>b cpu. Builder_Add [cpu] b) NewBuilder (elems s)) ss))"

definition CPUSet_Intersection :: "CPUSet \<Rightarrow> CPUSet \<Rightarrow> CPUSet" where
  "CPUSet_Intersection s s2 = CPUSet_Filter (CPUSet_Contains s2) s"

definition CPUSet_Difference :: "CPUSet \<Rightarrow> CPUSet \<Rightarrow> CPUSet" where
  "CPUSet_Difference s s2 = CPUSet_FilterNot (CPUSet_Contains s2) s"

definition CPUSet_Clone :: "CPUSet \<Rightarrow> CPUSet" where
  "CPUSet_Clone s = fst (Builder_Result (foldl (\<lambda>b e. Builder_Add [e] b) NewBuilder (elems s)))"

definition CPUSet_ToSlice :: "CPUSet \<Rightarrow> int list" where
  "CPUSet_ToSlice s = sort (elems s)"

definition CPUSet_ToSliceNoSort :: "CPUSet \<Rightarrow> int list" where
  "CPUSet_ToSliceNoSort s = elems s"

text \<open>On a 64-bit platform \<^verbatim>\<open>int64(cpu)\<close> changes no value.\<close>

definition CPUSet_ToSliceInt64 :: "CPUSet \<Rightarrow> int list" where
  "CPUSet_ToSliceInt64 s = sort (map to_int64 (elems s))"

definition CPUSet_ToSliceNoSortInt64 :: "CPUSet \<Rightarrow> int list" where
  "CPUSet_ToSliceNoSortInt64 s = map to_int64 (elems s)"

section \<open>Printing\<close>

type_synonym rng = "int \<times> int"

text \<open>One turn of the loop that groups adjacent elements into ranges.\<close>

definition rangesStep :: "rng list \<Rightarrow> int \<Rightarrow> rng list" where
  "rangesStep ranges e = (let lastRange = last ranges in
     if e = to_int64 (snd lastRange + 1)
     then butlast ranges @ [(fst lastRange, e)]
     else ranges @ [(e, e)])"

definition rngString :: "rng \<Rightarrow> string" where
  "rngString r = (if fst r = snd r then Itoa (fst r) else Itoa (fst r) @ ''-'' @ Itoa (snd r))"

definition TrimRight :: "string \<Rightarrow> char \<Rightarrow> string" where
  "TrimRight s c = rev (dropWhile (\<lambda>x. x = c) (rev s))"

definition CPUSet_String :: "CPUSet \<Rightarrow> string" where
  "CPUSet_String s =
     (if CPUSet_IsEmpty s then ''''
      else (case CPUSet_ToSlice s of
              [] \<Rightarrow> ''''
            | x # xs \<Rightarrow>
                (let ranges = foldl rangesStep [(x, x)] xs
                 in TrimRight (concat (map (\<lambda>r. rngString r @ '','') ranges)) (CHR '',''))))"

section \<open>Parsing\<close>

text \<open>\<^verbatim>\<open>for e := start; e <= end; e++ { b.Add(e) }\<close>, with the wrap-around of \<^verbatim>\<open>e++\<close>.\<close>

partial_function (option) addRange :: "int \<Rightarrow> int \<Rightarrow> Builder \<Rightarrow> Builder option" where
  "addRange e hi b =
     (if e \<le> hi then addRange (to_int64 (e + 1)) hi (Builder_Add [e] b) else Some b)"

definition atoiErr :: "string \<Rightarrow> gerr" where
  "atoiErr s = Msg (''strconv.Atoi: parsing '' @ s)"

text \<open>The body of the loop over the comma-separated parts.\<close>

definition parsePart :: "string \<Rightarrow> Builder \<Rightarrow> Builder gores option" where
  "parsePart r b = (case Split (CHR ''-'') r of
      [x] \<Rightarrow>
        (case Atoi x of None \<Rightarrow> Some (Fail (atoiErr x)) | Some e \<Rightarrow> Some (Ret (Builder_Add [e] b)))
    | [x, y] \<Rightarrow>
        (case Atoi x of
           None \<Rightarrow> Some (Fail (atoiErr x))
         | Some lo \<Rightarrow>
             (case Atoi y of
                None \<Rightarrow> Some (Fail (atoiErr y))
              | Some hi \<Rightarrow> map_option Ret (addRange lo hi b)))
    | _ \<Rightarrow> Some (Ret b))"

primrec parseParts :: "string list \<Rightarrow> Builder \<Rightarrow> Builder gores option" where
  "parseParts [] b = Some (Ret b)"
| "parseParts (r # rs) b = (case parsePart r b of
      None \<Rightarrow> None
    | Some (Ret b') \<Rightarrow> parseParts rs b'
    | Some e \<Rightarrow> Some e)"

definition Parse :: "string \<Rightarrow> CPUSet gores option" where
  "Parse s =
     (if s = '''' then Some (Ret (fst (Builder_Result NewBuilder)))
      else (case parseParts (Split (CHR '','') s) NewBuilder of
              None \<Rightarrow> None
            | Some (Ret b) \<Rightarrow> Some (Ret (fst (Builder_Result b)))
            | Some (Fail e) \<Rightarrow> Some (Fail e)
            | Some (Panic m) \<Rightarrow> Some (Panic m)))"

text \<open>\<^verbatim>\<open>klog.Fatalf\<close> ends the process.\<close>

definition MustParse :: "string \<Rightarrow> CPUSet gores option" where
  "MustParse s = (case Parse s of
      Some (Fail e) \<Rightarrow> Some (Panic (''unable to parse ['' @ s @ ''] as CPUSet''))
    | r \<Rightarrow> r)"

section \<open>Correctness of the builder and of the set algebra\<close>

definition cpuset_inv :: "CPUSet \<Rightarrow> bool" where
  "cpuset_inv s \<longleftrightarrow> distinct (elems s)"

definition cpus_of :: "CPUSet \<Rightarrow> int set" where
  "cpus_of s = set (elems s)"

lemma mapStore_elems:
  "set (elems (mapStore e s)) = insert e (set (elems s))"
  "distinct (elems s) \<Longrightarrow> distinct (elems (mapStore e s))"
  by (auto simp: mapStore_def)

text \<open>One loop shape underlies every operation: store the elements that pass a test.\<close>

definition addWhere :: "(int \<Rightarrow> bool) \<Rightarrow> Builder \<Rightarrow> int list \<Rightarrow> Builder" where
  "addWhere p = foldl (\<lambda>b cpu. if p cpu then Builder_Add [cpu] b else b)"

lemma addWhere_simps [simp]:
  "addWhere p b [] = b"
  "addWhere p b (x # xs) = addWhere p (if p x then Builder_Add [x] b else b) xs"
  by (simp_all add: addWhere_def)

lemma addWhere_all: "foldl (\<lambda>b c. Builder_Add [c] b) = addWhere (\<lambda>_. True)"
  by (simp add: addWhere_def)

lemma Builder_Add_spec:
  assumes "\<not> builder_done b"
  shows "\<not> builder_done (Builder_Add [e] b)"
    "set (elems (result (Builder_Add [e] b))) = insert e (set (elems (result b)))"
    "distinct (elems (result b)) \<Longrightarrow> distinct (elems (result (Builder_Add [e] b)))"
  using assms by (auto simp: Builder_Add_def mapStore_elems)

lemma addWhere_spec:
  assumes "\<not> builder_done b"
  shows "\<not> builder_done (addWhere p b xs) \<and>
    set (elems (result (addWhere p b xs))) = set (elems (result b)) \<union> {x \<in> set xs. p x} \<and>
    (distinct (elems (result b)) \<longrightarrow> distinct (elems (result (addWhere p b xs))))"
  using assms
proof (induction xs arbitrary: b)
  case (Cons x xs)
  let ?b = "if p x then Builder_Add [x] b else b"
  have b: "\<not> builder_done ?b" using Cons.prems by (simp add: Builder_Add_spec)
  show ?case
    using Cons.IH [OF b] Cons.prems by (auto simp: Builder_Add_spec)
qed simp

lemma addWhere_new:
  "\<not> builder_done (addWhere p NewBuilder xs)"
  "set (elems (result (addWhere p NewBuilder xs))) = {x \<in> set xs. p x}"
  "distinct (elems (result (addWhere p NewBuilder xs)))"
  using addWhere_spec [of NewBuilder p xs] by (simp_all add: NewBuilder_def)

lemmas cpuset_defs = cpuset_inv_def cpus_of_def Builder_Result_def addWhere_all addWhere_new
  addWhere_spec

lemma NewCPUSet_spec: "cpuset_inv (NewCPUSet xs)" "cpus_of (NewCPUSet xs) = set xs"
  by (simp_all add: NewCPUSet_def cpuset_defs)

lemma CPUSet_Filter_spec:
  "cpuset_inv (CPUSet_Filter p s)" "cpus_of (CPUSet_Filter p s) = {x \<in> cpus_of s. p x}"
  by (simp_all add: CPUSet_Filter_def cpuset_defs flip: addWhere_def)

lemma CPUSet_FilterNot_spec:
  "cpuset_inv (CPUSet_FilterNot p s)" "cpus_of (CPUSet_FilterNot p s) = {x \<in> cpus_of s. \<not> p x}"
  by (simp_all add: CPUSet_FilterNot_def cpuset_defs flip: addWhere_def)

lemma CPUSet_Union_spec:
  "cpuset_inv (CPUSet_Union s t)" "cpus_of (CPUSet_Union s t) = cpus_of s \<union> cpus_of t"
  by (simp_all add: CPUSet_Union_def cpuset_defs)

lemma unionAll_loop:
  assumes "\<not> builder_done b"
  shows "\<not> builder_done (foldl (\<lambda>b cs. addWhere (\<lambda>_. True) b (elems cs)) b ss) \<and>
    set (elems (result (foldl (\<lambda>b cs. addWhere (\<lambda>_. True) b (elems cs)) b ss)))
      = set (elems (result b)) \<union> (\<Union>t \<in> set ss. set (elems t)) \<and>
    (distinct (elems (result b)) \<longrightarrow>
      distinct (elems (result (foldl (\<lambda>b cs. addWhere (\<lambda>_. True) b (elems cs)) b ss))))"
  using assms
proof (induction ss arbitrary: b)
  case (Cons t ss)
  have b: "\<not> builder_done (addWhere (\<lambda>_. True) b (elems t))"
    using addWhere_spec [OF Cons.prems] by blast
  show ?case
    using Cons.IH [OF b] addWhere_spec [OF Cons.prems, of "\<lambda>_. True" "elems t"] by auto
qed simp

lemma CPUSet_UnionAll_spec:
  "cpuset_inv (CPUSet_UnionAll s ss)"
  "cpus_of (CPUSet_UnionAll s ss) = cpus_of s \<union> (\<Union>t \<in> set ss. cpus_of t)"
  using unionAll_loop [OF addWhere_new(1) [of "\<lambda>_. True" "elems s"], of ss]
  by (simp_all add: CPUSet_UnionAll_def cpuset_defs)

lemma CPUSet_Contains_spec: "CPUSet_Contains s x \<longleftrightarrow> x \<in> cpus_of s"
  by (simp add: CPUSet_Contains_def cpus_of_def)

lemma CPUSet_algebra_spec:
  "cpuset_inv (CPUSet_Intersection s t)" "cpus_of (CPUSet_Intersection s t) = cpus_of s \<inter> cpus_of t"
  "cpuset_inv (CPUSet_Difference s t)" "cpus_of (CPUSet_Difference s t) = cpus_of s - cpus_of t"
  by (auto simp: CPUSet_Intersection_def CPUSet_Difference_def CPUSet_Filter_spec
    CPUSet_FilterNot_spec CPUSet_Contains_spec)

lemma CPUSet_Clone_spec: "cpuset_inv (CPUSet_Clone s)" "cpus_of (CPUSet_Clone s) = cpus_of s"
  by (simp_all add: CPUSet_Clone_def cpuset_defs)

lemma CPUSet_IsSubsetOf_spec: "CPUSet_IsSubsetOf s t \<longleftrightarrow> cpus_of s \<subseteq> cpus_of t"
proof -
  have "subsetLoop t xs \<longleftrightarrow> set xs \<subseteq> set (elems t)" for xs
    by (induction xs) (auto simp: CPUSet_Contains_def)
  then show ?thesis by (simp add: CPUSet_IsSubsetOf_def cpus_of_def)
qed

lemma CPUSet_Equals_spec:
  assumes "cpuset_inv s" "cpuset_inv t"
  shows "CPUSet_Equals s t \<longleftrightarrow> cpus_of s = cpus_of t"
proof -
  have len: "length (elems s) = card (cpus_of s)" "length (elems t) = card (cpus_of t)"
    using assms by (simp_all add: cpuset_inv_def cpus_of_def distinct_card)
  have "CPUSet_Equals s t \<longleftrightarrow> card (cpus_of s) = card (cpus_of t) \<and> cpus_of s \<subseteq> cpus_of t"
    unfolding CPUSet_Equals_def len by (auto simp: cpus_of_def list_all_iff)
  also have "\<dots> \<longleftrightarrow> cpus_of s = cpus_of t"
    using card_subset_eq [of "cpus_of t" "cpus_of s"] by (auto simp: cpus_of_def)
  finally show ?thesis .
qed

lemma CPUSet_Size_spec: "cpuset_inv s \<Longrightarrow> CPUSet_Size s = int (card (cpus_of s))"
  by (simp add: CPUSet_Size_def cpuset_inv_def cpus_of_def distinct_card)

lemma CPUSet_IsEmpty_spec: "CPUSet_IsEmpty s \<longleftrightarrow> cpus_of s = {}"
  by (simp add: CPUSet_IsEmpty_def CPUSet_Size_def cpus_of_def)

text \<open>The slice of a set is the sorted list of its elements.\<close>

lemma CPUSet_ToSlice_spec:
  assumes "cpuset_inv s"
  shows "CPUSet_ToSlice s = sorted_list_of_set (cpus_of s)"
  using assms
  by (simp add: CPUSet_ToSlice_def cpuset_inv_def cpus_of_def sorted_list_of_set_sort_remdups
    distinct_remdups_id)

section \<open>The set interface\<close>

text \<open>
  What the clients of a CPU set rely on, and identities that follow from it alone.
\<close>

locale cpu_collection =
  fixes inv :: "'s \<Rightarrow> bool" and abs :: "'s \<Rightarrow> 'a set"
    and eq :: "'s \<Rightarrow> 's \<Rightarrow> bool" and sub :: "'s \<Rightarrow> 's \<Rightarrow> bool"
    and un :: "'s \<Rightarrow> 's \<Rightarrow> 's" and inter :: "'s \<Rightarrow> 's \<Rightarrow> 's" and diff :: "'s \<Rightarrow> 's \<Rightarrow> 's"
  assumes eq_abs: "inv s \<Longrightarrow> inv t \<Longrightarrow> eq s t \<longleftrightarrow> abs s = abs t"
    and sub_abs: "sub s t \<longleftrightarrow> abs s \<subseteq> abs t"
    and un_abs: "abs (un s t) = abs s \<union> abs t" and un_inv: "inv (un s t)"
    and inter_abs: "abs (inter s t) = abs s \<inter> abs t" and inter_inv: "inv (inter s t)"
    and diff_abs: "abs (diff s t) = abs s - abs t" and diff_inv: "inv (diff s t)"
begin

lemmas abs_laws = eq_abs sub_abs un_abs inter_abs diff_abs un_inv inter_inv diff_inv

lemma split_by: "inv s \<Longrightarrow> eq (un (diff s t) (inter s t)) s"
  by (auto simp: abs_laws)

lemma sub_antisym: "inv s \<Longrightarrow> inv t \<Longrightarrow> eq s t \<longleftrightarrow> sub s t \<and> sub t s"
  by (auto simp: abs_laws)

lemma diff_diff: "eq (diff s (diff s t)) (inter s t)"
  by (auto simp: abs_laws)

lemma un_commute: "eq (un s t) (un t s)"
  by (auto simp: abs_laws)

lemma sub_un_iff: "inv t \<Longrightarrow> sub s t \<longleftrightarrow> eq (un s t) t"
  by (auto simp: abs_laws)

end

interpretation cpus: cpu_collection cpuset_inv cpus_of CPUSet_Equals CPUSet_IsSubsetOf
  CPUSet_Union CPUSet_Intersection CPUSet_Difference
  by unfold_locales
    (simp_all add: CPUSet_Equals_spec CPUSet_IsSubsetOf_spec CPUSet_Union_spec CPUSet_algebra_spec)

section \<open>Printing and parsing\<close>

definition expand :: "rng \<Rightarrow> int list" where
  "expand r = [fst r..snd r]"

definition rng_ok :: "rng \<Rightarrow> bool" where
  "rng_ok r \<longleftrightarrow> - (2 ^ 63) \<le> fst r \<and> fst r \<le> snd r \<and> snd r < 2 ^ 63 - 1"

lemma rangesStep_ok:
  assumes "rs \<noteq> []" "list_all rng_ok rs" "- (2 ^ 63) \<le> e" "e < 2 ^ 63 - 1"
  shows "rangesStep rs e \<noteq> []" "list_all rng_ok (rangesStep rs e)"
    "concat (map expand (rangesStep rs e)) = concat (map expand rs) @ [e]"
proof -
  obtain ps a b where rs: "rs = ps @ [(a, b)]"
    using assms(1) by (cases rs rule: rev_cases) auto
  have ok: "rng_ok (a, b)" using assms(2) rs by simp
  then have t: "to_int64 (b + 1) = b + 1" "a \<le> b + 1" by (simp_all add: rng_ok_def)
  have "[a..b + 1] = [a..b] @ [b + 1]" using t(2) by (simp add: upto_rec2)
  then show "rangesStep rs e \<noteq> []" "list_all rng_ok (rangesStep rs e)"
    "concat (map expand (rangesStep rs e)) = concat (map expand rs) @ [e]"
    using assms ok t rs by (auto simp: rangesStep_def Let_def rng_ok_def expand_def)
qed

lemma ranges_ok:
  assumes "rs \<noteq> []" "list_all rng_ok rs" "\<forall>e \<in> set xs. - (2 ^ 63) \<le> e \<and> e < 2 ^ 63 - 1"
  shows "foldl rangesStep rs xs \<noteq> [] \<and> list_all rng_ok (foldl rangesStep rs xs) \<and>
    concat (map expand (foldl rangesStep rs xs)) = concat (map expand rs) @ xs"
  using assms
proof (induction xs arbitrary: rs)
  case (Cons e xs)
  then have "- (2 ^ 63) \<le> e" "e < 2 ^ 63 - 1" by auto
  note step = rangesStep_ok [OF Cons.prems(1,2) this]
  show ?case using Cons.IH [OF step(1,2)] Cons.prems(3) step(3) by simp
qed simp

lemma TrimRight_joined:
  assumes "ws \<noteq> []" "\<forall>w \<in> set ws. w \<noteq> [] \<and> last w \<noteq> c"
  shows "TrimRight (concat (map (\<lambda>w. w @ [c]) ws)) c = Join [c] ws"
proof -
  have cc: "concat (map (\<lambda>w. w @ [c]) ws) = Join [c] ws @ [c]"
    using assms(1) by (induction "[c]" ws rule: Join.induct) auto
  have "Join [c] ws \<noteq> [] \<and> last (Join [c] ws) \<noteq> c"
    using assms by (induction "[c]" ws rule: Join.induct) auto
  then have "dropWhile (\<lambda>x. x = c) (rev (Join [c] ws)) = rev (Join [c] ws)"
    by (cases "Join [c] ws" rule: rev_cases) auto
  then show ?thesis by (simp add: TrimRight_def cc)
qed


lemma rngString_chars:
  assumes "0 \<le> fst r" "0 \<le> snd r"
  shows "rngString r \<noteq> []" "CHR '','' \<notin> set (rngString r)"
  using assms digits_no_sep [of "CHR '',''"] by (auto simp: rngString_def Itoa_nonneg)

lemma CPUSet_String_join:
  assumes "cpuset_inv s" "cpus_of s \<noteq> {}" "cpus_of s \<subseteq> {0..<2 ^ 63 - 1}"
  obtains rs where "rs \<noteq> []" "list_all rng_ok rs" "list_all (\<lambda>r. 0 \<le> fst r) rs"
    "concat (map expand rs) = sorted_list_of_set (cpus_of s)"
    "CPUSet_String s = Join '','' (map rngString rs)"
proof -
  let ?l = "sorted_list_of_set (cpus_of s)"
  have fin: "finite (cpus_of s)" by (simp add: cpus_of_def)
  obtain x xs where l: "?l = x # xs" using assms(2) fin by (cases ?l) auto
  have b: "\<forall>e \<in> set ?l. 0 \<le> e \<and> e < 2 ^ 63 - 1" using assms(3) fin by auto
  let ?rs = "foldl rangesStep [(x, x)] xs"
  have x: "0 \<le> x" "x < 2 ^ 63 - 1" using b l by auto
  have "- (2 ^ 63) \<le> e \<and> e < 2 ^ 63 - 1" if "e \<in> set xs" for e
    using b l that by fastforce
  then have "?rs \<noteq> [] \<and> list_all rng_ok ?rs \<and> concat (map expand ?rs) = [x] @ xs"
    using ranges_ok [of "[(x, x)]" xs] x by (simp add: rng_ok_def expand_def)
  then have ok: "?rs \<noteq> []" "list_all rng_ok ?rs" "concat (map expand ?rs) = ?l"
    by (simp_all add: l)
  have nonneg: "0 \<le> fst r" if "r \<in> set ?rs" for r
  proof -
    have "rng_ok r" using that ok(2) by (simp add: list_all_iff)
    then have "fst r \<in> set (expand r)" by (simp add: expand_def rng_ok_def)
    with that have "fst r \<in> set ?l" unfolding ok(3) [symmetric] by auto
    with b show ?thesis by auto
  qed
  have rb: "0 \<le> fst r \<and> 0 \<le> snd r" if "r \<in> set ?rs" for r
    using nonneg [OF that] that ok(2) by (auto simp: list_all_iff rng_ok_def)
  have "rngString r \<noteq> [] \<and> last (rngString r) \<noteq> CHR '',''" if "r \<in> set ?rs" for r
    using rngString_chars [of r] rb [OF that] last_in_set by fastforce
  then have "TrimRight (concat (map (\<lambda>w. w @ [CHR '','']) (map rngString ?rs))) (CHR '','')
      = Join '','' (map rngString ?rs)"
    using ok(1) by (intro TrimRight_joined) auto
  moreover have "CPUSet_String s
      = TrimRight (concat (map (\<lambda>w. w @ [CHR '','']) (map rngString ?rs))) (CHR '','')"
    using assms(2) l
    by (simp add: CPUSet_String_def CPUSet_IsEmpty_spec CPUSet_ToSlice_spec [OF assms(1)] Let_def
      comp_def)
  ultimately show ?thesis
    using ok nonneg by (intro that [of ?rs]) (auto simp: list_all_iff)
qed

text \<open>The range loop returns, with every number of the range, unless its bound is the largest.\<close>

lemma addRange_upto:
  assumes "- (2 ^ 63) \<le> lo" "hi < 2 ^ 63 - 1"
  shows "addRange lo hi b = Some (addWhere (\<lambda>_. True) b [lo..hi])"
  using assms
proof (induction "nat (hi + 1 - lo)" arbitrary: lo b)
  case 0
  then show ?case by (subst addRange.simps) simp
next
  case (Suc n)
  then have "lo \<le> hi" by simp
  moreover from this Suc have "to_int64 (lo + 1) = lo + 1" by simp
  moreover have "addRange (lo + 1) hi (Builder_Add [lo] b)
      = Some (addWhere (\<lambda>_. True) (Builder_Add [lo] b) [lo + 1..hi])"
    using Suc.prems Suc.hyps(2) by (intro Suc.hyps(1)) auto
  ultimately show ?case by (subst addRange.simps) (simp add: upto_rec1)
qed

lemma addRange_diverges:
  assumes "- (2 ^ 63) \<le> lo" "lo \<le> 2 ^ 63 - 1"
  shows "addRange lo (2 ^ 63 - 1) b = None"
proof (rule ccontr)
  assume "addRange lo (2 ^ 63 - 1) b \<noteq> None"
  then obtain r where ret: "addRange lo (2 ^ 63 - 1) b = Some r" by blast
  have "\<not> (hi = 2 ^ 63 - 1 \<and> e \<le> hi \<and> - (2 ^ 63) \<le> e)" if "addRange e hi b = Some r" for e hi b r
  proof (rule addRange.raw_induct [where P = "\<lambda>e hi b r. \<not> (hi = 2 ^ 63 - 1 \<and> e \<le> hi \<and> - (2 ^ 63) \<le> e)", OF _ that])
    fix f e hi b r
    assume IH: "\<And>e hi b r. f e hi b = Some r \<Longrightarrow> \<not> (hi = 2 ^ 63 - 1 \<and> e \<le> hi \<and> - (2 ^ 63) \<le> e)"
      and eq: "(if e \<le> hi then f (to_int64 (e + 1)) hi (Builder_Add [e] b) else Some b) = Some r"
    show "\<not> (hi = 2 ^ 63 - 1 \<and> e \<le> hi \<and> - (2 ^ 63) \<le> e)"
    proof
      assume a: "hi = 2 ^ 63 - 1 \<and> e \<le> hi \<and> - (2 ^ 63) \<le> e"
      then have "f (to_int64 (e + 1)) hi (Builder_Add [e] b) = Some r" using eq by simp
      from IH [OF this] show False
        using a to_int64_range [of "e + 1"] by auto
    qed
  qed
  from this [OF ret] assms show False by simp
qed

lemma parsePart_rng:
  assumes "rng_ok r" "0 \<le> fst r"
  shows "parsePart (rngString r) b = Some (Ret (addWhere (\<lambda>_. True) b (expand r)))"
proof -
  have r: "0 \<le> fst r" "0 \<le> snd r" "fst r < 2 ^ 63" "snd r < 2 ^ 63 - 1" "fst r \<le> snd r"
    using assms by (auto simp: rng_ok_def)
  have free: "CHR ''-'' \<notin> set (Itoa (fst r))" "CHR ''-'' \<notin> set (Itoa (snd r))"
    using r digits_no_sep by (auto simp: Itoa_nonneg)
  have at: "Atoi (Itoa (fst r)) = Some (fst r)" "Atoi (Itoa (snd r)) = Some (snd r)"
    using r by (auto intro: Atoi_Itoa)
  show ?thesis
  proof (cases "fst r = snd r")
    case True
    then show ?thesis
      using free at by (simp add: parsePart_def rngString_def Split_free expand_def)
  next
    case False
    then have "Split (CHR ''-'') (rngString r) = [Itoa (fst r), Itoa (snd r)]"
      using free by (simp add: rngString_def Split_append Split_free)
    then show ?thesis
      using at r by (simp add: parsePart_def addRange_upto expand_def)
  qed
qed

lemma addWhere_append: "addWhere p b (xs @ ys) = addWhere p (addWhere p b xs) ys"
  by (simp add: addWhere_def)

lemma parseParts_rngs:
  assumes "list_all rng_ok rs" "list_all (\<lambda>r. 0 \<le> fst r) rs"
  shows "parseParts (map rngString rs) b
    = Some (Ret (addWhere (\<lambda>_. True) b (concat (map expand rs))))"
  using assms by (induction rs arbitrary: b) (simp_all add: parsePart_rng addWhere_append)

text \<open>
  C22. Printing a CPU set and parsing the text gives back the same set, for every set of
  non-negative CPU numbers below the largest machine integer; in particular parsing returns.
\<close>

theorem Parse_String:
  assumes "cpuset_inv s" and "cpus_of s \<subseteq> {0..<2 ^ 63 - 1}"
  shows "\<exists>t. Parse (CPUSet_String s) = Some (Ret t) \<and> cpuset_inv t \<and> CPUSet_Equals t s"
proof (cases "cpus_of s = {}")
  case True
  then have "CPUSet_String s = []" by (simp add: CPUSet_String_def CPUSet_IsEmpty_spec)
  with True assms(1) show ?thesis
    by (simp add: Parse_def cpuset_defs NewBuilder_def CPUSet_Equals_def)
next
  case False
  obtain rs where rs: "rs \<noteq> []" "list_all rng_ok rs" "list_all (\<lambda>r. 0 \<le> fst r) rs"
    "concat (map expand rs) = sorted_list_of_set (cpus_of s)"
    "CPUSet_String s = Join '','' (map rngString rs)"
    by (rule CPUSet_String_join [OF assms(1) False assms(2)])
  have "0 \<le> fst r \<and> 0 \<le> snd r" if "r \<in> set rs" for r
    using that rs(2,3) by (fastforce simp: list_all_iff rng_ok_def)
  then have free: "\<forall>w \<in> set (map rngString rs). CHR '','' \<notin> set w \<and> w \<noteq> []"
    by (simp add: rngString_chars)
  have ne: "CPUSet_String s \<noteq> []"
    using rs(1,5) free by (cases rs; cases "tl rs") auto
  have "Split (CHR '','') (CPUSet_String s) = map rngString rs"
    using rs free by (simp add: Split_Join)
  then have "Parse (CPUSet_String s)
      = Some (Ret (result (addWhere (\<lambda>_. True) NewBuilder (concat (map expand rs)))))"
    using ne rs by (simp add: Parse_def parseParts_rngs Builder_Result_def)
  moreover have "cpuset_inv (result (addWhere (\<lambda>_. True) NewBuilder (concat (map expand rs))))"
    by (simp add: cpuset_defs)
  moreover have "cpus_of (result (addWhere (\<lambda>_. True) NewBuilder (concat (map expand rs)))) = cpus_of s"
    unfolding rs(4) by (simp add: cpuset_defs)
  ultimately show ?thesis using assms(1) by (auto simp: CPUSet_Equals_spec)
qed

theorem Parse_String_witness:
  "cpuset_inv \<lparr>elems = [5, 0, 1, 2, 3]\<rparr> \<and> cpus_of \<lparr>elems = [5, 0, 1, 2, 3]\<rparr> \<subseteq> {0..<2 ^ 63 - 1} \<and>
   (\<exists>t. Parse (CPUSet_String \<lparr>elems = [5, 0, 1, 2, 3]\<rparr>) = Some (Ret t) \<and> cpuset_inv t \<and>
      CPUSet_Equals t \<lparr>elems = [5, 0, 1, 2, 3]\<rparr>)"
proof -
  have h: "cpuset_inv \<lparr>elems = [5, 0, 1, 2, 3]\<rparr>"
    "cpus_of \<lparr>elems = [5, 0, 1, 2, 3]\<rparr> \<subseteq> {0..<2 ^ 63 - 1}"
    by (simp_all add: cpuset_inv_def cpus_of_def)
  show ?thesis using h Parse_String [OF h] by blast
qed

text \<open>
  C21. The set operations of the package compute the mathematical ones on the sets of CPU numbers:
  union, n-ary union, intersection, difference, filtering, membership, inclusion, equality,
  size, emptiness, and the sorted slice; and every set they build holds each number once.
\<close>

theorem CPUSet_refines_sets:
  "cpuset_inv s \<and> cpuset_inv t \<longrightarrow>
   cpus_of (NewCPUSet xs) = set xs \<and> cpuset_inv (NewCPUSet xs) \<and>
   cpus_of (CPUSet_Union s t) = cpus_of s \<union> cpus_of t \<and> cpuset_inv (CPUSet_Union s t) \<and>
   cpus_of (CPUSet_UnionAll s ss) = cpus_of s \<union> (\<Union>u \<in> set ss. cpus_of u) \<and>
   cpus_of (CPUSet_Intersection s t) = cpus_of s \<inter> cpus_of t \<and>
   cpus_of (CPUSet_Difference s t) = cpus_of s - cpus_of t \<and>
   cpus_of (CPUSet_Filter p s) = {c \<in> cpus_of s. p c} \<and>
   (CPUSet_Contains s c \<longleftrightarrow> c \<in> cpus_of s) \<and>
   (CPUSet_IsSubsetOf s t \<longleftrightarrow> cpus_of s \<subseteq> cpus_of t) \<and>
   (CPUSet_Equals s t \<longleftrightarrow> cpus_of s = cpus_of t) \<and>
   CPUSet_Size s = int (card (cpus_of s)) \<and>
   (CPUSet_IsEmpty s \<longleftrightarrow> cpus_of s = {}) \<and>
   CPUSet_ToSlice s = sorted_list_of_set (cpus_of s) \<and>
   CPUSet_Equals (CPUSet_Union (CPUSet_Difference s t) (CPUSet_Intersection s t)) s"
  by (simp add: NewCPUSet_spec CPUSet_Union_spec CPUSet_UnionAll_spec CPUSet_algebra_spec
    CPUSet_Filter_spec CPUSet_Contains_spec CPUSet_IsSubsetOf_spec CPUSet_Equals_spec [of s t]
    CPUSet_Size_spec CPUSet_IsEmpty_spec CPUSet_ToSlice_spec cpus.split_by)

theorem CPUSet_refines_sets_witness:
  "cpuset_inv (NewCPUSet [1, 2]) \<and> cpuset_inv (NewCPUSet [2]) \<and>
   cpus_of (CPUSet_Difference (NewCPUSet [1, 2]) (NewCPUSet [2]))
     = cpus_of (NewCPUSet [1, 2]) - cpus_of (NewCPUSet [2])"
  using CPUSet_refines_sets [of "NewCPUSet [1, 2]" "NewCPUSet [2]"] by (simp add: NewCPUSet_spec)

text \<open>
  C40. A range whose upper end is the largest machine integer makes the parser run forever: the
  loop counter wraps around and never exceeds the bound.
\<close>

theorem Parse_max_range_diverges:
  assumes "0 \<le> lo" "lo < 2 ^ 63"
  shows "Parse (Itoa lo @ ''-9223372036854775807'') = None"
proof -
  let ?m = "''9223372036854775807''"
  have free: "CHR ''-'' \<notin> set (Itoa lo)" "CHR '','' \<notin> set (Itoa lo)"
    using assms digits_no_sep by (auto simp: Itoa_nonneg)
  have parts: "Split (CHR '','') (Itoa lo @ ''-9223372036854775807'') = [Itoa lo @ ''-9223372036854775807'']"
    using free by (intro Split_free) auto
  have halves: "Split (CHR ''-'') (Itoa lo @ CHR ''-'' # ?m) = [Itoa lo, ?m]"
    using free by (simp add: Split_append)
  have m: "Atoi ?m = Some (2 ^ 63 - 1)"
    by (simp add: Atoi_def parse_digits_def is_digit_def digit_val_def)
  have "parsePart (Itoa lo @ CHR ''-'' # ?m) NewBuilder = None"
    unfolding parsePart_def halves
    using assms addRange_diverges [of lo NewBuilder] by (simp add: Atoi_Itoa m)
  then show ?thesis by (simp add: Parse_def parts)
qed

theorem Parse_max_range_diverges_witness:
  "(0::int) \<le> 7 \<and> 7 < (2::int) ^ 63 \<and> Parse (Itoa 7 @ ''-9223372036854775807'') = None"
  using Parse_max_range_diverges [of 7] by simp

lemma CPUSet_String_cong:
  assumes "cpuset_inv s" "cpuset_inv t" "cpus_of s = cpus_of t"
  shows "CPUSet_String s = CPUSet_String t"
  using assms by (simp add: CPUSet_String_def CPUSet_IsEmpty_spec CPUSet_ToSlice_spec)

end
