(* ===== verification/Hardware.thy ===== *)
theory Hardware
  imports Go_Strings "HOL-Library.AList"
begin

text \<open>
  The ground the power library stands on: the files of sysfs and procfs it reads and writes, the
  package-level variables of \<^verbatim>\<open>internal/power\<close>, the feature table of \<^verbatim>\<open>power.go\<close>, and the
  integer-or-string values of the API.

  The operating system is a parameter: a store of file contents, a set of unreadable files, the
  entries of the directories that are listed, and a sequence that says which of the writes
  fail.  Nothing is assumed of that sequence, so every fact holds for every pattern of
  failing writes.
\<close>

section \<open>Files\<close>

text \<open>
  A file of a CPU's directory is named by the CPU and the path below
  \<^verbatim>\<open>/sys/devices/system/cpu/cpuN\<close>, an uncore file by package, die and name.
\<close>

datatype path =
    CPUFile nat string
  | UncoreFile int int string
  | BaseFile string
  | ModulesFile
  | CPUInfoFile

record sysfs =
  contents :: "path \<Rightarrow> string option"
  unreadable :: "path \<Rightarrow> bool"
  cpuidleDir :: "nat \<Rightarrow> (string \<times> bool) list option"
  uncoreDir :: "string list option"
  numCPU :: nat
  faults :: "nat \<Rightarrow> bool"
  writes :: nat

text \<open>\<^verbatim>\<open>k8s.io/apimachinery/pkg/util/intstr\<close>: a tagged value; tag 0 is an integer, 1 a string.\<close>

record IntOrString =
  Type :: int
  IntVal :: int
  StrVal :: string

abbreviation (input) IsInt :: int where "IsInt \<equiv> 0"
abbreviation (input) IsString :: int where "IsString \<equiv> 1"

definition FromInt :: "int \<Rightarrow> IntOrString" where
  "FromInt v = \<lparr>Type = IsInt, IntVal = to_int32 v, StrVal = ''''\<rparr>"

definition FromString :: "string \<Rightarrow> IntOrString" where
  "FromString v = \<lparr>Type = IsString, IntVal = 0, StrVal = v\<rparr>"

text \<open>
  \<^verbatim>\<open>intstr.GetScaledValueFromIntOrPercent\<close>.  The library computes
  \<^verbatim>\<open>math.Ceil(float64(value) * float64(total) / 100)\<close> (or \<^verbatim>\<open>Floor\<close>); the model computes the
  exact rounding.  The two agree whenever the product is below \<open>2 ^ 53\<close> in magnitude: the
  product is then exact, and a quotient that is no integer is at least \<open>1/100\<close> away from one,
  more than half a unit in the last place.  Percentages of CPU frequencies stay far below.
\<close>

definition GetScaledValueFromIntOrPercent :: "IntOrString \<Rightarrow> int \<Rightarrow> bool \<Rightarrow> int gores" where
  "GetScaledValueFromIntOrPercent v tot roundUp =
     (if Type v = IsInt then Ret (IntVal v)
      else if Type v = IsString then
        (if HasSuffix (StrVal v) ''%'' then
           (case Atoi (TrimSuffix (StrVal v) ''%'') of
              None \<Rightarrow> Fail (Msg ''invalid value for IntOrString: invalid value'')
            | Some p \<Rightarrow>
                Ret (if roundUp then - ((- (p * tot)) div 100) else (p * tot) div 100))
         else Fail (Msg ''invalid value for IntOrString: invalid type: string is not a percentage''))
      else Fail (Msg ''invalid value for IntOrString: invalid type: neither int nor percentage''))"

section \<open>Package state\<close>

datatype featureID = FrequencyScalingFeature | EPPFeature | CStatesFeature | UncoreFeature

record featureStatus =
  feature_name :: string
  feature_driver :: string
  feature_err :: "gerr option"

text \<open>
  A Go map is the list of its entries in the order a \<^verbatim>\<open>range\<close> loop visits them; storing is
  \<open>AList.update\<close>, lookup is \<open>map_of\<close>.  Go leaves the order open, so the facts below hold for every
  list.
\<close>

type_synonym FeatureSet = "(featureID \<times> featureStatus) list"

record pstatesImpl =
  minFreq :: IntOrString
  maxFreq :: IntOrString
  epp :: string
  governor :: string

record cstateInfo =
  StateNumber :: int
  Latency :: int
  DefaultStatus :: bool

type_synonym cpuCStatesInfo = "(string \<times> cstateInfo) list"

record uncoreFreq =
  uncore_min :: int
  uncore_max :: int

text \<open>The package-level variables of \<^verbatim>\<open>internal/power\<close> together with the file system.\<close>

record hw =
  sys :: sysfs
  featureList :: FeatureSet
  coreTypes :: "(int \<times> int) list"
  availableGovs :: "string list"
  allCPUDefaultPStatesInfo :: "pstatesImpl list"
  allCPUCStatesInfo :: "(nat \<times> cpuCStatesInfo) list"
  defaultUncore :: uncoreFreq
  coresOverride :: "nat option"

section \<open>Reading and writing files\<close>

definition readStringFromFile :: "path \<Rightarrow> hw \<Rightarrow> string gores" where
  "readStringFromFile p s =
     (if unreadable (sys s) p then Fail (OSFailure ''read'')
      else (case contents (sys s) p of
              None \<Rightarrow> Fail (OSNotExist ''open'')
            | Some c \<Rightarrow> Ret c))"

definition newline :: string where
  "newline = [CHR 0x0A]"

definition readUintFromFile :: "path \<Rightarrow> hw \<Rightarrow> int gores" where
  "readUintFromFile p s = (case readStringFromFile p s of
      Ret c \<Rightarrow>
        (case Atoi (TrimSuffix c newline) of
           None \<Rightarrow> Fail (Msg ''strconv.Atoi'')
         | Some v \<Rightarrow> if v < 0 then Fail (Msg ''unexpected negative value when expecting uint'')
                     else Ret (to_uint64 v))
    | Fail e \<Rightarrow> Fail e
    | Panic m \<Rightarrow> Panic m)"

definition readCPUUintProperty :: "nat \<Rightarrow> string \<Rightarrow> hw \<Rightarrow> int gores" where
  "readCPUUintProperty cpuID f s = readUintFromFile (CPUFile cpuID f) s"

definition readCPUStringProperty :: "nat \<Rightarrow> string \<Rightarrow> hw \<Rightarrow> string gores" where
  "readCPUStringProperty cpuID f s = (case readStringFromFile (CPUFile cpuID f) s of
      Ret c \<Rightarrow> Ret (TrimSuffix c newline)
    | Fail e \<Rightarrow> Fail e
    | Panic m \<Rightarrow> Panic m)"

text \<open>\<^verbatim>\<open>os.WriteFile\<close>: one write to the operating system, which may fail.\<close>

definition WriteFile :: "path \<Rightarrow> string \<Rightarrow> (unit, hw) action" where
  "WriteFile p c s =
     (if faults (sys s) (writes (sys s))
      then (Fail (OSFailure ''write''), s\<lparr>sys := (sys s)\<lparr>writes := Suc (writes (sys s))\<rparr>\<rparr>)
      else (Ret (), s\<lparr>sys := (sys s)\<lparr>contents := (contents (sys s))(p \<mapsto> c),
                                     writes := Suc (writes (sys s))\<rparr>\<rparr>))"

text \<open>
  \<^verbatim>\<open>os.OpenFile\<close> for writing: it may fail, and changes no content (truncating an attribute file
  of sysfs has no effect; the attribute keeps its value until it is written).
\<close>

definition OpenFile :: "(unit, hw) action" where
  "OpenFile s =
     (if faults (sys s) (writes (sys s)) then Fail (OSFailure ''open'') else Ret (),
      s\<lparr>sys := (sys s)\<lparr>writes := Suc (writes (sys s))\<rparr>\<rparr>)"

text \<open>\<^verbatim>\<open>os.IsNotExist\<close>, also after \<^verbatim>\<open>errors.Unwrap\<close> of a path error.\<close>

fun isNotExist :: "'a gores \<Rightarrow> bool" where
  "isNotExist (Fail (OSNotExist _)) = True"
| "isNotExist _ = False"

section \<open>Number of CPUs\<close>

definition getNumberOfCpus :: "hw \<Rightarrow> nat" where
  "getNumberOfCpus s = (case coresOverride s of
      Some n \<Rightarrow> n
    | None \<Rightarrow>
       (case readStringFromFile (BaseFile ''online'') s of
          Ret c \<Rightarrow>
            (case Split (CHR ''-'') (filter (\<lambda>x. x \<noteq> CHR 0x0A) c) of
               first # second # _ \<Rightarrow>
                 (case Atoi first of
                    None \<Rightarrow> numCPU (sys s)
                  | Some firstElement \<Rightarrow>
                      (case Atoi second of
                         None \<Rightarrow> numCPU (sys s)
                       | Some secondElement \<Rightarrow>
                           nat (to_uint64 (secondElement - firstElement + 1))))
             | _ \<Rightarrow> numCPU (sys s))
        | _ \<Rightarrow> numCPU (sys s)))"

section \<open>Features\<close>

definition errUndefined :: gerr where
  "errUndefined = Msg ''feature undefined''"

definition errUninitialized :: gerr where
  "errUninitialized = Msg ''feature uninitialized''"

definition isSupported :: "featureStatus \<Rightarrow> bool" where
  "isSupported f \<longleftrightarrow> feature_err f = None"

fun anySupported :: "FeatureSet \<Rightarrow> bool" where
  "anySupported [] = False"
| "anySupported ((i, st) # rest) = (if feature_err st = None then True else anySupported rest)"

definition isFeatureIDSupported :: "FeatureSet \<Rightarrow> featureID \<Rightarrow> bool" where
  "isFeatureIDSupported fset i = (case map_of fset i of None \<Rightarrow> False | Some f \<Rightarrow> isSupported f)"

definition getFeatureIDError :: "FeatureSet \<Rightarrow> featureID \<Rightarrow> gerr option" where
  "getFeatureIDError fset i = (case map_of fset i of None \<Rightarrow> Some errUndefined | Some f \<Rightarrow> feature_err f)"

fun IsFeatureSupported :: "featureID list \<Rightarrow> hw \<Rightarrow> bool" where
  "IsFeatureSupported [] s = True"
| "IsFeatureSupported (f # fs) s =
     (if \<not> isFeatureIDSupported (featureList s) f then False else IsFeatureSupported fs s)"

section \<open>What the file operations leave alone\<close>

text \<open>
  Everything the library knows about the machine apart from the contents of files.  Writing
  changes none of it.
\<close>

definition knowledge :: "hw \<Rightarrow> hw" where
  "knowledge s = s\<lparr>sys := (sys s)\<lparr>contents := Map.empty, writes := 0\<rparr>\<rparr>"

lemma knowledge_WriteFile [simp, go_keeps]: "knowledge (snd (WriteFile p c s)) = knowledge s"
  by (simp add: WriteFile_def knowledge_def)

lemma knowledge_OpenFile [simp, go_keeps]: "knowledge (snd (OpenFile s)) = knowledge s"
  by (simp add: OpenFile_def knowledge_def)

lemma knowledge_fields:
  assumes "knowledge s = knowledge t"
  shows "featureList s = featureList t" "coreTypes s = coreTypes t"
    "availableGovs s = availableGovs t"
    "allCPUDefaultPStatesInfo s = allCPUDefaultPStatesInfo t"
    "allCPUCStatesInfo s = allCPUCStatesInfo t" "defaultUncore s = defaultUncore t"
    "coresOverride s = coresOverride t"
  using assms by (cases s; cases t; simp add: knowledge_def)+

lemma IsFeatureSupported_iff:
  "IsFeatureSupported fs s \<longleftrightarrow> (\<forall>f \<in> set fs. isFeatureIDSupported (featureList s) f)"
  by (induction fs) auto

lemma anySupported_iff: "anySupported fset \<longleftrightarrow> (\<exists>(i, f) \<in> set fset. isSupported f)"
  by (induction fset rule: anySupported.induct) (auto simp: isSupported_def)

lemma WriteFile_Ret:
  assumes "WriteFile p c s = (Ret (), t)"
  shows "t = s\<lparr>sys := (sys s)\<lparr>contents := (contents (sys s))(p \<mapsto> c), writes := Suc (writes (sys s))\<rparr>\<rparr>"
  using assms by (simp add: WriteFile_def split: if_splits)

lemma WriteFile_states:
  "snd (WriteFile p c s) = s\<lparr>sys := (sys s)\<lparr>contents := (contents (sys s))(p \<mapsto> c), writes := Suc (writes (sys s))\<rparr>\<rparr>
   \<or> contents (sys (snd (WriteFile p c s))) = contents (sys s)"
  by (simp add: WriteFile_def)

lemma WriteFile_file:
  "contents (sys (snd (WriteFile p c s))) q
    = (if q = p \<and> fst (WriteFile p c s) = Ret () then Some c else contents (sys s) q)"
  by (simp add: WriteFile_def)

lemma OpenFile_file [simp]: "contents (sys (snd (OpenFile s))) = contents (sys s)"
  by (simp add: OpenFile_def)

lemma WriteFile_no_panic [simp]: "\<not> isPanic (fst (WriteFile p c s))"
  by (simp add: WriteFile_def)

lemma OpenFile_no_panic [simp]: "\<not> isPanic (fst (OpenFile s))"
  by (simp add: OpenFile_def)

lemma readString_cases:
  "(\<exists>c. readStringFromFile p s = Ret c) \<or> (\<exists>e. readStringFromFile p s = Fail e)"
  by (auto simp: readStringFromFile_def split: option.splits)

lemma readUint_range:
  "readUintFromFile p s = Ret v \<Longrightarrow> 0 \<le> v \<and> v < 2 ^ 63"
  by (auto simp: readUintFromFile_def split: gores.splits option.splits if_splits dest: Atoi_range)

lemma readFile_cong: "sys s = sys t \<Longrightarrow> readStringFromFile p s = readStringFromFile p t"
  by (simp only: readStringFromFile_def)

lemma readCPUUint_cong: "sys s = sys t \<Longrightarrow> readCPUUintProperty c f s = readCPUUintProperty c f t"
  by (simp only: readCPUUintProperty_def readUintFromFile_def readFile_cong [of s t])

lemma readCPUString_cong: "sys s = sys t \<Longrightarrow> readCPUStringProperty c f s = readCPUStringProperty c f t"
  by (simp only: readCPUStringProperty_def readFile_cong [of s t])

section \<open>Frames\<close>

text \<open>
  \<open>touches F s t\<close>: going from \<open>s\<close> to \<open>t\<close> changes no file outside \<open>F\<close> and nothing the
  library knows about the machine.
\<close>

definition touches :: "path set \<Rightarrow> hw \<Rightarrow> hw \<Rightarrow> bool" where
  "touches F s t \<longleftrightarrow> knowledge t = knowledge s \<and> (\<forall>p. p \<notin> F \<longrightarrow> contents (sys t) p = contents (sys s) p)"

lemma touches_refl [simp, intro]: "touches F s s"
  by (simp add: touches_def)

lemma touches_trans: "touches F s t \<Longrightarrow> touches F t u \<Longrightarrow> touches F s u"
  by (simp add: touches_def)

lemma touches_mono: "touches F s t \<Longrightarrow> F \<subseteq> G \<Longrightarrow> touches G s t"
  by (auto simp: touches_def)

lemma touches_WriteFile: "p \<in> F \<Longrightarrow> touches F s (snd (WriteFile p c s))"
  by (auto simp: touches_def WriteFile_file)

lemma touches_OpenFile [simp]: "touches F s (snd (OpenFile s))"
  by (simp add: touches_def)

lemma touches_andThen:
  assumes "touches F s (snd r)" and "\<And>a t. r = (Ret a, t) \<Longrightarrow> touches F t (snd (f a t))"
  shows "touches F s (snd (andThen r f))"
proof (rule andThen_snd_cases)
  show "touches F s (snd (f a t))" if "r = (Ret a, t)" for a t
    using assms(1) assms(2) [OF that] that by (auto intro: touches_trans)
qed (rule assms(1))

lemma touches_forEach:
  assumes "\<And>x t. x \<in> set xs \<Longrightarrow> touches F t (snd (f x t))"
  shows "touches F s (snd (forEach f xs s))"
  using assms by (induction xs arbitrary: s) (auto intro!: touches_andThen)

lemma touches_file: "touches F s t \<Longrightarrow> p \<notin> F \<Longrightarrow> contents (sys t) p = contents (sys s) p"
  by (simp add: touches_def)

lemma touches_knowledge: "touches F s t \<Longrightarrow> knowledge t = knowledge s"
  by (simp add: touches_def)

text \<open>
  Operations that each own a set of files and touch no others.  A loop over operations with
  disjoint files leaves in each operation's files what that operation has left there.
\<close>

locale owning =
  fixes op :: "'x \<Rightarrow> (unit, hw) action" and files :: "'x \<Rightarrow> path set"
  assumes owned: "touches (files x) s (snd (op x s))"
begin

lemma forEach_touches: "touches (\<Union> (files ` set xs)) s (snd (forEach op xs s))"
  by (rule touches_forEach) (auto intro: touches_mono [OF owned])

lemma forEach_result:
  assumes "forEach op xs s = (Ret (), t)" "x \<in> set xs" "distinct xs"
    and "\<And>y z. y \<in> set xs \<Longrightarrow> z \<in> set xs \<Longrightarrow> y \<noteq> z \<Longrightarrow> files y \<inter> files z = {}"
  shows "\<exists>s1 s2. op x s1 = (Ret (), s2) \<and> knowledge s1 = knowledge s
      \<and> (\<forall>p \<in> files x. contents (sys t) p = contents (sys s2) p)"
  using assms
proof (induction xs arbitrary: s)
  case (Cons y ys)
  from Cons.prems(1) obtain s1 where s1: "op y s = (Ret (), s1)" "forEach op ys s1 = (Ret (), t)"
    by (auto simp: andThen_Ret_iff)
  have k: "knowledge s1 = knowledge s" using touches_knowledge [OF owned [of y s]] s1(1) by simp
  show ?case
  proof (cases "x = y")
    case True
    have "files x \<inter> \<Union> (files ` set ys) = {}" using Cons.prems(3,4) True by fastforce
    moreover have "touches (\<Union> (files ` set ys)) s1 t" using forEach_touches [of ys s1] s1(2) by simp
    ultimately have "\<forall>p \<in> files x. contents (sys t) p = contents (sys s1) p" unfolding touches_def by blast
    with s1(1) True show ?thesis by blast
  next
    case False
    then have "x \<in> set ys" "distinct ys" using Cons.prems(2,3) by auto
    from Cons.IH [OF s1(2) this] Cons.prems(4) k show ?thesis by fastforce
  qed
qed simp

end

section \<open>Maps filled by loops\<close>

lemma set_AList_update:
  "distinct (map fst al) \<Longrightarrow> set (AList.update k v al) = insert (k, v) {p \<in> set al. fst p \<noteq> k}"
  by (induction al) force+

text \<open>A map filled by a loop over another map has its entries, key by key.\<close>

lemma foldl_update_map:
  assumes "\<And>m k i. g m (k, i) = AList.update k (f k i) m"
    and "distinct (map fst (acc @ map (\<lambda>(k, i). (k, f k i)) xs))"
  shows "foldl g acc xs = acc @ map (\<lambda>(k, i). (k, f k i)) xs"
  using assms(2)
proof (induction xs arbitrary: acc)
  case (Cons x xs)
  obtain k i where x: "x = (k, i)" by (cases x)
  with Cons.prems have "k \<notin> fst ` set acc" by auto
  then have "AList.update k (f k i) acc = acc @ [(k, f k i)]" by (induction acc) auto
  with Cons x assms(1) show ?case by simp
qed simp

lemma foldl_update_range:
  assumes "distinct (map fst xs)" and "\<And>m k i. g m (k, i) = AList.update k (f k i) m"
  shows "foldl g [] xs = map (\<lambda>(k, i). (k, f k i)) xs"
  using foldl_update_map [of g f "[]" xs] assms by (simp add: comp_def case_prod_unfold)

section \<open>A small machine\<close>

text \<open>
  A machine given by its core types, the defaults of its CPUs and the contents of its files, on
  which every write succeeds and frequency scaling is supported; concrete inputs of the
  development are built from it.
\<close>

definition machine :: "(int \<times> int) list \<Rightarrow> pstatesImpl list \<Rightarrow> (path \<times> string) list \<Rightarrow> hw" where
  "machine types defaults files =
     \<lparr>sys = \<lparr>contents = map_of files, unreadable = (\<lambda>_. False), cpuidleDir = (\<lambda>_. None), uncoreDir = None,
             numCPU = length defaults, faults = (\<lambda>_. False), writes = 0\<rparr>,
      featureList = [(FrequencyScalingFeature, \<lparr>feature_name = '''', feature_driver = '''', feature_err = None\<rparr>)],
      coreTypes = types, availableGovs = [''performance'', ''powersave''],
      allCPUDefaultPStatesInfo = defaults, allCPUCStatesInfo = [],
      defaultUncore = \<lparr>uncore_min = 0, uncore_max = 0\<rparr>, coresOverride = Some (length defaults)\<rparr>"

definition pstatesFromTo :: "int \<Rightarrow> int \<Rightarrow> pstatesImpl" where
  "pstatesFromTo mn mx = \<lparr>minFreq = FromInt mn, maxFreq = FromInt mx, epp = '''', governor = ''powersave''\<rparr>"

end
