(* ===== verification/PStates.thy ===== *)
theory PStates
  imports Hardware
begin

text \<open>
  CPU frequency scaling, \<^verbatim>\<open>internal/power/p_states.go\<close>: the core types found on the machine, the
  initialisation of the scaling driver and of the energy-performance preference, the
  translation of a requested frequency (a number or a percentage) into kHz for one CPU, and
  the writes that apply a P-state configuration.  Frequencies are Go \<^verbatim>\<open>uint\<close> values; the
  conversions between \<^verbatim>\<open>int32\<close>, \<^verbatim>\<open>int\<close> and \<^verbatim>\<open>uint\<close> are written out.
\<close>

section \<open>Names of files, governors and defaults\<close>

abbreviation "pStatesDrvFile \<equiv> ''cpufreq/scaling_driver''"
abbreviation "cpuMaxFreqFile \<equiv> ''cpufreq/cpuinfo_max_freq''"
abbreviation "cpuMinFreqFile \<equiv> ''cpufreq/cpuinfo_min_freq''"
abbreviation "scalingMaxFile \<equiv> ''cpufreq/scaling_max_freq''"
abbreviation "scalingMinFile \<equiv> ''cpufreq/scaling_min_freq''"
abbreviation "scalingSetSpeedFile \<equiv> ''cpufreq/scaling_setspeed''"
abbreviation "scalingCurFreqFile \<equiv> ''cpufreq/scaling_cur_freq''"
abbreviation "scalingGovFile \<equiv> ''cpufreq/scaling_governor''"
abbreviation "availGovFile \<equiv> ''cpufreq/scaling_available_governors''"
abbreviation "eppFile \<equiv> ''cpufreq/energy_performance_preference''"
abbreviation "defaultEpp \<equiv> ''power''"
abbreviation "cpuPolicyPerformance \<equiv> ''performance''"
abbreviation "cpuPolicyPowersave \<equiv> ''powersave''"
abbreviation "defaultGovernor \<equiv> cpuPolicyPowersave"

section \<open>Core types\<close>

definition appendIfUnique :: "(int \<times> int) list \<Rightarrow> int \<Rightarrow> int \<Rightarrow> nat \<times> (int \<times> int) list" where
  "appendIfUnique l mn mx =
     (let i = indexFrom (\<lambda>coreType. fst coreType = mn \<and> snd coreType = mx) 0 l in
      if 0 \<le> i then (nat i, l) else (length l, l @ [(mn, mx)]))"

fun absLoop :: "int \<times> int \<Rightarrow> (int \<times> int) list \<Rightarrow> int \<times> int" where
  "absLoop (mn, mx) [] = (mn, mx)"
| "absLoop (mn, mx) ((a, b) # l) =
     absLoop (if a < mn then a else mn, if b > mx then b else mx) l"

definition getAbsMinMaxFreq :: "(int \<times> int) list \<Rightarrow> (int \<times> int) gores" where
  "getAbsMinMaxFreq l = (case l of
      [] \<Rightarrow> Panic ''index out of range''
    | t # ts \<Rightarrow> Ret (absLoop t ts))"

section \<open>Initialisation\<close>

definition isScalingDriverSupported :: "string \<Rightarrow> bool" where
  "isScalingDriverSupported d \<longleftrightarrow> List.member
     [''intel_pstate'', ''intel_cpufreq'', ''acpi-cpufreq'', ''amd-pstate'', ''amd-pstate-epp'',
      ''cppc_cpufreq''] d"

definition initAvailableGovernors :: "hw \<Rightarrow> string list gores" where
  "initAvailableGovernors s = (case readCPUStringProperty 0 availGovFile s of
      Ret govs \<Rightarrow> Ret (Split (CHR '' '') govs)
    | Fail e \<Rightarrow> Fail e
    | Panic m \<Rightarrow> Panic m)"

definition zeroPStates :: pstatesImpl where
  "zeroPStates = \<lparr>minFreq = \<lparr>Type = IsInt, IntVal = 0, StrVal = ''''\<rparr>,
     maxFreq = \<lparr>Type = IsInt, IntVal = 0, StrVal = ''''\<rparr>, epp = '''', governor = ''''\<rparr>"

text \<open>The body of the loop over the CPUs.\<close>

definition defaultPStatesOf :: "nat \<Rightarrow> (unit, hw) action" where
  "defaultPStatesOf cpuID s =
     andThen (reading (readCPUUintProperty cpuID cpuMaxFreqFile s) s) (\<lambda>cpuInfoMaxFreq s1.
     andThen (reading (readCPUUintProperty cpuID cpuMinFreqFile s1) s1) (\<lambda>cpuInfoMinFreq s2.
       (Ret (), s2\<lparr>allCPUDefaultPStatesInfo := (allCPUDefaultPStatesInfo s2)
          [cpuID := \<lparr>minFreq = FromInt (to_int64 cpuInfoMinFreq),
                     maxFreq = FromInt (to_int64 cpuInfoMaxFreq),
                     epp = (if isNotExist (readCPUStringProperty cpuID eppFile s2) then ''''
                            else defaultEpp),
                     governor = defaultGovernor\<rparr>]\<rparr>)))"

definition generateDefaultPStates :: "(unit, hw) action" where
  "generateDefaultPStates s = (let numCpus = getNumberOfCpus s in
     forEach defaultPStatesOf [0..<numCpus]
       (s\<lparr>allCPUDefaultPStatesInfo := replicate numCpus zeroPStates\<rparr>))"

fun errOf :: "'a gores \<Rightarrow> gerr option" where
  "errOf (Fail e) = Some e"
| "errOf _ = None"

definition initScalingDriver :: "hw \<Rightarrow> featureStatus \<times> hw" where
  "initScalingDriver s =
     (let govs = initAvailableGovernors s;
          s1 = s\<lparr>availableGovs := (case govs of Ret g \<Rightarrow> g | _ \<Rightarrow> [])\<rparr>;
          err1 = map_option (Wrap ''failed to read available governors'') (errOf govs);
          rd = readCPUStringProperty 0 pStatesDrvFile s1;
          err2 = (case errOf rd of None \<Rightarrow> err1
                  | Some e \<Rightarrow> Some (Wrap ''Frequency-Scaling - failed to read driver name'' e));
          drv = (case rd of Ret d \<Rightarrow> d | _ \<Rightarrow> '''');
          err3 = (if isScalingDriverSupported drv then err2
                  else Some (Msg (''Frequency-Scaling - unsupported driver: '' @ drv)));
          err4 = (case errOf rd of None \<Rightarrow> err3
                  | Some e \<Rightarrow> Some (Wrap ''Frequency-Scaling - failed to determine driver'' e))
      in if err4 = None
         then (case generateDefaultPStates s1 of (r, s2) \<Rightarrow>
                 (\<lparr>feature_name = ''Frequency-Scaling'', feature_driver = drv,
                   feature_err = map_option (Wrap ''failed to read default frequencies'') (errOf r)\<rparr>, s2))
         else (\<lparr>feature_name = ''Frequency-Scaling'', feature_driver = drv, feature_err = err4\<rparr>, s1))"

definition initEpp :: "hw \<Rightarrow> featureStatus \<times> hw" where
  "initEpp s =
     (\<lparr>feature_name = ''Energy-Performance-Preference'', feature_driver = '''',
       feature_err = (if isNotExist (readCPUStringProperty 0 eppFile s)
                      then Some (Msg (''EPP file '' @ eppFile @ '' does not exist'')) else None)\<rparr>, s)"

section \<open>Frequencies of one CPU\<close>

definition GetAbsMinMax :: "nat \<Rightarrow> hw \<Rightarrow> (int \<times> int) gores" where
  "GetAbsMinMax cpuID s =
     (if \<not> isFeatureIDSupported (featureList s) FrequencyScalingFeature then Ret (0, 0)
      else if cpuID < length (allCPUDefaultPStatesInfo s) then
        Ret (to_uint64 (IntVal (minFreq (allCPUDefaultPStatesInfo s ! cpuID))),
             to_uint64 (IntVal (maxFreq (allCPUDefaultPStatesInfo s ! cpuID))))
      else Panic ''index out of range'')"

definition getFreqFromIntOrString :: "IntOrString \<Rightarrow> int \<Rightarrow> int \<Rightarrow> int gores" where
  "getFreqFromIntOrString requestedFreq mn mx =
     (if Type requestedFreq = IsInt then Ret (to_uint64 (IntVal requestedFreq))
      else (let deltaFreq = to_int64 (to_uint64 (mx - mn)) in
        (case GetScaledValueFromIntOrPercent requestedFreq deltaFreq True of
           Ret scaledDeltaFreq \<Rightarrow> Ret (to_uint64 (mn + to_uint64 scaledDeltaFreq))
         | Fail e \<Rightarrow> Fail e
         | Panic m \<Rightarrow> Panic m)))"

definition getFreqsToScale :: "nat \<Rightarrow> pstatesImpl \<Rightarrow> hw \<Rightarrow> (int \<times> int) gores" where
  "getFreqsToScale cpuID ps s =
     (if Type (minFreq ps) \<noteq> Type (maxFreq ps)
      then Fail (Msg ''min and max frequencies are not of the same type'')
      else if \<not> cpuID < length (allCPUDefaultPStatesInfo s) then Panic ''index out of range''
      else (let d = allCPUDefaultPStatesInfo s ! cpuID;
                cpuMaxFreq = to_uint64 (IntVal (maxFreq d));
                cpuMinFreq = to_uint64 (IntVal (minFreq d)) in
        (case getFreqFromIntOrString (minFreq ps) cpuMinFreq cpuMaxFreq of
           Ret mn \<Rightarrow>
             (case getFreqFromIntOrString (maxFreq ps) cpuMinFreq cpuMaxFreq of
                Ret mx \<Rightarrow> Ret (mn, mx)
              | Fail e \<Rightarrow> Fail e
              | Panic m \<Rightarrow> Panic m)
         | Fail e \<Rightarrow> Fail e
         | Panic m \<Rightarrow> Panic m)))"

section \<open>Applying a configuration\<close>

definition writeGovernorValue :: "nat \<Rightarrow> string \<Rightarrow> (unit, hw) action" where
  "writeGovernorValue cpuID gov = WriteFile (CPUFile cpuID scalingGovFile) gov"

definition writeEppValue :: "nat \<Rightarrow> string \<Rightarrow> (unit, hw) action" where
  "writeEppValue cpuID v = WriteFile (CPUFile cpuID eppFile) v"

definition writeScalingMaxFreq :: "nat \<Rightarrow> int \<Rightarrow> (unit, hw) action" where
  "writeScalingMaxFreq cpuID freq s =
     andThen (OpenFile s) (\<lambda>_ s1. WriteFile (CPUFile cpuID scalingMaxFile) (Itoa freq) s1)"

definition writeScalingMinFreq :: "nat \<Rightarrow> int \<Rightarrow> (unit, hw) action" where
  "writeScalingMinFreq cpuID freq s =
     andThen (OpenFile s) (\<lambda>_ s1. WriteFile (CPUFile cpuID scalingMinFile) (Itoa freq) s1)"

text \<open>The range check and the writes of the limits, once the requested limits are known.\<close>

definition writeLimits :: "nat \<Rightarrow> int \<times> int \<Rightarrow> int \<times> int \<Rightarrow> int \<times> int \<Rightarrow> (unit, hw) action" where
  "writeLimits cpuID cpuAbs system requested s =
     (let maxRequestedFreq = (if snd requested > snd cpuAbs \<and> snd requested \<le> snd system
                              then snd cpuAbs else snd requested);
          minRequestedFreq = (if fst requested < fst cpuAbs \<and> fst requested \<ge> fst system
                              then fst cpuAbs else fst requested)
      in if maxRequestedFreq > snd cpuAbs \<or> minRequestedFreq < fst cpuAbs
         then (Fail (Msg ''setting frequency aborted as frequency is out of range''), s)
         else andThen (wrapErr (''failed to set MaxFreq value for cpu '' @ Itoa (int cpuID))
                 (writeScalingMaxFreq cpuID maxRequestedFreq s)) (\<lambda>_ s1.
              wrapErr (''failed to set MinFreq value for cpu '' @ Itoa (int cpuID))
                 (writeScalingMinFreq cpuID minRequestedFreq s1)))"

definition setDriverValues :: "nat \<Rightarrow> pstatesImpl \<Rightarrow> (unit, hw) action" where
  "setDriverValues cpuID ps s =
     andThen (wrapErr (''failed to set governor for cpu '' @ Itoa (int cpuID))
       (writeGovernorValue cpuID (governor ps) s)) (\<lambda>_ s1.
     andThen (if epp ps \<noteq> ''''
              then wrapErr (''failed to set EPP value for cpu '' @ Itoa (int cpuID))
                     (writeEppValue cpuID (epp ps) s1)
              else (Ret (), s1)) (\<lambda>_ s2.
     andThen (reading (GetAbsMinMax cpuID s2) s2) (\<lambda>cpuAbs s3.
     andThen (reading (getAbsMinMaxFreq (coreTypes s3)) s3) (\<lambda>system s4.
     andThen (wrapErr ''failed to get frequencies to scale''
       (reading (getFreqsToScale cpuID ps s4) s4)) (\<lambda>requested s5.
     writeLimits cpuID cpuAbs system requested s5)))))"

text \<open>
  \<^verbatim>\<open>cpu.updateFrequencies\<close>: the argument is the P-state part of the profile of the CPU's pool,
  if the pool has a profile.
\<close>

definition updateFrequencies :: "nat \<Rightarrow> pstatesImpl option \<Rightarrow> (unit, hw) action" where
  "updateFrequencies cpuID profile s =
     (if \<not> IsFeatureSupported [FrequencyScalingFeature] s then (Ret (), s)
      else (case profile of
              Some ps \<Rightarrow> setDriverValues cpuID ps s
            | None \<Rightarrow>
                if cpuID < length (allCPUDefaultPStatesInfo s)
                then setDriverValues cpuID (allCPUDefaultPStatesInfo s ! cpuID) s
                else (Panic ''index out of range'', s)))"

text \<open>The two operations the frequency scaler uses.\<close>

definition SetCPUFrequency :: "nat \<Rightarrow> int \<Rightarrow> (unit, hw) action" where
  "SetCPUFrequency cpuID frequency s =
     wrapErr (''failed to set frequency for CPU '' @ Itoa (int cpuID))
       (WriteFile (CPUFile cpuID scalingSetSpeedFile) (Itoa frequency) s)"

definition GetCurrentCPUFrequency :: "nat \<Rightarrow> hw \<Rightarrow> int gores" where
  "GetCurrentCPUFrequency cpuID s =
     fst (wrapErr (''failed to read current frequency for CPU '' @ Itoa (int cpuID))
       (readCPUUintProperty cpuID scalingCurFreqFile s, s))"

section \<open>Core types\<close>

lemma absLoop_bounds:
  "absLoop (mn, mx) l = (Min (insert mn (fst ` set l)), Max (insert mx (snd ` set l)))"
proof (induction l arbitrary: mn mx)
  case (Cons x l)
  obtain a b where x: "x = (a, b)" by (cases x)
  have "absLoop (mn, mx) (x # l) = absLoop (min mn a, max mx b) l"
    using x by (auto simp: min_def max_def not_less)
  moreover have "insert mn (fst ` set (x # l)) = insert mn (insert a (fst ` set l))"
    and "insert mx (snd ` set (x # l)) = insert mx (insert b (snd ` set l))"
    using x by auto
  moreover have "Min (insert mn (insert a (fst ` set l))) = Min (insert (min mn a) (fst ` set l))"
    by (cases "l = []") (simp_all add: min.assoc)
  moreover have "Max (insert mx (insert b (snd ` set l))) = Max (insert (max mx b) (snd ` set l))"
    by (cases "l = []") (simp_all add: max.assoc)
  ultimately show ?case using Cons.IH by simp
qed simp

lemma getAbsMinMaxFreq_extremes:
  "l \<noteq> [] \<Longrightarrow> getAbsMinMaxFreq l = Ret (Min (fst ` set l), Max (snd ` set l))"
  by (cases l) (auto simp: getAbsMinMaxFreq_def absLoop_bounds)

section \<open>Writing the values of a driver\<close>

text \<open>The files of a CPU that a P-state configuration may change.\<close>

definition pstateFiles :: "nat \<Rightarrow> path set" where
  "pstateFiles c = CPUFile c ` {scalingGovFile, eppFile, scalingMaxFile, scalingMinFile}"

lemma touches_pstate_writes:
  "touches (pstateFiles c) s (snd (writeGovernorValue c g s))"
  "touches (pstateFiles c) s (snd (writeEppValue c g s))"
  "touches (pstateFiles c) s (snd (writeScalingMaxFreq c f s))"
  "touches (pstateFiles c) s (snd (writeScalingMinFreq c f s))"
  by (auto simp: writeGovernorValue_def writeEppValue_def writeScalingMaxFreq_def
      writeScalingMinFreq_def pstateFiles_def intro!: touches_andThen touches_WriteFile)

lemma touches_writeLimits: "touches (pstateFiles c) s (snd (writeLimits c h y r s))"
  by (auto simp: writeLimits_def Let_def intro!: touches_andThen touches_pstate_writes)

lemma setDriverValues_frame: "touches (pstateFiles c) s (snd (setDriverValues c ps s))"
  unfolding setDriverValues_def
  by (auto intro!: touches_andThen touches_writeLimits touches_pstate_writes)

lemma updateFrequencies_frame: "touches (pstateFiles c) s (snd (updateFrequencies c pr s))"
  by (auto simp: updateFrequencies_def intro!: setDriverValues_frame split: option.splits)

lemma writeScaling_Ret:
  "writeScalingMaxFreq c f s = (Ret (), t)
    \<Longrightarrow> contents (sys t) = (contents (sys s))(CPUFile c scalingMaxFile \<mapsto> Itoa f)"
  "writeScalingMinFreq c f s = (Ret (), t)
    \<Longrightarrow> contents (sys t) = (contents (sys s))(CPUFile c scalingMinFile \<mapsto> Itoa f)"
  by (auto simp: writeScalingMaxFreq_def writeScalingMinFreq_def andThen_Ret_iff OpenFile_def
      WriteFile_def split: if_splits)

lemma writeLimits_Ret:
  assumes "writeLimits c (amin, amax) (smin, smax) (rmin, rmax) s = (Ret (), t)"
  shows "contents (sys t) = (contents (sys s))
           (CPUFile c scalingMaxFile \<mapsto> Itoa (min rmax amax), CPUFile c scalingMinFile \<mapsto> Itoa (max rmin amin))"
    and "rmax \<le> max amax smax" "min amin smin \<le> rmin"
proof -
  define mx where "mx = (if rmax > amax \<and> rmax \<le> smax then amax else rmax)"
  define mn where "mn = (if rmin < amin \<and> rmin \<ge> smin then amin else rmin)"
  note a = assms [unfolded writeLimits_def Let_def fst_conv snd_conv, folded mx_def mn_def]
  from a obtain s1 where w: "mx \<le> amax" "amin \<le> mn"
    "writeScalingMaxFreq c mx s = (Ret (), s1)" "writeScalingMinFreq c mn s1 = (Ret (), t)"
    by (auto simp: andThen_Ret_iff not_less split: if_split_asm)
  have v: "mx = min rmax amax" "mn = max rmin amin"
    using w(1,2) by (auto simp: mx_def mn_def min_def max_def split: if_splits)
  show "contents (sys t) = (contents (sys s))
           (CPUFile c scalingMaxFile \<mapsto> Itoa (min rmax amax), CPUFile c scalingMinFile \<mapsto> Itoa (max rmin amin))"
    using writeScaling_Ret(1) [OF w(3)] writeScaling_Ret(2) [OF w(4)] v by simp
  show "rmax \<le> max amax smax" "min amin smin \<le> rmin"
    using w(1,2) by (auto simp: mx_def mn_def split: if_splits)
qed

lemma pstate_reads_cong:
  assumes "knowledge s = knowledge t"
  shows "GetAbsMinMax c s = GetAbsMinMax c t" "getFreqsToScale c ps s = getFreqsToScale c ps t"
    "getAbsMinMaxFreq (coreTypes s) = getAbsMinMaxFreq (coreTypes t)"
    "IsFeatureSupported fs s = IsFeatureSupported fs t"
  by (simp_all only: GetAbsMinMax_def getFreqsToScale_def IsFeatureSupported_iff knowledge_fields [OF assms])

text \<open>What a successful call has read and written.\<close>

lemma setDriverValues_Ret:
  assumes "setDriverValues c ps s = (Ret (), t)"
  obtains amin amax smin smax rmin rmax where
    "GetAbsMinMax c s = Ret (amin, amax)" "getAbsMinMaxFreq (coreTypes s) = Ret (smin, smax)"
    "getFreqsToScale c ps s = Ret (rmin, rmax)" "rmax \<le> max amax smax" "min amin smin \<le> rmin"
    "contents (sys t) (CPUFile c scalingMaxFile) = Some (Itoa (min rmax amax))"
    "contents (sys t) (CPUFile c scalingMinFile) = Some (Itoa (max rmin amin))"
    "contents (sys t) (CPUFile c scalingGovFile) = Some (governor ps)"
    "epp ps \<noteq> '''' \<Longrightarrow> contents (sys t) (CPUFile c eppFile) = Some (epp ps)"
proof -
  from assms obtain s1 s2 h y r where a:
    "writeGovernorValue c (governor ps) s = (Ret (), s1)"
    "if epp ps = '''' then s2 = s1 else writeEppValue c (epp ps) s1 = (Ret (), s2)"
    "GetAbsMinMax c s2 = Ret h" "getAbsMinMaxFreq (coreTypes s2) = Ret y"
    "getFreqsToScale c ps s2 = Ret r" "writeLimits c h y r s2 = (Ret (), t)"
    by (cases "epp ps = ''''") (auto simp: setDriverValues_def andThen_Ret_iff)
  have k1: "knowledge s1 = knowledge s" "contents (sys s1) = (contents (sys s))(CPUFile c scalingGovFile \<mapsto> governor ps)"
    using WriteFile_Ret [OF a(1) [unfolded writeGovernorValue_def]] by (simp_all add: knowledge_def)
  have k2: "knowledge s2 = knowledge s" "contents (sys s2) (CPUFile c scalingGovFile) = Some (governor ps)"
    "epp ps \<noteq> '''' \<Longrightarrow> contents (sys s2) (CPUFile c eppFile) = Some (epp ps)"
    using a(2) k1 by (auto simp: writeEppValue_def knowledge_def split: if_splits dest!: WriteFile_Ret)
  have "GetAbsMinMax c s = Ret h" "getAbsMinMaxFreq (coreTypes s) = Ret y" "getFreqsToScale c ps s = Ret r"
    using a(3-5) pstate_reads_cong [OF k2(1)] by simp_all
  moreover obtain amin amax smin smax rmin rmax where
    "h = (amin, amax)" "y = (smin, smax)" "r = (rmin, rmax)" by (cases h, cases y, cases r)
  ultimately show ?thesis
    using that [of amin amax smin smax rmin rmax] writeLimits_Ret [of c amin amax smin smax rmin rmax s2 t]
      a(6) k2 by simp
qed

lemma GetAbsMinMax_supported:
  assumes "isFeatureIDSupported (featureList s) FrequencyScalingFeature" "c < length (allCPUDefaultPStatesInfo s)"
  shows "GetAbsMinMax c s = Ret (to_uint64 (IntVal (minFreq (allCPUDefaultPStatesInfo s ! c))),
                                 to_uint64 (IntVal (maxFreq (allCPUDefaultPStatesInfo s ! c))))"
  using assms by (simp add: GetAbsMinMax_def)

lemma WriteFile_no_faults:
  assumes "\<And>n. \<not> faults (sys s) n"
  shows "\<exists>t. WriteFile p c s = (Ret (), t) \<and> touches {p} s t \<and> (\<forall>n. \<not> faults (sys t) n)"
  using assms by (auto simp: WriteFile_def touches_def knowledge_def)

lemma OpenFile_no_faults:
  assumes "\<And>n. \<not> faults (sys s) n"
  shows "\<exists>t. OpenFile s = (Ret (), t) \<and> touches {} s t \<and> (\<forall>n. \<not> faults (sys t) n)"
  using assms by (auto simp: OpenFile_def touches_def knowledge_def)

lemma writeScaling_no_faults:
  assumes "\<And>n. \<not> faults (sys s) n"
  shows "\<exists>t. writeScalingMaxFreq c f s = (Ret (), t) \<and> (\<forall>n. \<not> faults (sys t) n)"
    and "\<exists>t. writeScalingMinFreq c f s = (Ret (), t) \<and> (\<forall>n. \<not> faults (sys t) n)"
proof -
  obtain u where u: "OpenFile s = (Ret (), u)" "\<forall>n. \<not> faults (sys u) n"
    using OpenFile_no_faults [OF assms] by auto
  then show "\<exists>t. writeScalingMaxFreq c f s = (Ret (), t) \<and> (\<forall>n. \<not> faults (sys t) n)"
    and "\<exists>t. writeScalingMinFreq c f s = (Ret (), t) \<and> (\<forall>n. \<not> faults (sys t) n)"
    using WriteFile_no_faults [of u] unfolding writeScalingMaxFreq_def writeScalingMinFreq_def
    by (simp, blast)+
qed

lemma writeLimits_succeeds:
  assumes "\<And>n. \<not> faults (sys s) n" "rmax \<le> max amax smax" "min amin smin \<le> rmin"
  shows "\<exists>t. writeLimits c (amin, amax) (smin, smax) (rmin, rmax) s = (Ret (), t)"
proof -
  define mx where "mx = (if rmax > amax \<and> rmax \<le> smax then amax else rmax)"
  define mn where "mn = (if rmin < amin \<and> rmin \<ge> smin then amin else rmin)"
  have "mx \<le> amax" "amin \<le> mn" using assms(2,3) by (auto simp: mx_def mn_def)
  moreover obtain s1 where s1: "writeScalingMaxFreq c mx s = (Ret (), s1)" "\<And>n. \<not> faults (sys s1) n"
    using writeScaling_no_faults(1) [OF assms(1)] by blast
  moreover obtain t where "writeScalingMinFreq c mn s1 = (Ret (), t)"
    using writeScaling_no_faults(2) [OF s1(2)] by blast
  ultimately show ?thesis
    unfolding writeLimits_def Let_def fst_conv snd_conv mx_def [symmetric] mn_def [symmetric] by simp
qed

text \<open>
  A request inside the range of the whole machine is applied: when the file system
  accepts every write, the CPU is known, and the limits the profile asks of this CPU lie between
  the lowest minimum and the highest maximum of the core types, \<^verbatim>\<open>setDriverValues\<close> returns
  without an error, even if the CPU's own range is narrower.
\<close>

lemma setDriverValues_succeeds:
  assumes "\<And>n. \<not> faults (sys s) n"
    and "isFeatureIDSupported (featureList s) FrequencyScalingFeature"
    and "c < length (allCPUDefaultPStatesInfo s)" "coreTypes s \<noteq> []"
    and "getFreqsToScale c ps s = Ret (rmin, rmax)"
    and "rmax \<le> Max (snd ` set (coreTypes s))" "Min (fst ` set (coreTypes s)) \<le> rmin"
  shows "\<exists>t. setDriverValues c ps s = (Ret (), t)"
proof -
  obtain s1 where s1: "writeGovernorValue c (governor ps) s = (Ret (), s1)" "knowledge s1 = knowledge s"
    "\<And>n. \<not> faults (sys s1) n"
    using WriteFile_no_faults [OF assms(1), of "CPUFile c scalingGovFile" "governor ps"]
    by (auto simp: writeGovernorValue_def dest: touches_knowledge)
  obtain s2 where s2: "(if epp ps \<noteq> '''' then wrapErr (''failed to set EPP value for cpu '' @ Itoa (int c))
                     (writeEppValue c (epp ps) s1) else (Ret (), s1)) = (Ret (), s2)"
    "knowledge s2 = knowledge s" "\<And>n. \<not> faults (sys s2) n"
    using WriteFile_no_faults [OF s1(3), of "CPUFile c eppFile" "epp ps"] s1
    by (cases "epp ps = ''''") (auto simp: writeEppValue_def dest: touches_knowledge)
  obtain amin amax where a: "GetAbsMinMax c s = Ret (amin, amax)"
    using GetAbsMinMax_supported [OF assms(2,3)] by blast
  have "\<exists>t. writeLimits c (amin, amax) (Min (fst ` set (coreTypes s)), Max (snd ` set (coreTypes s))) (rmin, rmax) s2
      = (Ret (), t)"
    using assms(6,7) by (intro writeLimits_succeeds s2(3)) auto
  then show ?thesis
    using s1(1) s2(1) a assms(5) getAbsMinMaxFreq_extremes [OF assms(4)] pstate_reads_cong [OF s2(2)]
    by (simp add: setDriverValues_def)
qed

text \<open>
  C15. What a successful \<^verbatim>\<open>setDriverValues\<close> leaves behind: the governor file holds the
  profile's governor, the preference file the profile's preference if it has one, and the two
  scaling limits are the requested range cut down to the CPU's own range.  No other file
  has changed and nothing the library knows of the machine has changed.
\<close>

theorem setDriverValues_applies:
  assumes "setDriverValues c ps s = (Ret (), t)"
    and "isFeatureIDSupported (featureList s) FrequencyScalingFeature"
  shows "\<exists>rmin rmax amin amax. getFreqsToScale c ps s = Ret (rmin, rmax) \<and> GetAbsMinMax c s = Ret (amin, amax)
      \<and> contents (sys t) (CPUFile c scalingMaxFile) = Some (Itoa (min rmax amax))
      \<and> contents (sys t) (CPUFile c scalingMinFile) = Some (Itoa (max rmin amin))
      \<and> contents (sys t) (CPUFile c scalingGovFile) = Some (governor ps)
      \<and> (epp ps \<noteq> '''' \<longrightarrow> contents (sys t) (CPUFile c eppFile) = Some (epp ps))
      \<and> (\<forall>p. p \<notin> CPUFile c ` {scalingGovFile, eppFile, scalingMaxFile, scalingMinFile}
              \<longrightarrow> contents (sys t) p = contents (sys s) p)
      \<and> knowledge t = knowledge s"
proof -
  have "touches (pstateFiles c) s t" using setDriverValues_frame [of c s ps] assms(1) by simp
  then have f: "\<forall>p. p \<notin> CPUFile c ` {scalingGovFile, eppFile, scalingMaxFile, scalingMinFile}
              \<longrightarrow> contents (sys t) p = contents (sys s) p" "knowledge t = knowledge s"
    unfolding touches_def pstateFiles_def by blast+
  from assms(1) show ?thesis
    by (rule setDriverValues_Ret) (use f in blast)
qed

text \<open>
  C35. The limits written by a successful call are ordered exactly when the requested range
  meets the CPU's own range.  On a machine whose core types have disjoint ranges, a profile
  that is valid for the machine can ask a CPU for a range entirely below (or above) its own;
  the call succeeds and leaves the minimum limit above the maximum limit.
\<close>

theorem setDriverValues_limits_ordered:
  assumes "setDriverValues c ps s = (Ret (), t)"
    and "getFreqsToScale c ps s = Ret (rmin, rmax)" "rmin \<le> rmax"
    and "GetAbsMinMax c s = Ret (amin, amax)" "amin \<le> amax"
  shows "\<exists>lo hi. contents (sys t) (CPUFile c scalingMinFile) = Some (Itoa lo)
      \<and> contents (sys t) (CPUFile c scalingMaxFile) = Some (Itoa hi)
      \<and> (lo \<le> hi \<longleftrightarrow> rmin \<le> amax \<and> amin \<le> rmax)"
  using assms(1)
proof (rule setDriverValues_Ret)
  fix amin' amax' smin smax rmin' rmax'
  assume "GetAbsMinMax c s = Ret (amin', amax')" "getFreqsToScale c ps s = Ret (rmin', rmax')"
    "contents (sys t) (CPUFile c scalingMaxFile) = Some (Itoa (min rmax' amax'))"
    "contents (sys t) (CPUFile c scalingMinFile) = Some (Itoa (max rmin' amin'))"
  then show ?thesis using assms
    by (intro exI [of _ "max rmin amin"] exI [of _ "min rmax amax"]) auto
qed

section \<open>Translation of percentages\<close>

definition percentOf :: "int \<Rightarrow> int \<Rightarrow> int" where
  "percentOf p d = - ((- (p * d)) div 100)"

lemma percentOf_bounds:
  assumes "0 \<le> p" "p \<le> q" "q \<le> 100" "0 \<le> d"
  shows "0 \<le> percentOf p d" "percentOf p d \<le> percentOf q d" "percentOf q d \<le> d"
proof -
  have "p * d \<le> q * d" "q * d \<le> 100 * d" using assms by (simp_all add: mult_right_mono)
  moreover have "0 \<le> p * d" using assms by simp
  ultimately show "0 \<le> percentOf p d" "percentOf p d \<le> percentOf q d" "percentOf q d \<le> d"
    unfolding percentOf_def by linarith+
qed

lemma percentOf_ends [simp]: "percentOf 0 d = 0" "percentOf 100 d = d"
  by (simp_all add: percentOf_def)

lemma getFreq_percent:
  assumes "0 \<le> p" "p \<le> 100" "0 \<le> mn" "mn \<le> mx" "mx < 2 ^ 63"
  shows "getFreqFromIntOrString (FromString (Itoa p @ ''%'')) mn mx = Ret (mn + percentOf p (mx - mn))"
proof -
  have b: "0 \<le> percentOf p (mx - mn)" "percentOf p (mx - mn) \<le> mx - mn"
    using percentOf_bounds [of p p "mx - mn"] assms by auto
  have "to_int64 (to_uint64 (mx - mn)) = mx - mn" using assms by simp
  moreover have "Atoi (Itoa p) = Some p" using assms by (intro Atoi_Itoa) auto
  moreover have "to_uint64 (mn + to_uint64 (percentOf p (mx - mn))) = mn + percentOf p (mx - mn)"
    using b assms by simp
  ultimately show ?thesis
    by (simp add: getFreqFromIntOrString_def GetScaledValueFromIntOrPercent_def FromString_def Let_def
        percentOf_def)
qed

text \<open>
  Percentages: between 0 and 100 percent, the frequency computed for a CPU lies inside the
  CPU's range, grows with the percentage, is the minimum at 0 percent and the maximum at 100
  percent.
\<close>

theorem getFreqFromIntOrString_percent:
  assumes "0 \<le> p" "p \<le> q" "q \<le> 100" "0 \<le> mn" "mn \<le> mx" "mx < 2 ^ 63"
  shows "\<exists>f g. getFreqFromIntOrString (FromString (Itoa p @ ''%'')) mn mx = Ret f
      \<and> getFreqFromIntOrString (FromString (Itoa q @ ''%'')) mn mx = Ret g
      \<and> mn \<le> f \<and> f \<le> g \<and> g \<le> mx \<and> (p = 0 \<longrightarrow> f = mn) \<and> (q = 100 \<longrightarrow> g = mx)"
  using assms percentOf_bounds [of p q "mx - mn"] by (auto simp: getFreq_percent)

section \<open>Default values\<close>

lemma forEach_defaultPStates:
  assumes "forEach defaultPStatesOf [k..<n] s = (Ret (), t)" "length (allCPUDefaultPStatesInfo s) = n"
  shows "sys t = sys s \<and> length (allCPUDefaultPStatesInfo t) = n
     \<and> (\<forall>i < k. allCPUDefaultPStatesInfo t ! i = allCPUDefaultPStatesInfo s ! i)
     \<and> (\<forall>i. k \<le> i \<longrightarrow> i < n \<longrightarrow> (\<exists>mn mx e. readCPUUintProperty i cpuMinFreqFile s = Ret mn
           \<and> readCPUUintProperty i cpuMaxFreqFile s = Ret mx
           \<and> allCPUDefaultPStatesInfo t ! i = \<lparr>minFreq = FromInt (to_int64 mn), maxFreq = FromInt (to_int64 mx),
                                               epp = e, governor = defaultGovernor\<rparr>))"
  using assms
proof (induction "n - k" arbitrary: k s)
  case 0
  then show ?case by simp
next
  case (Suc d)
  then have k: "k < n" "[k..<n] = k # [Suc k..<n]" by (simp_all add: upt_rec)
  from Suc.prems(1) k obtain mx mn e where r: "readCPUUintProperty k cpuMaxFreqFile s = Ret mx"
    "readCPUUintProperty k cpuMinFreqFile s = Ret mn"
    and t: "forEach defaultPStatesOf [Suc k..<n] (s\<lparr>allCPUDefaultPStatesInfo := (allCPUDefaultPStatesInfo s)
          [k := \<lparr>minFreq = FromInt (to_int64 mn), maxFreq = FromInt (to_int64 mx), epp = e,
                 governor = defaultGovernor\<rparr>]\<rparr>) = (Ret (), t)"
    by (auto simp: andThen_Ret_iff defaultPStatesOf_def)
  have same: "readCPUUintProperty i f (s\<lparr>allCPUDefaultPStatesInfo := x\<rparr>) = readCPUUintProperty i f s" for i f x
    by (simp add: readCPUUintProperty_def readUintFromFile_def readStringFromFile_def)
  note ih = Suc.hyps(1) [OF _ t, unfolded same]
  show ?case
  proof (intro conjI allI impI)
    fix i assume i: "k \<le> i" "i < n"
    show "\<exists>mn mx e. readCPUUintProperty i cpuMinFreqFile s = Ret mn
           \<and> readCPUUintProperty i cpuMaxFreqFile s = Ret mx
           \<and> allCPUDefaultPStatesInfo t ! i = \<lparr>minFreq = FromInt (to_int64 mn), maxFreq = FromInt (to_int64 mx),
                                               epp = e, governor = defaultGovernor\<rparr>"
    proof (cases "i = k")
      case True
      with ih Suc.prems(2) Suc.hyps(2) r k show ?thesis by simp
    next
      case False
      with i ih Suc.prems(2) Suc.hyps(2) show ?thesis by simp
    qed
  qed (use ih Suc.prems(2) Suc.hyps(2) in simp_all)
qed

lemma generateDefaultPStates_Ret:
  assumes "generateDefaultPStates s = (Ret (), t)" "c < getNumberOfCpus s"
    and "readCPUUintProperty c cpuMinFreqFile s = Ret mn" "readCPUUintProperty c cpuMaxFreqFile s = Ret mx"
  shows "c < length (allCPUDefaultPStatesInfo t)"
    "minFreq (allCPUDefaultPStatesInfo t ! c) = FromInt (to_int64 mn)"
    "maxFreq (allCPUDefaultPStatesInfo t ! c) = FromInt (to_int64 mx)"
proof -
  let ?s = "s\<lparr>allCPUDefaultPStatesInfo := replicate (getNumberOfCpus s) zeroPStates\<rparr>"
  have same: "readCPUUintProperty i f ?s = readCPUUintProperty i f s" for i f
    by (simp add: readCPUUintProperty_def readUintFromFile_def readStringFromFile_def)
  have "forEach defaultPStatesOf [0..<getNumberOfCpus s] ?s = (Ret (), t)"
    using assms(1) by (simp add: generateDefaultPStates_def Let_def)
  note r = forEach_defaultPStates [OF this, unfolded same]
  with assms(2-4) show "c < length (allCPUDefaultPStatesInfo t)"
    "minFreq (allCPUDefaultPStatesInfo t ! c) = FromInt (to_int64 mn)"
    "maxFreq (allCPUDefaultPStatesInfo t ! c) = FromInt (to_int64 mx)" by force+
qed

text \<open>
  Resetting a CPU restores the hardware range.  Once the defaults have been read from
  the CPU's information files, consolidating a CPU in a pool without a profile sets its limits
  back to exactly the values in those files and its governor to powersave.
\<close>

theorem updateFrequencies_restores_defaults:
  assumes "generateDefaultPStates s = (Ret (), t)" "c < getNumberOfCpus s"
    and "readCPUUintProperty c cpuMinFreqFile s = Ret mn" "readCPUUintProperty c cpuMaxFreqFile s = Ret mx"
    and "mn \<le> mx" "mx < 2 ^ 31"
    and "knowledge u = knowledge t" "isFeatureIDSupported (featureList u) FrequencyScalingFeature"
    and "updateFrequencies c None u = (Ret (), v)"
  shows "contents (sys v) (CPUFile c scalingMinFile) = Some (Itoa mn)
      \<and> contents (sys v) (CPUFile c scalingMaxFile) = Some (Itoa mx)"
proof -
  have mn: "0 \<le> mn" using assms(3) readUint_range by (auto simp: readCPUUintProperty_def)
  note d = generateDefaultPStates_Ret [OF assms(1-4)]
  have c: "c < length (allCPUDefaultPStatesInfo u)" and
    v: "IntVal (minFreq (allCPUDefaultPStatesInfo u ! c)) = mn" "IntVal (maxFreq (allCPUDefaultPStatesInfo u ! c)) = mx"
    and ty: "Type (minFreq (allCPUDefaultPStatesInfo u ! c)) = 0" "Type (maxFreq (allCPUDefaultPStatesInfo u ! c)) = 0"
    using d mn assms(5,6) knowledge_fields(4) [OF assms(7)] by (simp_all add: FromInt_def)
  have "setDriverValues c (allCPUDefaultPStatesInfo u ! c) u = (Ret (), v)"
    using assms(8,9) c by (simp add: updateFrequencies_def)
  then show ?thesis
  proof (rule setDriverValues_Ret)
    fix amin amax smin smax rmin rmax
    assume a: "GetAbsMinMax c u = Ret (amin, amax)"
      "getFreqsToScale c (allCPUDefaultPStatesInfo u ! c) u = Ret (rmin, rmax)"
      "contents (sys v) (CPUFile c scalingMaxFile) = Some (Itoa (min rmax amax))"
      "contents (sys v) (CPUFile c scalingMinFile) = Some (Itoa (max rmin amin))"
    have "amin = mn" "amax = mx" using a(1) GetAbsMinMax_supported [OF assms(8) c] v mn assms(5,6) by simp_all
    moreover have "rmin = mn" "rmax = mx"
      using a(2) c v ty mn assms(5,6) by (simp_all add: getFreqsToScale_def getFreqFromIntOrString_def)
    ultimately show ?thesis using a(3,4) by simp
  qed
qed

section \<open>No panics\<close>

lemma GetScaledValue_no_panic: "\<not> isPanic (GetScaledValueFromIntOrPercent v n b)"
  by (auto simp: GetScaledValueFromIntOrPercent_def split: option.split)

lemma getFreq_no_panic: "\<not> isPanic (getFreqFromIntOrString f mn mx)"
  using GetScaledValue_no_panic [of f "to_int64 (to_uint64 (mx - mn))" True]
  by (auto simp: getFreqFromIntOrString_def Let_def split: gores.split)

lemma getFreqsToScale_no_panic:
  "c < length (allCPUDefaultPStatesInfo s) \<Longrightarrow> \<not> isPanic (getFreqsToScale c ps s)"
  using getFreq_no_panic [of "minFreq ps"] getFreq_no_panic [of "maxFreq ps"]
  by (auto simp: getFreqsToScale_def Let_def split: gores.split) (metis isPanic.simps(1))+

lemma writes_no_panic:
  "\<not> isPanic (fst (writeGovernorValue c g s))" "\<not> isPanic (fst (writeEppValue c g s))"
  "\<not> isPanic (fst (writeScalingMaxFreq c f s))" "\<not> isPanic (fst (writeScalingMinFreq c f s))"
  by (auto simp: writeGovernorValue_def writeEppValue_def writeScalingMaxFreq_def writeScalingMinFreq_def
      andThen_isPanic_iff)

lemma writeLimits_no_panic: "\<not> isPanic (fst (writeLimits c h y r s))"
  by (simp add: writeLimits_def Let_def writes_no_panic andThen_isPanic_iff)

lemma setDriverValues_no_panic:
  assumes "coreTypes s \<noteq> []" "c < length (allCPUDefaultPStatesInfo s)"
  shows "\<not> isPanic (fst (setDriverValues c ps s))"
proof -
  let ?e = "\<lambda>s1. if epp ps \<noteq> '''' then wrapErr (''failed to set EPP value for cpu '' @ Itoa (int c))
                     (writeEppValue c (epp ps) s1) else (Ret (), s1)"
  have e: "\<not> isPanic (fst (?e s1))" for s1 by (simp add: writes_no_panic)
  have k: "knowledge s2 = knowledge s" if "writeGovernorValue c (governor ps) s = (Ret (), s1)" "?e s1 = (Ret (), s2)"
    for s1 s2
    using that touches_knowledge [OF touches_pstate_writes(1) [of c s "governor ps"]]
      touches_knowledge [OF touches_pstate_writes(2) [of c s1 "epp ps"]] by (auto split: if_splits)
  have "\<not> isPanic (GetAbsMinMax c s)" "\<not> isPanic (getAbsMinMaxFreq (coreTypes s))" "\<not> isPanic (getFreqsToScale c ps s)"
    using assms getAbsMinMaxFreq_extremes getFreqsToScale_no_panic by (auto simp: GetAbsMinMax_def)
  with k have r: "\<not> isPanic (GetAbsMinMax c s2) \<and> \<not> isPanic (getAbsMinMaxFreq (coreTypes s2))
      \<and> \<not> isPanic (getFreqsToScale c ps s2)"
    if "writeGovernorValue c (governor ps) s = (Ret (), s1)" "?e s1 = (Ret (), s2)" for s1 s2
    using pstate_reads_cong [OF k [OF that]] by simp
  show ?thesis
    unfolding setDriverValues_def
    by (intro andThen_isPanic e) (use r in \<open>auto simp: writes_no_panic writeLimits_no_panic\<close>)
qed

section \<open>The properties at concrete machines\<close>

text \<open>A machine with two core types of disjoint ranges, one CPU of each.\<close>

definition bigLittle :: hw where
  "bigLittle = machine [(1000, 1800), (2200, 3000)] [pstatesFromTo 1000 1800, pstatesFromTo 2200 3000] []"

definition oneCPU :: hw where
  "oneCPU = machine [(8, 30)] [zeroPStates] [(CPUFile 0 cpuMinFreqFile, ''8''), (CPUFile 0 cpuMaxFreqFile, ''30'')]"

lemma bigLittle_run:
  "setDriverValues 1 (pstatesFromTo 1200 1800) bigLittle
     = (Ret (), snd (setDriverValues 1 (pstatesFromTo 1200 1800) bigLittle))"
  "getFreqsToScale 1 (pstatesFromTo 1200 1800) bigLittle = Ret (1200, 1800)"
  "GetAbsMinMax 1 bigLittle = Ret (2200, 3000)"
  "isFeatureIDSupported (featureList bigLittle) FrequencyScalingFeature"
  by (rule Ret_run, code_simp) code_simp+

theorem setDriverValues_applies_witness:
  "\<exists>rmin rmax amin amax. getFreqsToScale 1 (pstatesFromTo 1200 1800) bigLittle = Ret (rmin, rmax)
     \<and> GetAbsMinMax 1 bigLittle = Ret (amin, amax)
     \<and> contents (sys (snd (setDriverValues 1 (pstatesFromTo 1200 1800) bigLittle))) (CPUFile 1 scalingGovFile)
         = Some ''powersave''"
  using setDriverValues_applies [OF bigLittle_run(1,4)] by (auto simp: pstatesFromTo_def)

theorem setDriverValues_limits_ordered_witness:
  "\<exists>lo hi. contents (sys (snd (setDriverValues 1 (pstatesFromTo 1200 1800) bigLittle))) (CPUFile 1 scalingMinFile) = Some (Itoa lo)
     \<and> contents (sys (snd (setDriverValues 1 (pstatesFromTo 1200 1800) bigLittle))) (CPUFile 1 scalingMaxFile) = Some (Itoa hi)
     \<and> \<not> lo \<le> hi"
  using setDriverValues_limits_ordered [OF bigLittle_run(1,2) _ bigLittle_run(3)] by auto

theorem getFreqFromIntOrString_percent_witness:
  "\<exists>f g. getFreqFromIntOrString (FromString ''25%'') 800 3000 = Ret f
      \<and> getFreqFromIntOrString (FromString ''100%'') 800 3000 = Ret g \<and> 800 \<le> f \<and> f \<le> g \<and> g = 3000"
proof -
  have "Itoa 25 @ ''%'' = ''25%''" "Itoa 100 @ ''%'' = ''100%''" by code_simp+
  then show ?thesis using getFreqFromIntOrString_percent [of 25 100 800 3000] by simp
qed

theorem updateFrequencies_restores_defaults_witness:
  "contents (sys (snd (updateFrequencies 0 None (snd (generateDefaultPStates oneCPU))))) (CPUFile 0 scalingMinFile)
      = Some ''8''"
proof -
  let ?u = "snd (generateDefaultPStates oneCPU)"
  have g: "generateDefaultPStates oneCPU = (Ret (), ?u)"
    by (rule Ret_run) code_simp
  have u: "updateFrequencies 0 None ?u = (Ret (), snd (updateFrequencies 0 None ?u))"
    by (rule Ret_run) code_simp
  have r: "0 < getNumberOfCpus oneCPU" "readCPUUintProperty 0 cpuMinFreqFile oneCPU = Ret 8"
    "readCPUUintProperty 0 cpuMaxFreqFile oneCPU = Ret 30"
    "isFeatureIDSupported (featureList ?u) FrequencyScalingFeature"
    "Itoa 8 = ''8''" by code_simp+
  show ?thesis
    using updateFrequencies_restores_defaults [OF g r(1-3) _ _ refl r(4) u] r(5) by simp
qed

end
