(* ===== verification/CStates.thy ===== *)
theory CStates
  imports Hardware
begin

text \<open>
  CPU idle states, \<^verbatim>\<open>internal/power/c_states.go\<close>: discovery of the idle states of every CPU in
  sysfs, the three ways a configuration is chosen (a maximum latency, explicit names, the
  defaults found at start-up) and the writes that apply it.  The main facts: discovery
  never gives two names the same state number, and a successful update leaves every known state
  of the CPU enabled or disabled exactly as the configuration says, in whatever order the
  map of states is visited.
\<close>

section \<open>Data\<close>

record cstatesImpl =
  states :: "(string \<times> bool) list"
  maxLatencyUs :: "int option"

abbreviation "cStatesDrvPath \<equiv> ''cpuidle/current_driver''"

definition cStateFile :: "int \<Rightarrow> string \<Rightarrow> string" where
  "cStateFile n f = ''cpuidle/state'' @ Itoa n @ ''/'' @ f"

definition isSupportedCStatesDriver :: "string \<Rightarrow> bool" where
  "isSupportedCStatesDriver d \<longleftrightarrow> List.member [''intel_idle'', ''acpi_idle''] d"

text \<open>The leftmost match of the regular expression \<^verbatim>\<open>state(\d+)\<close>: the digits of the group.\<close>

fun matchStateDir :: "string \<Rightarrow> string option" where
  "matchStateDir [] = None"
| "matchStateDir (x # xs) =
     (if HasPrefix (x # xs) ''state'' \<and> takeWhile is_digit (drop 5 (x # xs)) \<noteq> []
      then Some (takeWhile is_digit (drop 5 (x # xs))) else matchStateDir xs)"

text \<open>\<^verbatim>\<open>allCPUCStatesInfo[cpu.id]\<close>: a missing entry reads as the empty map.\<close>

definition cstatesInfoOf :: "nat \<Rightarrow> hw \<Rightarrow> cpuCStatesInfo" where
  "cstatesInfoOf cpuID s = (case map_of (allCPUCStatesInfo s) cpuID of None \<Rightarrow> [] | Some m \<Rightarrow> m)"

section \<open>Discovery\<close>

text \<open>The default status of a state: enabled, unless the file says otherwise.\<close>

definition readDefaultStatus :: "nat \<Rightarrow> int \<Rightarrow> hw \<Rightarrow> bool gores" where
  "readDefaultStatus cpuID stateNumber s =
     (let r = readCPUStringProperty cpuID (cStateFile stateNumber ''default_status'') s in
      (case r of
         Ret str \<Rightarrow> Ret (str = ''enabled'')
       | Fail e \<Rightarrow> if isNotExist r then Ret True
                   else Fail (Wrap (''could not read cpu'' @ Itoa (int cpuID) @ '' C-State default status file'') e)
       | Panic m \<Rightarrow> Panic m))"

text \<open>The body of the loop over the entries of a CPU's directory.\<close>

definition mapStateDir :: "nat \<Rightarrow> string \<times> bool \<Rightarrow> (unit, hw) action" where
  "mapStateDir cpuID stateDir s =
     (if \<not> snd stateDir \<or> matchStateDir (fst stateDir) = None then (Ret (), s)
      else (case Atoi (the (matchStateDir (fst stateDir))) of
        None \<Rightarrow> (Fail (Wrap (''failed to extract cpu'' @ Itoa (int cpuID) @ '' C-State number'') (Msg ''strconv.Atoi'')), s)
      | Some stateNumber \<Rightarrow>
          andThen (wrapErr (''could not read cpu'' @ Itoa (int cpuID) @ '' C-State name'')
            (reading (readCPUStringProperty cpuID (cStateFile stateNumber ''name'') s) s)) (\<lambda>stateName s1.
          andThen (wrapErr (''could not read cpu'' @ Itoa (int cpuID) @ '' C-State latency'')
            (reading (readCPUUintProperty cpuID (cStateFile stateNumber ''latency'') s1) s1)) (\<lambda>latency s2.
          andThen (reading (readDefaultStatus cpuID stateNumber s2) s2) (\<lambda>defaultStatus s3.
            (Ret (), s3\<lparr>allCPUCStatesInfo := AList.update cpuID
               (AList.update stateName \<lparr>StateNumber = stateNumber, Latency = to_int64 latency,
                  DefaultStatus = defaultStatus\<rparr> (cstatesInfoOf cpuID s3)) (allCPUCStatesInfo s3)\<rparr>))))))"

text \<open>The body of the loop over the CPUs.\<close>

definition mapCStatesOfCPU :: "nat \<Rightarrow> (unit, hw) action" where
  "mapCStatesOfCPU cpuID s =
     (let s1 = s\<lparr>allCPUCStatesInfo := AList.update cpuID [] (allCPUCStatesInfo s)\<rparr> in
      (case cpuidleDir (sys s1) cpuID of
         None \<Rightarrow> (Fail (Wrap (''could not open cpu'' @ Itoa (int cpuID) @ '' C-States directory'') (OSFailure ''open'')), s1)
       | Some cpuDirs \<Rightarrow> forEach (mapStateDir cpuID) cpuDirs s1))"

definition mapAvailableCStates :: "(unit, hw) action" where
  "mapAvailableCStates s = forEach mapCStatesOfCPU [0..<getNumberOfCpus s] s"

definition initCStates :: "hw \<Rightarrow> featureStatus \<times> hw" where
  "initCStates s = (case readStringFromFile (BaseFile cStatesDrvPath) s of
      Ret d \<Rightarrow>
        (let driver = TrimSuffix d newline in
         if \<not> isSupportedCStatesDriver driver
         then (\<lparr>feature_name = ''C-States'', feature_driver = driver,
                feature_err = Some (Msg (''unsupported driver: '' @ driver))\<rparr>, s)
         else (case mapAvailableCStates s of (r, s1) \<Rightarrow>
                (\<lparr>feature_name = ''C-States'', feature_driver = driver,
                  feature_err = (case r of Fail e \<Rightarrow> Some e | _ \<Rightarrow> None)\<rparr>, s1)))
    | Fail e \<Rightarrow> (\<lparr>feature_name = ''C-States'', feature_driver = '''',
                 feature_err = Some (Wrap ''failed to determine driver'' e)\<rparr>, s)
    | Panic m \<Rightarrow> (\<lparr>feature_name = ''C-States'', feature_driver = '''', feature_err = None\<rparr>, s))"

definition GetAvailableCStates :: "hw \<Rightarrow> string list" where
  "GetAvailableCStates s =
     foldl (\<lambda>cStatesSet stateName. if stateName \<in> set cStatesSet then cStatesSet else cStatesSet @ [stateName])
       [] (concat (map (\<lambda>(cpuID, cstatesInfo). map fst cstatesInfo) (allCPUCStatesInfo s)))"

section \<open>Choosing and applying a configuration\<close>

definition getDefaultCStatesStatus :: "nat \<Rightarrow> hw \<Rightarrow> (string \<times> bool) list" where
  "getDefaultCStatesStatus cpuID s =
     foldl (\<lambda>defaults (stateName, info). AList.update stateName (DefaultStatus info) defaults) []
       (cstatesInfoOf cpuID s)"

definition configCStatesByLatency :: "nat \<Rightarrow> int \<Rightarrow> hw \<Rightarrow> cstatesImpl" where
  "configCStatesByLatency cpuID maxLat s =
     \<lparr>states = foldl (\<lambda>desired (stateName, info).
         if Latency info \<le> maxLat then AList.update stateName True desired
         else AList.update stateName False desired) [] (cstatesInfoOf cpuID s),
      maxLatencyUs = None\<rparr>"

definition configCStatesByNames :: "nat \<Rightarrow> (string \<times> bool) list \<Rightarrow> hw \<Rightarrow> cstatesImpl" where
  "configCStatesByNames cpuID names s =
     \<lparr>states = foldl (\<lambda>desired (stateName, info).
         (case map_of names stateName of
            Some providedStatus \<Rightarrow> AList.update stateName providedStatus desired
          | None \<Rightarrow> AList.update stateName (DefaultStatus info) desired)) [] (cstatesInfoOf cpuID s),
      maxLatencyUs = None\<rparr>"

text \<open>The body of the loop over the desired states.\<close>

definition applyCState :: "nat \<Rightarrow> string \<times> bool \<Rightarrow> (unit, hw) action" where
  "applyCState cpuID d s =
     (case map_of (cstatesInfoOf cpuID s) (fst d) of
        None \<Rightarrow> (Ret (), s)
      | Some info \<Rightarrow>
          wrapErr (''could not apply cstate '' @ fst d @ '' on cpu '' @ Itoa (int cpuID))
            (WriteFile (CPUFile cpuID (cStateFile (StateNumber info) ''disable''))
               (if snd d then ''0'' else ''1'') s))"

definition applyCStates :: "nat \<Rightarrow> cstatesImpl \<Rightarrow> (unit, hw) action" where
  "applyCStates cpuID desired = forEach (applyCState cpuID) (states desired)"

definition updateCStates :: "nat \<Rightarrow> cstatesImpl option \<Rightarrow> (unit, hw) action" where
  "updateCStates cpuID profile s =
     (if \<not> IsFeatureSupported [CStatesFeature] s then (Ret (), s)
      else (case profile of
        Some cs \<Rightarrow>
          (case maxLatencyUs cs of
             Some maxLat \<Rightarrow> applyCStates cpuID (configCStatesByLatency cpuID maxLat s) s
           | None \<Rightarrow>
               if length (states cs) > 0
               then applyCStates cpuID (configCStatesByNames cpuID (states cs) s) s
               else applyCStates cpuID \<lparr>states = getDefaultCStatesStatus cpuID s, maxLatencyUs = None\<rparr> s)
      | None \<Rightarrow> applyCStates cpuID \<lparr>states = getDefaultCStatesStatus cpuID s, maxLatencyUs = None\<rparr> s))"

section \<open>Discovery keeps the states of a CPU apart\<close>

lemma cStateFile_inject [simp]: "cStateFile n f = cStateFile m f \<longleftrightarrow> n = m"
  by (simp add: cStateFile_def)

text \<open>
  Every known state of a CPU is recorded under the name that its own directory holds.  Since the
  directory is found by the state number, two names never share a number.
\<close>

definition discovered :: "hw \<Rightarrow> bool" where
  "discovered s \<longleftrightarrow> (\<forall>c. distinct (map fst (cstatesInfoOf c s))
     \<and> (\<forall>(n, i) \<in> set (cstatesInfoOf c s). readCPUStringProperty c (cStateFile (StateNumber i) ''name'') s = Ret n))"

definition cstates_wf :: "hw \<Rightarrow> bool" where
  "cstates_wf s \<longleftrightarrow> (\<forall>c. distinct (map fst (cstatesInfoOf c s))
     \<and> distinct (map (\<lambda>(n, i). StateNumber i) (cstatesInfoOf c s)))"

lemma discovered_wf:
  assumes "discovered s"
  shows "cstates_wf s"
  unfolding cstates_wf_def
proof (intro allI conjI)
  fix c
  let ?xs = "cstatesInfoOf c s"
  let ?g = "\<lambda>k. case readCPUStringProperty c (cStateFile k ''name'') s of Ret n \<Rightarrow> n | _ \<Rightarrow> ''''"
  show d: "distinct (map fst ?xs)" using assms by (simp add: discovered_def)
  have "map fst ?xs = map ?g (map (\<lambda>(n, i). StateNumber i) ?xs)"
    using assms by (force simp: discovered_def)
  with d have "distinct (map ?g (map (\<lambda>(n, i). StateNumber i) ?xs))" by argo
  then show "distinct (map (\<lambda>(n, i). StateNumber i) ?xs)" by (simp only: distinct_map)
qed

lemma discovered_frame:
  assumes "discovered s" "sys t = sys s"
    and "\<And>c'. c' \<noteq> c \<Longrightarrow> cstatesInfoOf c' t = cstatesInfoOf c' s"
    and "distinct (map fst (cstatesInfoOf c t))"
    and "\<forall>(n, i) \<in> set (cstatesInfoOf c t). readCPUStringProperty c (cStateFile (StateNumber i) ''name'') s = Ret n"
  shows "discovered t"
proof -
  have r: "readCPUStringProperty c' f t = readCPUStringProperty c' f s" for c' f
    using assms(2) by (simp add: readCPUStringProperty_def readStringFromFile_def)
  show ?thesis
    unfolding discovered_def r
    using assms(1,3-5) unfolding discovered_def by (metis (no_types, lifting))
qed

lemma cstatesInfoOf_update [simp]:
  "cstatesInfoOf c' (s\<lparr>allCPUCStatesInfo := AList.update c m a\<rparr>)
    = (if c' = c then m else cstatesInfoOf c' (s\<lparr>allCPUCStatesInfo := a\<rparr>))"
  "cstatesInfoOf c' (s\<lparr>allCPUCStatesInfo := allCPUCStatesInfo s\<rparr>) = cstatesInfoOf c' s"
  by (simp_all add: cstatesInfoOf_def update_conv')

lemma mapStateDir_cases:
  "snd (mapStateDir c x s) = s
   \<or> (\<exists>n v. readCPUStringProperty c (cStateFile (StateNumber v) ''name'') s = Ret n
        \<and> snd (mapStateDir c x s) = s\<lparr>allCPUCStatesInfo := AList.update c
            (AList.update n v (cstatesInfoOf c s)) (allCPUCStatesInfo s)\<rparr>)"
  by (force simp: mapStateDir_def andThen_def wrapErr_def split: option.split gores.split)

interpretation stateDirs: keeping "mapStateDir c" discovered for c
proof
  fix x s
  assume d: "discovered s"
  from mapStateDir_cases [of c x s] show "discovered (snd (mapStateDir c x s))"
  proof (elim disjE exE conjE)
    fix n v
    assume v: "readCPUStringProperty c (cStateFile (StateNumber v) ''name'') s = Ret n"
      "snd (mapStateDir c x s) = s\<lparr>allCPUCStatesInfo := AList.update c
            (AList.update n v (cstatesInfoOf c s)) (allCPUCStatesInfo s)\<rparr>"
    have "\<forall>(m, i) \<in> set (AList.update n v (cstatesInfoOf c s)).
        readCPUStringProperty c (cStateFile (StateNumber i) ''name'') s = Ret m"
      using v(1) d by (subst set_AList_update) (auto simp: discovered_def)
    then show ?thesis
      using d v(2) by (intro discovered_frame [OF d, of _ c]) (auto simp: discovered_def distinct_update)
  qed (use d in simp)
qed

interpretation cpuDirs: keeping mapCStatesOfCPU discovered
proof
  fix x s
  assume d: "discovered s"
  let ?s = "s\<lparr>allCPUCStatesInfo := AList.update x [] (allCPUCStatesInfo s)\<rparr>"
  have "discovered ?s" by (rule discovered_frame [OF d, of _ x]) simp_all
  then show "discovered (snd (mapCStatesOfCPU x s))"
    by (auto simp: mapCStatesOfCPU_def Let_def intro: stateDirs.forEach_keep split: option.split)
qed

text \<open>
  Discovery of the idle states, even when it stops half way at an error, records for
  every CPU each name once and gives different names different state numbers, so that
  switching one state never touches the file of another.
\<close>

theorem mapAvailableCStates_wf:
  "cstates_wf (snd (mapAvailableCStates (s\<lparr>allCPUCStatesInfo := []\<rparr>)))"
proof -
  have "discovered (s\<lparr>allCPUCStatesInfo := []\<rparr>)" by (simp add: discovered_def cstatesInfoOf_def)
  then show ?thesis
    unfolding mapAvailableCStates_def by (intro discovered_wf cpuDirs.forEach_keep)
qed

section \<open>Applying a configuration\<close>

definition cstateFiles :: "nat \<Rightarrow> path set" where
  "cstateFiles c = {CPUFile c (cStateFile n ''disable'') | n. True}"

lemma applyCState_frame: "touches (cstateFiles c) s (snd (applyCState c d s))"
  by (auto simp: applyCState_def cstateFiles_def intro!: touches_WriteFile split: option.split)

lemma applyCStates_frame: "touches (cstateFiles c) s (snd (applyCStates c d s))"
  unfolding applyCStates_def by (rule touches_forEach) (rule applyCState_frame)

lemma updateCStates_frame: "touches (cstateFiles c) s (snd (updateCStates c pr s))"
  by (auto simp: updateCStates_def intro!: applyCStates_frame split: option.split)

lemma cstates_cong: "knowledge s = knowledge t \<Longrightarrow> cstatesInfoOf c s = cstatesInfoOf c t"
  by (simp only: cstatesInfoOf_def knowledge_fields(5) [of s t])

lemma cstates_wf_cong: "knowledge s = knowledge t \<Longrightarrow> cstates_wf s = cstates_wf t"
  by (simp only: cstates_wf_def cstates_cong [of s t])

lemma applyCState_Ret:
  assumes "applyCState c (n, b) s = (Ret (), t)"
  shows "contents (sys t) = (case map_of (cstatesInfoOf c s) n of None \<Rightarrow> contents (sys s)
      | Some i \<Rightarrow> (contents (sys s))(CPUFile c (cStateFile (StateNumber i) ''disable'') \<mapsto> (if b then ''0'' else ''1'')))"
  using assms by (auto simp: applyCState_def split: option.splits dest!: WriteFile_Ret)

lemma cstate_number_unique:
  assumes "cstates_wf s" "map_of (cstatesInfoOf c s) n = Some i" "map_of (cstatesInfoOf c s) m = Some j"
    and "StateNumber i = StateNumber j"
  shows "n = m"
proof -
  have "inj_on (\<lambda>(n, i). StateNumber i) (set (cstatesInfoOf c s))"
    using assms(1) by (simp add: cstates_wf_def distinct_map)
  from inj_onD [OF this, of "(n, i)" "(m, j)"] assms(2-4) show ?thesis by (auto dest!: map_of_SomeD)
qed

lemma forEach_applyCState:
  assumes "forEach (applyCState c) ds s = (Ret (), t)" "cstates_wf s" "distinct (map fst ds)"
    and "map_of (cstatesInfoOf c s) n = Some i"
  shows "contents (sys t) (CPUFile c (cStateFile (StateNumber i) ''disable'')) =
    (case map_of ds n of Some b \<Rightarrow> Some (if b then ''0'' else ''1'')
     | None \<Rightarrow> contents (sys s) (CPUFile c (cStateFile (StateNumber i) ''disable'')))"
  using assms
proof (induction ds arbitrary: s)
  case (Cons d ds)
  obtain m b where d: "d = (m, b)" by (cases d)
  from Cons.prems(1) obtain s1 where s1: "applyCState c (m, b) s = (Ret (), s1)"
    "forEach (applyCState c) ds s1 = (Ret (), t)" by (auto simp: andThen_Ret_iff d)
  have k: "knowledge s1 = knowledge s"
    using touches_knowledge [OF applyCState_frame [of c s "(m, b)"]] s1(1) by simp
  have ih: "contents (sys t) (CPUFile c (cStateFile (StateNumber i) ''disable'')) =
    (case map_of ds n of Some b \<Rightarrow> Some (if b then ''0'' else ''1'')
     | None \<Rightarrow> contents (sys s1) (CPUFile c (cStateFile (StateNumber i) ''disable'')))"
    using Cons.prems s1(2) by (intro Cons.IH) (simp_all add: cstates_wf_cong [OF k] cstates_cong [OF k])
  have "map_of ds m = None" using Cons.prems(3) d by (simp add: map_of_eq_None_iff)
  moreover have "n = m" if "map_of (cstatesInfoOf c s) m = Some j" "StateNumber j = StateNumber i" for j
    using cstate_number_unique [OF Cons.prems(2)] Cons.prems(4) that by metis
  ultimately show ?case
    using ih applyCState_Ret [OF s1(1)] Cons.prems(4) d by (auto split: option.splits)
qed simp

text \<open>What a configuration asks of one idle state.\<close>

fun wantedCState :: "cstatesImpl option \<Rightarrow> string \<Rightarrow> cstateInfo \<Rightarrow> bool" where
  "wantedCState None n i = DefaultStatus i"
| "wantedCState (Some cs) n i = (case maxLatencyUs cs of
      Some l \<Rightarrow> Latency i \<le> l
    | None \<Rightarrow> (case map_of (states cs) n of Some b \<Rightarrow> b | None \<Rightarrow> DefaultStatus i))"

lemma updateCStates_forEach:
  assumes "isFeatureIDSupported (featureList s) CStatesFeature" "distinct (map fst (cstatesInfoOf c s))"
  shows "updateCStates c pr s
    = forEach (applyCState c) (map (\<lambda>(n, i). (n, wantedCState pr n i)) (cstatesInfoOf c s)) s"
proof -
  have "configCStatesByLatency c l s
      = \<lparr>states = map (\<lambda>(n, i). (n, Latency i \<le> l)) (cstatesInfoOf c s), maxLatencyUs = None\<rparr>" for l
    unfolding configCStatesByLatency_def
    by (subst foldl_update_range [OF assms(2), where f = "\<lambda>n i. Latency i \<le> l"]) simp_all
  moreover have "configCStatesByNames c ns s
      = \<lparr>states = map (\<lambda>(n, i). (n, case map_of ns n of Some b \<Rightarrow> b | None \<Rightarrow> DefaultStatus i)) (cstatesInfoOf c s),
         maxLatencyUs = None\<rparr>" for ns
    unfolding configCStatesByNames_def
    by (subst foldl_update_range [OF assms(2), where f = "\<lambda>n i. case map_of ns n of Some b \<Rightarrow> b | None \<Rightarrow> DefaultStatus i"])
      (simp_all split: option.split)
  moreover have "getDefaultCStatesStatus c s = map (\<lambda>(n, i). (n, DefaultStatus i)) (cstatesInfoOf c s)"
    unfolding getDefaultCStatesStatus_def
    by (subst foldl_update_range [OF assms(2), where f = "\<lambda>n i. DefaultStatus i"]) simp_all
  ultimately show ?thesis
    using assms(1) by (cases pr) (auto simp: updateCStates_def applyCStates_def split: option.split)
qed

lemma updateCStates_state:
  assumes "updateCStates c pr s = (Ret (), t)"
    and "isFeatureIDSupported (featureList s) CStatesFeature" "cstates_wf s"
    and "(n, i) \<in> set (cstatesInfoOf c s)"
  shows "contents (sys t) (CPUFile c (cStateFile (StateNumber i) ''disable''))
           = Some (if wantedCState pr n i then ''0'' else ''1'')"
proof -
  let ?ds = "map (\<lambda>(n, i). (n, wantedCState pr n i)) (cstatesInfoOf c s)"
  have d: "distinct (map fst (cstatesInfoOf c s))" using assms(3) by (simp add: cstates_wf_def)
  then have m: "map_of (cstatesInfoOf c s) n = Some i" using assms(4) by simp
  have dd: "distinct (map fst ?ds)" using d by (simp add: comp_def case_prod_unfold)
  have "(n, wantedCState pr n i) \<in> set ?ds" using assms(4) by force
  with dd have w: "map_of ?ds n = Some (wantedCState pr n i)" by (rule map_of_is_SomeI)
  have "forEach (applyCState c) ?ds s = (Ret (), t)"
    using assms(1) updateCStates_forEach [OF assms(2) d, of pr] by simp
  from forEach_applyCState [OF this assms(3) dd m] w show ?thesis by simp
qed

text \<open>
  C16. A successful \<^verbatim>\<open>updateCStates\<close> leaves every known idle state of the CPU as the configuration
  asks: with a maximum latency, enabled exactly when its latency does not exceed it; with names,
  as named, and at its default when not named; without a configuration, at its default.  It
  changes no other file.
\<close>

theorem updateCStates_result:
  assumes "updateCStates c pr s = (Ret (), t)"
    and "isFeatureIDSupported (featureList s) CStatesFeature" "cstates_wf s"
    and "(n, i) \<in> set (cstatesInfoOf c s)"
  shows "contents (sys t) (CPUFile c (cStateFile (StateNumber i) ''disable''))
           = Some (if wantedCState pr n i then ''0'' else ''1'')
      \<and> (\<forall>p. (\<nexists>k. p = CPUFile c (cStateFile k ''disable'')) \<longrightarrow> contents (sys t) p = contents (sys s) p)"
proof -
  have "touches (cstateFiles c) s t" using updateCStates_frame [of c s pr] assms(1) by simp
  with updateCStates_state [OF assms] show ?thesis by (auto simp: touches_def cstateFiles_def)
qed

interpretation cstateWrites: total_keeping "applyCState c" "\<lambda>_. True" for c
  by unfold_locales (auto simp: applyCState_def split: option.split)

lemma updateCStates_no_panic: "\<not> isPanic (fst (updateCStates c pr s))"
  by (auto simp: updateCStates_def applyCStates_def cstateWrites.forEach_no_panic split: option.split)

section \<open>The properties at a concrete CPU\<close>

definition idleCPU :: hw where
  "idleCPU = (machine [] [] [])\<lparr>
     featureList := [(CStatesFeature, \<lparr>feature_name = '''', feature_driver = '''', feature_err = None\<rparr>)],
     allCPUCStatesInfo := [(0, [(''C1'', \<lparr>StateNumber = 1, Latency = 2, DefaultStatus = True\<rparr>),
                                (''C6'', \<lparr>StateNumber = 2, Latency = 100, DefaultStatus = True\<rparr>)])]\<rparr>"

theorem updateCStates_result_witness:
  "contents (sys (snd (updateCStates 0 (Some \<lparr>states = [], maxLatencyUs = Some 10\<rparr>) idleCPU)))
     (CPUFile 0 ''cpuidle/state2/disable'') = Some ''1''"
proof -
  let ?p = "Some \<lparr>states = [], maxLatencyUs = Some 10\<rparr>"
  let ?i = "\<lparr>StateNumber = 2, Latency = 100, DefaultStatus = True\<rparr>"
  have "updateCStates 0 ?p idleCPU = (Ret (), snd (updateCStates 0 ?p idleCPU))"
    by (rule Ret_run) code_simp
  moreover have "isFeatureIDSupported (featureList idleCPU) CStatesFeature" by code_simp
  moreover have "cstates_wf idleCPU" by (simp add: cstates_wf_def cstatesInfoOf_def idleCPU_def)
  moreover have "(''C6'', ?i) \<in> set (cstatesInfoOf 0 idleCPU)" by (simp add: cstatesInfoOf_def idleCPU_def)
  ultimately have "contents (sys (snd (updateCStates 0 ?p idleCPU))) (CPUFile 0 (cStateFile 2 ''disable'')) = Some ''1''"
    using updateCStates_result [of 0 ?p idleCPU _ "''C6''" ?i] by simp
  moreover have "cStateFile 2 ''disable'' = ''cpuidle/state2/disable''" by code_simp
  ultimately show ?thesis by simp
qed

end
