(* ===== verification/Profiles.thy ===== *)
theory Profiles
  imports PStates CStates
begin

text \<open>
  Power profiles, \<^verbatim>\<open>internal/power/power_profile.go\<close>: completion of missing frequency limits,
  validation of the P-state and C-state parts, and construction.  The facts: what an accepted
  profile guarantees, that an accepted numeric profile can be applied to every CPU when the
  machine's lowest frequency is a whole number of MHz, and what happens when it is not.
\<close>

section \<open>Model\<close>

record Profile =
  prof_name :: string
  prof_pstates :: pstatesImpl
  prof_cstates :: cstatesImpl

definition zeroIntOrString :: IntOrString where
  "zeroIntOrString = \<lparr>Type = IsInt, IntVal = 0, StrVal = ''''\<rparr>"

definition AdjustMinMaxFreq ::
  "IntOrString option \<Rightarrow> IntOrString option \<Rightarrow> hw \<Rightarrow> (IntOrString \<times> IntOrString) gores" where
  "AdjustMinMaxFreq mn mx s = (case getAbsMinMaxFreq (coreTypes s) of
      Ret (absMin, absMax) \<Rightarrow>
        (let (finalMinFreq, finalMaxFreq) = (case (mn, mx) of
            (None, Some m) \<Rightarrow>
              (if Type m = IsInt then FromInt (to_int64 (absMin div 1000))
               else if Type m = IsString then FromString ''0%'' else zeroIntOrString, m)
          | (Some m, None) \<Rightarrow>
              (m, if Type m = IsInt then FromInt (to_int64 (absMax div 1000))
                  else if Type m = IsString then FromString ''100%'' else zeroIntOrString)
          | (None, None) \<Rightarrow> (FromString ''0%'', FromString ''100%'')
          | (Some m, Some m') \<Rightarrow> (m, m'))
         in if Type finalMinFreq \<noteq> Type finalMaxFreq
            then Fail (Unavailable ''max and min frequency must be either numeric or percentage'')
            else Ret (finalMinFreq, finalMaxFreq))
    | Fail e \<Rightarrow> Fail e
    | Panic m \<Rightarrow> Panic m)"

definition checkGov :: "string \<Rightarrow> hw \<Rightarrow> bool" where
  "checkGov gov s \<longleftrightarrow> gov \<in> set (availableGovs s)"

text \<open>The switch on the type of the limits.\<close>

definition validateFreqs :: "IntOrString \<Rightarrow> IntOrString \<Rightarrow> int \<times> int \<Rightarrow> unit gores" where
  "validateFreqs mn mx absFreqs =
     (if Type mn = IsInt then
        (if IntVal mn < 0 then Fail (Msg ''min frequency must be a non-negative integer'')
         else if IntVal mx < IntVal mn then Fail (Msg ''max frequency cannot be lower than the min frequency'')
         else if IntVal mn < to_int32 (fst absFreqs div 1000) \<or> IntVal mx > to_int32 (snd absFreqs div 1000)
         then Fail (Msg ''max and min frequency must be within the range'')
         else Ret ())
      else if Type mn = IsString then
        (case Atoi (TrimSuffix (StrVal mn) ''%'') of
           None \<Rightarrow> Fail (Wrap ''invalid min frequency'' (Msg ''strconv.Atoi''))
         | Some minFreqValInt \<Rightarrow>
             (case Atoi (TrimSuffix (StrVal mx) ''%'') of
                None \<Rightarrow> Fail (Wrap ''invalid max frequency'' (Msg ''strconv.Atoi''))
              | Some maxFreqValInt \<Rightarrow>
                  if maxFreqValInt < minFreqValInt
                  then Fail (Msg ''max frequency cannot be lower than the min frequency'')
                  else Ret ()))
      else Fail (Unavailable ''max and min frequency must be either Int or String''))"

definition ValidatePStates :: "IntOrString \<Rightarrow> IntOrString \<Rightarrow> string \<Rightarrow> string \<Rightarrow> hw \<Rightarrow> unit gores" where
  "ValidatePStates mn mx gov ep s =
     (if Type mn \<noteq> Type mx then Fail (Unavailable ''max and min frequency must be either numeric or percentage'')
      else (case getAbsMinMaxFreq (coreTypes s) of
        Ret absFreqs \<Rightarrow>
          (case validateFreqs mn mx absFreqs of
             Ret u \<Rightarrow>
               (let gov1 = (if gov = '''' then defaultGovernor else gov) in
                if \<not> checkGov gov1 s then Fail (Msg (''governor '' @ gov1 @ '' is not supported''))
                else if ep \<noteq> '''' \<and> gov1 = cpuPolicyPerformance \<and> ep \<noteq> cpuPolicyPerformance
                then Fail (Msg ''only performance epp can be used with performance governor'')
                else Ret ())
           | Fail e \<Rightarrow> Fail e
           | Panic m \<Rightarrow> Panic m)
      | Fail e \<Rightarrow> Fail e
      | Panic m \<Rightarrow> Panic m))"

fun validateCStateNames :: "(string \<times> bool) list \<Rightarrow> hw \<Rightarrow> unit gores" where
  "validateCStateNames [] s = Ret ()"
| "validateCStateNames ((n, b) # rest) s =
     (if n \<notin> set (GetAvailableCStates s) then Fail (Msg (''c-state '' @ n @ '' does not exist on this system''))
      else validateCStateNames rest s)"

definition ValidateCStates :: "(string \<times> bool) list \<Rightarrow> int option \<Rightarrow> hw \<Rightarrow> unit gores" where
  "ValidateCStates sts maxLat s =
     (if length sts > 0 \<and> maxLat \<noteq> None
      then Fail (Msg ''cannot specify both explicit C-state names and latency-based configuration'')
      else if (case maxLat of None \<Rightarrow> False | Some l \<Rightarrow> l < 0)
      then Fail (Msg ''maxLatencyUs must be a non-negative integer'')
      else if length sts > 0 then validateCStateNames sts s
      else Ret ())"

definition toKHz :: "IntOrString \<Rightarrow> IntOrString" where
  "toKHz f = (if Type f = IsInt then FromInt (to_int32 (IntVal f * 1000)) else f)"

definition wrapRes :: "string \<Rightarrow> 'a gores \<Rightarrow> 'a gores" where
  "wrapRes p r = (case r of Fail e \<Rightarrow> Fail (Wrap p e) | _ \<Rightarrow> r)"

definition bindRes :: "'a gores \<Rightarrow> ('a \<Rightarrow> 'b gores) \<Rightarrow> 'b gores" where
  "bindRes r f = (case r of Ret a \<Rightarrow> f a | Fail e \<Rightarrow> Fail e | Panic m \<Rightarrow> Panic m)"

definition NewPowerProfile ::
  "string \<Rightarrow> IntOrString option \<Rightarrow> IntOrString option \<Rightarrow> string \<Rightarrow> string \<Rightarrow> (string \<times> bool) list \<Rightarrow> int option
    \<Rightarrow> hw \<Rightarrow> Profile gores" where
  "NewPowerProfile name mn mx gov ep csts maxLat s =
     (if \<not> isFeatureIDSupported (featureList s) FrequencyScalingFeature
      then Fail (the (getFeatureIDError (featureList s) FrequencyScalingFeature))
      else bindRes (wrapRes ''invalid P-states configuration'' (AdjustMinMaxFreq mn mx s)) (\<lambda>(finalMinFreq, finalMaxFreq).
           bindRes (wrapRes ''invalid P-states configuration''
             (ValidatePStates finalMinFreq finalMaxFreq gov ep s)) (\<lambda>_.
           if \<not> isFeatureIDSupported (featureList s) CStatesFeature
           then Fail (the (getFeatureIDError (featureList s) CStatesFeature))
           else bindRes (wrapRes ''invalid C-states configuration'' (ValidateCStates csts maxLat s)) (\<lambda>_.
             Ret \<lparr>prof_name = name,
                  prof_pstates = \<lparr>minFreq = toKHz finalMinFreq, maxFreq = toKHz finalMaxFreq, epp = ep, governor = gov\<rparr>,
                  prof_cstates = \<lparr>states = csts, maxLatencyUs = maxLat\<rparr>\<rparr>))))"

section \<open>What an accepted profile guarantees\<close>

lemma wrapRes_Ret [simp]: "wrapRes p r = Ret a \<longleftrightarrow> r = Ret a"
  by (cases r) (simp_all add: wrapRes_def)

lemma bindRes_Ret [simp]: "bindRes r f = Ret b \<longleftrightarrow> (\<exists>a. r = Ret a \<and> f a = Ret b)"
  by (cases r) (simp_all add: bindRes_def)

lemma bindRes_isPanic: "isPanic (bindRes r f) \<longleftrightarrow> isPanic r \<or> (\<exists>a. r = Ret a \<and> isPanic (f a))"
  by (cases r) (simp_all add: bindRes_def)

lemma wrapRes_isPanic [simp]: "isPanic (wrapRes p r) = isPanic r"
  by (cases r) (simp_all add: wrapRes_def)

lemma validateCStateNames_Ret:
  "validateCStateNames sts s = Ret () \<longleftrightarrow> fst ` set sts \<subseteq> set (GetAvailableCStates s)"
  by (induction sts s rule: validateCStateNames.induct) auto

lemma foldl_once: "set (foldl (\<lambda>acc x. if x \<in> set acc then acc else acc @ [x]) ys xs) = set ys \<union> set xs"
  by (induction xs arbitrary: ys) auto

lemma GetAvailableCStates_set:
  "set (GetAvailableCStates s) = {n. \<exists>(c, m) \<in> set (allCPUCStatesInfo s). n \<in> fst ` set m}"
  unfolding GetAvailableCStates_def foldl_once by (auto simp: case_prod_unfold)

lemma NewPowerProfile_Ret:
  assumes "NewPowerProfile name mn mx gov ep csts maxLat s = Ret p"
  obtains f g where "AdjustMinMaxFreq mn mx s = Ret (f, g)" "ValidatePStates f g gov ep s = Ret ()"
    "ValidateCStates csts maxLat s = Ret ()"
    "isFeatureIDSupported (featureList s) FrequencyScalingFeature"
    "p = \<lparr>prof_name = name, prof_pstates = \<lparr>minFreq = toKHz f, maxFreq = toKHz g, epp = ep, governor = gov\<rparr>,
          prof_cstates = \<lparr>states = csts, maxLatencyUs = maxLat\<rparr>\<rparr>"
  using assms by (auto simp: NewPowerProfile_def split: if_splits)

text \<open>
  The frequency range of a machine as the library records it: some core type is known, minima are
  not negative, maxima fit into 32 bits (in kHz), and the known CPUs lie inside the range.
\<close>

definition machine_range :: "hw \<Rightarrow> int \<Rightarrow> int \<Rightarrow> bool" where
  "machine_range s lo hi \<longleftrightarrow> coreTypes s \<noteq> [] \<and> lo = Min (fst ` set (coreTypes s)) \<and> hi = Max (snd ` set (coreTypes s))
     \<and> 0 \<le> lo \<and> lo < 2 ^ 31 \<and> 0 \<le> hi \<and> hi < 2 ^ 31"

lemma machine_rangeD:
  assumes "machine_range s lo hi"
  shows "coreTypes s \<noteq> []" "lo = Min (fst ` set (coreTypes s))" "hi = Max (snd ` set (coreTypes s))"
    "0 \<le> lo" "lo < 2 ^ 31" "0 \<le> hi" "hi < 2 ^ 31"
  using assms unfolding machine_range_def by blast+

lemma machine_range_get: "machine_range s lo hi \<Longrightarrow> getAbsMinMaxFreq (coreTypes s) = Ret (lo, hi)"
  by (simp add: machine_range_def getAbsMinMaxFreq_extremes)

lemma validateFreqs_int:
  assumes "validateFreqs f g (lo, hi) = Ret ()" "Type f = 0" "0 \<le> lo" "lo < 2 ^ 31" "0 \<le> hi" "hi < 2 ^ 31"
  shows "0 \<le> IntVal f" "IntVal f \<le> IntVal g" "lo div 1000 \<le> IntVal f" "IntVal g * 1000 \<le> hi"
proof -
  have "to_int32 (lo div 1000) = lo div 1000" "to_int32 (hi div 1000) = hi div 1000" using assms by simp_all
  then have "0 \<le> IntVal f" "IntVal f \<le> IntVal g" "lo div 1000 \<le> IntVal f" "IntVal g \<le> hi div 1000"
    using assms by (simp_all add: validateFreqs_def split: if_splits)
  moreover have "hi div 1000 * 1000 \<le> hi" using assms by simp
  ultimately show "0 \<le> IntVal f" "IntVal f \<le> IntVal g" "lo div 1000 \<le> IntVal f" "IntVal g * 1000 \<le> hi"
    by simp_all
qed

lemma toKHz_int:
  assumes "Type f = 0" "0 \<le> IntVal f" "IntVal f * 1000 < 2 ^ 31"
  shows "Type (toKHz f) = 0" "IntVal (toKHz f) = IntVal f * 1000"
  using assms by (simp_all add: toKHz_def FromInt_def)

lemma toKHz_Type [simp]: "Type (toKHz f) = Type f"
  by (simp add: toKHz_def FromInt_def)

lemma ValidatePStates_Ret:
  assumes "ValidatePStates f g gov ep s = Ret ()"
  shows "Type f = Type g" "\<exists>r. getAbsMinMaxFreq (coreTypes s) = Ret r \<and> validateFreqs f g r = Ret ()"
    "(if gov = '''' then ''powersave'' else gov) \<in> set (availableGovs s)"
    "ep \<noteq> '''' \<Longrightarrow> gov = ''performance'' \<Longrightarrow> ep = ''performance''"
  using assms by (auto simp: ValidatePStates_def checkGov_def Let_def split: if_splits gores.splits)

lemma accepted_numeric:
  assumes "NewPowerProfile name mn mx gov ep csts maxLat s = Ret p" "machine_range s lo hi"
    and "Type (minFreq (prof_pstates p)) = 0"
  shows "Type (maxFreq (prof_pstates p)) = 0" "0 \<le> IntVal (minFreq (prof_pstates p))"
    "lo div 1000 * 1000 \<le> IntVal (minFreq (prof_pstates p))"
    "IntVal (minFreq (prof_pstates p)) \<le> IntVal (maxFreq (prof_pstates p))"
    "IntVal (maxFreq (prof_pstates p)) \<le> hi"
proof -
  from assms(1) obtain f g where a: "ValidatePStates f g gov ep s = Ret ()"
    and p: "minFreq (prof_pstates p) = toKHz f" "maxFreq (prof_pstates p) = toKHz g"
    by (elim NewPowerProfile_Ret) simp
  have r: "0 \<le> lo" "lo < 2 ^ 31" "0 \<le> hi" "hi < 2 ^ 31" using machine_rangeD [OF assms(2)] by blast+
  have t: "Type f = 0" "Type g = 0" using assms(3) p ValidatePStates_Ret(1) [OF a] by simp_all
  have v: "validateFreqs f g (lo, hi) = Ret ()"
    using ValidatePStates_Ret(2) [OF a] machine_range_get [OF assms(2)] by simp
  note b = validateFreqs_int [OF v t(1) r]
  have "IntVal f * 1000 < 2 ^ 31" "IntVal g * 1000 < 2 ^ 31" using b r(4) by linarith+
  then show "Type (maxFreq (prof_pstates p)) = 0" "0 \<le> IntVal (minFreq (prof_pstates p))"
    "lo div 1000 * 1000 \<le> IntVal (minFreq (prof_pstates p))"
    "IntVal (minFreq (prof_pstates p)) \<le> IntVal (maxFreq (prof_pstates p))"
    "IntVal (maxFreq (prof_pstates p)) \<le> hi"
    using p t b toKHz_int [of f] toKHz_int [of g] by simp_all
qed


text \<open>
  C19. An accepted numeric profile can be applied to every CPU of the machine, whatever the CPU's
  own range, when the machine's lowest frequency is a whole number of MHz and the file system
  accepts the writes.
\<close>

theorem accepted_profile_applies:
  assumes "NewPowerProfile name mn mx gov ep csts maxLat s = Ret p"
    and "Type (minFreq (prof_pstates p)) = 0"
    and "machine_range s lo hi" "lo mod 1000 = 0"
    and "c < length (allCPUDefaultPStatesInfo s)" "\<And>n. \<not> faults (sys s) n"
  shows "\<exists>t. setDriverValues c (prof_pstates p) s = (Ret (), t)"
proof -
  note n = accepted_numeric [OF assms(1,3,2)]
  have r: "hi < 2 ^ 31" "coreTypes s \<noteq> []" "lo = Min (fst ` set (coreTypes s))" "hi = Max (snd ` set (coreTypes s))"
    using machine_rangeD [OF assms(3)] by blast+
  have u: "to_uint64 (IntVal (minFreq (prof_pstates p))) = IntVal (minFreq (prof_pstates p))"
    "to_uint64 (IntVal (maxFreq (prof_pstates p))) = IntVal (maxFreq (prof_pstates p))"
    using n r(1) by simp_all
  have g: "getFreqsToScale c (prof_pstates p) s
      = Ret (IntVal (minFreq (prof_pstates p)), IntVal (maxFreq (prof_pstates p)))"
    using assms(2,5) n(1) u by (simp add: getFreqsToScale_def getFreqFromIntOrString_def Let_def)
  have "lo div 1000 * 1000 = lo" using assms(4) by auto
  then have "IntVal (maxFreq (prof_pstates p)) \<le> Max (snd ` set (coreTypes s))"
    "Min (fst ` set (coreTypes s)) \<le> IntVal (minFreq (prof_pstates p))"
    using n(3,5) r(3,4) by simp_all
  moreover have "isFeatureIDSupported (featureList s) FrequencyScalingFeature"
    using assms(1) by (elim NewPowerProfile_Ret)
  ultimately show ?thesis
    by (intro setDriverValues_succeeds [OF assms(6) _ assms(5) r(2) g])
qed

text \<open>
  When the machine's lowest frequency is not a whole number of MHz, a profile that gives only
  a numeric maximum is accepted, its minimum completed by the lowest frequency rounded down, and
  then no CPU can apply it: \<^verbatim>\<open>setDriverValues\<close> never succeeds.
\<close>

theorem completed_minimum_not_applicable:
  assumes "NewPowerProfile name None (Some m) gov ep csts maxLat s = Ret p" "Type m = 0"
    and "machine_range s lo hi" "lo mod 1000 \<noteq> 0"
    and "GetAbsMinMax c s = Ret (amin, amax)" "lo \<le> amin"
  shows "fst (setDriverValues c (prof_pstates p) s) \<noteq> Ret ()"
proof
  assume "fst (setDriverValues c (prof_pstates p) s) = Ret ()"
  then have run: "setDriverValues c (prof_pstates p) s = (Ret (), snd (setDriverValues c (prof_pstates p) s))"
    by (rule Ret_run)
  have lo: "0 \<le> lo" "lo < 2 ^ 31" using machine_rangeD [OF assms(3)] by blast+
  from assms(1) obtain f g where a: "AdjustMinMaxFreq None (Some m) s = Ret (f, g)"
    and p: "minFreq (prof_pstates p) = toKHz f" by (elim NewPowerProfile_Ret) simp
  have "f = FromInt (lo div 1000)"
    using a assms(2) lo machine_range_get [OF assms(3)] by (simp add: AdjustMinMaxFreq_def split: if_splits)
  moreover have b: "lo div 1000 * 1000 \<le> lo" by simp
  ultimately have f: "Type f = 0" "IntVal f = lo div 1000" "IntVal f * 1000 < 2 ^ 31"
    using lo by (simp_all add: FromInt_def)
  have mnp: "Type (minFreq (prof_pstates p)) = 0" "IntVal (minFreq (prof_pstates p)) = lo div 1000 * 1000"
    using toKHz_int [OF f(1) _ f(3)] f(2) lo p by simp_all
  have "lo = lo div 1000 * 1000 + lo mod 1000" by simp
  then have lt: "lo div 1000 * 1000 < lo" using assms(4) lo(1) by (smt (verit) pos_mod_sign)
  from run show False
  proof (rule setDriverValues_Ret)
    fix amin' amax' smin smax rmin rmax
    assume h: "GetAbsMinMax c s = Ret (amin', amax')" "getAbsMinMaxFreq (coreTypes s) = Ret (smin, smax)"
      "getFreqsToScale c (prof_pstates p) s = Ret (rmin, rmax)" "min amin' smin \<le> rmin"
    have "rmin = lo div 1000 * 1000"
      using h(3) mnp lo b by (auto simp: getFreqsToScale_def getFreqFromIntOrString_def Let_def
          split: if_splits gores.splits)
    then show False using h machine_range_get [OF assms(3)] assms(5,6) lt by simp
  qed
qed

section \<open>The properties at concrete machines\<close>

definition oneSocket :: "int \<Rightarrow> int \<Rightarrow> hw" where
  "oneSocket lo hi = (machine [(lo, hi)] [pstatesFromTo lo hi] [])\<lparr>
     featureList := map (\<lambda>f. (f, \<lparr>feature_name = '''', feature_driver = '''', feature_err = None\<rparr>))
       [FrequencyScalingFeature, CStatesFeature]\<rparr>"

lemma oneSocket_range: "0 \<le> lo \<Longrightarrow> lo \<le> hi \<Longrightarrow> hi < 2 ^ 31 \<Longrightarrow> machine_range (oneSocket lo hi) lo hi"
  by (simp add: machine_range_def oneSocket_def machine_def)

lemma oneSocket_profile:
  "\<exists>p. NewPowerProfile ''p'' None (Some (FromInt 2)) ''powersave'' '''' [] None (oneSocket 1000 3000) = Ret p
     \<and> Type (minFreq (prof_pstates p)) = 0"
  "\<exists>p. NewPowerProfile ''p'' None (Some (FromInt 2)) ''powersave'' '''' [] None (oneSocket 1500 3000) = Ret p"
proof -
  have "isRet (NewPowerProfile ''p'' None (Some (FromInt 2)) ''powersave'' '''' [] None (oneSocket 1000 3000))"
    "isRet (NewPowerProfile ''p'' None (Some (FromInt 2)) ''powersave'' '''' [] None (oneSocket 1500 3000))"
    "(case NewPowerProfile ''p'' None (Some (FromInt 2)) ''powersave'' '''' [] None (oneSocket 1000 3000) of
        Ret p \<Rightarrow> Type (minFreq (prof_pstates p)) = 0 | _ \<Rightarrow> True)"
    by code_simp+
  then show
    "\<exists>p. NewPowerProfile ''p'' None (Some (FromInt 2)) ''powersave'' '''' [] None (oneSocket 1000 3000) = Ret p
       \<and> Type (minFreq (prof_pstates p)) = 0"
    "\<exists>p. NewPowerProfile ''p'' None (Some (FromInt 2)) ''powersave'' '''' [] None (oneSocket 1500 3000) = Ret p"
    by (auto simp: isRet_iff)
qed


theorem accepted_profile_applies_witness:
  "\<exists>p t. NewPowerProfile ''p'' None (Some (FromInt 2)) ''powersave'' '''' [] None (oneSocket 1000 3000) = Ret p
     \<and> setDriverValues 0 (prof_pstates p) (oneSocket 1000 3000) = (Ret (), t)"
proof -
  obtain p where p: "NewPowerProfile ''p'' None (Some (FromInt 2)) ''powersave'' '''' [] None (oneSocket 1000 3000) = Ret p"
    "Type (minFreq (prof_pstates p)) = 0" using oneSocket_profile(1) by blast
  have "\<exists>t. setDriverValues 0 (prof_pstates p) (oneSocket 1000 3000) = (Ret (), t)"
    by (rule accepted_profile_applies [OF p oneSocket_range]) (simp_all add: oneSocket_def machine_def)
  with p show ?thesis by blast
qed

theorem completed_minimum_not_applicable_witness:
  "\<exists>p. NewPowerProfile ''p'' None (Some (FromInt 2)) ''powersave'' '''' [] None (oneSocket 1500 3000) = Ret p
     \<and> fst (setDriverValues 0 (prof_pstates p) (oneSocket 1500 3000)) \<noteq> Ret ()"
proof -
  obtain p where p: "NewPowerProfile ''p'' None (Some (FromInt 2)) ''powersave'' '''' [] None (oneSocket 1500 3000) = Ret p"
    using oneSocket_profile(2) by blast
  have "GetAbsMinMax 0 (oneSocket 1500 3000) = Ret (1500, 3000)" by code_simp
  then show ?thesis
    using completed_minimum_not_applicable [OF p _ oneSocket_range] p by (force simp: FromInt_def)
qed

end
