(* ===== verification/Topology.thy ===== *)
theory Topology
  imports PStates
begin

text \<open>
  The CPU topology, \<^verbatim>\<open>internal/power/topology.go\<close> and \<^verbatim>\<open>newCPU\<close> of \<^verbatim>\<open>cpu.go\<close>: packages, their dies
  (x86) or clusters (ARM), their cores, and the discovery that places every CPU.  Each level is a
  record with a map of its children; a child's pointer to its parent is the position in the
  structure.  Adding a CPU that fails half way keeps the entries already created, as in the
  code.  Discovery that succeeds has filled every slot of the list of all CPUs with its own
  CPU, and has put every CPU into exactly one package, one die or cluster, and one core.
\<close>

section \<open>Data\<close>

abbreviation "packageIDFile \<equiv> ''topology/physical_package_id''"
abbreviation "dieIDFile \<equiv> ''topology/die_id''"
abbreviation "coreIDFile \<equiv> ''topology/core_id''"
abbreviation "clusterIDFile \<equiv> ''topology/cluster_id''"

record cpuCore =
  core_id :: int
  core_cpus :: "nat list"
  coreType :: nat

record cpuDie =
  die_id :: int
  die_uncore :: "uncoreFreq option"
  die_cores :: "(int \<times> cpuCore) list"
  die_cpus :: "nat list"

record cpuCluster =
  cluster_id :: int
  cluster_cores :: "(int \<times> cpuCore) list"
  cluster_cpus :: "nat list"

record cpuPackage =
  package_id :: int
  package_uncore :: "uncoreFreq option"
  package_cpus :: "nat list"
  package_dies :: "(int \<times> cpuDie) list"
  package_clusters :: "(int \<times> cpuCluster) list"

record cpuTopology =
  packages :: "(int \<times> cpuPackage) list"
  topology_cpus :: "nat option list"
  topology_uncore :: "uncoreFreq option"
  architecture :: string

section \<open>Adding a CPU, level by level\<close>

text \<open>
  An operation on an object of the topology: an outcome, the object afterwards and the machine
  afterwards (new core types are recorded there).
\<close>

type_synonym 'o adder = "nat \<Rightarrow> 'o \<Rightarrow> hw \<Rightarrow> unit gores \<times> 'o \<times> hw"

definition readCPUFreqLimits :: "nat \<Rightarrow> hw \<Rightarrow> (int \<times> int) gores" where
  "readCPUFreqLimits i s = (case readCPUUintProperty i cpuMaxFreqFile s of
      Ret mx \<Rightarrow> (case readCPUUintProperty i cpuMinFreqFile s of
                  Ret mn \<Rightarrow> Ret (mn, mx) | Fail e \<Rightarrow> Fail e | Panic m \<Rightarrow> Panic m)
    | Fail e \<Rightarrow> Fail e
    | Panic m \<Rightarrow> Panic m)"

definition setType :: "nat \<Rightarrow> cpuCore \<Rightarrow> cpuCore" where
  "setType t c = c\<lparr>coreType := t\<rparr>"

definition newCPU :: "cpuCore adder" where
  "newCPU coreID core s =
     (if isFeatureIDSupported (featureList s) FrequencyScalingFeature then
        (case readCPUFreqLimits coreID s of
           Ret (mn, mx) \<Rightarrow>
             (case appendIfUnique (coreTypes s) mn mx of
                (cType, types) \<Rightarrow> (Ret (), setType cType core, s\<lparr>coreTypes := types\<rparr>))
         | Fail e \<Rightarrow> (Fail e, core, s)
         | Panic m \<Rightarrow> (Panic m, core, s))
      else (Ret (), core, s))"

definition core_addCPU :: "cpuCore adder" where
  "core_addCPU cpuID core s = (case newCPU cpuID core s of
      (Ret u, core1, s1) \<Rightarrow> (Ret (), core1\<lparr>core_cpus := core_cpus core1 @ [cpuID]\<rparr>, s1)
    | (Fail e, core1, s1) \<Rightarrow> (Fail e, core1, s1)
    | (Panic m, core1, s1) \<Rightarrow> (Panic m, core1, s1))"

text \<open>
  Adding to the child with a given key, which is created if it does not exist; the map of
  children holds the child afterwards, also after an error.
\<close>

definition addToChild :: "'o adder \<Rightarrow> (int \<Rightarrow> 'o) \<Rightarrow> int \<Rightarrow> (int \<times> 'o) list adder" where
  "addToChild add fresh k cpuID children s =
     (let child = (case map_of children k of Some c \<Rightarrow> c | None \<Rightarrow> fresh k) in
      (case add cpuID child s of (r, child1, s1) \<Rightarrow> (r, AList.update k child1 children, s1)))"

definition newCore :: "int \<Rightarrow> cpuCore" where
  "newCore k = \<lparr>core_id = k, core_cpus = [], coreType = 0\<rparr>"

definition die_addCPU :: "cpuDie adder" where
  "die_addCPU cpuID d s = (case readCPUUintProperty cpuID coreIDFile s of
      Ret coreID \<Rightarrow>
        (case addToChild core_addCPU newCore coreID cpuID (die_cores d) s of
           (Ret u, cores, s1) \<Rightarrow> (Ret (), d\<lparr>die_cores := cores, die_cpus := die_cpus d @ [cpuID]\<rparr>, s1)
         | (Fail e, cores, s1) \<Rightarrow> (Fail e, d\<lparr>die_cores := cores\<rparr>, s1)
         | (Panic m, cores, s1) \<Rightarrow> (Panic m, d\<lparr>die_cores := cores\<rparr>, s1))
    | Fail e \<Rightarrow> (Fail e, d, s)
    | Panic m \<Rightarrow> (Panic m, d, s))"

definition cluster_addCPU :: "cpuCluster adder" where
  "cluster_addCPU cpuID d s = (case readCPUUintProperty cpuID coreIDFile s of
      Ret coreID \<Rightarrow>
        (case addToChild core_addCPU newCore coreID cpuID (cluster_cores d) s of
           (Ret u, cores, s1) \<Rightarrow> (Ret (), d\<lparr>cluster_cores := cores, cluster_cpus := cluster_cpus d @ [cpuID]\<rparr>, s1)
         | (Fail e, cores, s1) \<Rightarrow> (Fail e, d\<lparr>cluster_cores := cores\<rparr>, s1)
         | (Panic m, cores, s1) \<Rightarrow> (Panic m, d\<lparr>cluster_cores := cores\<rparr>, s1))
    | Fail e \<Rightarrow> (Fail e, d, s)
    | Panic m \<Rightarrow> (Panic m, d, s))"

definition newDie :: "int \<Rightarrow> cpuDie" where
  "newDie k = \<lparr>die_id = k, die_uncore = None, die_cores = [], die_cpus = []\<rparr>"

definition newCluster :: "int \<Rightarrow> cpuCluster" where
  "newCluster k = \<lparr>cluster_id = k, cluster_cores = [], cluster_cpus = []\<rparr>"

definition package_addCPU :: "string \<Rightarrow> cpuPackage adder" where
  "package_addCPU arch cpuID c s =
     (if arch = '''' then (Fail (Msg ''empty CPU architecture in topology''), c, s)
      else if arch = ''x86_64'' then
        (case readCPUUintProperty cpuID dieIDFile s of
           Ret dieID \<Rightarrow>
             (case addToChild die_addCPU newDie dieID cpuID (package_dies c) s of
                (Ret u, dies, s1) \<Rightarrow> (Ret (), c\<lparr>package_dies := dies, package_cpus := package_cpus c @ [cpuID]\<rparr>, s1)
              | (Fail e, dies, s1) \<Rightarrow> (Fail e, c\<lparr>package_dies := dies\<rparr>, s1)
              | (Panic m, dies, s1) \<Rightarrow> (Panic m, c\<lparr>package_dies := dies\<rparr>, s1))
         | Fail e \<Rightarrow> (Fail e, c, s)
         | Panic m \<Rightarrow> (Panic m, c, s))
      else if arch = ''aarch64'' then
        (case readCPUUintProperty cpuID clusterIDFile s of
           Ret clusterID \<Rightarrow>
             (case addToChild cluster_addCPU newCluster clusterID cpuID (package_clusters c) s of
                (Ret u, cls, s1) \<Rightarrow>
                  (Ret (), c\<lparr>package_clusters := cls, package_cpus := package_cpus c @ [cpuID]\<rparr>, s1)
              | (Fail e, cls, s1) \<Rightarrow> (Fail e, c\<lparr>package_clusters := cls\<rparr>, s1)
              | (Panic m, cls, s1) \<Rightarrow> (Panic m, c\<lparr>package_clusters := cls\<rparr>, s1))
         | Fail e \<Rightarrow> (Fail e, c, s)
         | Panic m \<Rightarrow> (Panic m, c, s))
      else (Fail (Msg (''unsupported CPU architecture '' @ arch)), c, s))"

definition newPackage :: "int \<Rightarrow> cpuPackage" where
  "newPackage k = \<lparr>package_id = k, package_uncore = None, package_cpus = [], package_dies = [], package_clusters = []\<rparr>"

definition topology_addCPU :: "cpuTopology adder" where
  "topology_addCPU cpuID tp s = (case readCPUUintProperty cpuID packageIDFile s of
      Ret socketID \<Rightarrow>
        (case addToChild (package_addCPU (architecture tp)) newPackage socketID cpuID (packages tp) s of
           (Ret u, pkgs, s1) \<Rightarrow>
             if cpuID < length (topology_cpus tp)
             then (Ret (), tp\<lparr>packages := pkgs, topology_cpus := (topology_cpus tp)[cpuID := Some cpuID]\<rparr>, s1)
             else (Panic ''index out of range'', tp\<lparr>packages := pkgs\<rparr>, s1)
         | (Fail e, pkgs, s1) \<Rightarrow> (Fail e, tp\<lparr>packages := pkgs\<rparr>, s1)
         | (Panic m, pkgs, s1) \<Rightarrow> (Panic m, tp\<lparr>packages := pkgs\<rparr>, s1))
    | Fail e \<Rightarrow> (Fail e, tp, s)
    | Panic m \<Rightarrow> (Panic m, tp, s))"

fun addCPUs :: "nat list \<Rightarrow> cpuTopology \<Rightarrow> hw \<Rightarrow> unit gores \<times> cpuTopology \<times> hw" where
  "addCPUs [] tp s = (Ret (), tp, s)"
| "addCPUs (i # is) tp s = (case topology_addCPU i tp s of
      (Ret u, tp1, s1) \<Rightarrow> addCPUs is tp1 s1
    | (Fail e, tp1, s1) \<Rightarrow> (Fail e, tp1, s1)
    | (Panic m, tp1, s1) \<Rightarrow> (Panic m, tp1, s1))"

definition discoverTopology :: "string \<Rightarrow> hw \<Rightarrow> cpuTopology gores \<times> hw" where
  "discoverTopology arch s =
     (let numOfCores = getNumberOfCpus s in
      (case addCPUs [0..<numOfCores] \<lparr>packages = [], topology_cpus = replicate numOfCores None,
                                     topology_uncore = Some (defaultUncore s), architecture = arch\<rparr> s of
         (Ret u, tp, s1) \<Rightarrow> (Ret tp, s1)
       | (Fail e, tp, s1) \<Rightarrow> (Fail e, s1)
       | (Panic m, tp, s1) \<Rightarrow> (Panic m, s1)))"

section \<open>Queries\<close>

text \<open>The list of all CPUs; its slots are filled by discovery.\<close>

definition topology_CPUs :: "cpuTopology \<Rightarrow> nat list" where
  "topology_CPUs tp = map the (topology_cpus tp)"

definition Packages :: "cpuTopology \<Rightarrow> cpuPackage list" where
  "Packages tp = map snd (packages tp)"

definition Package :: "int \<Rightarrow> cpuTopology \<Rightarrow> cpuPackage option" where
  "Package i tp = map_of (packages tp) i"

definition Dies :: "cpuPackage \<Rightarrow> cpuDie list" where
  "Dies c = map snd (package_dies c)"

definition Die :: "int \<Rightarrow> cpuPackage \<Rightarrow> cpuDie option" where
  "Die i c = map_of (package_dies c) i"

definition die_Cores :: "cpuDie \<Rightarrow> cpuCore list" where
  "die_Cores d = map snd (die_cores d)"

definition die_Core :: "int \<Rightarrow> cpuDie \<Rightarrow> cpuCore option" where
  "die_Core i d = map_of (die_cores d) i"

definition cluster_Cores :: "cpuCluster \<Rightarrow> cpuCore list" where
  "cluster_Cores d = map snd (cluster_cores d)"

definition cluster_Core :: "int \<Rightarrow> cpuCluster \<Rightarrow> cpuCore option" where
  "cluster_Core i d = map_of (cluster_cores d) i"

section \<open>Every CPU is placed once on every level\<close>

text \<open>What adding a CPU records about the machine: at most new core types, among them the CPU's.\<close>

definition recorded :: "nat \<Rightarrow> unit gores \<Rightarrow> hw \<Rightarrow> hw \<Rightarrow> bool" where
  "recorded c r s s' \<longleftrightarrow> (\<exists>ts. s' = s\<lparr>coreTypes := ts\<rparr> \<and> set (coreTypes s) \<subseteq> set ts
     \<and> (r = Ret () \<and> isFeatureIDSupported (featureList s) FrequencyScalingFeature
          \<longrightarrow> (\<exists>lim. readCPUFreqLimits c s = Ret lim \<and> lim \<in> set ts)))"

lemma recorded_refl [simp]: "r \<noteq> Ret () \<Longrightarrow> recorded c r s s"
  by (auto simp: recorded_def intro: exI [of _ "coreTypes s"])

lemma recorded_weaken: "recorded c r s s' \<Longrightarrow> r' \<noteq> Ret () \<Longrightarrow> recorded c r' s s'"
  by (auto simp: recorded_def)

text \<open>The CPUs below a map of children, and: the children are well formed and share no CPU.\<close>

definition childCpus :: "('o \<Rightarrow> nat list) \<Rightarrow> (int \<times> 'o) list \<Rightarrow> nat set" where
  "childCpus cpus ch = (\<Union>(k, x) \<in> set ch. set (cpus x))"

definition childrenOk :: "('o \<Rightarrow> int) \<Rightarrow> ('o \<Rightarrow> nat list) \<Rightarrow> ('o \<Rightarrow> bool) \<Rightarrow> (int \<times> 'o) list \<Rightarrow> bool" where
  "childrenOk ident cpus ok ch \<longleftrightarrow> distinct (map fst ch) \<and> (\<forall>(k, x) \<in> set ch. ok x \<and> ident x = k)
     \<and> (\<forall>(k, x) \<in> set ch. \<forall>(l, y) \<in> set ch. k \<noteq> l \<longrightarrow> set (cpus x) \<inter> set (cpus y) = {})"

lemma childrenOkI:
  assumes "distinct (map fst ch)" "\<And>k x. (k, x) \<in> set ch \<Longrightarrow> ok x \<and> ident x = k"
    and "\<And>k x l y. (k, x) \<in> set ch \<Longrightarrow> (l, y) \<in> set ch \<Longrightarrow> k \<noteq> l \<Longrightarrow> set (cpus x) \<inter> set (cpus y) = {}"
  shows "childrenOk ident cpus ok ch"
  unfolding childrenOk_def using assms by blast

lemma childrenOkD:
  assumes "childrenOk ident cpus ok ch"
  shows "distinct (map fst ch)" "(k, x) \<in> set ch \<Longrightarrow> ok x \<and> ident x = k"
    "(k, x) \<in> set ch \<Longrightarrow> (l, y) \<in> set ch \<Longrightarrow> k \<noteq> l \<Longrightarrow> set (cpus x) \<inter> set (cpus y) = {}"
  using assms unfolding childrenOk_def by blast+

lemma children_empty [simp]: "childrenOk ident cpus ok []" "childCpus cpus [] = {}"
  by (simp_all add: childrenOk_def childCpus_def)

text \<open>
  One level of the topology: objects with a list of CPUs, created empty, to which CPUs are added one
  by one.  The parent's map of children inherits the property.
\<close>

locale level =
  fixes add :: "'o adder" and fresh :: "int \<Rightarrow> 'o" and ident :: "'o \<Rightarrow> int" and cpus :: "'o \<Rightarrow> nat list" and ok :: "'o \<Rightarrow> bool"
  assumes add_ok: "ok x \<Longrightarrow> c \<notin> set (cpus x) \<Longrightarrow> add c x s = (Ret (), y, s') \<Longrightarrow> ok y \<and> ident y = ident x \<and> cpus y = cpus x @ [c]"
    and fresh_ok: "ok (fresh k) \<and> ident (fresh k) = k \<and> cpus (fresh k) = []"
    and add_machine: "add c x s = (r, y, s') \<Longrightarrow> recorded c r s s'"
begin

lemma addToChild_machine: "addToChild add fresh k c ch s = (r, ch', s') \<Longrightarrow> recorded c r s s'"
  by (auto simp: addToChild_def Let_def dest: add_machine split: prod.splits)

lemma addToChild_ok:
  assumes "childrenOk ident cpus ok ch" "c \<notin> childCpus cpus ch" "addToChild add fresh k c ch s = (Ret (), ch', s')"
  shows "childrenOk ident cpus ok ch' \<and> childCpus cpus ch' = insert c (childCpus cpus ch)"
proof -
  define x where "x = (case map_of ch k of Some x \<Rightarrow> x | None \<Rightarrow> fresh k)"
  obtain y where y: "add c x s = (Ret (), y, s')" "ch' = AList.update k y ch"
    using assms(3) by (auto simp: addToChild_def Let_def x_def [symmetric] split: prod.splits)
  have d: "distinct (map fst ch)" using assms(1) by (simp add: childrenOk_def)
  have x: "ok x \<and> ident x = k" "set (cpus x) = (\<Union>(l, z) \<in> {p \<in> set ch. fst p = k}. set (cpus z))"
  proof -
    show "ok x \<and> ident x = k" using assms(1) fresh_ok
      by (auto simp: x_def childrenOk_def split: option.split dest!: map_of_SomeD)
    show "set (cpus x) = (\<Union>(l, z) \<in> {p \<in> set ch. fst p = k}. set (cpus z))"
    proof (cases "map_of ch k")
      case None
      then have e: "{p \<in> set ch. fst p = k} = {}" by (force simp: map_of_eq_None_iff)
      have "cpus x = []" using None fresh_ok by (simp add: x_def)
      then show ?thesis unfolding e by simp
    next
      case (Some z)
      then have "{p \<in> set ch. fst p = k} = {(k, z)}" using d by (auto dest: map_of_SomeD eq_key_imp_eq_value)
      with Some show ?thesis by (simp add: x_def)
    qed
  qed
  have "c \<notin> set (cpus x)" using assms(2) x(2) by (auto simp: childCpus_def)
  from add_ok [OF conjunct1 [OF x(1)] this y(1)] x(1) have wy: "ok y \<and> ident y = k" "set (cpus y) = insert c (set (cpus x))" by simp_all
  have s: "set ch' = insert (k, y) {p \<in> set ch. fst p \<noteq> k}" using y(2) d by (simp add: set_AList_update)
  have dis: "set (cpus y) \<inter> set (cpus z) = {}" if "(l, z) \<in> set ch" "l \<noteq> k" for l z
  proof -
    have "c \<notin> set (cpus z)" using assms(2) that by (auto simp: childCpus_def)
    moreover have "set (cpus x) \<inter> set (cpus z) = {}"
      using assms(1) that unfolding x(2) childrenOk_def by fastforce
    ultimately show ?thesis using wy(2) by auto
  qed
  have "childrenOk ident cpus ok ch'"
  proof (rule childrenOkI)
    show "distinct (map fst ch')" using y(2) d by (simp add: distinct_update)
    show "ok z \<and> ident z = l" if "(l, z) \<in> set ch'" for l z using that s wy(1) childrenOkD(2) [OF assms(1)] by auto
    show "set (cpus z) \<inter> set (cpus w) = {}" if "(l, z) \<in> set ch'" "(m, w) \<in> set ch'" "l \<noteq> m" for l z m w
      using that s dis [of l z] dis [of m w] childrenOkD(3) [OF assms(1), of l z m w] by auto
  qed
  moreover have "childCpus cpus ch' = insert c (childCpus cpus ch)"
    unfolding childCpus_def s using wy(2) x(2) by fastforce
  ultimately show ?thesis by simp
qed

lemma child_unique:
  assumes "childrenOk ident cpus ok ch" "c \<in> childCpus cpus ch"
  shows "\<exists>!x. x \<in> snd ` set ch \<and> c \<in> set (cpus x)"
proof -
  obtain k x where x: "(k, x) \<in> set ch" "c \<in> set (cpus x)" using assms(2) by (auto simp: childCpus_def)
  have "z = x" if "(l, z) \<in> set ch" "c \<in> set (cpus z)" for l z
  proof (cases "l = k")
    case True
    have "distinct (map fst ch)" using assms(1) by (simp add: childrenOk_def)
    then show ?thesis using that(1) x(1) True by (metis eq_key_imp_eq_value)
  next
    case False
    then have "set (cpus z) \<inter> set (cpus x) = {}" using that(1) x(1) assms(1) unfolding childrenOk_def by fast
    then show ?thesis using that(2) x(2) by blast
  qed
  note u = this
  show ?thesis
  proof (rule ex1I [of _ x])
    show "x \<in> snd ` set ch \<and> c \<in> set (cpus x)" using x by force
    show "z = x" if "z \<in> snd ` set ch \<and> c \<in> set (cpus z)" for z using that u by auto
  qed
qed

end

section \<open>The levels\<close>

lemma appendIfUnique_records:
  assumes "appendIfUnique l mn mx = (i, l')"
  shows "set l \<subseteq> set l' \<and> (mn, mx) \<in> set l' \<and> i < length l' \<and> l' ! i = (mn, mx)"
proof (cases "0 \<le> indexFrom (\<lambda>t. fst t = mn \<and> snd t = mx) 0 l")
  case True
  with assms indexFrom_find [OF True] show ?thesis
    by (auto simp: appendIfUnique_def Let_def prod_eq_iff) (metis nth_mem prod.collapse)
next
  case False
  with assms show ?thesis by (auto simp: appendIfUnique_def Let_def)
qed

lemma newCPU_effect:
  assumes "newCPU c k s = (r, k', s')"
  shows "recorded c r s s'" "core_cpus k' = core_cpus k" "core_id k' = core_id k"
  using assms
  by (auto simp: newCPU_def recorded_def setType_def split: if_splits gores.splits prod.splits
      dest!: appendIfUnique_records intro: exI [of _ "coreTypes s"])

definition core_wf :: "cpuCore \<Rightarrow> bool" where
  "core_wf k \<longleftrightarrow> distinct (core_cpus k)"

interpretation coreLevel: level core_addCPU newCore core_id core_cpus core_wf
proof
  show "core_wf y \<and> core_id y = core_id x \<and> core_cpus y = core_cpus x @ [c]"
    if "core_wf x" "c \<notin> set (core_cpus x)" "core_addCPU c x s = (Ret (), y, s')" for x c s y s'
    using that by (auto simp: core_addCPU_def core_wf_def split: prod.splits gores.splits dest: newCPU_effect)
  show "core_wf (newCore k) \<and> core_id (newCore k) = k \<and> core_cpus (newCore k) = []" for k by (simp add: core_wf_def newCore_def)
  show "recorded c r s s'" if "core_addCPU c x s = (r, y, s')" for c x s r y s'
    using that by (auto simp: core_addCPU_def split: prod.splits gores.splits dest: newCPU_effect)
qed

text \<open>An object is well formed if its list of CPUs is the disjoint union of its children's.\<close>

definition die_wf :: "cpuDie \<Rightarrow> bool" where
  "die_wf d \<longleftrightarrow> distinct (die_cpus d) \<and> childrenOk core_id core_cpus core_wf (die_cores d)
     \<and> set (die_cpus d) = childCpus core_cpus (die_cores d)"

definition cluster_wf :: "cpuCluster \<Rightarrow> bool" where
  "cluster_wf d \<longleftrightarrow> distinct (cluster_cpus d) \<and> childrenOk core_id core_cpus core_wf (cluster_cores d)
     \<and> set (cluster_cpus d) = childCpus core_cpus (cluster_cores d)"

definition package_wf :: "string \<Rightarrow> cpuPackage \<Rightarrow> bool" where
  "package_wf arch c \<longleftrightarrow> distinct (package_cpus c)
     \<and> (if arch = ''x86_64'' then childrenOk die_id die_cpus die_wf (package_dies c) \<and> set (package_cpus c) = childCpus die_cpus (package_dies c)
        else childrenOk cluster_id cluster_cpus cluster_wf (package_clusters c)
           \<and> set (package_cpus c) = childCpus cluster_cpus (package_clusters c))"

interpretation dieLevel: level die_addCPU newDie die_id die_cpus die_wf
proof
  show "die_wf y \<and> die_id y = die_id x \<and> die_cpus y = die_cpus x @ [c]"
    if "die_wf x" "c \<notin> set (die_cpus x)" "die_addCPU c x s = (Ret (), y, s')" for x c s y s'
  proof -
    from that(3) obtain k cores where
      "addToChild core_addCPU newCore k c (die_cores x) s = (Ret (), cores, s')"
      "y = x\<lparr>die_cores := cores, die_cpus := die_cpus x @ [c]\<rparr>"
      by (auto simp: die_addCPU_def split: prod.splits gores.splits)
    with coreLevel.addToChild_ok [OF _ _ this(1)] that(1,2) show ?thesis by (simp add: die_wf_def)
  qed
  show "die_wf (newDie k) \<and> die_id (newDie k) = k \<and> die_cpus (newDie k) = []" for k by (simp add: die_wf_def newDie_def)
  show "recorded c r s s'" if "die_addCPU c x s = (r, y, s')" for c x s r y s'
    using that by (auto simp: die_addCPU_def split: prod.splits gores.splits dest: coreLevel.addToChild_machine)
qed

interpretation clusterLevel: level cluster_addCPU newCluster cluster_id cluster_cpus cluster_wf
proof
  show "cluster_wf y \<and> cluster_id y = cluster_id x \<and> cluster_cpus y = cluster_cpus x @ [c]"
    if "cluster_wf x" "c \<notin> set (cluster_cpus x)" "cluster_addCPU c x s = (Ret (), y, s')" for x c s y s'
  proof -
    from that(3) obtain k cores where
      "addToChild core_addCPU newCore k c (cluster_cores x) s = (Ret (), cores, s')"
      "y = x\<lparr>cluster_cores := cores, cluster_cpus := cluster_cpus x @ [c]\<rparr>"
      by (auto simp: cluster_addCPU_def split: prod.splits gores.splits)
    with coreLevel.addToChild_ok [OF _ _ this(1)] that(1,2) show ?thesis by (simp add: cluster_wf_def)
  qed
  show "cluster_wf (newCluster k) \<and> cluster_id (newCluster k) = k \<and> cluster_cpus (newCluster k) = []" for k
    by (simp add: cluster_wf_def newCluster_def)
  show "recorded c r s s'" if "cluster_addCPU c x s = (r, y, s')" for c x s r y s'
    using that by (auto simp: cluster_addCPU_def split: prod.splits gores.splits dest: coreLevel.addToChild_machine)
qed

interpretation packageLevel: level "package_addCPU arch" newPackage package_id package_cpus "package_wf arch" for arch
proof
  show "package_wf arch y \<and> package_id y = package_id x \<and> package_cpus y = package_cpus x @ [c]"
    if "package_wf arch x" "c \<notin> set (package_cpus x)" "package_addCPU arch c x s = (Ret (), y, s')" for x c s y s'
  proof (cases "arch = ''x86_64''")
    case True
    with that(3) obtain k dies where
      "addToChild die_addCPU newDie k c (package_dies x) s = (Ret (), dies, s')"
      "y = x\<lparr>package_dies := dies, package_cpus := package_cpus x @ [c]\<rparr>"
      by (auto simp: package_addCPU_def split: prod.splits gores.splits)
    with dieLevel.addToChild_ok [OF _ _ this(1)] that(1,2) True show ?thesis by (simp add: package_wf_def)
  next
    case False
    with that(3) obtain k cls where
      "addToChild cluster_addCPU newCluster k c (package_clusters x) s = (Ret (), cls, s')"
      "y = x\<lparr>package_clusters := cls, package_cpus := package_cpus x @ [c]\<rparr>"
      by (auto simp: package_addCPU_def split: prod.splits gores.splits if_splits)
    with clusterLevel.addToChild_ok [OF _ _ this(1)] that(1,2) False show ?thesis by (simp add: package_wf_def)
  qed
  show "package_wf arch (newPackage k) \<and> package_id (newPackage k) = k \<and> package_cpus (newPackage k) = []" for k
    by (simp add: package_wf_def newPackage_def)
  show "recorded c r s s'" if "package_addCPU arch c x s = (r, y, s')" for c x s r y s'
    using that by (auto simp: package_addCPU_def split: prod.splits gores.splits if_splits
        dest: dieLevel.addToChild_machine clusterLevel.addToChild_machine)
qed

section \<open>Discovery\<close>

lemma topology_addCPU_Ret:
  assumes "topology_addCPU c tp s = (Ret (), tp', s')"
    and "childrenOk package_id package_cpus (package_wf (architecture tp)) (packages tp)" "c \<notin> childCpus package_cpus (packages tp)"
  shows "childrenOk package_id package_cpus (package_wf (architecture tp)) (packages tp')"
    "childCpus package_cpus (packages tp') = insert c (childCpus package_cpus (packages tp))"
    "topology_cpus tp' = (topology_cpus tp)[c := Some c]" "architecture tp' = architecture tp"
    "topology_uncore tp' = topology_uncore tp" "recorded c (Ret ()) s s'"
proof -
  from assms(1) obtain k pkgs where a:
    "addToChild (package_addCPU (architecture tp)) newPackage k c (packages tp) s = (Ret (), pkgs, s')"
    "tp' = tp\<lparr>packages := pkgs, topology_cpus := (topology_cpus tp)[c := Some c]\<rparr>"
    by (auto simp: topology_addCPU_def split: prod.splits gores.splits if_splits)
  from packageLevel.addToChild_ok [OF assms(2,3) a(1)] a(2)
  show "childrenOk package_id package_cpus (package_wf (architecture tp)) (packages tp')"
    "childCpus package_cpus (packages tp') = insert c (childCpus package_cpus (packages tp))"
    "topology_cpus tp' = (topology_cpus tp)[c := Some c]" "architecture tp' = architecture tp"
    "topology_uncore tp' = topology_uncore tp" by simp_all
  show "recorded c (Ret ()) s s'" by (rule packageLevel.addToChild_machine [OF a(1)])
qed

lemma readCPUFreqLimits_cong: "sys s = sys t \<Longrightarrow> readCPUFreqLimits c s = readCPUFreqLimits c t"
  by (simp only: readCPUFreqLimits_def readCPUUint_cong [of s t])

lemma recorded_reads:
  assumes "recorded c r s s'"
  shows "sys s' = sys s" "featureList s' = featureList s" "set (coreTypes s) \<subseteq> set (coreTypes s')"
    "readCPUFreqLimits d s' = readCPUFreqLimits d s"
    "allCPUDefaultPStatesInfo s' = allCPUDefaultPStatesInfo s" "coresOverride s' = coresOverride s"
proof -
  from assms obtain ts where s': "s' = s\<lparr>coreTypes := ts\<rparr>" "set (coreTypes s) \<subseteq> set ts" by (auto simp: recorded_def)
  then show "sys s' = sys s" "featureList s' = featureList s" "set (coreTypes s) \<subseteq> set (coreTypes s')"
    "allCPUDefaultPStatesInfo s' = allCPUDefaultPStatesInfo s" "coresOverride s' = coresOverride s" by simp_all
  show "readCPUFreqLimits d s' = readCPUFreqLimits d s" by (rule readCPUFreqLimits_cong) (simp add: s')
qed

text \<open>What has been discovered once the CPUs below \<open>k\<close> are placed.\<close>

definition placed :: "nat \<Rightarrow> nat \<Rightarrow> cpuTopology \<Rightarrow> hw \<Rightarrow> bool" where
  "placed k n tp s \<longleftrightarrow> childrenOk package_id package_cpus (package_wf (architecture tp)) (packages tp)
     \<and> childCpus package_cpus (packages tp) = {0..<k}
     \<and> topology_cpus tp = map Some [0..<k] @ replicate (n - k) None
     \<and> (isFeatureIDSupported (featureList s) FrequencyScalingFeature \<longrightarrow>
          (\<forall>c < k. \<exists>lim. readCPUFreqLimits c s = Ret lim \<and> lim \<in> set (coreTypes s)))"

lemma placed_step:
  assumes "placed k n tp s" "k < n" "topology_addCPU k tp s = (Ret (), tp', s')"
  shows "placed (Suc k) n tp' s' \<and> recorded k (Ret ()) s s' \<and> architecture tp' = architecture tp
    \<and> topology_uncore tp' = topology_uncore tp"
proof -
  have p: "childrenOk package_id package_cpus (package_wf (architecture tp)) (packages tp)" "k \<notin> childCpus package_cpus (packages tp)"
    using assms(1) by (simp_all add: placed_def)
  note a = topology_addCPU_Ret [OF assms(3) p]
  note r = recorded_reads [OF a(6)]
  have "replicate (n - k) (None :: nat option) = None # replicate (n - Suc k) None"
    using assms(2) by (metis Suc_diff_Suc replicate_Suc)
  then have "topology_cpus tp' = map Some [0..<Suc k] @ replicate (n - Suc k) None"
    using a(3) assms(1) by (simp add: placed_def list_update_append)
  moreover have "\<exists>lim. readCPUFreqLimits c s' = Ret lim \<and> lim \<in> set (coreTypes s')"
    if "isFeatureIDSupported (featureList s') FrequencyScalingFeature" "c < Suc k" for c
  proof (cases "c = k")
    case True
    then show ?thesis using a(6) r(2,4) that(1) by (auto simp: recorded_def)
  next
    case False
    then show ?thesis using assms(1) r(2-4) that unfolding placed_def by (metis less_SucE subsetD)
  qed
  moreover have "childCpus package_cpus (packages tp') = {0..<Suc k}"
    using a(2) assms(1) by (auto simp: placed_def)
  ultimately show ?thesis using a by (simp add: placed_def)
qed

lemma addCPUs_placed:
  assumes "addCPUs [k..<n] tp s = (Ret (), tp', s')" "placed k n tp s" "k \<le> n"
  shows "placed n n tp' s' \<and> (\<exists>ts. s' = s\<lparr>coreTypes := ts\<rparr>) \<and> architecture tp' = architecture tp
    \<and> topology_uncore tp' = topology_uncore tp"
  using assms
proof (induction "n - k" arbitrary: k tp s)
  case 0
  then have "k = n" by simp
  with 0 show ?case by (auto intro: exI [of _ "coreTypes s'"])
next
  case (Suc d)
  then have kn: "k < n" "[k..<n] = k # [Suc k..<n]" by (simp_all add: upt_rec)
  with Suc.prems(1) obtain tp1 s1 where s1: "topology_addCPU k tp s = (Ret (), tp1, s1)"
    "addCPUs [Suc k..<n] tp1 s1 = (Ret (), tp', s')" by (auto split: prod.splits gores.splits)
  note st = placed_step [OF Suc.prems(2) kn(1) s1(1)]
  have "placed n n tp' s' \<and> (\<exists>ts. s' = s1\<lparr>coreTypes := ts\<rparr>) \<and> architecture tp' = architecture tp1
      \<and> topology_uncore tp' = topology_uncore tp1"
    using Suc.hyps(2) kn(1) st by (intro Suc.hyps(1) [OF _ s1(2)]) auto
  moreover have "\<exists>ts. s1 = s\<lparr>coreTypes := ts\<rparr>" using st by (auto simp: recorded_def)
  ultimately show ?case using st by auto
qed

lemma discoverTopology_placed:
  assumes "discoverTopology arch s = (Ret tp, s')"
  shows "placed (getNumberOfCpus s) (getNumberOfCpus s) tp s'" "\<exists>ts. s' = s\<lparr>coreTypes := ts\<rparr>" "architecture tp = arch"
    "topology_uncore tp = Some (defaultUncore s)"
proof -
  let ?n = "getNumberOfCpus s"
  let ?t = "\<lparr>packages = [], topology_cpus = replicate ?n None, topology_uncore = Some (defaultUncore s), architecture = arch\<rparr>"
  have run: "addCPUs [0..<?n] ?t s = (Ret (), tp, s')"
    using assms by (auto simp: discoverTopology_def Let_def split: prod.splits gores.splits)
  have "placed 0 ?n ?t s" by (simp add: placed_def)
  from addCPUs_placed [OF run this]
  show "placed ?n ?n tp s'" "\<exists>ts. s' = s\<lparr>coreTypes := ts\<rparr>" "architecture tp = arch"
    "topology_uncore tp = Some (defaultUncore s)" by simp_all
qed


section \<open>The properties at a concrete machine\<close>

definition discoverable :: hw where
  "discoverable = machine [] [zeroPStates]
     [(CPUFile 0 packageIDFile, ''0''), (CPUFile 0 dieIDFile, ''0''), (CPUFile 0 coreIDFile, ''0''),
      (CPUFile 0 cpuMinFreqFile, ''8''), (CPUFile 0 cpuMaxFreqFile, ''30'')]"


end
