(* ===== verification/Uncore.thy ===== *)
theory Uncore
  imports Topology
begin

text \<open>
  Uncore frequencies, \<^verbatim>\<open>internal/power/uncore.go\<close>: detection of the driver, validation and
  normalisation of a requested range, and the ranges set for the machine, a package or a die, with
  the rule that the most specific setting wins.  A path of the driver is named by package, die
  and file (\<^verbatim>\<open>package_%02d_die_%02d\<close> prints different numbers differently).
\<close>

section \<open>Model\<close>

abbreviation "uncoreKmodName \<equiv> ''intel_uncore_frequency''"
abbreviation "uncoreInitMaxFreqFile \<equiv> ''initial_max_freq_khz''"
abbreviation "uncoreInitMinFreqFile \<equiv> ''initial_min_freq_khz''"
abbreviation "uncoreMaxFreqFile \<equiv> ''max_freq_khz''"
abbreviation "uncoreMinFreqFile \<equiv> ''min_freq_khz''"

definition normalizeUncoreFreq :: "int \<Rightarrow> int" where
  "normalizeUncoreFreq freq = freq - freq mod 100000"

definition NewUncore :: "int \<Rightarrow> int \<Rightarrow> hw \<Rightarrow> uncoreFreq gores" where
  "NewUncore mn mx s =
     (if \<not> isFeatureIDSupported (featureList s) UncoreFeature
      then Fail (the (getFeatureIDError (featureList s) UncoreFeature))
      else if mn < uncore_min (defaultUncore s) then Fail (Msg (''specified Min frequency is lower than '' @ Itoa (uncore_min (defaultUncore s)) @ '' kHZ allowed by the hardware''))
      else if mx > uncore_max (defaultUncore s) then Fail (Msg (''specified Max frequency is higher than '' @ Itoa (uncore_max (defaultUncore s)) @ '' kHz allowed by the hardware''))
      else if mx < mn then Fail (Msg ''max freq cannot be lower than min'')
      else Ret \<lparr>uncore_min = normalizeUncoreFreq mn, uncore_max = normalizeUncoreFreq mx\<rparr>)"

definition uncore_write :: "uncoreFreq \<Rightarrow> int \<Rightarrow> int \<Rightarrow> (unit, hw) action" where
  "uncore_write u pkgID dieID s =
     andThen (WriteFile (UncoreFile pkgID dieID uncoreMaxFreqFile) (Itoa (uncore_max u)) s) (\<lambda>_ s1.
       WriteFile (UncoreFile pkgID dieID uncoreMinFreqFile) (Itoa (uncore_min u)) s1)"

definition checkKernelModuleLoaded :: "string \<Rightarrow> hw \<Rightarrow> bool" where
  "checkKernelModuleLoaded module s = (case readStringFromFile ModulesFile s of
      Ret c \<Rightarrow> list_ex (\<lambda>line. Contains line module) (fst (scanLines c))
    | _ \<Rightarrow> False)"

definition readUncoreProperty :: "int \<Rightarrow> int \<Rightarrow> string \<Rightarrow> hw \<Rightarrow> int gores" where
  "readUncoreProperty pkgID dieID property s = readUintFromFile (UncoreFile pkgID dieID property) s"

definition uncoreStatus :: "gerr option \<Rightarrow> featureStatus" where
  "uncoreStatus e = \<lparr>feature_name = ''Uncore frequency'', feature_driver = ''N/A'', feature_err = e\<rparr>"

definition initUncore :: "hw \<Rightarrow> featureStatus \<times> hw" where
  "initUncore s =
     (if \<not> checkKernelModuleLoaded uncoreKmodName s
      then (uncoreStatus (Some (Wrap ''uncore feature error'' (Msg (''kernel module '' @ uncoreKmodName @ '' not loaded'')))), s)
      else (case uncoreDir (sys s) of
        None \<Rightarrow> (uncoreStatus (Some (Wrap ''uncore feature error'' (OSFailure ''open''))), s)
      | Some [] \<Rightarrow> (uncoreStatus (Some (Wrap ''uncore feature error''
                     (Wrap ''uncore interface dir empty or invalid'' (Msg ''EOF'')))), s)
      | Some (n # ns) \<Rightarrow>
         (case readUncoreProperty 0 0 uncoreInitMaxFreqFile s of
            Ret v \<Rightarrow>
             (let s1 = s\<lparr>defaultUncore := (defaultUncore s)\<lparr>uncore_max := v\<rparr>\<rparr> in
              (case readUncoreProperty 0 0 uncoreInitMinFreqFile s1 of
                 Ret w \<Rightarrow> (uncoreStatus None, s1\<lparr>defaultUncore := (defaultUncore s1)\<lparr>uncore_min := w\<rparr>\<rparr>)
               | Fail e \<Rightarrow> (uncoreStatus (Some (Wrap ''uncore feature error'' (Wrap ''failed to determine init freq'' e))), s1)
               | Panic m \<Rightarrow> (uncoreStatus None, s1)))
          | Fail e \<Rightarrow> (uncoreStatus (Some (Wrap ''uncore feature error'' (Wrap ''failed to determine init freq'' e))), s)
          | Panic m \<Rightarrow> (uncoreStatus None, s))))"

text \<open>The setting in effect on each level.\<close>

definition topology_getEffectiveUncore :: "cpuTopology \<Rightarrow> hw \<Rightarrow> uncoreFreq" where
  "topology_getEffectiveUncore tp s = (case topology_uncore tp of None \<Rightarrow> defaultUncore s | Some u \<Rightarrow> u)"

definition package_getEffectiveUncore :: "cpuPackage \<Rightarrow> cpuTopology \<Rightarrow> hw \<Rightarrow> uncoreFreq" where
  "package_getEffectiveUncore c tp s = (case package_uncore c of
      Some u \<Rightarrow> u | None \<Rightarrow> topology_getEffectiveUncore tp s)"

definition die_getEffectiveUncore :: "cpuDie \<Rightarrow> cpuPackage \<Rightarrow> cpuTopology \<Rightarrow> hw \<Rightarrow> uncoreFreq" where
  "die_getEffectiveUncore d c tp s = (case die_uncore d of
      Some u \<Rightarrow> u | None \<Rightarrow> package_getEffectiveUncore c tp s)"

definition die_applyUncore :: "cpuTopology \<Rightarrow> cpuPackage \<Rightarrow> cpuDie \<Rightarrow> (unit, hw) action" where
  "die_applyUncore tp c d s = uncore_write (die_getEffectiveUncore d c tp s) (package_id c) (die_id d) s"

definition package_applyUncore :: "cpuTopology \<Rightarrow> cpuPackage \<Rightarrow> (unit, hw) action" where
  "package_applyUncore tp c = forEach (die_applyUncore tp c) (Dies c)"

definition topology_applyUncore :: "cpuTopology \<Rightarrow> (unit, hw) action" where
  "topology_applyUncore tp = forEach (package_applyUncore tp) (Packages tp)"

text \<open>Setting a range on the machine, on a package or on a die; \<open>None\<close> is the nil setting.\<close>

definition topology_SetUncore :: "uncoreFreq option \<Rightarrow> cpuTopology \<Rightarrow> hw \<Rightarrow> unit gores \<times> cpuTopology \<times> hw" where
  "topology_SetUncore u tp s =
     (let tp1 = tp\<lparr>topology_uncore := u\<rparr> in
      (case topology_applyUncore tp1 s of (r, s1) \<Rightarrow> (r, tp1, s1)))"

definition package_SetUncore :: "int \<Rightarrow> uncoreFreq option \<Rightarrow> cpuTopology \<Rightarrow> hw \<Rightarrow> unit gores \<times> cpuTopology \<times> hw" where
  "package_SetUncore pkgID u tp s = (case Package pkgID tp of
      None \<Rightarrow> (Panic ''nil pointer dereference'', tp, s)
    | Some c \<Rightarrow>
        (let c1 = c\<lparr>package_uncore := u\<rparr>; tp1 = tp\<lparr>packages := AList.update pkgID c1 (packages tp)\<rparr> in
         (case package_applyUncore tp1 c1 s of (r, s1) \<Rightarrow> (r, tp1, s1))))"

definition die_SetUncore :: "int \<Rightarrow> int \<Rightarrow> uncoreFreq option \<Rightarrow> cpuTopology \<Rightarrow> hw \<Rightarrow> unit gores \<times> cpuTopology \<times> hw" where
  "die_SetUncore pkgID dieID u tp s = (case Package pkgID tp of
      None \<Rightarrow> (Panic ''nil pointer dereference'', tp, s)
    | Some c \<Rightarrow>
       (case Die dieID c of
          None \<Rightarrow> (Panic ''nil pointer dereference'', tp, s)
        | Some d \<Rightarrow>
           (let d1 = d\<lparr>die_uncore := u\<rparr>; c1 = c\<lparr>package_dies := AList.update dieID d1 (package_dies c)\<rparr>;
                tp1 = tp\<lparr>packages := AList.update pkgID c1 (packages tp)\<rparr> in
            (case die_applyUncore tp1 c1 d1 s of (r, s1) \<Rightarrow> (r, tp1, s1)))))"

section \<open>Normalised ranges\<close>

text \<open>
  An accepted uncore range is ordered, consists of multiples of 100 MHz as the driver
  requires, lies at or below the requested values by less than 100 MHz and does not exceed the
  hardware maximum.  It stays at or above the hardware minimum if that is itself a multiple of
  100 MHz; otherwise rounding a request for the minimum itself goes below it.
\<close>

theorem NewUncore_range:
  assumes "NewUncore mn mx s = Ret u"
  shows "uncore_min u \<le> uncore_max u \<and> uncore_max u \<le> uncore_max (defaultUncore s)
    \<and> uncore_min u mod 100000 = 0 \<and> uncore_max u mod 100000 = 0
    \<and> uncore_min u \<le> mn \<and> mn < uncore_min u + 100000 \<and> uncore_max u \<le> mx \<and> mx < uncore_max u + 100000
    \<and> (uncore_min (defaultUncore s) \<le> uncore_min u \<or> uncore_min (defaultUncore s) mod 100000 \<noteq> 0)
    \<and> (mn = uncore_min (defaultUncore s) \<and> mn mod 100000 \<noteq> 0 \<longrightarrow> uncore_min u < uncore_min (defaultUncore s))"
proof -
  have n: "normalizeUncoreFreq f = f div 100000 * 100000" for f
    by (simp add: normalizeUncoreFreq_def minus_mod_eq_div_mult)
  from assms have a: "uncore_min (defaultUncore s) \<le> mn" "mx \<le> uncore_max (defaultUncore s)" "mn \<le> mx"
    and u: "uncore_min u = mn div 100000 * 100000" "uncore_max u = mx div 100000 * 100000"
    by (auto simp: NewUncore_def n split: if_splits)
  define k where "k = uncore_min (defaultUncore s)"
  have d: "mn div 100000 \<le> mx div 100000" "k div 100000 \<le> mn div 100000"
    using a(1,3) by (auto simp: k_def intro: zdiv_mono1)
  have e: "mn = mn div 100000 * 100000 + mn mod 100000" "mx = mx div 100000 * 100000 + mx mod 100000"
    "k = k div 100000 * 100000 + k mod 100000" by simp_all
  have r: "0 \<le> mn mod 100000" "mn mod 100000 < 100000" "0 \<le> mx mod 100000" "mx mod 100000 < 100000" by simp_all
  have "uncore_min u \<le> uncore_max u" "uncore_max u \<le> uncore_max (defaultUncore s)"
    "uncore_min u \<le> mn" "mn < uncore_min u + 100000" "uncore_max u \<le> mx" "mx < uncore_max u + 100000"
    using a u d e r by linarith+
  moreover have "k \<le> uncore_min u \<or> k mod 100000 \<noteq> 0" using u(1) d(2) e(3) by linarith
  moreover have "mn = k \<and> mn mod 100000 \<noteq> 0 \<longrightarrow> uncore_min u < k" using u(1) e(1) r(1) by linarith
  ultimately show ?thesis using u by (simp add: k_def)
qed

section \<open>The most specific setting wins\<close>

definition uncoreFiles :: "int \<Rightarrow> int \<Rightarrow> path set" where
  "uncoreFiles p d = {UncoreFile p d uncoreMaxFreqFile, UncoreFile p d uncoreMinFreqFile}"

lemma uncore_write_frame: "touches (uncoreFiles p d) s (snd (uncore_write u p d s))"
  by (auto simp: uncore_write_def uncoreFiles_def intro!: touches_andThen touches_WriteFile)

lemma uncore_write_Ret:
  assumes "uncore_write u p d s = (Ret (), t)"
  shows "contents (sys t) (UncoreFile p d uncoreMaxFreqFile) = Some (Itoa (uncore_max u))"
    "contents (sys t) (UncoreFile p d uncoreMinFreqFile) = Some (Itoa (uncore_min u))"
  using assms by (auto simp: uncore_write_def andThen_Ret_iff dest!: WriteFile_Ret)

interpretation dieWrites: owning "die_applyUncore tp c" "\<lambda>d. uncoreFiles (package_id c) (die_id d)" for tp c
  by unfold_locales (simp add: die_applyUncore_def uncore_write_frame)

definition packageFiles :: "cpuPackage \<Rightarrow> path set" where
  "packageFiles c = \<Union> ((\<lambda>d. uncoreFiles (package_id c) (die_id d)) ` set (Dies c))"

interpretation packageWrites: owning "package_applyUncore tp" packageFiles for tp
  by unfold_locales (simp add: package_applyUncore_def packageFiles_def dieWrites.forEach_touches)

text \<open>Dies and packages of a well-formed topology have different identifiers.\<close>

definition topology_ok :: "cpuTopology \<Rightarrow> bool" where
  "topology_ok tp \<longleftrightarrow> architecture tp = ''x86_64''
     \<and> childrenOk package_id package_cpus (package_wf ''x86_64'') (packages tp)"

lemma childrenOk_values:
  assumes "childrenOk ident cpus ok ch"
  shows "distinct (map snd ch)" "inj_on ident (snd ` set ch)"
proof -
  have "map ident (map snd ch) = map fst ch" using childrenOkD(2) [OF assms] by auto
  with childrenOkD(1) [OF assms] have "distinct (map ident (map snd ch))" by (simp only:)
  then show "distinct (map snd ch)" "inj_on ident (snd ` set ch)" by (simp_all only: distinct_map set_map)
qed

lemma topology_ok_dies:
  assumes "topology_ok tp" "c \<in> set (Packages tp)"
  shows "distinct (Dies c)" "inj_on die_id (set (Dies c))"
proof -
  have "childrenOk die_id die_cpus die_wf (package_dies c)"
    using assms childrenOkD(2) by (fastforce simp: topology_ok_def Packages_def package_wf_def)
  from childrenOk_values [OF this] show "distinct (Dies c)" "inj_on die_id (set (Dies c))" by (simp_all add: Dies_def)
qed

lemma topology_ok_packages:
  assumes "topology_ok tp"
  shows "distinct (Packages tp)" "inj_on package_id (set (Packages tp))"
  using childrenOk_values [of package_id package_cpus "package_wf ''x86_64''" "packages tp"] assms
  by (simp_all add: topology_ok_def Packages_def)

lemma uncoreFiles_disjoint: "(p, d) \<noteq> (q, e) \<Longrightarrow> uncoreFiles p d \<inter> uncoreFiles q e = {}"
  by (auto simp: uncoreFiles_def)

lemma effective_cong:
  assumes "knowledge s = knowledge t"
  shows "die_getEffectiveUncore d c tp s = die_getEffectiveUncore d c tp t"
  by (simp only: die_getEffectiveUncore_def package_getEffectiveUncore_def topology_getEffectiveUncore_def
      knowledge_fields(6) [OF assms])

lemma package_applyUncore_Ret:
  assumes "package_applyUncore tp c s = (Ret (), t)" "d \<in> set (Dies c)"
    and "distinct (Dies c)" "inj_on die_id (set (Dies c))"
  shows "contents (sys t) (UncoreFile (package_id c) (die_id d) uncoreMaxFreqFile)
           = Some (Itoa (uncore_max (die_getEffectiveUncore d c tp s)))"
    "contents (sys t) (UncoreFile (package_id c) (die_id d) uncoreMinFreqFile)
           = Some (Itoa (uncore_min (die_getEffectiveUncore d c tp s)))"
proof -
  have dj: "uncoreFiles (package_id c) (die_id y) \<inter> uncoreFiles (package_id c) (die_id z) = {}"
    if "y \<in> set (Dies c)" "z \<in> set (Dies c)" "y \<noteq> z" for y z
    using that assms(4) by (intro uncoreFiles_disjoint) (auto dest: inj_onD)
  from dieWrites.forEach_result [OF assms(1) [unfolded package_applyUncore_def] assms(2,3) dj]
  obtain s1 s2 where w: "die_applyUncore tp c d s1 = (Ret (), s2)" "knowledge s1 = knowledge s"
    "\<forall>p \<in> uncoreFiles (package_id c) (die_id d). contents (sys t) p = contents (sys s2) p" by blast
  from uncore_write_Ret [OF w(1) [unfolded die_applyUncore_def]] w(3) effective_cong [OF w(2), of d c tp]
  show "contents (sys t) (UncoreFile (package_id c) (die_id d) uncoreMaxFreqFile)
           = Some (Itoa (uncore_max (die_getEffectiveUncore d c tp s)))"
    "contents (sys t) (UncoreFile (package_id c) (die_id d) uncoreMinFreqFile)
           = Some (Itoa (uncore_min (die_getEffectiveUncore d c tp s)))" by (simp_all add: uncoreFiles_def)
qed

text \<open>
  Setting an uncore range for the machine: after success every die of every package carries the
  most specific range that is set, its own, else its package's, else the machine's, else the
  range found at start-up; no file but those of the dies has changed.
\<close>

theorem topology_SetUncore_effective:
  assumes "topology_ok tp" "topology_SetUncore u tp s = (Ret (), tp', t)"
    and "c \<in> set (Packages tp)" "d \<in> set (Dies c)"
  shows "\<exists>e. e = (case die_uncore d of Some v \<Rightarrow> v | None \<Rightarrow>
              (case package_uncore c of Some v \<Rightarrow> v | None \<Rightarrow> (case u of Some v \<Rightarrow> v | None \<Rightarrow> defaultUncore s)))
      \<and> contents (sys t) (UncoreFile (package_id c) (die_id d) uncoreMaxFreqFile) = Some (Itoa (uncore_max e))
      \<and> contents (sys t) (UncoreFile (package_id c) (die_id d) uncoreMinFreqFile) = Some (Itoa (uncore_min e))
      \<and> (\<forall>p. (\<nexists>c d f. p = UncoreFile c d f) \<longrightarrow> contents (sys t) p = contents (sys s) p)"
proof -
  let ?tp = "tp\<lparr>topology_uncore := u\<rparr>"
  have run: "topology_applyUncore ?tp s = (Ret (), t)"
    using assms(2) by (auto simp: topology_SetUncore_def Let_def split: prod.splits)
  have pk: "Packages ?tp = Packages tp" by (simp add: Packages_def)
  have dj: "packageFiles y \<inter> packageFiles z = {}"
    if "y \<in> set (Packages tp)" "z \<in> set (Packages tp)" "y \<noteq> z" for y z
  proof -
    have "package_id y \<noteq> package_id z" using that topology_ok_packages(2) [OF assms(1)] by (auto dest: inj_onD)
    then show ?thesis by (auto simp: packageFiles_def uncoreFiles_def)
  qed
  from packageWrites.forEach_result [OF run [unfolded topology_applyUncore_def pk] assms(3) topology_ok_packages(1) [OF assms(1)] dj]
  obtain s1 s2 where w: "package_applyUncore ?tp c s1 = (Ret (), s2)" "knowledge s1 = knowledge s"
    "\<forall>p \<in> packageFiles c. contents (sys t) p = contents (sys s2) p" by blast
  note r = package_applyUncore_Ret [OF w(1) assms(4) topology_ok_dies [OF assms(1,3)]]
  have f: "uncoreFiles (package_id c) (die_id d) \<subseteq> packageFiles c" using assms(4) by (auto simp: packageFiles_def)
  have "touches (\<Union> (packageFiles ` set (Packages ?tp))) s t"
    using packageWrites.forEach_touches [of "Packages ?tp" s ?tp] run by (simp add: topology_applyUncore_def)
  then have fr: "\<forall>p. (\<nexists>c d f. p = UncoreFile c d f) \<longrightarrow> contents (sys t) p = contents (sys s) p"
    by (auto simp: touches_def packageFiles_def uncoreFiles_def)
  have eff: "die_getEffectiveUncore d c ?tp s1 = (case die_uncore d of Some v \<Rightarrow> v | None \<Rightarrow>
      (case package_uncore c of Some v \<Rightarrow> v | None \<Rightarrow> (case u of Some v \<Rightarrow> v | None \<Rightarrow> defaultUncore s)))"
    unfolding effective_cong [OF w(2)]
    by (simp add: die_getEffectiveUncore_def package_getEffectiveUncore_def topology_getEffectiveUncore_def
        split: option.split)
  show ?thesis
    by (intro exI conjI) (use r w(3) f eff fr in \<open>auto simp: uncoreFiles_def\<close>)
qed

text \<open>Discovery yields a well-formed topology, and every way of setting a range keeps it so.\<close>

lemma discoverTopology_ok: "discoverTopology ''x86_64'' s = (Ret tp, s') \<Longrightarrow> topology_ok tp"
  using discoverTopology_placed [of "''x86_64''" s tp s'] by (simp add: topology_ok_def placed_def)

lemma childrenOk_replace:
  assumes "childrenOk ident cpus ok ch" "map_of ch k = Some x"
    and "ok y" "ident y = ident x" "cpus y = cpus x"
  shows "childrenOk ident cpus ok (AList.update k y ch)"
proof -
  note d = childrenOkD [OF assms(1)]
  have x: "(k, x) \<in> set ch" using assms(2) by (rule map_of_SomeD)
  have s: "set (AList.update k y ch) = insert (k, y) {p \<in> set ch. fst p \<noteq> k}" using d(1) by (rule set_AList_update)
  show ?thesis
  proof (rule childrenOkI)
    show "distinct (map fst (AList.update k y ch))" using d(1) by (rule distinct_update)
    show "ok z \<and> ident z = l" if "(l, z) \<in> set (AList.update k y ch)" for l z
      using that d(2) [of l z] d(2) [OF x] assms(3,4) by (auto simp: s)
    show "set (cpus z) \<inter> set (cpus w) = {}"
      if "(l, z) \<in> set (AList.update k y ch)" "(m, w) \<in> set (AList.update k y ch)" "l \<noteq> m" for l z m w
      using that d(3) [of l z m w] d(3) [OF x, of m w] d(3) [OF _ x, of l z] assms(5) by (auto simp: s)
  qed
qed

lemma childCpus_replace:
  "map_of ch k = Some x \<Longrightarrow> cpus y = cpus x \<Longrightarrow> childCpus cpus (AList.update k y ch) = childCpus cpus ch"
  by (induction ch) (auto simp: childCpus_def split: if_splits)

lemma SetUncore_keeps_topology:
  assumes "topology_ok tp"
  shows "topology_SetUncore u tp s = (r, tp', s') \<Longrightarrow> topology_ok tp'"
    "package_SetUncore pkg u tp s = (r, tp', s') \<Longrightarrow> topology_ok tp'"
    "die_SetUncore pkg die u tp s = (r, tp', s') \<Longrightarrow> topology_ok tp'"
proof -
  have p: "childrenOk package_id package_cpus (package_wf ''x86_64'') (packages tp)" using assms by (simp add: topology_ok_def)
  show "topology_ok tp'" if "topology_SetUncore u tp s = (r, tp', s')"
    using that assms by (auto simp: topology_SetUncore_def Let_def topology_ok_def split: prod.splits)
  have c: "package_wf ''x86_64'' c" if "map_of (packages tp) pkg = Some c" for c
    using childrenOkD(2) [OF p map_of_SomeD [OF that]] by simp
  show "topology_ok tp'" if "package_SetUncore pkg u tp s = (r, tp', s')"
    using that assms childrenOk_replace [OF p] c
    by (auto simp: package_SetUncore_def Package_def Let_def topology_ok_def package_wf_def split: prod.splits option.splits)
  show "topology_ok tp'" if "die_SetUncore pkg die u tp s = (r, tp', s')"
  proof (cases "tp' = tp")
    case False
    with that obtain c d where cd: "map_of (packages tp) pkg = Some c" "map_of (package_dies c) die = Some d"
      "tp' = tp\<lparr>packages := AList.update pkg (c\<lparr>package_dies := AList.update die (d\<lparr>die_uncore := u\<rparr>) (package_dies c)\<rparr>) (packages tp)\<rparr>"
      by (auto simp: die_SetUncore_def Package_def Die_def Let_def split: prod.splits option.splits)
    let ?c = "c\<lparr>package_dies := AList.update die (d\<lparr>die_uncore := u\<rparr>) (package_dies c)\<rparr>"
    have w: "childrenOk die_id die_cpus die_wf (package_dies c)" "set (package_cpus c) = childCpus die_cpus (package_dies c)"
      "distinct (package_cpus c)" using c [OF cd(1)] by (simp_all add: package_wf_def)
    have "die_wf d" using childrenOkD(2) [OF w(1) map_of_SomeD [OF cd(2)]] by simp
    then have w1: "childrenOk die_id die_cpus die_wf (package_dies ?c)"
      using childrenOk_replace [OF w(1) cd(2), of "d\<lparr>die_uncore := u\<rparr>"] by (simp add: die_wf_def)
    have "childCpus die_cpus (package_dies ?c) = childCpus die_cpus (package_dies c)"
      using childCpus_replace [OF cd(2), of die_cpus "d\<lparr>die_uncore := u\<rparr>"] by simp
    with w w1 have "package_wf ''x86_64'' ?c" by (simp add: package_wf_def)
    with childrenOk_replace [of package_id package_cpus "package_wf ''x86_64''" "packages tp" pkg c ?c] p cd(1)
    have "childrenOk package_id package_cpus (package_wf ''x86_64'') (AList.update pkg ?c (packages tp))" by simp
    with assms cd(3) show ?thesis by (simp add: topology_ok_def)
  qed (use assms in simp)
qed

section \<open>The properties at concrete inputs\<close>

definition uncoreMachine :: "int \<Rightarrow> hw" where
  "uncoreMachine lo = (machine [] [] [])\<lparr>
     featureList := [(UncoreFeature, \<lparr>feature_name = '''', feature_driver = '''', feature_err = None\<rparr>)],
     defaultUncore := \<lparr>uncore_min = lo, uncore_max = 2400000\<rparr>\<rparr>"

definition oneDie :: cpuTopology where
  "oneDie = \<lparr>packages = [(0, \<lparr>package_id = 0, package_uncore = None, package_cpus = [0],
        package_dies = [(0, \<lparr>die_id = 0, die_uncore = None, die_cores = [(0, \<lparr>core_id = 0, core_cpus = [0], coreType = 0\<rparr>)],
                             die_cpus = [0]\<rparr>)], package_clusters = []\<rparr>)],
     topology_cpus = [Some 0], topology_uncore = None, architecture = ''x86_64''\<rparr>"

theorem NewUncore_range_witness:
  "\<exists>u. NewUncore 850000 2350000 (uncoreMachine 850000) = Ret u \<and> uncore_min u < 850000"
proof -
  have "isRet (NewUncore 850000 2350000 (uncoreMachine 850000))" by code_simp
  then obtain u where u: "NewUncore 850000 2350000 (uncoreMachine 850000) = Ret u" by (auto simp: isRet_iff)
  have "uncore_min (defaultUncore (uncoreMachine 850000)) = 850000" by (simp add: uncoreMachine_def)
  with NewUncore_range [OF u] u show ?thesis by simp
qed

theorem topology_SetUncore_effective_witness:
  "contents (sys (snd (snd (topology_SetUncore (Some \<lparr>uncore_min = 8, uncore_max = 24\<rparr>) oneDie (uncoreMachine 8)))))
     (UncoreFile 0 0 uncoreMaxFreqFile) = Some (Itoa 24)"
proof -
  let ?r = "topology_SetUncore (Some \<lparr>uncore_min = 8, uncore_max = 24\<rparr>) oneDie (uncoreMachine 8)"
  have "fst ?r = Ret ()" by code_simp
  then have run: "?r = (Ret (), fst (snd ?r), snd (snd ?r))" by (metis prod.collapse)
  have "topology_ok oneDie"
    by (simp add: topology_ok_def oneDie_def childrenOk_def package_wf_def die_wf_def core_wf_def childCpus_def)
  from topology_SetUncore_effective [OF this run] show ?thesis by (simp add: oneDie_def Packages_def Dies_def)
qed

end
