(* ===== verification/Pools.thy ===== *)
theory Pools
  imports Profiles Uncore
begin

text \<open>
  CPU pools: \<^verbatim>\<open>internal/power/cpu.go\<close>, \<^verbatim>\<open>pool.go\<close> and the pool operations of \<^verbatim>\<open>host.go\<close>.

  A CPU object is named by its id: a host creates one object per id, so pointer comparison of
  CPUs is comparison of ids.  A pool object is named by a reference: the two predefined pools, and
  one reference per exclusive pool ever created (a removed pool is still an object that code may
  hold).  The model keeps both sides of the membership relation, as the code does: the list
  of CPUs of every pool and the pool field of every CPU.

  Every entry point takes the host's mutex once and releases it on return, so operations run one
  after another; the model is the body between lock and unlock.
\<close>

section \<open>State\<close>

datatype pool_ref = RReserved | RShared | RExcl nat

record poolImpl =
  pool_name :: string
  pool_cpus :: "nat list"
  pool_profile :: "Profile option"

record hostImpl =
  host_name :: string
  host_architecture :: string
  vendorID :: string
  topology :: cpuTopology
  exclusivePools :: "pool_ref list"
  pools :: "pool_ref \<Rightarrow> poolImpl"
  nextPool :: nat
  cpuPool :: "nat \<Rightarrow> pool_ref"
  machineOf :: hw

text \<open>\<^verbatim>\<open>GetAllCpus\<close>: the CPUs of the host's topology.\<close>

abbreviation (input) allCpus :: "hostImpl \<Rightarrow> nat list" where
  "allCpus h \<equiv> topology_CPUs (topology h)"

definition isExclusive :: "pool_ref \<Rightarrow> bool" where
  "isExclusive p = (case p of RExcl _ \<Rightarrow> True | _ \<Rightarrow> False)"

abbreviation (input) GetReservedPool :: pool_ref where "GetReservedPool \<equiv> RReserved"
abbreviation (input) GetSharedPool :: pool_ref where "GetSharedPool \<equiv> RShared"

definition GetPowerProfile :: "pool_ref \<Rightarrow> hostImpl \<Rightarrow> Profile option" where
  "GetPowerProfile p h = pool_profile (pools h p)"

definition Cpus :: "pool_ref \<Rightarrow> hostImpl \<Rightarrow> nat list" where
  "Cpus p h = pool_cpus (pools h p)"

definition setCpusOf :: "pool_ref \<Rightarrow> nat list \<Rightarrow> hostImpl \<Rightarrow> hostImpl" where
  "setCpusOf p l h = h\<lparr>pools := (pools h)(p := (pools h p)\<lparr>pool_cpus := l\<rparr>)\<rparr>"

definition setPoolField :: "nat \<Rightarrow> pool_ref \<Rightarrow> hostImpl \<Rightarrow> hostImpl" where
  "setPoolField c p h = h\<lparr>cpuPool := (cpuPool h)(c := p)\<rparr>"

section \<open>Lists of CPUs\<close>

definition CPUList_IndexOf :: "nat \<Rightarrow> nat list \<Rightarrow> int" where
  "CPUList_IndexOf cpu cpus = indexFrom (\<lambda>c. c = cpu) 0 cpus"

definition CPUList_Contains :: "nat \<Rightarrow> nat list \<Rightarrow> bool" where
  "CPUList_Contains cpu cpus = (if CPUList_IndexOf cpu cpus < 0 then False else True)"

definition CPUList_add :: "nat \<Rightarrow> nat list \<Rightarrow> nat list" where
  "CPUList_add cpu cpus = cpus @ [cpu]"

definition CPUList_remove :: "nat \<Rightarrow> nat list \<Rightarrow> nat list gores" where
  "CPUList_remove cpu cpus =
     (let index = CPUList_IndexOf cpu cpus in
      if index < 0 then Fail (Msg (''cpu '' @ Itoa (int cpu) @ '' is not in pool''))
      else Ret (swapRemove (nat index) cpus))"

definition CPUList_IDs :: "nat list \<Rightarrow> nat list" where
  "CPUList_IDs cpus = map (\<lambda>cpu. cpu) cpus"

definition CPUList_ByID :: "nat \<Rightarrow> nat list \<Rightarrow> nat option" where
  "CPUList_ByID i cpus =
     (if i < length cpus \<and> cpus ! i = i then Some (cpus ! i)
      else find (\<lambda>cpu. cpu = i) cpus)"

fun CPUList_ManyByIDs :: "nat list \<Rightarrow> nat list \<Rightarrow> nat list gores" where
  "CPUList_ManyByIDs [] cpus = Ret []"
| "CPUList_ManyByIDs (i # ids) cpus =
     (case CPUList_ByID i cpus of
        None \<Rightarrow> Fail (Msg (''cpu with id '' @ Itoa (int i) @ '', not in list''))
      | Some cpu \<Rightarrow>
          (case CPUList_ManyByIDs ids cpus of
             Ret targets \<Rightarrow> Ret (cpu # targets)
           | Fail e \<Rightarrow> Fail e
           | Panic m \<Rightarrow> Panic m))"

section \<open>Moving one CPU\<close>

text \<open>An operation on the machine, run inside the host.\<close>

definition onMachine :: "(unit, hw) action \<Rightarrow> (unit, hostImpl) action" where
  "onMachine f h = (case f (machineOf h) of (r, s) \<Rightarrow> (r, h\<lparr>machineOf := s\<rparr>))"

definition consolidate :: "nat \<Rightarrow> (unit, hostImpl) action" where
  "consolidate c h =
     andThen (onMachine (updateFrequencies c (map_option prof_pstates (GetPowerProfile (cpuPool h c) h))) h) (\<lambda>_ h1.
       onMachine (updateCStates c (map_option prof_cstates (GetPowerProfile (cpuPool h1 c) h1))) h1)"

definition doSetPool :: "nat \<Rightarrow> pool_ref \<Rightarrow> (unit, hostImpl) action" where
  "doSetPool c p h =
     (let origPool = cpuPool h c; h1 = setPoolField c p h in
      (case CPUList_remove c (Cpus origPool h1) of
         Ret l \<Rightarrow>
           (let h2 = setCpusOf origPool l h1 in
            (case consolidate c h2 of
               (Ret _, h3) \<Rightarrow>
                 (let newPool = cpuPool h3 c in
                  (Ret (), setCpusOf newPool (CPUList_add c (Cpus newPool h3)) h3))
             | (Fail e, h3) \<Rightarrow>
                 (let h4 = setPoolField c origPool h3 in
                  (Fail e, setCpusOf origPool (CPUList_add c (Cpus origPool h4)) h4))
             | (Panic m, h3) \<Rightarrow> (Panic m, h3)))
       | Fail e \<Rightarrow> (Fail e, setPoolField c origPool h1)
       | Panic m \<Rightarrow> (Panic m, h1)))"

definition setPool :: "nat \<Rightarrow> pool_ref option \<Rightarrow> (unit, hostImpl) action" where
  "setPool c target h = (case target of
      None \<Rightarrow> (Fail (Msg ''target pool cannot be nil''), h)
    | Some targetPool \<Rightarrow>
        if cpuPool h c = targetPool then (Ret (), h)
        else if cpuPool h c = GetReservedPool \<and> isExclusive targetPool
        then (Fail (Msg ''cannot move from reserved to exclusive pool''), h)
        else if isExclusive (cpuPool h c) \<and> isExclusive targetPool
        then (Fail (Msg ''cannot move exclusive to different exclusive pool''), h)
        else if isExclusive (cpuPool h c) \<and> targetPool = GetReservedPool
        then (Fail (Msg ''cannot move from exclusive to reserved''), h)
        else if targetPool = GetSharedPool \<or> cpuPool h c = GetSharedPool
        then doSetPool c targetPool h
        else (Panic ''we should never get here'', h))"

section \<open>Pools\<close>

definition moveCpus :: "pool_ref \<Rightarrow> nat list \<Rightarrow> (unit, hostImpl) action" where
  "moveCpus target cpus = forEach (\<lambda>cpu. setPool cpu (Some target)) cpus"

text \<open>
  The entry points are methods of an interface with one implementation per kind of pool; each
  is defined below, then the dispatch.
\<close>

definition sharedMoveCPUIDs :: "nat list \<Rightarrow> (unit, hostImpl) action" where
  "sharedMoveCPUIDs cpuIDs h =
     andThen (reading (CPUList_ManyByIDs cpuIDs (allCpus h)) h) (\<lambda>cpus h1. moveCpus RShared cpus h1)"

definition sharedMoveCpus :: "nat list \<Rightarrow> (unit, hostImpl) action" where
  "sharedMoveCpus cpus h = moveCpus RShared cpus h"

definition reservedMoveCPUIDs :: "nat list \<Rightarrow> (unit, hostImpl) action" where
  "reservedMoveCPUIDs cpuIDs h =
     andThen (reading (CPUList_ManyByIDs cpuIDs (allCpus h)) h) (\<lambda>cpus h1. moveCpus RReserved cpus h1)"

definition reservedMoveCpus :: "nat list \<Rightarrow> (unit, hostImpl) action" where
  "reservedMoveCpus cpus h = moveCpus RReserved cpus h"

definition exclusiveMoveCPUIDs :: "nat \<Rightarrow> nat list \<Rightarrow> (unit, hostImpl) action" where
  "exclusiveMoveCPUIDs r cpuIDs h =
     andThen (reading (CPUList_ManyByIDs cpuIDs (allCpus h)) h) (\<lambda>cpus h1. moveCpus (RExcl r) cpus h1)"

definition exclusiveMoveCpus :: "nat \<Rightarrow> nat list \<Rightarrow> (unit, hostImpl) action" where
  "exclusiveMoveCpus r cpus h = moveCpus (RExcl r) cpus h"

definition MoveCpus :: "pool_ref \<Rightarrow> nat list \<Rightarrow> (unit, hostImpl) action" where
  "MoveCpus p = (case p of RShared \<Rightarrow> sharedMoveCpus | RReserved \<Rightarrow> reservedMoveCpus | RExcl r \<Rightarrow> exclusiveMoveCpus r)"

definition MoveCPUIDs :: "pool_ref \<Rightarrow> nat list \<Rightarrow> (unit, hostImpl) action" where
  "MoveCPUIDs p = (case p of
      RShared \<Rightarrow> sharedMoveCPUIDs | RReserved \<Rightarrow> reservedMoveCPUIDs | RExcl r \<Rightarrow> exclusiveMoveCPUIDs r)"

text \<open>The bodies of the three \<^verbatim>\<open>setCpus\<close> loops, one per kind of pool.\<close>

definition sharedSetCpu :: "nat list \<Rightarrow> nat \<Rightarrow> (unit, hostImpl) action" where
  "sharedSetCpu requestedCores cpu h =
     (if CPUList_Contains cpu requestedCores then setPool cpu (Some RShared) h
      else if cpuPool h cpu = RShared then setPool cpu (Some GetReservedPool) h
      else (Ret (), h))"

definition reservedSetCpu :: "nat list \<Rightarrow> nat \<Rightarrow> (unit, hostImpl) action" where
  "reservedSetCpu cores cpu h =
     (if CPUList_Contains cpu cores then
        (if isExclusive (cpuPool h cpu)
         then (Fail (Msg ''cpus cannot be moved directly from exclusive to reserved pool''), h)
         else setPool cpu (Some RReserved) h)
      else if cpuPool h cpu = RReserved then setPool cpu (Some GetSharedPool) h
      else (Ret (), h))"

definition exclusiveSetCpu :: "nat \<Rightarrow> nat list \<Rightarrow> nat \<Rightarrow> (unit, hostImpl) action" where
  "exclusiveSetCpu r requestedCores cpu h =
     (if CPUList_Contains cpu requestedCores then setPool cpu (Some (RExcl r)) h
      else if cpuPool h cpu \<noteq> RExcl r then (Ret (), h)
      else setPool cpu (Some GetSharedPool) h)"

definition sharedSetCpus :: "nat list \<Rightarrow> (unit, hostImpl) action" where
  "sharedSetCpus requestedCores h = forEach (sharedSetCpu requestedCores) (allCpus h) h"

definition reservedSetCpus :: "nat list \<Rightarrow> (unit, hostImpl) action" where
  "reservedSetCpus cores h = forEach (reservedSetCpu cores) (allCpus h) h"

definition exclusiveSetCpus :: "nat \<Rightarrow> nat list \<Rightarrow> (unit, hostImpl) action" where
  "exclusiveSetCpus r requestedCores h = forEach (exclusiveSetCpu r requestedCores) (allCpus h) h"

definition setCpus :: "pool_ref \<Rightarrow> nat list \<Rightarrow> (unit, hostImpl) action" where
  "setCpus p = (case p of RShared \<Rightarrow> sharedSetCpus | RReserved \<Rightarrow> reservedSetCpus | RExcl r \<Rightarrow> exclusiveSetCpus r)"

definition sharedSetCPUIDs :: "nat list \<Rightarrow> (unit, hostImpl) action" where
  "sharedSetCPUIDs cpuIDs h =
     andThen (wrapErr ''cpuCore out of range'' (reading (CPUList_ManyByIDs cpuIDs (allCpus h)) h))
       (\<lambda>cores h1. sharedSetCpus cores h1)"

definition reservedSetCPUIDs :: "nat list \<Rightarrow> (unit, hostImpl) action" where
  "reservedSetCPUIDs cpuIDs h =
     andThen (wrapErr ''cpuCore out of range'' (reading (CPUList_ManyByIDs cpuIDs (allCpus h)) h))
       (\<lambda>cpus h1. reservedSetCpus cpus h1)"

definition exclusiveSetCPUIDs :: "nat \<Rightarrow> nat list \<Rightarrow> (unit, hostImpl) action" where
  "exclusiveSetCPUIDs r cpuIDs h =
     andThen (wrapErr ''cpuCore out of range'' (reading (CPUList_ManyByIDs cpuIDs (allCpus h)) h))
       (\<lambda>cpus h1. exclusiveSetCpus r cpus h1)"

definition SetCPUIDs :: "pool_ref \<Rightarrow> nat list \<Rightarrow> (unit, hostImpl) action" where
  "SetCPUIDs p = (case p of
      RShared \<Rightarrow> sharedSetCPUIDs | RReserved \<Rightarrow> reservedSetCPUIDs | RExcl r \<Rightarrow> exclusiveSetCPUIDs r)"

text \<open>The shared and exclusive pools inherit the method of \<^verbatim>\<open>poolImpl\<close>, the reserved pool refuses.\<close>

definition poolSetPowerProfile :: "pool_ref \<Rightarrow> Profile option \<Rightarrow> (unit, hostImpl) action" where
  "poolSetPowerProfile p profile h =
     (let h1 = h\<lparr>pools := (pools h)(p := (pools h p)\<lparr>pool_profile := profile\<rparr>)\<rparr> in
      forEach consolidate (Cpus p h1) h1)"

definition reservedSetPowerProfile :: "Profile option \<Rightarrow> (unit, hostImpl) action" where
  "reservedSetPowerProfile profile h = (Fail (Msg ''cannot set power profile for reserved pool''), h)"

definition SetPowerProfile :: "pool_ref \<Rightarrow> Profile option \<Rightarrow> (unit, hostImpl) action" where
  "SetPowerProfile p = (case p of RReserved \<Rightarrow> reservedSetPowerProfile | _ \<Rightarrow> poolSetPowerProfile p)"

section \<open>Lists of pools\<close>

definition PoolList_IndexOf :: "pool_ref \<Rightarrow> pool_ref list \<Rightarrow> int" where
  "PoolList_IndexOf p ps = indexFrom (\<lambda>q. q = p) 0 ps"

definition PoolList_IndexOfName :: "string \<Rightarrow> pool_ref list \<Rightarrow> hostImpl \<Rightarrow> int" where
  "PoolList_IndexOfName name ps h = indexFrom (\<lambda>q. pool_name (pools h q) = name) 0 ps"

definition PoolList_Contains :: "pool_ref \<Rightarrow> pool_ref list \<Rightarrow> bool" where
  "PoolList_Contains p ps = (if PoolList_IndexOf p ps < 0 then False else True)"

definition PoolList_remove :: "pool_ref \<Rightarrow> (unit, hostImpl) action" where
  "PoolList_remove p h =
     (let index = PoolList_IndexOf p (exclusivePools h) in
      if index < 0 then (Fail (Msg (''pool '' @ pool_name (pools h p) @ '' not in on host'')), h)
      else (Ret (), h\<lparr>exclusivePools := swapRemove (nat index) (exclusivePools h)\<rparr>))"

definition PoolList_add :: "pool_ref \<Rightarrow> pool_ref list \<Rightarrow> pool_ref list" where
  "PoolList_add p ps = ps @ [p]"

definition PoolList_ByName :: "string \<Rightarrow> hostImpl \<Rightarrow> pool_ref option" where
  "PoolList_ByName name h =
     (let index = PoolList_IndexOfName name (exclusivePools h) h in
      if index < 0 then None else Some (exclusivePools h ! nat index))"

definition GetExclusivePool :: "string \<Rightarrow> hostImpl \<Rightarrow> pool_ref option" where
  "GetExclusivePool name h = PoolList_ByName name h"

text \<open>
  \<^verbatim>\<open>AddExclusivePool\<close> returns a pool together with an error: the existing pool of that name with an
  error, or a new one.
\<close>

definition AddExclusivePool :: "string \<Rightarrow> hostImpl \<Rightarrow> (pool_ref \<times> gerr option) \<times> hostImpl" where
  "AddExclusivePool poolName h =
     (let i = PoolList_IndexOfName poolName (exclusivePools h) h in
      if 0 \<le> i
      then ((exclusivePools h ! nat i, Some (Msg (''pool with name '' @ poolName @ '' already exists''))), h)
      else (let pool = RExcl (nextPool h) in
        ((pool, None),
         h\<lparr>pools := (pools h)(pool := \<lparr>pool_name = poolName, pool_cpus = [], pool_profile = None\<rparr>),
           nextPool := Suc (nextPool h),
           exclusivePools := PoolList_add pool (exclusivePools h)\<rparr>)))"

definition exclusiveRemove :: "nat \<Rightarrow> (unit, hostImpl) action" where
  "exclusiveRemove r h = andThen (exclusiveSetCpus r [] h) (\<lambda>_ h1. PoolList_remove (RExcl r) h1)"

definition sharedRemove :: "(unit, hostImpl) action" where
  "sharedRemove h = (Fail (Msg ''shared pool canot be removed''), h)"

definition reservedRemove :: "(unit, hostImpl) action" where
  "reservedRemove h = (Fail (Msg ''reserved Pool cannot be removed''), h)"

definition Remove :: "pool_ref \<Rightarrow> (unit, hostImpl) action" where
  "Remove p = (case p of RShared \<Rightarrow> sharedRemove | RReserved \<Rightarrow> reservedRemove | RExcl r \<Rightarrow> exclusiveRemove r)"

section \<open>One description of the three kinds\<close>

definition setCpuBody :: "pool_ref \<Rightarrow> nat list \<Rightarrow> nat \<Rightarrow> (unit, hostImpl) action" where
  "setCpuBody p cores = (case p of
      RShared \<Rightarrow> sharedSetCpu cores
    | RReserved \<Rightarrow> reservedSetCpu cores
    | RExcl r \<Rightarrow> exclusiveSetCpu r cores)"

lemma MoveCpus_eq: "MoveCpus p cpus h = moveCpus p cpus h"
  by (cases p) (simp_all add: MoveCpus_def sharedMoveCpus_def reservedMoveCpus_def exclusiveMoveCpus_def)

lemma MoveCPUIDs_eq:
  "MoveCPUIDs p ids h = andThen (reading (CPUList_ManyByIDs ids (allCpus h)) h) (\<lambda>cpus h1. moveCpus p cpus h1)"
  by (cases p) (simp_all add: MoveCPUIDs_def sharedMoveCPUIDs_def reservedMoveCPUIDs_def exclusiveMoveCPUIDs_def)

lemma setCpus_eq: "setCpus p cores h = forEach (setCpuBody p cores) (allCpus h) h"
  by (cases p) (simp_all add: setCpus_def setCpuBody_def sharedSetCpus_def reservedSetCpus_def exclusiveSetCpus_def)

lemma SetCPUIDs_eq:
  "SetCPUIDs p ids h = andThen (wrapErr ''cpuCore out of range'' (reading (CPUList_ManyByIDs ids (allCpus h)) h))
     (\<lambda>cpus h1. setCpus p cpus h1)"
  by (cases p) (simp_all add: SetCPUIDs_def setCpus_def sharedSetCPUIDs_def reservedSetCPUIDs_def exclusiveSetCPUIDs_def)

lemma SetPowerProfile_eq:
  "SetPowerProfile p pr h = (if p = RReserved then (Fail (Msg ''cannot set power profile for reserved pool''), h)
     else (let h1 = h\<lparr>pools := (pools h)(p := (pools h p)\<lparr>pool_profile := pr\<rparr>)\<rparr> in forEach consolidate (Cpus p h1) h1))"
  by (cases p) (simp_all add: SetPowerProfile_def reservedSetPowerProfile_def poolSetPowerProfile_def)

lemma Remove_eq:
  "Remove p h = (case p of
      RShared \<Rightarrow> (Fail (Msg ''shared pool canot be removed''), h)
    | RReserved \<Rightarrow> (Fail (Msg ''reserved Pool cannot be removed''), h)
    | RExcl _ \<Rightarrow> andThen (setCpus p [] h) (\<lambda>_ h1. PoolList_remove p h1))"
  by (cases p) (simp_all add: Remove_def sharedRemove_def reservedRemove_def exclusiveRemove_def setCpus_def)

section \<open>Lists of CPUs: search, removal, lookup\<close>

lemma CPUList_Contains_iff [simp]: "CPUList_Contains c cs \<longleftrightarrow> c \<in> set cs"
  by (auto simp: CPUList_Contains_def CPUList_IndexOf_def indexFrom_neg)

lemma CPUList_remove_cases:
  assumes "distinct cs"
  shows "if c \<in> set cs then \<exists>l. CPUList_remove c cs = Ret l \<and> set l = set cs - {c} \<and> distinct l
         else \<exists>e. CPUList_remove c cs = Fail e"
proof (cases "c \<in> set cs")
  case True
  then have "\<not> CPUList_IndexOf c cs < 0" by (auto simp: CPUList_IndexOf_def indexFrom_neg)
  then have i: "0 \<le> CPUList_IndexOf c cs" by simp
  note f = indexFrom_find [OF i [unfolded CPUList_IndexOf_def]]
  show ?thesis
    using True i set_swapRemove [OF assms f(1)] f(2) by (simp add: CPUList_remove_def CPUList_IndexOf_def Let_def)
next
  case False
  then have "CPUList_IndexOf c cs < 0" by (auto simp: CPUList_IndexOf_def indexFrom_neg)
  with False show ?thesis by (simp add: CPUList_remove_def)
qed

lemma CPUList_ByID_iff: "CPUList_ByID i cs = (if i \<in> set cs then Some i else None)"
  by (cases "find (\<lambda>cpu. cpu = i) cs")
    (auto simp: CPUList_ByID_def find_None_iff find_Some_iff dest: nth_mem)

lemma CPUList_ManyByIDs_result:
  "CPUList_ManyByIDs ids cs
    = (if set ids \<subseteq> set cs then Ret ids
       else Fail (Msg (''cpu with id '' @ Itoa (int (hd (filter (\<lambda>i. i \<notin> set cs) ids))) @ '', not in list'')))"
  by (induction ids) (auto simp: CPUList_ByID_iff)

section \<open>The invariant\<close>

definition allocated :: "hostImpl \<Rightarrow> pool_ref \<Rightarrow> bool" where
  "allocated h p = (case p of RExcl r \<Rightarrow> r < nextPool h | _ \<Rightarrow> True)"

text \<open>
  The lists of the pools and the pool fields of the CPUs describe the same partition of the host's
  CPUs.
\<close>

definition membership_ok :: "hostImpl \<Rightarrow> bool" where
  "membership_ok h \<longleftrightarrow> distinct (allCpus h) \<and> (\<forall>p. distinct (Cpus p h))
     \<and> (\<forall>p c. c \<in> set (Cpus p h) \<longleftrightarrow> c \<in> set (allCpus h) \<and> cpuPool h c = p)
     \<and> (\<forall>c \<in> set (allCpus h). allocated h (cpuPool h c))"

text \<open>The exclusive pools of the host have different names.\<close>

definition registry_ok :: "hostImpl \<Rightarrow> bool" where
  "registry_ok h \<longleftrightarrow> (\<forall>p \<in> set (exclusivePools h). isExclusive p \<and> allocated h p)
     \<and> distinct (map (\<lambda>p. pool_name (pools h p)) (exclusivePools h))"

text \<open>Start-up has recorded the frequency range of every CPU, if scaling is supported.\<close>

definition machine_ready :: "hostImpl \<Rightarrow> bool" where
  "machine_ready h \<longleftrightarrow> (isFeatureIDSupported (featureList (machineOf h)) FrequencyScalingFeature \<longrightarrow>
      (\<forall>c \<in> set (allCpus h). coreTypes (machineOf h) \<noteq> []
         \<and> c < length (allCPUDefaultPStatesInfo (machineOf h))))"

definition host_inv :: "hostImpl \<Rightarrow> bool" where
  "host_inv h \<longleftrightarrow> membership_ok h \<and> registry_ok h \<and> machine_ready h"

text \<open>What moving CPUs never changes.\<close>

definition host_frame :: "hostImpl \<Rightarrow> hostImpl \<Rightarrow> bool" where
  "host_frame h h' \<longleftrightarrow> exclusivePools h' = exclusivePools h \<and> nextPool h' = nextPool h \<and> allCpus h' = allCpus h
     \<and> host_name h' = host_name h
     \<and> (\<forall>p. pool_name (pools h' p) = pool_name (pools h p) \<and> pool_profile (pools h' p) = pool_profile (pools h p))
     \<and> knowledge (machineOf h') = knowledge (machineOf h)"

lemma host_frame_refl [simp, intro]: "host_frame h h"
  by (simp add: host_frame_def)

lemma host_frame_trans: "host_frame h h' \<Longrightarrow> host_frame h' h'' \<Longrightarrow> host_frame h h''"
  by (simp add: host_frame_def)

lemma allocated_cong: "nextPool h' = nextPool h \<Longrightarrow> allocated h' p = allocated h p"
  by (cases p) (simp_all add: allocated_def)

lemma host_frame_allocated: "host_frame h h' \<Longrightarrow> allocated h' p = allocated h p"
  by (rule allocated_cong) (simp add: host_frame_def)

lemma host_frame_inv:
  assumes "host_frame h h'" "host_inv h" "membership_ok h'"
  shows "host_inv h'"
proof -
  have k: "knowledge (machineOf h') = knowledge (machineOf h)" using assms(1) by (simp add: host_frame_def)
  have "machine_ready h'"
    using assms(1,2) unfolding machine_ready_def host_inv_def host_frame_def knowledge_fields [OF k] by simp
  moreover have "registry_ok h'"
    using assms(1,2) host_frame_allocated [OF assms(1)] by (simp add: registry_ok_def host_inv_def host_frame_def)
  ultimately show ?thesis using assms(3) by (simp add: host_inv_def)
qed

section \<open>Consolidation\<close>

text \<open>All files of one CPU.\<close>

definition cpuFiles :: "nat \<Rightarrow> path set" where
  "cpuFiles c = range (CPUFile c)"

lemma onMachine_eq: "onMachine f h = (fst (f (machineOf h)), h\<lparr>machineOf := snd (f (machineOf h))\<rparr>)"
  by (simp add: onMachine_def case_prod_unfold)

lemma consolidate_effect:
  "\<exists>s. snd (consolidate c h) = h\<lparr>machineOf := s\<rparr> \<and> touches (cpuFiles c) (machineOf h) s"
proof -
  let ?f = "updateFrequencies c (map_option prof_pstates (GetPowerProfile (cpuPool h c) h)) (machineOf h)"
  have f: "touches (cpuFiles c) (machineOf h) (snd ?f)"
    by (rule touches_mono [OF updateFrequencies_frame]) (auto simp: pstateFiles_def cpuFiles_def)
  have g: "touches (cpuFiles c) s (snd (updateCStates c pr s))" for pr s
    by (rule touches_mono [OF updateCStates_frame]) (auto simp: cstateFiles_def cpuFiles_def)
  show ?thesis
  proof (cases "fst ?f")
    case (Ret u)
    then have "?f = (Ret u, snd ?f)" by (rule Ret_run)
    then show ?thesis
      using Ret touches_trans [OF f g] by (auto simp: consolidate_def onMachine_eq)
  qed (use f in \<open>auto simp: consolidate_def onMachine_eq\<close>)
qed

lemma consolidate_no_panic:
  assumes "machine_ready h" "c \<in> set (allCpus h)"
  shows "\<not> isPanic (fst (consolidate c h))"
  unfolding consolidate_def
proof (rule andThen_isPanic)
  show "\<not> isPanic (fst (onMachine (updateFrequencies c (map_option prof_pstates (GetPowerProfile (cpuPool h c) h))) h))"
    using assms by (auto simp: onMachine_eq updateFrequencies_def machine_ready_def setDriverValues_no_panic
        split: option.split)
  show "\<not> isPanic (fst (onMachine (updateCStates c pr) h1))" for pr h1
    using updateCStates_no_panic [of c pr "machineOf h1"] by (simp add: onMachine_eq)
qed

section \<open>Moving one CPU\<close>

lemma consolidate_frame:
  assumes "consolidate c h = (r, h')"
  shows "host_frame h h'" "cpuPool h' = cpuPool h" "pools h' = pools h"
    "touches (cpuFiles c) (machineOf h) (machineOf h')"
proof -
  obtain s where "h' = h\<lparr>machineOf := s\<rparr>" "touches (cpuFiles c) (machineOf h) s"
    using consolidate_effect [of c h] assms by auto
  then show "host_frame h h'" "cpuPool h' = cpuPool h" "pools h' = pools h"
    "touches (cpuFiles c) (machineOf h) (machineOf h')"
    by (auto simp: host_frame_def dest: touches_knowledge)
qed

text \<open>Taking a CPU out of one list and appending it to another keeps the partition.\<close>

lemma membership_move:
  assumes "membership_ok h" "c \<in> set (allCpus h)" "allocated h p" "host_frame h h'"
    and "cpuPool h' = (cpuPool h)(c := p)"
    and "set l = set (Cpus (cpuPool h c) h) - {c}" "distinct l"
    and "\<And>q. Cpus q h' = (if q = p then (if p = cpuPool h c then l else Cpus p h) @ [c]
                           else if q = cpuPool h c then l else Cpus q h)"
  shows "membership_ok h'"
proof -
  have a: "allCpus h' = allCpus h" "\<And>q. allocated h' q = allocated h q"
    using assms(4) host_frame_allocated by (auto simp: host_frame_def)
  have m: "\<And>q x. x \<in> set (Cpus q h) \<longleftrightarrow> x \<in> set (allCpus h) \<and> cpuPool h x = q" "\<And>q. distinct (Cpus q h)"
    "distinct (allCpus h)" "\<And>x. x \<in> set (allCpus h) \<Longrightarrow> allocated h (cpuPool h x)"
    using assms(1) by (auto simp: membership_ok_def)
  show ?thesis
    unfolding membership_ok_def
  proof (intro conjI allI ballI)
    show "distinct (allCpus h')" using m(3) a by simp
    show "distinct (Cpus q h')" for q using assms(2,6-8) m by auto
    show "x \<in> set (Cpus q h') \<longleftrightarrow> x \<in> set (allCpus h') \<and> cpuPool h' x = q" for q x
      using assms(2,5,6,8) m(1) a by auto
    show "allocated h' (cpuPool h' x)" if "x \<in> set (allCpus h')" for x
      using that a m(4) assms(3,5) by simp
  qed
qed

lemma host_frame_setters:
  "host_frame h (setCpusOf p l h)" "host_frame h (setPoolField c p h)"
  by (simp_all add: host_frame_def setCpusOf_def setPoolField_def)

lemma Cpus_setters [simp]:
  "Cpus q (setCpusOf p l h) = (if q = p then l else Cpus q h)" "Cpus q (setPoolField c p h) = Cpus q h"
  "cpuPool (setCpusOf p l h) = cpuPool h" "cpuPool (setPoolField c p h) = (cpuPool h)(c := p)"
  "machineOf (setCpusOf p l h) = machineOf h" "machineOf (setPoolField c p h) = machineOf h"
  "allCpus (setCpusOf p l h) = allCpus h" "allCpus (setPoolField c p h) = allCpus h"
  by (simp_all add: Cpus_def setCpusOf_def setPoolField_def)

lemma setPoolField_back: "setPoolField c (cpuPool h c) (setPoolField c p h) = h"
  by (simp add: setPoolField_def)

lemma machine_ready_setters:
  "machine_ready (setCpusOf p l h) = machine_ready h" "machine_ready (setPoolField c p h) = machine_ready h"
  by (simp_all add: machine_ready_def)

text \<open>
  The outcome of moving a CPU: the state stays well formed, only the CPU's own files may have
  changed, and the CPU is in the target pool after success and where it was after an error.
\<close>

definition moved :: "nat \<Rightarrow> pool_ref \<Rightarrow> hostImpl \<Rightarrow> unit gores \<Rightarrow> hostImpl \<Rightarrow> bool" where
  "moved c p h r h' \<longleftrightarrow> host_inv h' \<and> host_frame h h' \<and> \<not> isPanic r
     \<and> touches (cpuFiles c) (machineOf h) (machineOf h')
     \<and> cpuPool h' = (if isRet r then (cpuPool h)(c := p) else cpuPool h)"

lemma doSetPool_moved:
  assumes "host_inv h" "allocated h p" "p \<noteq> cpuPool h c"
  shows "moved c p h (fst (doSetPool c p h)) (snd (doSetPool c p h))"
proof (cases "c \<in> set (allCpus h)")
  case False
  have m: "distinct (Cpus (cpuPool h c) h)" "c \<notin> set (Cpus (cpuPool h c) h)"
    using assms(1) False by (auto simp: host_inv_def membership_ok_def)
  then obtain e where "CPUList_remove c (Cpus (cpuPool h c) h) = Fail e"
    using CPUList_remove_cases [OF m(1), of c] by auto
  then have "doSetPool c p h = (Fail e, h)" by (simp add: doSetPool_def Let_def setPoolField_back)
  with assms(1) show ?thesis by (simp add: moved_def)
next
  case c: True
  let ?o = "cpuPool h c"
  have ok: "membership_ok h" "machine_ready h" using assms(1) by (simp_all add: host_inv_def)
  have d: "distinct (Cpus ?o h)" "c \<in> set (Cpus ?o h)" "allocated h ?o" using ok c by (auto simp: membership_ok_def)
  then obtain l where l: "CPUList_remove c (Cpus ?o h) = Ret l" "set l = set (Cpus ?o h) - {c}" "distinct l"
    using CPUList_remove_cases [OF d(1), of c] by auto
  let ?h2 = "setCpusOf ?o l (setPoolField c p h)"
  obtain r h3 where con: "consolidate c ?h2 = (r, h3)" by (cases "consolidate c ?h2")
  note f = consolidate_frame [OF con]
  have np: "\<not> isPanic r" using consolidate_no_panic [of ?h2 c] con ok(2) c by (simp add: machine_ready_setters)
  have hf: "host_frame h h3"
    by (rule host_frame_trans [OF host_frame_trans [OF host_frame_setters(2) host_frame_setters(1)] f(1)])
  have "Cpus q h3 = Cpus q ?h2" for q by (simp only: Cpus_def f(3))
  then have cp: "cpuPool h3 = (cpuPool h)(c := p)" and cl: "\<And>q. Cpus q h3 = (if q = ?o then l else Cpus q h)"
    using f(2) by simp_all
  show ?thesis
  proof (cases r)
    case (Ret u)
    let ?h = "setCpusOf p (Cpus p h3 @ [c]) h3"
    have run: "doSetPool c p h = (Ret (), ?h)"
      using l(1) con Ret cp by (simp add: doSetPool_def Let_def CPUList_add_def)
    have fr: "host_frame h ?h" by (rule host_frame_trans [OF hf host_frame_setters(1)])
    have "membership_ok ?h"
      by (rule membership_move [OF ok(1) c assms(2) fr _ l(2,3)]) (use assms(3) cp cl in auto)
    with run fr f(4) cp host_frame_inv [OF fr assms(1)] show ?thesis by (simp add: moved_def)
  next
    case (Fail e)
    let ?h = "setCpusOf ?o (Cpus ?o h3 @ [c]) (setPoolField c ?o h3)"
    have run: "doSetPool c p h = (Fail e, ?h)"
      using l(1) con Fail by (simp add: doSetPool_def Let_def CPUList_add_def)
    have fr: "host_frame h ?h"
      by (rule host_frame_trans [OF host_frame_trans [OF hf host_frame_setters(2)] host_frame_setters(1)])
    have "membership_ok ?h"
      by (rule membership_move [OF ok(1) c d(3) fr _ l(2,3)]) (use cp cl in auto)
    with run fr f(4) cp host_frame_inv [OF fr assms(1)] show ?thesis by (simp add: moved_def)
  qed (use np in simp)
qed

text \<open>The moves the library allows, \<^verbatim>\<open>reserved <-> shared <-> exclusive\<close>.\<close>

inductive pool_move :: "pool_ref \<Rightarrow> pool_ref \<Rightarrow> bool" where
  reserved_to_shared: "pool_move RReserved RShared"
| shared_to_reserved: "pool_move RShared RReserved"
| shared_to_exclusive: "pool_move RShared (RExcl r)"
| exclusive_to_shared: "pool_move (RExcl r) RShared"

inductive_simps pool_move_simps [simp]:
  "pool_move RReserved q" "pool_move RShared q" "pool_move (RExcl r) q"

lemma setPool_allowed: "pool_move (cpuPool h c) p \<Longrightarrow> setPool c (Some p) h = doSetPool c p h"
  by (cases "cpuPool h c"; cases p) (auto simp: setPool_def isExclusive_def)

lemma setPool_refused:
  "\<not> pool_move (cpuPool h c) p \<Longrightarrow> cpuPool h c \<noteq> p \<Longrightarrow> \<exists>e. setPool c (Some p) h = (Fail e, h)"
  by (cases "cpuPool h c"; cases p) (auto simp: setPool_def isExclusive_def)

lemma setPool_moved:
  assumes "host_inv h" "allocated h p"
  shows "moved c p h (fst (setPool c (Some p) h)) (snd (setPool c (Some p) h))"
proof (cases "cpuPool h c = p")
  case True
  then show ?thesis using assms(1) by (auto simp: setPool_def moved_def)
next
  case ne: False
  show ?thesis
  proof (cases "pool_move (cpuPool h c) p")
    case True
    then show ?thesis using doSetPool_moved [OF assms, of c] ne setPool_allowed [OF True] by simp
  next
    case False
    then show ?thesis using setPool_refused [OF False ne] assms(1) by (auto simp: moved_def)
  qed
qed

text \<open>
  C14. \<^verbatim>\<open>setPool\<close> implements a step of the assignment of CPUs to pools.  In a well-formed host it
  never panics and keeps the host well formed, whatever write fails: after success the CPU, and
  only it, is assigned to the target pool, and the move was one of the allowed ones; after an
  error every CPU is assigned as before.  A move that is not allowed changes nothing at all.
\<close>

theorem setPool_refines_assignment:
  assumes "host_inv h" "allocated h p" "setPool c (Some p) h = (r, h')"
  shows "host_inv h' \<and> \<not> isPanic r
    \<and> (r = Ret () \<longrightarrow> cpuPool h' = (cpuPool h)(c := p) \<and> (cpuPool h c = p \<or> pool_move (cpuPool h c) p))
    \<and> (r \<noteq> Ret () \<longrightarrow> cpuPool h' = cpuPool h)
    \<and> (cpuPool h c \<noteq> p \<and> \<not> pool_move (cpuPool h c) p \<longrightarrow> (\<exists>e. r = Fail e) \<and> h' = h)
    \<and> (\<forall>f. (\<nexists>g. f = CPUFile c g) \<longrightarrow> contents (sys (machineOf h')) f = contents (sys (machineOf h)) f)"
proof -
  have m: "moved c p h r h'" using setPool_moved [OF assms(1,2), of c] assms(3) by simp
  have e: "cpuPool h c \<noteq> p \<and> \<not> pool_move (cpuPool h c) p \<longrightarrow> (\<exists>e. r = Fail e) \<and> h' = h"
    using setPool_refused [of h c p] assms(3) by auto
  then have "r = Ret () \<longrightarrow> cpuPool h c = p \<or> pool_move (cpuPool h c) p" by auto
  with m e show ?thesis
    by (cases r) (auto simp: moved_def touches_def cpuFiles_def)
qed

section \<open>Loops over CPUs\<close>

text \<open>
  An operation on one CPU that, on success, reassigns that CPU by a rule \<open>F\<close> (its new pool from its
  old one), on an error reassigns nothing, and keeps the host well formed in both cases.
\<close>

locale assigning =
  fixes op :: "nat \<Rightarrow> (unit, hostImpl) action" and I :: "hostImpl \<Rightarrow> bool"
    and F :: "nat \<Rightarrow> pool_ref \<Rightarrow> pool_ref"
  assumes step: "I h \<Longrightarrow> op c h = (r, h') \<Longrightarrow> I h' \<and> host_frame h h' \<and> \<not> isPanic r
      \<and> cpuPool h' = (if isRet r then (cpuPool h)(c := F c (cpuPool h c)) else cpuPool h)"
    and idem: "F c (F c q) = F c q"
begin

text \<open>A loop that stops early has reassigned a prefix of the CPUs.\<close>

lemma forEach_prefix:
  assumes "I h" "forEach op cs h = (r, h')"
  shows "\<exists>n. I h' \<and> host_frame h h' \<and> \<not> isPanic r \<and> (isRet r \<longrightarrow> n = length cs)
     \<and> cpuPool h' = (\<lambda>c. if c \<in> set (take n cs) then F c (cpuPool h c) else cpuPool h c)"
  using assms
proof (induction cs arbitrary: h)
  case Nil
  then show ?case by auto
next
  case (Cons c cs)
  obtain r1 h1 where s1: "op c h = (r1, h1)" by (cases "op c h")
  note st = step [OF Cons.prems(1) s1]
  show ?case
  proof (cases "isRet r1")
    case True
    then have "forEach op cs h1 = (r, h')" using Cons.prems(2) s1 by (auto simp: isRet_iff)
    with Cons.IH [of h1] st obtain n where n: "I h'" "host_frame h1 h'" "\<not> isPanic r" "isRet r \<longrightarrow> n = length cs"
      "cpuPool h' = (\<lambda>x. if x \<in> set (take n cs) then F x (cpuPool h1 x) else cpuPool h1 x)" by blast
    moreover have "cpuPool h' = (\<lambda>x. if x \<in> set (take (Suc n) (c # cs)) then F x (cpuPool h x) else cpuPool h x)"
      using n(5) st True by (auto simp: idem)
    ultimately show ?thesis
      using host_frame_trans st by (intro exI [of _ "Suc n"]) auto
  next
    case False
    then have "r = r1 \<and> h' = h1" using Cons.prems(2) s1 by (cases r1) auto
    with st False show ?thesis by (intro exI [of _ 0]) auto
  qed
qed

lemma forEach_Ret:
  assumes "I h" "forEach op cs h = (Ret (), h')"
  shows "I h'" "host_frame h h'" "cpuPool h' = (\<lambda>c. if c \<in> set cs then F c (cpuPool h c) else cpuPool h c)"
  using forEach_prefix [OF assms] by auto

end

sublocale assigning \<subseteq> total_keeping op I
proof
  show "I (snd (op x s))" "\<not> isPanic (fst (op x s))" if "I s" for s x
    using step [OF that, of x "fst (op x s)" "snd (op x s)"] by simp_all
qed

text \<open>The rule of \<^verbatim>\<open>setCpus\<close>: requested CPUs come in, others leave for the neighbouring pool.\<close>

definition setTarget :: "pool_ref \<Rightarrow> nat list \<Rightarrow> nat \<Rightarrow> pool_ref \<Rightarrow> pool_ref" where
  "setTarget p cores c q = (if c \<in> set cores then p
     else if q = p then (if p = RShared then RReserved else RShared) else q)"

lemma allocated_predefined [simp]: "allocated h RShared" "allocated h RReserved"
  by (simp_all add: allocated_def)

lemma moved_step:
  assumes "host_inv h" "allocated h p" "allocated h q" "setPool c (Some q) h = (r, h')"
  shows "(host_inv h' \<and> allocated h' p) \<and> host_frame h h' \<and> \<not> isPanic r
      \<and> cpuPool h' = (if isRet r then (cpuPool h)(c := q) else cpuPool h)"
  using setPool_moved [OF assms(1,3), of c] assms(2,4) host_frame_allocated by (auto simp: moved_def)

interpretation moves: assigning "\<lambda>c. setPool c (Some p)" "\<lambda>h. host_inv h \<and> allocated h p" "\<lambda>c q. p" for p
  by unfold_locales (auto dest: moved_step [of _ p p])

lemma setCpuBody_cases:
  "setCpuBody p cores c h = setPool c (Some (setTarget p cores c (cpuPool h c))) h
   \<or> (setCpuBody p cores c h = (Ret (), h) \<and> setTarget p cores c (cpuPool h c) = cpuPool h c)
   \<or> (\<exists>e. setCpuBody p cores c h = (Fail e, h))"
  by (cases p) (auto simp: setCpuBody_def sharedSetCpu_def reservedSetCpu_def exclusiveSetCpu_def setTarget_def)

interpretation setLoop: assigning "setCpuBody p cores" "\<lambda>h. host_inv h \<and> allocated h p" "setTarget p cores"
  for p cores
proof
  show "setTarget p cores c (setTarget p cores c q) = setTarget p cores c q" for c q
    by (auto simp: setTarget_def)
  fix h c r h'
  assume I: "host_inv h \<and> allocated h p" and run: "setCpuBody p cores c h = (r, h')"
  show "(host_inv h' \<and> allocated h' p) \<and> host_frame h h' \<and> \<not> isPanic r
      \<and> cpuPool h' = (if isRet r then (cpuPool h)(c := setTarget p cores c (cpuPool h c)) else cpuPool h)"
  proof (cases "setCpuBody p cores c h = setPool c (Some (setTarget p cores c (cpuPool h c))) h")
    case True
    show ?thesis
    proof (cases "setTarget p cores c (cpuPool h c) = cpuPool h c")
      case same: True
      then have "setPool c (Some (setTarget p cores c (cpuPool h c))) h = (Ret (), h)" by (simp add: setPool_def)
      with True run I same show ?thesis by auto
    next
      case False
      then have "allocated h (setTarget p cores c (cpuPool h c))" using I by (auto simp: setTarget_def split: if_splits)
      with moved_step [of h p "setTarget p cores c (cpuPool h c)" c r h'] I True run show ?thesis by simp
    qed
  next
    case False
    with setCpuBody_cases [of p cores c h] run I show ?thesis by auto
  qed
qed

section \<open>Operations on pools\<close>

lemma set_Cpus: "membership_ok h \<Longrightarrow> set (Cpus p h) = {c \<in> set (allCpus h). cpuPool h c = p}"
  by (auto simp: membership_ok_def)

lemma setCpus_prefix:
  assumes "host_inv h" "allocated h p" "setCpus p cores h = (r, h')"
  shows "host_inv h'" "host_frame h h'" "\<not> isPanic r"
    "r = Ret () \<Longrightarrow> cpuPool h' = (\<lambda>c. if c \<in> set (allCpus h) then setTarget p cores c (cpuPool h c) else cpuPool h c)"
  using setLoop.forEach_prefix [of h p cores "allCpus h" r h'] assms by (auto simp: setCpus_eq)

text \<open>
  \<^verbatim>\<open>SetCPUIDs\<close> on any of the three kinds of pool.  In a well-formed host it never panics and
  leaves a well-formed host, also when it stops half way.  On success the pool holds exactly the
  requested CPUs; a CPU it gave up is in the neighbouring pool (reserved for the shared pool,
  shared for the others), and every other CPU is where it was.  An unknown id is an error that
  changes nothing.
\<close>

theorem SetCPUIDs_exact:
  assumes "host_inv h" "allocated h p" "SetCPUIDs p ids h = (r, h')"
  shows "host_inv h' \<and> \<not> isPanic r
    \<and> (r = Ret () \<longrightarrow> set (Cpus p h') = set ids
        \<and> (\<forall>c \<in> set (allCpus h) - set ids. cpuPool h' c =
             (if cpuPool h c = p then (if p = RShared then RReserved else RShared) else cpuPool h c)))
    \<and> (\<not> set ids \<subseteq> set (allCpus h) \<longrightarrow> (\<exists>e. r = Fail e) \<and> h' = h)"
proof (cases "set ids \<subseteq> set (allCpus h)")
  case True
  then have run: "setCpus p ids h = (r, h')"
    using assms(3) by (simp add: SetCPUIDs_eq CPUList_ManyByIDs_result)
  note e = setCpus_prefix [OF assms(1,2) run]
  have "allCpus h' = allCpus h" "membership_ok h'" using e(1,2) by (simp_all add: host_frame_def host_inv_def)
  then have "r = Ret () \<Longrightarrow> set (Cpus p h') = set ids"
    using e(4) True by (auto simp: set_Cpus setTarget_def split: if_splits)
  with e True show ?thesis by (auto simp: setTarget_def)
next
  case False
  then show ?thesis using assms by (auto simp: SetCPUIDs_eq CPUList_ManyByIDs_result)
qed

text \<open>
  \<^verbatim>\<open>MoveCPUIDs\<close>: on success the named CPUs are in the pool and all others stay; an error leaves
  a well-formed host in which a prefix of the named CPUs has moved.
\<close>

theorem MoveCPUIDs_exact:
  assumes "host_inv h" "allocated h p" "MoveCPUIDs p ids h = (r, h')"
  shows "host_inv h' \<and> \<not> isPanic r
    \<and> (\<exists>n. (r = Ret () \<longrightarrow> n = length ids)
        \<and> cpuPool h' = (\<lambda>c. if c \<in> set (take n ids) then p else cpuPool h c))
    \<and> (r = Ret () \<longrightarrow> set (Cpus p h') = set (Cpus p h) \<union> set ids)"
proof (cases "set ids \<subseteq> set (allCpus h)")
  case True
  then have run: "forEach (\<lambda>c. setPool c (Some p)) ids h = (r, h')"
    using assms(3) by (simp add: MoveCPUIDs_eq moveCpus_def CPUList_ManyByIDs_result)
  then obtain n where n: "host_inv h'" "host_frame h h'" "\<not> isPanic r" "isRet r \<longrightarrow> n = length ids"
    "cpuPool h' = (\<lambda>c. if c \<in> set (take n ids) then p else cpuPool h c)"
    using moves.forEach_prefix [OF conjI [OF assms(1,2)] run] by blast
  have "allCpus h' = allCpus h" "membership_ok h" "membership_ok h'"
    using n(1,2) assms(1) by (simp_all add: host_frame_def host_inv_def)
  then have "r = Ret () \<longrightarrow> set (Cpus p h') = set (Cpus p h) \<union> set ids"
    using n(4,5) True by (auto simp: set_Cpus)
  moreover have "r = Ret () \<longrightarrow> n = length ids" using n(4) by auto
  ultimately show ?thesis using n by blast
next
  case False
  then obtain e where "r = Fail e" "h' = h" using assms(3) by (auto simp: MoveCPUIDs_eq CPUList_ManyByIDs_result)
  with assms(1) show ?thesis by (auto intro!: exI [of _ 0])
qed

subsection \<open>Profiles\<close>

lemma consolidate_keeps_inv:
  assumes "host_inv h"
  shows "host_inv (snd (consolidate c h))"
proof -
  have f: "consolidate c h = (fst (consolidate c h), snd (consolidate c h))" by simp
  note k = consolidate_frame [OF f]
  have a: "allocated (snd (consolidate c h)) q = allocated h q" for q by (rule host_frame_allocated [OF k(1)])
  have "membership_ok (snd (consolidate c h))"
    using assms k(1-3) a unfolding host_inv_def membership_ok_def Cpus_def by (simp add: host_frame_def)
  with k(1) assms show ?thesis by (rule host_frame_inv)
qed

interpretation consolidation: keeping consolidate host_inv
  by unfold_locales (rule consolidate_keeps_inv)

definition withProfile :: "pool_ref \<Rightarrow> Profile option \<Rightarrow> hostImpl \<Rightarrow> hostImpl" where
  "withProfile p pr h = h\<lparr>pools := (pools h)(p := (pools h p)\<lparr>pool_profile := pr\<rparr>)\<rparr>"

lemma SetPowerProfile_unfold:
  "p \<noteq> RReserved \<Longrightarrow> SetPowerProfile p pr h = forEach consolidate (Cpus p h) (withProfile p pr h)"
  by (simp add: SetPowerProfile_eq withProfile_def Cpus_def)

lemma withProfile_fields [simp]:
  "Cpus q (withProfile p pr h) = Cpus q h" "pool_name (pools (withProfile p pr h) q) = pool_name (pools h q)"
  "cpuPool (withProfile p pr h) = cpuPool h" "allCpus (withProfile p pr h) = allCpus h"
  "machineOf (withProfile p pr h) = machineOf h" "exclusivePools (withProfile p pr h) = exclusivePools h"
  "GetPowerProfile q (withProfile p pr h) = (if q = p then pr else GetPowerProfile q h)"
  by (simp_all add: Cpus_def withProfile_def GetPowerProfile_def)

lemma withProfile_inv:
  assumes "host_inv h"
  shows "host_inv (withProfile p pr h)"
proof -
  have "allocated (withProfile p pr h) q = allocated h q" for q
    by (rule allocated_cong) (simp add: withProfile_def)
  then show ?thesis
    using assms by (simp add: host_inv_def membership_ok_def registry_ok_def machine_ready_def)
qed

lemma forEach_consolidate_files:
  assumes "forEach consolidate cs h = (r, h')"
  shows "\<forall>q. q \<notin> \<Union> (cpuFiles ` set cs) \<longrightarrow> contents (sys (machineOf h')) q = contents (sys (machineOf h)) q"
  using assms
proof (induction cs arbitrary: h)
  case (Cons x cs)
  obtain r1 h1 where s1: "consolidate x h = (r1, h1)" by (cases "consolidate x h")
  note f = consolidate_frame(4) [OF s1]
  show ?case
  proof (cases r1)
    case (Ret u)
    then have "forEach consolidate cs h1 = (r, h')" using Cons.prems s1 by simp
    from Cons.IH [OF this] f show ?thesis by (simp add: touches_def)
  qed (use Cons.prems s1 f in \<open>auto simp: touches_def\<close>)
qed simp

lemma forEach_consolidate_Ret:
  assumes "forEach consolidate cs h = (Ret (), h')" "distinct cs" "c \<in> set cs"
  shows "\<exists>h1 h2. consolidate c h1 = (Ret (), h2) \<and> cpuPool h1 = cpuPool h \<and> pools h1 = pools h
     \<and> knowledge (machineOf h1) = knowledge (machineOf h)
     \<and> (\<forall>f. contents (sys (machineOf h')) (CPUFile c f) = contents (sys (machineOf h2)) (CPUFile c f))"
  using assms
proof (induction cs arbitrary: h)
  case (Cons x cs)
  from Cons.prems(1) obtain h1 where s1: "consolidate x h = (Ret (), h1)" "forEach consolidate cs h1 = (Ret (), h')"
    by (auto simp: andThen_Ret_iff)
  note f = consolidate_frame [OF s1(1)]
  have k: "knowledge (machineOf h1) = knowledge (machineOf h)" using f(1) by (simp add: host_frame_def)
  show ?case
  proof (cases "x = c")
    case True
    have "CPUFile c g \<notin> \<Union> (cpuFiles ` set cs)" for g using Cons.prems(2) True by (auto simp: cpuFiles_def)
    moreover have "contents (sys (machineOf h')) q = contents (sys (machineOf h1)) q"
      if "q \<notin> \<Union> (cpuFiles ` set cs)" for q
      using forEach_consolidate_files [OF s1(2)] that by blast
    ultimately have "\<forall>g. contents (sys (machineOf h')) (CPUFile c g) = contents (sys (machineOf h1)) (CPUFile c g)"
      by simp
    with s1(1) True show ?thesis by (intro exI [of _ h] exI [of _ h1]) simp
  next
    case False
    then have "c \<in> set cs" "distinct cs" using Cons.prems by auto
    from Cons.IH [OF s1(2) this(2,1)] f k show ?thesis by force
  qed
qed simp

lemma consolidate_Ret:
  assumes "consolidate c h = (Ret (), h')"
  obtains s where
    "updateFrequencies c (map_option prof_pstates (GetPowerProfile (cpuPool h c) h)) (machineOf h) = (Ret (), s)"
    "updateCStates c (map_option prof_cstates (GetPowerProfile (cpuPool h c) h)) s = (Ret (), machineOf h')"
proof -
  from assms obtain h1 where a:
    "onMachine (updateFrequencies c (map_option prof_pstates (GetPowerProfile (cpuPool h c) h))) h = (Ret (), h1)"
    "onMachine (updateCStates c (map_option prof_cstates (GetPowerProfile (cpuPool h1 c) h1))) h1 = (Ret (), h')"
    by (auto simp: consolidate_def andThen_Ret_iff)
  have h1: "cpuPool h1 = cpuPool h" "GetPowerProfile q h1 = GetPowerProfile q h" for q
    using a(1) by (auto simp: onMachine_eq GetPowerProfile_def)
  show ?thesis
    by (rule that [of "machineOf h1"]) (use a h1 in \<open>auto simp: onMachine_eq prod_eq_iff\<close>)
qed

lemma pstate_file_not_cstate:
  "CPUFile c scalingGovFile \<notin> cstateFiles c" "CPUFile c scalingMaxFile \<notin> cstateFiles c"
  "CPUFile c scalingMinFile \<notin> cstateFiles c"
  by (auto simp: cstateFiles_def cStateFile_def)

text \<open>A CPU runs under a profile: its governor, limits and idle states are as the profile asks.\<close>

definition runsUnder :: "nat \<Rightarrow> Profile \<Rightarrow> hw \<Rightarrow> hw \<Rightarrow> bool" where
  "runsUnder c prof s t \<longleftrightarrow>
     contents (sys t) (CPUFile c scalingGovFile) = Some (governor (prof_pstates prof))
   \<and> (\<exists>rmin rmax amin amax. getFreqsToScale c (prof_pstates prof) s = Ret (rmin, rmax)
         \<and> GetAbsMinMax c s = Ret (amin, amax)
         \<and> contents (sys t) (CPUFile c scalingMaxFile) = Some (Itoa (min rmax amax))
         \<and> contents (sys t) (CPUFile c scalingMinFile) = Some (Itoa (max rmin amin)))
   \<and> (\<forall>(n, i) \<in> set (cstatesInfoOf c s).
         contents (sys t) (CPUFile c (cStateFile (StateNumber i) ''disable''))
           = Some (if wantedCState (Some (prof_cstates prof)) n i then ''0'' else ''1''))"

lemma consolidate_runsUnder:
  assumes "consolidate c h = (Ret (), h')" "GetPowerProfile (cpuPool h c) h = Some prof"
    and "isFeatureIDSupported (featureList (machineOf h)) FrequencyScalingFeature"
    and "isFeatureIDSupported (featureList (machineOf h)) CStatesFeature" "cstates_wf (machineOf h)"
  shows "runsUnder c prof (machineOf h) (machineOf h')"
proof -
  let ?s = "machineOf h" and ?t = "machineOf h'"
  from assms(1,2) obtain s1 where a: "updateFrequencies c (Some (prof_pstates prof)) ?s = (Ret (), s1)"
    "updateCStates c (Some (prof_cstates prof)) s1 = (Ret (), ?t)" by (elim consolidate_Ret) simp
  have d: "setDriverValues c (prof_pstates prof) ?s = (Ret (), s1)"
    using a(1) assms(3) by (simp add: updateFrequencies_def)
  have k: "knowledge s1 = knowledge ?s"
    using touches_knowledge [OF setDriverValues_frame [of c ?s "prof_pstates prof"]] d by simp
  have c1: "isFeatureIDSupported (featureList s1) CStatesFeature" "cstates_wf s1"
    "cstatesInfoOf c s1 = cstatesInfoOf c ?s"
    using assms(4,5) cstates_wf_cong [OF k] cstates_cong [OF k] knowledge_fields(1) [OF k] by simp_all
  have same: "contents (sys ?t) q = contents (sys s1) q" if "q \<notin> cstateFiles c" for q
    using touches_file [OF updateCStates_frame that] a(2) by (metis snd_conv)
  have cs: "contents (sys ?t) (CPUFile c (cStateFile (StateNumber i) ''disable''))
           = Some (if wantedCState (Some (prof_cstates prof)) n i then ''0'' else ''1'')"
    if "(n, i) \<in> set (cstatesInfoOf c ?s)" for n i
    using updateCStates_state [OF a(2) c1(1,2), of n i] c1(3) that by simp
  from d show ?thesis
    by (rule setDriverValues_Ret)
      (use cs same pstate_file_not_cstate in \<open>auto simp: runsUnder_def\<close>)
qed

lemma runsUnder_cong:
  assumes "runsUnder c prof s t" "knowledge s' = knowledge s"
    and "\<forall>f. contents (sys t') (CPUFile c f) = contents (sys t) (CPUFile c f)"
  shows "runsUnder c prof s' t'"
  using assms(1,3) unfolding runsUnder_def pstate_reads_cong [OF assms(2)] cstates_cong [OF assms(2)] by simp

lemma forEach_consolidate_frame:
  "forEach consolidate cs h = (r, h') \<Longrightarrow> host_frame h h' \<and> cpuPool h' = cpuPool h \<and> pools h' = pools h"
proof (induction cs arbitrary: h)
  case (Cons x cs)
  obtain r1 h1 where s1: "consolidate x h = (r1, h1)" by (cases "consolidate x h")
  note f = consolidate_frame [OF s1]
  show ?case
  proof (cases r1)
    case (Ret u)
    then have "forEach consolidate cs h1 = (r, h')" using Cons.prems s1 by simp
    from Cons.IH [OF this] f show ?thesis by (auto intro: host_frame_trans)
  qed (use Cons.prems s1 f in auto)
qed auto

text \<open>
  C29. Setting a profile on a pool.  After success the profile is the pool's profile, no CPU has
  changed pool, and every CPU of the pool runs under the profile: its governor is the profile's, its
  limits are the profile's range cut to the CPU's own range, and each of its idle states is
  enabled or disabled as the profile asks.  Files of CPUs outside the pool are untouched.
\<close>

theorem SetPowerProfile_applies:
  assumes "host_inv h" "SetPowerProfile p (Some prof) h = (Ret (), h')" "c \<in> set (Cpus p h)"
    and "isFeatureIDSupported (featureList (machineOf h)) FrequencyScalingFeature"
    and "isFeatureIDSupported (featureList (machineOf h)) CStatesFeature" "cstates_wf (machineOf h)"
  shows "host_inv h' \<and> cpuPool h' = cpuPool h \<and> GetPowerProfile p h' = Some prof
    \<and> runsUnder c prof (machineOf h) (machineOf h')
    \<and> (\<forall>d f. d \<notin> set (Cpus p h) \<longrightarrow>
         contents (sys (machineOf h')) (CPUFile d f) = contents (sys (machineOf h)) (CPUFile d f))"
proof -
  let ?h = "withProfile p (Some prof) h"
  have "p \<noteq> RReserved" using assms(2) by (auto simp: SetPowerProfile_eq)
  then have run: "forEach consolidate (Cpus p h) ?h = (Ret (), h')"
    using assms(2) by (simp add: SetPowerProfile_unfold)
  have m: "distinct (Cpus p h)" "cpuPool h c = p" using assms(1,3) by (auto simp: host_inv_def membership_ok_def)
  obtain h1 h2 where s: "consolidate c h1 = (Ret (), h2)" "cpuPool h1 = cpuPool h" "pools h1 = pools ?h"
    and k: "knowledge (machineOf h) = knowledge (machineOf h1)"
    and f: "\<forall>f. contents (sys (machineOf h')) (CPUFile c f) = contents (sys (machineOf h2)) (CPUFile c f)"
    using forEach_consolidate_Ret [OF run m(1) assms(3)] by auto
  have "GetPowerProfile (cpuPool h1 c) h1 = GetPowerProfile p ?h" using s(2,3) m(2) by (simp add: GetPowerProfile_def)
  then have "GetPowerProfile (cpuPool h1 c) h1 = Some prof" by simp
  moreover have "isFeatureIDSupported (featureList (machineOf h1)) FrequencyScalingFeature"
    "isFeatureIDSupported (featureList (machineOf h1)) CStatesFeature" "cstates_wf (machineOf h1)"
    using assms(4-6) knowledge_fields(1) [OF k] cstates_wf_cong [OF k] by simp_all
  ultimately have "runsUnder c prof (machineOf h) (machineOf h')"
    using runsUnder_cong [OF consolidate_runsUnder [OF s(1)] k f] by simp
  moreover have "host_inv h'"
    using consolidation.forEach_keep [OF withProfile_inv [OF assms(1)], of "Cpus p h" p "Some prof"] run by simp
  moreover have "cpuPool h' = cpuPool h" "GetPowerProfile p h' = Some prof"
    using forEach_consolidate_frame [OF run] by (auto simp: GetPowerProfile_def withProfile_def)
  moreover have "contents (sys (machineOf h')) (CPUFile d f) = contents (sys (machineOf h)) (CPUFile d f)"
    if "d \<notin> set (Cpus p h)" for d f
    using forEach_consolidate_files [OF run] that by (auto simp: cpuFiles_def)
  ultimately show ?thesis by blast
qed


subsection \<open>Creating and removing exclusive pools\<close>

lemma indexOfName_neg:
  "PoolList_IndexOfName n ps h < 0 \<longleftrightarrow> n \<notin> (\<lambda>q. pool_name (pools h q)) ` set ps"
  by (auto simp: PoolList_IndexOfName_def indexFrom_neg)

lemma GetExclusivePool_spec:
  assumes "registry_ok h"
  shows "GetExclusivePool n h = Some p \<longleftrightarrow> p \<in> set (exclusivePools h) \<and> pool_name (pools h p) = n"
proof (cases "PoolList_IndexOfName n (exclusivePools h) h < 0")
  case True
  then show ?thesis by (auto simp: GetExclusivePool_def PoolList_ByName_def indexOfName_neg)
next
  case False
  let ?i = "nat (PoolList_IndexOfName n (exclusivePools h) h)"
  have i: "?i < length (exclusivePools h)" "pool_name (pools h (exclusivePools h ! ?i)) = n"
    using indexFrom_find [of "\<lambda>q. pool_name (pools h q) = n" "exclusivePools h"] False
    by (auto simp: PoolList_IndexOfName_def)
  have "inj_on (\<lambda>q. pool_name (pools h q)) (set (exclusivePools h))"
    using assms by (simp add: registry_ok_def distinct_map)
  with i have "p \<in> set (exclusivePools h) \<and> pool_name (pools h p) = n \<longleftrightarrow> p = exclusivePools h ! ?i"
    by (auto dest: inj_onD)
  moreover have "GetExclusivePool n h = Some (exclusivePools h ! ?i)"
    using False by (simp add: GetExclusivePool_def PoolList_ByName_def Let_def)
  ultimately show ?thesis by auto
qed

lemma AddExclusivePool_new:
  assumes "host_inv h" "GetExclusivePool n h = None" "AddExclusivePool n h = ((p, e), h')"
  shows "host_inv h'" "e = None" "p = RExcl (nextPool h)" "exclusivePools h' = exclusivePools h @ [p]"
    "cpuPool h' = cpuPool h" "allCpus h' = allCpus h" "pool_name (pools h' p) = n" "allocated h' p" "Cpus p h' = []"
proof -
  have neg: "PoolList_IndexOfName n (exclusivePools h) h < 0"
    using assms(2) by (simp add: GetExclusivePool_def PoolList_ByName_def Let_def split: if_splits)
  then have a: "e = None" "p = RExcl (nextPool h)"
    and h': "h' = h\<lparr>pools := (pools h)(p := \<lparr>pool_name = n, pool_cpus = [], pool_profile = None\<rparr>),
           nextPool := Suc (nextPool h), exclusivePools := exclusivePools h @ [p]\<rparr>"
    using assms(3) by (auto simp: AddExclusivePool_def Let_def PoolList_add_def)
  have al: "allocated h' q \<longleftrightarrow> allocated h q \<or> q = p" for q
    using h' a(2) by (cases q) (auto simp: allocated_def)
  have np: "\<not> allocated h p" using a(2) by (simp add: allocated_def)
  have ok: "membership_ok h" "registry_ok h" "machine_ready h" using assms(1) by (simp_all add: host_inv_def)
  have "c \<notin> set (Cpus p h)" for c using ok(1) np by (auto simp: membership_ok_def)
  then have fresh: "Cpus p h = []" by (cases "Cpus p h") auto
  have cl: "Cpus q h' = Cpus q h" for q using fresh h' by (simp add: Cpus_def)
  have nm: "pool_name (pools h' q) = (if q = p then n else pool_name (pools h q))" for q using h' by simp
  have "membership_ok h'" using ok(1) cl al h' by (simp add: membership_ok_def)
  moreover have "registry_ok h'"
  proof -
    have "p \<notin> set (exclusivePools h)" using ok(2) np by (auto simp: registry_ok_def)
    then have "map (\<lambda>q. pool_name (pools h' q)) (exclusivePools h) = map (\<lambda>q. pool_name (pools h q)) (exclusivePools h)"
      using nm by auto
    moreover have "n \<notin> (\<lambda>q. pool_name (pools h q)) ` set (exclusivePools h)" using neg by (simp add: indexOfName_neg)
    moreover have "isExclusive p" using a(2) by (simp add: isExclusive_def)
    moreover have "exclusivePools h' = exclusivePools h @ [p]" using h' by simp
    ultimately show ?thesis using ok(2) al nm [of p] by (auto simp: registry_ok_def cong: map_cong)
  qed
  moreover have "machine_ready h'" using ok(3) h' by (simp add: machine_ready_def)
  ultimately show "host_inv h'" by (simp add: host_inv_def)
  show "e = None" "p = RExcl (nextPool h)" by (fact a)+
  show "exclusivePools h' = exclusivePools h @ [p]" "cpuPool h' = cpuPool h" "allCpus h' = allCpus h"
    "pool_name (pools h' p) = n" "allocated h' p" "Cpus p h' = []" using h' al cl fresh by simp_all
qed

lemma AddExclusivePool_existing:
  assumes "registry_ok h" "GetExclusivePool n h = Some p"
  shows "\<exists>e. AddExclusivePool n h = ((p, Some e), h)"
proof -
  have "\<not> PoolList_IndexOfName n (exclusivePools h) h < 0"
    "exclusivePools h ! nat (PoolList_IndexOfName n (exclusivePools h) h) = p"
    using assms(2) by (auto simp: GetExclusivePool_def PoolList_ByName_def Let_def split: if_splits)
  then show ?thesis by (simp add: AddExclusivePool_def Let_def)
qed

text \<open>
  Creating an exclusive pool in a well-formed host: the host stays well formed, with all
  names of exclusive pools different, and looking the name up afterwards finds the returned
  pool.  If the name is taken, the existing pool is returned with an error and nothing changes;
  otherwise the new pool is empty and no CPU moves.
\<close>

theorem AddExclusivePool_lookup:
  assumes "host_inv h" "AddExclusivePool n h = ((p, e), h')"
  shows "host_inv h' \<and> GetExclusivePool n h' = Some p \<and> cpuPool h' = cpuPool h
    \<and> (e = None \<longleftrightarrow> GetExclusivePool n h = None) \<and> (e \<noteq> None \<longrightarrow> h' = h) \<and> (e = None \<longrightarrow> Cpus p h' = [])"
proof (cases "GetExclusivePool n h")
  case None
  note a = AddExclusivePool_new [OF assms(1) None assms(2)]
  have "GetExclusivePool n h' = Some p"
    using a(1,4,7) by (simp add: GetExclusivePool_spec host_inv_def)
  with a None show ?thesis by simp
next
  case (Some q)
  have "registry_ok h" using assms(1) by (simp add: host_inv_def)
  then obtain e' where "AddExclusivePool n h = ((q, Some e'), h)" using AddExclusivePool_existing Some by blast
  with assms Some show ?thesis by auto
qed

lemma PoolList_remove_effect:
  assumes "host_inv h" "PoolList_remove p h = (r, h')"
  shows "host_inv h' \<and> \<not> isPanic r \<and> cpuPool h' = cpuPool h \<and> allCpus h' = allCpus h \<and> pools h' = pools h
    \<and> (r = Ret () \<longleftrightarrow> p \<in> set (exclusivePools h)) \<and> set (exclusivePools h') = set (exclusivePools h) - {p}"
proof (cases "p \<in> set (exclusivePools h)")
  case False
  then have "PoolList_IndexOf p (exclusivePools h) < 0" by (auto simp: PoolList_IndexOf_def indexFrom_neg)
  then obtain e where "r = Fail e" "h' = h" using assms(2) by (auto simp: PoolList_remove_def)
  with assms(1) False show ?thesis by simp
next
  case True
  let ?i = "PoolList_IndexOf p (exclusivePools h)" and ?n = "\<lambda>q. pool_name (pools h q)"
  have "\<not> ?i < 0" using True by (auto simp: PoolList_IndexOf_def indexFrom_neg)
  then have i: "0 \<le> ?i" by simp
  note f = indexFrom_find [OF i [unfolded PoolList_IndexOf_def], folded PoolList_IndexOf_def]
  have h': "r = Ret ()" "h' = h\<lparr>exclusivePools := swapRemove (nat ?i) (exclusivePools h)\<rparr>"
    using assms(2) i by (auto simp: PoolList_remove_def Let_def)
  have reg: "registry_ok h" using assms(1) by (simp add: host_inv_def)
  then have d: "distinct (exclusivePools h)" "inj_on ?n (set (exclusivePools h))"
    by (simp_all add: registry_ok_def distinct_map)
  note s = set_swapRemove [OF d(1) f(1)]
  have e: "set (exclusivePools h') = set (exclusivePools h) - {p}" "distinct (exclusivePools h')"
    "pools h' = pools h" "cpuPool h' = cpuPool h" "allCpus h' = allCpus h" "machineOf h' = machineOf h"
    using s f(2) h'(2) by simp_all
  have al: "allocated h' q = allocated h q" for q by (rule allocated_cong) (simp add: h'(2))
  have "registry_ok h'"
    using reg e(1-3) al inj_on_subset [OF d(2), of "set (exclusivePools h')"] by (auto simp: registry_ok_def distinct_map)
  moreover have "membership_ok h'" "machine_ready h'"
    using assms(1) e al by (simp_all add: host_inv_def membership_ok_def machine_ready_def Cpus_def)
  ultimately show ?thesis using e h'(1) True by (simp add: host_inv_def)
qed

text \<open>
  Removing a pool.  The shared and reserved pools are never removed.  Removing an exclusive
  pool never panics and leaves a well-formed host; after success its CPUs are all in the shared
  pool, every other CPU is where it was, and the pool is no longer among the host's pools, while
  all others still are.
\<close>

theorem Remove_empties:
  assumes "host_inv h" "allocated h p" "Remove p h = (r, h')"
  shows "host_inv h' \<and> \<not> isPanic r \<and> (\<not> isExclusive p \<longrightarrow> h' = h \<and> r \<noteq> Ret ())
    \<and> (r = Ret () \<longrightarrow> Cpus p h' = [] \<and> set (exclusivePools h') = set (exclusivePools h) - {p}
         \<and> (\<forall>c \<in> set (allCpus h). cpuPool h' c = (if cpuPool h c = p then RShared else cpuPool h c)))"
proof (cases p)
  case (RExcl k)
  obtain r1 h1 where s1: "setCpus p [] h = (r1, h1)" by (cases "setCpus p [] h")
  note e = setCpus_prefix [OF assms(1,2) s1]
  show ?thesis
  proof (cases "r1 = Ret ()")
    case True
    then have "PoolList_remove p h1 = (r, h')" using assms(3) RExcl s1 by (simp add: Remove_eq)
    note f = PoolList_remove_effect [OF e(1) this]
    have c: "\<forall>c \<in> set (allCpus h). cpuPool h' c = (if cpuPool h c = p then RShared else cpuPool h c)"
      using f e(4) [OF True] RExcl by (simp add: setTarget_def)
    have "set (Cpus p h') = {}"
      using f e(2) c RExcl by (auto simp: set_Cpus host_inv_def host_frame_def split: if_splits)
    then show ?thesis using f c e(2) RExcl by (simp add: isExclusive_def host_frame_def)
  next
    case False
    then have "r = r1" "h' = h1" using assms(3) RExcl s1 by (cases r1; simp add: Remove_eq)+
    then show ?thesis using e False RExcl by (simp add: isExclusive_def)
  qed
qed (use assms in \<open>auto simp: Remove_eq isExclusive_def\<close>)

section \<open>All reachable hosts\<close>

text \<open>
  A host changes only through the entry points of the library, in any order, with any
  arguments and any pattern of failing writes.
\<close>

inductive host_step :: "hostImpl \<Rightarrow> hostImpl \<Rightarrow> bool" where
  step_move: "allocated h p \<Longrightarrow> MoveCpus p cs h = (r, h') \<Longrightarrow> host_step h h'"
| step_moveIDs: "allocated h p \<Longrightarrow> MoveCPUIDs p ids h = (r, h') \<Longrightarrow> host_step h h'"
| step_setIDs: "allocated h p \<Longrightarrow> SetCPUIDs p ids h = (r, h') \<Longrightarrow> host_step h h'"
| step_profile: "SetPowerProfile p prof h = (r, h') \<Longrightarrow> host_step h h'"
| step_add: "AddExclusivePool n h = (r2, h') \<Longrightarrow> host_step h h'"
| step_remove: "allocated h p \<Longrightarrow> Remove p h = (r, h') \<Longrightarrow> host_step h h'"

lemma moves_keep:
  assumes "host_inv h" "allocated h p"
  shows "host_inv (snd (forEach (\<lambda>c. setPool c (Some p)) cs h))"
    "allCpus (snd (forEach (\<lambda>c. setPool c (Some p)) cs h)) = allCpus h"
  using moves.forEach_prefix [OF conjI [OF assms] prod.collapse [symmetric], of cs] by (auto simp: host_frame_def)

lemma setCpus_keep:
  assumes "host_inv h" "allocated h p"
  shows "host_inv (snd (setCpus p cs h))" "allCpus (snd (setCpus p cs h)) = allCpus h"
  using setCpus_prefix(1,2) [OF assms prod.collapse [symmetric], of cs] by (auto simp: host_frame_def)

lemma SetPowerProfile_keep:
  assumes "host_inv h" "SetPowerProfile p pr h = (r, h')"
  shows "host_inv h' \<and> allCpus h' = allCpus h"
proof (cases "p = RReserved")
  case False
  then have run: "forEach consolidate (Cpus p h) (withProfile p pr h) = (r, h')"
    using assms(2) by (simp add: SetPowerProfile_unfold)
  then show ?thesis
    using consolidation.forEach_keep [OF withProfile_inv [OF assms(1)], of "Cpus p h" p pr]
      forEach_consolidate_frame [OF run] by (simp add: host_frame_def)
qed (use assms in \<open>simp add: SetPowerProfile_eq\<close>)

lemma AddExclusivePool_keep:
  assumes "host_inv h" "AddExclusivePool n h = (r, h')"
  shows "host_inv h' \<and> allCpus h' = allCpus h"
proof (cases "GetExclusivePool n h")
  case None
  obtain p e where "r = (p, e)" by (cases r)
  with None show ?thesis using AddExclusivePool_new [OF assms(1) None, of p e h'] assms(2) by simp
next
  case (Some q)
  have "registry_ok h" using assms(1) by (simp add: host_inv_def)
  with Some assms show ?thesis using AddExclusivePool_existing by fastforce
qed

lemma Remove_keep:
  assumes "host_inv h" "allocated h p" "Remove p h = (r, h')"
  shows "host_inv h' \<and> allCpus h' = allCpus h"
proof (cases p)
  case (RExcl k)
  then have "andThen (setCpus p [] h) (\<lambda>_ h1. PoolList_remove p h1) = (r, h')" using assms(3) by (simp add: Remove_eq)
  moreover have "host_inv (snd (andThen (setCpus p [] h) (\<lambda>_ h1. PoolList_remove p h1)))
      \<and> allCpus (snd (andThen (setCpus p [] h) (\<lambda>_ h1. PoolList_remove p h1))) = allCpus h"
  proof (rule andThen_snd_cases)
    show "host_inv (snd (setCpus p [] h)) \<and> allCpus (snd (setCpus p [] h)) = allCpus h"
      using setCpus_keep [OF assms(1,2)] by simp
    show "host_inv (snd (PoolList_remove p h1)) \<and> allCpus (snd (PoolList_remove p h1)) = allCpus h"
      if "setCpus p [] h = (Ret a, h1)" for a h1
      using setCpus_keep [OF assms(1,2), of "[]"] that
        PoolList_remove_effect [of h1 p "fst (PoolList_remove p h1)" "snd (PoolList_remove p h1)"] by simp
  qed
  ultimately show ?thesis by simp
qed (use assms in \<open>auto simp: Remove_eq\<close>)

lemma host_step_keeps:
  assumes "host_step h h'" "host_inv h"
  shows "host_inv h' \<and> allCpus h' = allCpus h"
  using assms
proof cases
  case (step_move p cs r)
  then show ?thesis using moves_keep [OF assms(2), of p cs] by (simp add: MoveCpus_eq moveCpus_def)
next
  case (step_moveIDs p ids r)
  then show ?thesis
    using moves_keep [OF assms(2), of p ids] assms(2)
    by (cases "set ids \<subseteq> set (allCpus h)") (auto simp: MoveCPUIDs_eq moveCpus_def CPUList_ManyByIDs_result)
next
  case (step_setIDs p ids r)
  then show ?thesis
    using setCpus_keep [OF assms(2), of p ids] assms(2)
    by (cases "set ids \<subseteq> set (allCpus h)") (auto simp: SetCPUIDs_eq CPUList_ManyByIDs_result)
qed (use assms(2) SetPowerProfile_keep AddExclusivePool_keep Remove_keep in blast)+

text \<open>
  C6. The main invariant of the power library: whatever sequence of pool operations runs, with
  whatever arguments and whichever writes fail, every CPU of the host is in the list of exactly
  one pool, once, and that pool is the one the CPU itself points to; names of exclusive pools
  stay unique.
\<close>

theorem pools_partition_cpus:
  assumes "host_inv h0" "host_step\<^sup>*\<^sup>* h0 h"
  shows "host_inv h \<and> allCpus h = allCpus h0
    \<and> (\<forall>c \<in> set (allCpus h0). \<exists>!p. c \<in> set (Cpus p h))
    \<and> (\<forall>p. distinct (Cpus p h) \<and> set (Cpus p h) \<subseteq> set (allCpus h0) \<and> (\<forall>c \<in> set (Cpus p h). cpuPool h c = p))
    \<and> distinct (map (\<lambda>p. pool_name (pools h p)) (exclusivePools h))"
proof -
  have r: "host_inv h \<and> allCpus h = allCpus h0"
    using assms(2,1) by (induction rule: rtranclp_induct) (auto dest: host_step_keeps)
  then show ?thesis
    by (auto simp: host_inv_def membership_ok_def registry_ok_def)
qed

section \<open>The properties at a concrete host\<close>

text \<open>Two CPUs, one shared and one reserved, and an empty exclusive pool.\<close>

definition twoCPUMachine :: hw where
  "twoCPUMachine = (machine [(1000, 3000)] [pstatesFromTo 1000 3000, pstatesFromTo 1000 3000] [])\<lparr>
     featureList := map (\<lambda>f. (f, \<lparr>feature_name = '''', feature_driver = '''', feature_err = None\<rparr>))
       [FrequencyScalingFeature, CStatesFeature]\<rparr>"

text \<open>The same machine without any supported feature, on which moves write no file.\<close>

definition plainMachine :: hw where
  "plainMachine = (machine [] [] [])\<lparr>featureList := []\<rparr>"

definition sampleHost :: "hw \<Rightarrow> hostImpl" where
  "sampleHost m = \<lparr>host_name = ''node'', host_architecture = ''x86_64'', vendorID = ''GenuineIntel'',
     topology = \<lparr>packages = [], topology_cpus = [Some 0, Some 1], topology_uncore = None, architecture = ''x86_64''\<rparr>,
     exclusivePools = [RExcl 0],
     pools = (\<lambda>p. case p of
        RShared \<Rightarrow> \<lparr>pool_name = ''sharedPool'', pool_cpus = [0], pool_profile = None\<rparr>
      | RReserved \<Rightarrow> \<lparr>pool_name = ''reservedPool'', pool_cpus = [1], pool_profile = None\<rparr>
      | RExcl _ \<Rightarrow> \<lparr>pool_name = ''performance'', pool_cpus = [], pool_profile = None\<rparr>),
     nextPool = 1, cpuPool = (\<lambda>c. if c = 0 then RShared else RReserved),
     machineOf = m\<rparr>"

definition sampleProfile :: Profile where
  "sampleProfile = \<lparr>prof_name = ''performance'', prof_pstates = pstatesFromTo 1000 2000,
     prof_cstates = \<lparr>states = [], maxLatencyUs = None\<rparr>\<rparr>"

lemma sampleHost_inv: "m \<in> {plainMachine, twoCPUMachine} \<Longrightarrow> host_inv (sampleHost m)"
proof -
  assume m: "m \<in> {plainMachine, twoCPUMachine}"
  have "membership_ok (sampleHost m)"
    by (auto simp: membership_ok_def sampleHost_def topology_CPUs_def Cpus_def allocated_def split: pool_ref.split)
  moreover have "registry_ok (sampleHost m)"
    by (simp add: registry_ok_def sampleHost_def topology_CPUs_def isExclusive_def allocated_def)
  moreover have "machine_ready (sampleHost m)"
    using m by (auto simp: machine_ready_def sampleHost_def topology_CPUs_def twoCPUMachine_def plainMachine_def machine_def
        isFeatureIDSupported_def)
  ultimately show ?thesis by (simp add: host_inv_def)
qed

lemma sampleHost_allocated: "allocated (sampleHost m) (RExcl 0)"
  by (simp add: allocated_def sampleHost_def topology_CPUs_def)

theorem setPool_refines_assignment_witness:
  "cpuPool (snd (setPool 0 (Some (RExcl 0)) (sampleHost plainMachine))) = (cpuPool (sampleHost plainMachine))(0 := RExcl 0)"
proof -
  have "setPool 0 (Some (RExcl 0)) (sampleHost plainMachine) = (Ret (), snd (setPool 0 (Some (RExcl 0)) (sampleHost plainMachine)))"
    by (rule Ret_run) code_simp
  from setPool_refines_assignment [OF sampleHost_inv [OF insertI1] sampleHost_allocated this] show ?thesis by simp
qed

theorem SetCPUIDs_exact_witness:
  "set (Cpus RShared (snd (SetCPUIDs RShared [1] (sampleHost plainMachine)))) = {1}
   \<and> cpuPool (snd (SetCPUIDs RShared [1] (sampleHost plainMachine))) 0 = RReserved"
proof -
  have "SetCPUIDs RShared [1] (sampleHost plainMachine) = (Ret (), snd (SetCPUIDs RShared [1] (sampleHost plainMachine)))"
    by (rule Ret_run) code_simp
  from SetCPUIDs_exact [OF sampleHost_inv [OF insertI1] allocated_predefined(1) this] show ?thesis
    by (simp add: sampleHost_def topology_CPUs_def)
qed

theorem MoveCPUIDs_exact_witness:
  "set (Cpus RShared (snd (MoveCPUIDs RShared [1] (sampleHost plainMachine)))) = {0, 1}"
proof -
  have "MoveCPUIDs RShared [1] (sampleHost plainMachine) = (Ret (), snd (MoveCPUIDs RShared [1] (sampleHost plainMachine)))"
    by (rule Ret_run) code_simp
  from MoveCPUIDs_exact [OF sampleHost_inv [OF insertI1] allocated_predefined(1) this] show ?thesis
    by (simp add: sampleHost_def topology_CPUs_def Cpus_def insert_commute)
qed

theorem SetPowerProfile_applies_witness:
  "runsUnder 0 sampleProfile twoCPUMachine (machineOf (snd (SetPowerProfile RShared (Some sampleProfile) (sampleHost twoCPUMachine))))"
proof -
  have run: "SetPowerProfile RShared (Some sampleProfile) (sampleHost twoCPUMachine)
      = (Ret (), snd (SetPowerProfile RShared (Some sampleProfile) (sampleHost twoCPUMachine)))"
    by (rule Ret_run) code_simp
  have m: "machineOf (sampleHost twoCPUMachine) = twoCPUMachine" "0 \<in> set (Cpus RShared (sampleHost twoCPUMachine))"
    by (simp_all add: sampleHost_def topology_CPUs_def Cpus_def)
  have "isFeatureIDSupported (featureList twoCPUMachine) FrequencyScalingFeature"
    "isFeatureIDSupported (featureList twoCPUMachine) CStatesFeature" "cstates_wf twoCPUMachine"
    by (simp_all add: twoCPUMachine_def machine_def isFeatureIDSupported_def isSupported_def cstates_wf_def cstatesInfoOf_def)
  with SetPowerProfile_applies [OF sampleHost_inv [OF insertI2 [OF insertI1]] run m(2)] show ?thesis unfolding m by simp
qed

theorem AddExclusivePool_lookup_witness:
  "GetExclusivePool ''x'' (snd (AddExclusivePool ''x'' (sampleHost plainMachine))) = Some (RExcl 1)"
proof -
  have "fst (AddExclusivePool ''x'' (sampleHost plainMachine)) = (RExcl 1, None)" by code_simp
  then have "AddExclusivePool ''x'' (sampleHost plainMachine) = ((RExcl 1, None), snd (AddExclusivePool ''x'' (sampleHost plainMachine)))"
    by (metis prod.collapse)
  from AddExclusivePool_lookup [OF sampleHost_inv [OF insertI1] this] show ?thesis by simp
qed

theorem Remove_empties_witness:
  "exclusivePools (snd (Remove (RExcl 0) (sampleHost plainMachine))) = []"
proof -
  have "Remove (RExcl 0) (sampleHost plainMachine) = (Ret (), snd (Remove (RExcl 0) (sampleHost plainMachine)))"
    by (rule Ret_run) code_simp
  from Remove_empties [OF sampleHost_inv [OF insertI1] sampleHost_allocated this] show ?thesis by (simp add: sampleHost_def topology_CPUs_def)
qed

theorem pools_partition_cpus_witness:
  "\<exists>!p. 0 \<in> set (Cpus p (snd (MoveCPUIDs (RExcl 0) [0] (sampleHost plainMachine))))"
proof -
  have "host_step (sampleHost plainMachine) (snd (MoveCPUIDs (RExcl 0) [0] (sampleHost plainMachine)))"
    by (rule step_moveIDs [OF sampleHost_allocated prod.collapse [symmetric]])
  then have "host_step\<^sup>*\<^sup>* (sampleHost plainMachine) (snd (MoveCPUIDs (RExcl 0) [0] (sampleHost plainMachine)))" by (rule r_into_rtranclp)
  moreover have "0 \<in> set (allCpus (sampleHost plainMachine))" by (simp add: sampleHost_def topology_CPUs_def)
  ultimately show ?thesis using pools_partition_cpus [OF sampleHost_inv [OF insertI1]] by blast
qed

end
