(* ===== verification/Host.thy ===== *)
theory Host
  imports Pools
begin

text \<open>
  Start-up of the power library: the identity of the host (\<^verbatim>\<open>internal/power/host.go\<close>), the
  initialisation of the features and the creation of an instance (\<^verbatim>\<open>internal/power/power.go\<close>).
  The machine name reported by \<^verbatim>\<open>uname\<close> is a parameter.  The facts: the outcome of feature
  initialisation does not depend on the order in which Go visits the map of features, and a
  created host starts well formed, with every CPU in the reserved pool.
\<close>

section \<open>Text of /proc/cpuinfo\<close>

text \<open>\<^verbatim>\<open>strings.TrimSpace\<close> on ASCII text and \<^verbatim>\<open>strings.Cut(s, ":")\<close>.\<close>

definition isSpace :: "char \<Rightarrow> bool" where
  "isSpace c \<longleftrightarrow> c \<in> {CHR '' '', CHR 0x09, CHR 0x0A, CHR 0x0B, CHR 0x0C, CHR 0x0D}"

definition TrimSpace :: "string \<Rightarrow> string" where
  "TrimSpace s = rev (dropWhile isSpace (rev (dropWhile isSpace s)))"

definition CutColon :: "string \<Rightarrow> (string \<times> string) option" where
  "CutColon s = (if CHR '':'' \<in> set s
     then Some (takeWhile (\<lambda>c. c \<noteq> CHR '':'') s, tl (dropWhile (\<lambda>c. c \<noteq> CHR '':'') s)) else None)"

fun findField :: "string \<Rightarrow> string list \<Rightarrow> string option" where
  "findField key [] = None"
| "findField key (line # rest) = (case CutColon line of
      Some (k, v) \<Rightarrow> if TrimSpace k = key then Some (TrimSpace v) else findField key rest
    | None \<Rightarrow> findField key rest)"

text \<open>The first value of a field: found, absent, or an error of reading the file.\<close>

definition readCPUInfoFieldFrom :: "path \<Rightarrow> string \<Rightarrow> hw \<Rightarrow> string option gores" where
  "readCPUInfoFieldFrom p key s = (case readStringFromFile p s of
      Ret c \<Rightarrow>
        (case findField key (fst (scanLines c)) of
           Some v \<Rightarrow> Ret (Some v)
         | None \<Rightarrow> if snd (scanLines c) then Fail (Msg ''bufio.Scanner: token too long'') else Ret None)
    | Fail e \<Rightarrow> Fail e
    | Panic m \<Rightarrow> Panic m)"

definition readCPUInfoField :: "string \<Rightarrow> hw \<Rightarrow> string option gores" where
  "readCPUInfoField key s = readCPUInfoFieldFrom CPUInfoFile key s"

section \<open>Numbers with a base prefix\<close>

text \<open>\<^verbatim>\<open>strconv.ParseUint(s, 0, bits)\<close>: the base is taken from the prefix, underscores may separate digits.\<close>

definition lowerChar :: "char \<Rightarrow> char" where
  "lowerChar c = (if 65 \<le> (of_char c :: nat) \<and> (of_char c :: nat) \<le> 90 then char_of ((of_char c :: nat) + 32) else c)"

definition digitValue :: "char \<Rightarrow> nat option" where
  "digitValue c = (if is_digit c then Some (digit_val c)
     else (let n = (of_char (lowerChar c) :: nat) in if 97 \<le> n \<and> n \<le> 122 then Some (n - 87) else None))"

fun accDigits :: "nat \<Rightarrow> nat \<Rightarrow> nat \<Rightarrow> string \<Rightarrow> nat option" where
  "accDigits base bits acc [] = Some acc"
| "accDigits base bits acc (c # cs) =
     (if c = CHR ''_'' then accDigits base bits acc cs
      else (case digitValue c of
        None \<Rightarrow> None
      | Some d \<Rightarrow> if base \<le> d then None
                  else if 2 ^ bits \<le> acc * base + d then None
                  else accDigits base bits (acc * base + d) cs))"

text \<open>The state of the scan for misplaced underscores: the class of the last character.\<close>

datatype seen = SawStart | SawDigit | SawUnderscore | SawOther

fun underscoreScan :: "bool \<Rightarrow> seen \<Rightarrow> string \<Rightarrow> bool" where
  "underscoreScan hex saw [] = (saw \<noteq> SawUnderscore)"
| "underscoreScan hex saw (c # cs) =
     (if is_digit c \<or> hex \<and> lowerChar c \<in> set ''abcdef'' then underscoreScan hex SawDigit cs
      else if c = CHR ''_'' then (if saw \<noteq> SawDigit then False else underscoreScan hex SawUnderscore cs)
      else if saw = SawUnderscore then False
      else underscoreScan hex SawOther cs)"

definition underscoreOK :: "string \<Rightarrow> bool" where
  "underscoreOK s = (case s of
      CHR ''0'' # p # rest \<Rightarrow>
        if lowerChar p \<in> set ''box'' then underscoreScan (lowerChar p = CHR ''x'') SawDigit rest
        else underscoreScan False SawStart s
    | _ \<Rightarrow> underscoreScan False SawStart s)"

definition ParseUint0 :: "nat \<Rightarrow> string \<Rightarrow> nat option" where
  "ParseUint0 bits s =
     (if s = [] then None
      else (let (base, rest) =
          (if hd s = CHR ''0'' then
             (if length s \<ge> 3 \<and> lowerChar (s ! 1) = CHR ''b'' then (2, drop 2 s)
              else if length s \<ge> 3 \<and> lowerChar (s ! 1) = CHR ''o'' then (8, drop 2 s)
              else if length s \<ge> 3 \<and> lowerChar (s ! 1) = CHR ''x'' then (16, drop 2 s)
              else (8, tl s))
           else (10, s))
        in (case accDigits base bits 0 rest of
              None \<Rightarrow> None
            | Some n \<Rightarrow> if CHR ''_'' \<in> set s \<and> \<not> underscoreOK s then None else Some n)))"

section \<open>Identity of the host\<close>

abbreviation "unknownVendor \<equiv> ''unknown''"

definition armImplementers :: "(nat \<times> string) list" where
  "armImplementers =
    [(0x41, ''ARM''), (0x42, ''Broadcom''), (0x43, ''Cavium''), (0x44, ''DEC''), (0x46, ''FUJITSU''),
     (0x48, ''HiSilicon''), (0x49, ''Infineon''), (0x4d, ''Motorola/Freescale''), (0x4e, ''NVIDIA''),
     (0x50, ''APM''), (0x51, ''Qualcomm''), (0x53, ''Samsung''), (0x56, ''Marvell''), (0x61, ''Apple''),
     (0x66, ''Faraday''), (0x69, ''Intel''), (0x6d, ''Microsoft''), (0x70, ''Phytium''), (0xc0, ''Ampere'')]"

definition hexDigit :: "nat \<Rightarrow> char" where
  "hexDigit n = (if n < 10 then digit_char n else char_of (n + 87))"

text \<open>\<^verbatim>\<open>fmt.Sprintf("%s (0x%02x)", unknownVendor, id)\<close> for a byte.\<close>

definition unknownImplementer :: "nat \<Rightarrow> string" where
  "unknownImplementer i = unknownVendor @ '' (0x'' @ [hexDigit (i div 16 mod 16), hexDigit (i mod 16)] @ '')''"

definition machineName :: "string \<Rightarrow> string" where
  "machineName bytes = takeWhile (\<lambda>c. c \<noteq> CHR 0x00) bytes"

definition getHostArchitecture :: "string gores \<Rightarrow> string gores" where
  "getHostArchitecture uname = (case uname of Ret b \<Rightarrow> Ret (machineName b) | Fail e \<Rightarrow> Fail e | Panic m \<Rightarrow> Panic m)"

definition setArchitecture :: "string gores \<Rightarrow> string gores" where
  "setArchitecture uname = wrapRes ''failed to get architecture from uname'' (getHostArchitecture uname)"

definition setVendorID :: "string \<Rightarrow> hw \<Rightarrow> string gores" where
  "setVendorID arch s =
     (if arch = ''aarch64'' then
        (case readCPUInfoField ''CPU implementer'' s of
           Ret None \<Rightarrow> Ret unknownVendor
         | Ret (Some raw) \<Rightarrow>
             (case ParseUint0 8 raw of
                None \<Rightarrow> Fail (Wrap (''malformed CPU implementer '' @ raw) (Msg ''strconv.ParseUint''))
              | Some i \<Rightarrow> Ret (case map_of armImplementers i of Some name \<Rightarrow> name | None \<Rightarrow> unknownImplementer i))
         | Fail e \<Rightarrow> Fail e
         | Panic m \<Rightarrow> Panic m)
      else (case readCPUInfoField ''vendor_id'' s of
           Ret None \<Rightarrow> Ret unknownVendor
         | Ret (Some vendor) \<Rightarrow> Ret vendor
         | Fail e \<Rightarrow> Fail e
         | Panic m \<Rightarrow> Panic m))"

section \<open>Creation of a host\<close>

definition initHost :: "string gores \<Rightarrow> string \<Rightarrow> hw \<Rightarrow> hostImpl gores \<times> hw" where
  "initHost uname nodeName s =
     andThen (wrapErr ''failed to set host architecture'' (reading (setArchitecture uname) s)) (\<lambda>arch s1.
     andThen (wrapErr ''failed to set host vendorID'' (reading (setVendorID arch s1) s1)) (\<lambda>vendor s2.
     andThen (wrapErr ''failed to init host'' (discoverTopology arch s2)) (\<lambda>tp s3.
       (Ret \<lparr>host_name = nodeName, host_architecture = arch, vendorID = vendor, topology = tp,
             exclusivePools = [],
             pools = (\<lambda>p. case p of
                RReserved \<Rightarrow> \<lparr>pool_name = ''reservedPool'', pool_cpus = topology_CPUs tp, pool_profile = None\<rparr>
              | RShared \<Rightarrow> \<lparr>pool_name = ''sharedPool'', pool_cpus = [], pool_profile = None\<rparr>
              | RExcl _ \<Rightarrow> \<lparr>pool_name = '''', pool_cpus = [], pool_profile = None\<rparr>),
             nextPool = 0, cpuPool = (\<lambda>_. RReserved), machineOf = s3\<rparr>, s3))))"

section \<open>Features\<close>

definition featureInit :: "featureID \<Rightarrow> hw \<Rightarrow> featureStatus \<times> hw" where
  "featureInit f = (case f of
      EPPFeature \<Rightarrow> initEpp
    | FrequencyScalingFeature \<Rightarrow> initScalingDriver
    | CStatesFeature \<Rightarrow> initCStates
    | UncoreFeature \<Rightarrow> initUncore)"

text \<open>\<^verbatim>\<open>errors.Join\<close>: nil errors are dropped, and nothing is left if all are nil.\<close>

definition errorsJoin :: "gerr option list \<Rightarrow> gerr option" where
  "errorsJoin es = (let l = map the (filter (\<lambda>e. e \<noteq> None) es) in if l = [] then None else Some (Joined l))"

fun initFeatures :: "featureID list \<Rightarrow> hw \<Rightarrow> gerr option list \<times> hw" where
  "initFeatures [] s = ([], s)"
| "initFeatures (f # fs) s = (case featureInit f s of (feature, s1) \<Rightarrow>
     (case initFeatures fs (s1\<lparr>featureList := AList.update f feature (featureList s1)\<rparr>) of (errs, s2) \<Rightarrow>
        (feature_err feature # errs, s2)))"

definition FeatureSet_init :: "hw \<Rightarrow> gerr option \<times> hw" where
  "FeatureSet_init s =
     (if length (featureList s) = 0 then (Some (Msg ''no features defined''), s)
      else (case initFeatures (map fst (featureList s)) s of (allErrors, s1) \<Rightarrow> (errorsJoin allErrors, s1)))"

definition CreateInstance :: "string gores \<Rightarrow> string \<Rightarrow> hw \<Rightarrow> (hostImpl option \<times> gerr option) gores \<times> hw" where
  "CreateInstance uname hostName s = (case FeatureSet_init s of (allErrors, s1) \<Rightarrow>
     if \<not> anySupported (featureList s1) then (Ret (None, allErrors), s1)
     else (case initHost uname hostName s1 of
        (Ret h, s2) \<Rightarrow> (Ret (Some h, allErrors), s2)
      | (Fail e, s2) \<Rightarrow> (Ret (None, errorsJoin [allErrors, Some e]), s2)
      | (Panic m, s2) \<Rightarrow> (Panic m, s2)))"

text \<open>
  \<^verbatim>\<open>CreateInstanceWithConf\<close>: the paths of a configuration select the file system, which the model
  is given; the number of cores replaces the one read from the machine.
\<close>

definition CreateInstanceWithConf ::
  "string gores \<Rightarrow> string \<Rightarrow> nat \<Rightarrow> hw \<Rightarrow> (hostImpl option \<times> gerr option) gores \<times> hw" where
  "CreateInstanceWithConf uname hostName cores s = CreateInstance uname hostName (s\<lparr>coresOverride := Some cores\<rparr>)"

section \<open>Access to a host\<close>

text \<open>
  The host's name can be set; the other accessors read fields of the host or, as the last three, what the package has found out about the machine.
\<close>

definition SetName :: "string \<Rightarrow> hostImpl \<Rightarrow> hostImpl" where
  "SetName name host = host\<lparr>host_name := name\<rparr>"

definition GetFreqRanges :: "hostImpl \<Rightarrow> (int \<times> int) list" where
  "GetFreqRanges host = coreTypes (machineOf host)"

definition NumCoreTypes :: "hostImpl \<Rightarrow> int" where
  "NumCoreTypes host = int (length (coreTypes (machineOf host))) mod 2 ^ 64"

definition GetFeaturesInfo :: "hostImpl \<Rightarrow> FeatureSet" where
  "GetFeaturesInfo host = featureList (machineOf host)"

section \<open>Initialisation does not depend on the order of the map\<close>

text \<open>Two states of the library on the same machine, possibly at different stages of start-up.\<close>

definition same_machine :: "hw \<Rightarrow> hw \<Rightarrow> bool" where
  "same_machine s t \<longleftrightarrow> sys s = sys t \<and> coresOverride s = coresOverride t"

lemma same_machine_refl [simp]: "same_machine s s"
  by (simp add: same_machine_def)

lemma same_machine_sym: "same_machine s t \<Longrightarrow> same_machine t s"
  by (simp add: same_machine_def)

lemma same_machine_trans: "same_machine s t \<Longrightarrow> same_machine t u \<Longrightarrow> same_machine s u"
  by (simp add: same_machine_def)

lemma same_machine_reads:
  assumes "same_machine s t"
  shows "readStringFromFile p s = readStringFromFile p t" "readCPUUintProperty c f s = readCPUUintProperty c f t"
    "readCPUStringProperty c f s = readCPUStringProperty c f t" "getNumberOfCpus s = getNumberOfCpus t"
    "readUintFromFile p s = readUintFromFile p t"
proof -
  have s: "sys s = sys t" "coresOverride s = coresOverride t" using assms by (simp_all add: same_machine_def)
  show "readStringFromFile p s = readStringFromFile p t" by (rule readFile_cong [OF s(1)])
  show "readCPUUintProperty c f s = readCPUUintProperty c f t" by (rule readCPUUint_cong [OF s(1)])
  show "readCPUStringProperty c f s = readCPUStringProperty c f t" by (rule readCPUString_cong [OF s(1)])
  show "readUintFromFile p s = readUintFromFile p t" by (simp only: readUintFromFile_def readFile_cong [OF s(1)])
  show "getNumberOfCpus s = getNumberOfCpus t" by (simp only: getNumberOfCpus_def readFile_cong [OF s(1)] s)
qed

interpretation defaultLoop: respecting defaultPStatesOf same_machine
proof
  fix s t x
  assume a: "same_machine s t"
  show "fst (defaultPStatesOf x s) = fst (defaultPStatesOf x t) \<and> same_machine (snd (defaultPStatesOf x s)) (snd (defaultPStatesOf x t))"
    unfolding defaultPStatesOf_def andThen_def reading_def same_machine_reads [OF a]
    using a by (auto simp: same_machine_def same_machine_reads [OF a] split: gores.split)
qed

interpretation stateLoop: respecting "mapStateDir c" same_machine for c
proof
  fix s t x
  assume a: "same_machine s t"
  have d: "readDefaultStatus c n s = readDefaultStatus c n t" for n
    by (simp only: readDefaultStatus_def same_machine_reads [OF a])
  show "fst (mapStateDir c x s) = fst (mapStateDir c x t) \<and> same_machine (snd (mapStateDir c x s)) (snd (mapStateDir c x t))"
    unfolding mapStateDir_def andThen_def wrapErr_def reading_def same_machine_reads [OF a]
    using a d by (auto simp: same_machine_def same_machine_reads [OF a] split: gores.split option.split)
qed


interpretation cpuLoop: respecting mapCStatesOfCPU same_machine
proof
  fix s t x
  assume a: "same_machine s t"
  let ?u = "\<lambda>s. s\<lparr>allCPUCStatesInfo := AList.update x [] (allCPUCStatesInfo s)\<rparr>"
  have "same_machine (?u s) (?u t)" using a by (simp add: same_machine_def)
  from stateLoop.forEach_respects [OF this] a
  show "fst (mapCStatesOfCPU x s) = fst (mapCStatesOfCPU x t) \<and> same_machine (snd (mapCStatesOfCPU x s)) (snd (mapCStatesOfCPU x t))"
    by (simp add: mapCStatesOfCPU_def Let_def same_machine_def split: option.split)
qed

text \<open>The status computed by \<^verbatim>\<open>initScalingDriver\<close> as a function of what it has read.\<close>

definition scalingStatus :: "string list gores \<Rightarrow> string gores \<Rightarrow> unit gores \<Rightarrow> featureStatus" where
  "scalingStatus govs rd gen =
     (let drv = (case rd of Ret d \<Rightarrow> d | _ \<Rightarrow> '''');
          err4 = (case errOf rd of
             Some e \<Rightarrow> Some (Wrap ''Frequency-Scaling - failed to determine driver'' e)
           | None \<Rightarrow> if isScalingDriverSupported drv
               then map_option (Wrap ''failed to read available governors'') (errOf govs)
               else Some (Msg (''Frequency-Scaling - unsupported driver: '' @ drv)))
      in \<lparr>feature_name = ''Frequency-Scaling'', feature_driver = drv,
          feature_err = (if err4 = None then map_option (Wrap ''failed to read default frequencies'') (errOf gen) else err4)\<rparr>)"

lemma initScalingDriver_split:
  fixes s defines "u \<equiv> s\<lparr>availableGovs := (case initAvailableGovernors s of Ret g \<Rightarrow> g | _ \<Rightarrow> [])\<rparr>"
  shows "fst (initScalingDriver s)
      = scalingStatus (initAvailableGovernors s) (readCPUStringProperty 0 pStatesDrvFile u) (fst (generateDefaultPStates u))"
    "snd (initScalingDriver s) \<in> {u, snd (generateDefaultPStates u)}"
    "feature_err (fst (initScalingDriver s)) = None \<Longrightarrow> snd (initScalingDriver s) = snd (generateDefaultPStates u)"
  unfolding initScalingDriver_def Let_def u_def [symmetric] scalingStatus_def
  by (auto simp: case_prod_unfold split: option.splits if_splits)

lemma featureInit_status:
  assumes "same_machine s t"
  shows "fst (featureInit f s) = fst (featureInit f t)"
proof (cases f)
  case FrequencyScalingFeature
  let ?u = "\<lambda>s. s\<lparr>availableGovs := (case initAvailableGovernors s of Ret g \<Rightarrow> g | _ \<Rightarrow> [])\<rparr>"
  have u: "same_machine (?u s) (?u t)" using assms by (simp add: same_machine_def)
  have g: "initAvailableGovernors s = initAvailableGovernors t"
    by (simp only: initAvailableGovernors_def same_machine_reads [OF assms])
  have "same_machine ((?u s)\<lparr>allCPUDefaultPStatesInfo := replicate (getNumberOfCpus t) zeroPStates\<rparr>)
      ((?u t)\<lparr>allCPUDefaultPStatesInfo := replicate (getNumberOfCpus t) zeroPStates\<rparr>)" using u by (simp add: same_machine_def)
  from defaultLoop.forEach_respects [OF this]
  have d: "fst (generateDefaultPStates (?u s)) = fst (generateDefaultPStates (?u t))"
    using same_machine_reads(4) [OF u] same_machine_reads(4) [of "?u t" t]
    by (simp add: generateDefaultPStates_def Let_def same_machine_def)
  show ?thesis
    using FrequencyScalingFeature unfolding featureInit_def
    by (simp only: featureID.case initScalingDriver_split(1) d same_machine_reads(3) [OF u]) (simp only: g)
next
  case CStatesFeature
  have "fst (mapAvailableCStates s) = fst (mapAvailableCStates t)"
    using cpuLoop.forEach_respects [OF assms] same_machine_reads(4) [OF assms] by (simp add: mapAvailableCStates_def)
  then show ?thesis
    using CStatesFeature same_machine_reads(1) [OF assms]
    by (simp add: featureInit_def initCStates_def Let_def case_prod_unfold split: gores.split)
next
  case UncoreFeature
  have r: "readUncoreProperty p d f (s\<lparr>defaultUncore := x\<rparr>) = readUncoreProperty p d f t"
    "readUncoreProperty p d f (t\<lparr>defaultUncore := x\<rparr>) = readUncoreProperty p d f t"
    "readUncoreProperty p d f s = readUncoreProperty p d f t" for p d f x
    unfolding readUncoreProperty_def using assms by (intro same_machine_reads(5); simp add: same_machine_def)+
  have "checkKernelModuleLoaded m s = checkKernelModuleLoaded m t" for m
    by (simp only: checkKernelModuleLoaded_def same_machine_reads [OF assms])
  moreover have "sys s = sys t" using assms by (simp add: same_machine_def)
  ultimately show ?thesis
    using UncoreFeature r by (simp add: featureInit_def initUncore_def Let_def split: gores.split list.split option.split)
next
  case EPPFeature
  then show ?thesis using same_machine_reads(3) [OF assms, of 0 eppFile] by (simp add: featureInit_def initEpp_def)
qed

section \<open>What initialisation leaves alone\<close>

interpretation stateFrame: keeping "mapStateDir c" "\<lambda>s. s\<lparr>allCPUCStatesInfo := []\<rparr> = b" for c b
proof
  show "(snd (mapStateDir c x s))\<lparr>allCPUCStatesInfo := []\<rparr> = b" if "s\<lparr>allCPUCStatesInfo := []\<rparr> = b" for s x
    using that mapStateDir_cases [of c x s] by auto
qed

interpretation cpuFrame: keeping mapCStatesOfCPU "\<lambda>s. s\<lparr>allCPUCStatesInfo := []\<rparr> = b" for b
proof
  show "(snd (mapCStatesOfCPU x s))\<lparr>allCPUCStatesInfo := []\<rparr> = b" if "s\<lparr>allCPUCStatesInfo := []\<rparr> = b" for s x
    using that by (auto simp: mapCStatesOfCPU_def Let_def intro: stateFrame.forEach_keep split: option.split)
qed

interpretation defaultFrame: keeping defaultPStatesOf "\<lambda>s. s\<lparr>allCPUDefaultPStatesInfo := []\<rparr> = b" for b
proof
  show "(snd (defaultPStatesOf x s))\<lparr>allCPUDefaultPStatesInfo := []\<rparr> = b" if "s\<lparr>allCPUDefaultPStatesInfo := []\<rparr> = b" for s x
    using that by (auto simp: defaultPStatesOf_def andThen_def split: gores.split)
qed

interpretation defaultLength: keeping defaultPStatesOf "\<lambda>s. length (allCPUDefaultPStatesInfo s) = b" for b
proof
  show "length (allCPUDefaultPStatesInfo (snd (defaultPStatesOf x s))) = b" if "length (allCPUDefaultPStatesInfo s) = b" for s x
    using that by (auto simp: defaultPStatesOf_def andThen_def split: gores.split)
qed

lemma restore_defaults:
  "x\<lparr>allCPUDefaultPStatesInfo := []\<rparr> = (y :: hw)\<lparr>allCPUDefaultPStatesInfo := []\<rparr>
    \<Longrightarrow> x = y\<lparr>allCPUDefaultPStatesInfo := allCPUDefaultPStatesInfo x\<rparr>"
  by (cases x; cases y) simp

lemma restore_cstates:
  "x\<lparr>allCPUCStatesInfo := []\<rparr> = (y :: hw)\<lparr>allCPUCStatesInfo := []\<rparr>
    \<Longrightarrow> x = y\<lparr>allCPUCStatesInfo := allCPUCStatesInfo x\<rparr>"
  by (cases x; cases y) simp

lemma generateDefaultPStates_frame:
  "(snd (generateDefaultPStates s))\<lparr>allCPUDefaultPStatesInfo := []\<rparr> = s\<lparr>allCPUDefaultPStatesInfo := []\<rparr>"
  unfolding generateDefaultPStates_def Let_def by (rule defaultFrame.forEach_keep) simp

lemma featureInit_frame:
  assumes "featureInit f s = (st, s')"
  shows "same_machine s' s" "featureList s' = featureList s" "coreTypes s' = coreTypes s"
    "f \<noteq> FrequencyScalingFeature \<Longrightarrow> allCPUDefaultPStatesInfo s' = allCPUDefaultPStatesInfo s"
proof -
  have "same_machine s' s \<and> featureList s' = featureList s \<and> coreTypes s' = coreTypes s
      \<and> (f \<noteq> FrequencyScalingFeature \<longrightarrow> allCPUDefaultPStatesInfo s' = allCPUDefaultPStatesInfo s)"
  proof (cases f)
    case FrequencyScalingFeature
    let ?u = "s\<lparr>availableGovs := (case initAvailableGovernors s of Ret g \<Rightarrow> g | _ \<Rightarrow> [])\<rparr>"
    have g: "snd (generateDefaultPStates ?u) = ?u\<lparr>allCPUDefaultPStatesInfo := allCPUDefaultPStatesInfo (snd (generateDefaultPStates ?u))\<rparr>"
      by (rule restore_defaults [OF generateDefaultPStates_frame])
    have "same_machine (snd (generateDefaultPStates ?u)) s \<and> featureList (snd (generateDefaultPStates ?u)) = featureList s
        \<and> coreTypes (snd (generateDefaultPStates ?u)) = coreTypes s"
      by (subst (1 2 3) g) (simp add: same_machine_def)
    moreover from assms FrequencyScalingFeature have "s' = ?u \<or> s' = snd (generateDefaultPStates ?u)"
      using initScalingDriver_split(2) [of s] by (auto simp: featureInit_def)
    ultimately show ?thesis using FrequencyScalingFeature by (auto simp: same_machine_def)
  next
    case CStatesFeature
    have "(snd (mapAvailableCStates s))\<lparr>allCPUCStatesInfo := []\<rparr> = s\<lparr>allCPUCStatesInfo := []\<rparr>"
      unfolding mapAvailableCStates_def by (rule cpuFrame.forEach_keep) simp
    then have g: "snd (mapAvailableCStates s) = s\<lparr>allCPUCStatesInfo := allCPUCStatesInfo (snd (mapAvailableCStates s))\<rparr>"
      by (rule restore_cstates)
    have "same_machine (snd (mapAvailableCStates s)) s \<and> featureList (snd (mapAvailableCStates s)) = featureList s
        \<and> coreTypes (snd (mapAvailableCStates s)) = coreTypes s
        \<and> allCPUDefaultPStatesInfo (snd (mapAvailableCStates s)) = allCPUDefaultPStatesInfo s"
      by (subst (1 2 3 4) g) (simp add: same_machine_def)
    moreover have "s' = s \<or> s' = snd (mapAvailableCStates s)"
      using assms CStatesFeature
      by (auto simp: featureInit_def initCStates_def Let_def case_prod_unfold split: gores.splits if_splits)
    ultimately show ?thesis by auto
  next
    case UncoreFeature
    with assms show ?thesis
      by (auto simp: featureInit_def initUncore_def Let_def same_machine_def
          split: prod.splits gores.splits if_splits option.splits list.splits)
  next
    case EPPFeature
    with assms show ?thesis by (auto simp: featureInit_def initEpp_def)
  qed
  then show "same_machine s' s" "featureList s' = featureList s" "coreTypes s' = coreTypes s"
    "f \<noteq> FrequencyScalingFeature \<Longrightarrow> allCPUDefaultPStatesInfo s' = allCPUDefaultPStatesInfo s"
    by auto
qed


section \<open>The features after start-up\<close>

lemma initFeatures_frame:
  "initFeatures fs s = (errs, t) \<Longrightarrow> same_machine t s \<and> coreTypes t = coreTypes s
     \<and> map fst (featureList t) = fold (\<lambda>f ks. if f \<in> set ks then ks else ks @ [f]) fs (map fst (featureList s))"
proof (induction fs arbitrary: s errs)
  case (Cons f fs)
  obtain st s1 errs' where i: "featureInit f s = (st, s1)"
    "initFeatures fs (s1\<lparr>featureList := AList.update f st (featureList s1)\<rparr>) = (errs', t)"
    using Cons.prems by (auto split: prod.splits)
  note fr = featureInit_frame [OF i(1)]
  have "map fst (AList.update f st (featureList s1))
      = (if f \<in> set (map fst (featureList s)) then map fst (featureList s) else map fst (featureList s) @ [f])"
    using fr(2) by (simp add: update_keys)
  with Cons.IH [OF i(2)] fr show ?case by (auto simp: same_machine_def)
qed simp

lemma initFeatures_keys:
  assumes "initFeatures fs s = (errs, t)" "set fs \<subseteq> fst ` set (featureList s)"
  shows "map fst (featureList t) = map fst (featureList s)"
proof -
  have "fold (\<lambda>f ks. if f \<in> set ks then ks else ks @ [f]) fs ks = ks" if "set fs \<subseteq> set ks" for ks
    using that by (induction fs) auto
  with initFeatures_frame [OF assms(1)] assms(2) show ?thesis by simp
qed

lemma initFeatures_status:
  assumes "initFeatures fs s = (errs, t)" "distinct fs"
  shows "(\<forall>f. map_of (featureList t) f = (if f \<in> set fs then Some (fst (featureInit f s)) else map_of (featureList s) f))
    \<and> errs = map (\<lambda>f. feature_err (fst (featureInit f s))) fs"
  using assms
proof (induction fs arbitrary: s errs)
  case (Cons g fs)
  obtain st s1 errs' where i: "featureInit g s = (st, s1)"
    "initFeatures fs (s1\<lparr>featureList := AList.update g st (featureList s1)\<rparr>) = (errs', t)" "errs = feature_err st # errs'"
    using Cons.prems(1) by (auto split: prod.splits)
  note fr = featureInit_frame [OF i(1)]
  let ?s = "s1\<lparr>featureList := AList.update g st (featureList s1)\<rparr>"
  have eq: "fst (featureInit h ?s) = fst (featureInit h s)" for h
    by (rule featureInit_status) (use fr(1) in \<open>simp add: same_machine_def\<close>)
  have "distinct fs" "g \<notin> set fs" using Cons.prems(2) by simp_all
  with Cons.IH [OF i(2)] i(1,3) fr(2) eq show ?case by (auto simp: update_conv')
qed simp

text \<open>
  The features after start-up do not depend on the order in which the map of features is
  visited: each feature of the table has the status its own initialisation computes on the
  machine as it was, the reported error joins exactly the errors of the features that failed, and
  there is an error exactly if some feature failed.
\<close>

theorem FeatureSet_init_order_independent:
  assumes "FeatureSet_init s = (e, t)" "distinct (map fst (featureList s))" "featureList s \<noteq> []"
  shows "(\<forall>f \<in> fst ` set (featureList s). map_of (featureList t) f = Some (fst (featureInit f s)))
    \<and> map fst (featureList t) = map fst (featureList s)
    \<and> e = errorsJoin (map (\<lambda>f. feature_err (fst (featureInit f s))) (map fst (featureList s)))
    \<and> (e = None \<longleftrightarrow> (\<forall>f \<in> fst ` set (featureList s). isFeatureIDSupported (featureList t) f))"
proof -
  obtain errs where r: "initFeatures (map fst (featureList s)) s = (errs, t)" "e = errorsJoin errs"
    using assms(1,3) by (auto simp: FeatureSet_init_def split: prod.splits)
  note st = conjunct1 [OF initFeatures_status [OF r(1) assms(2)]] conjunct2 [OF initFeatures_status [OF r(1) assms(2)]]
  have m: "\<forall>f \<in> fst ` set (featureList s). map_of (featureList t) f = Some (fst (featureInit f s))"
    using st(1) by simp
  have "e = None \<longleftrightarrow> (\<forall>f \<in> set (map fst (featureList s)). feature_err (fst (featureInit f s)) = None)"
    unfolding r(2) st(2) errorsJoin_def Let_def by (auto simp: filter_empty_conv)
  then have "e = None \<longleftrightarrow> (\<forall>f \<in> fst ` set (featureList s). isFeatureIDSupported (featureList t) f)"
    using m by (simp add: isFeatureIDSupported_def isSupported_def)
  with m st(2) r(2) initFeatures_keys [OF r(1)] show ?thesis by simp
qed

section \<open>A created host is well formed\<close>

lemma scaling_defaults_length:
  assumes "featureInit FrequencyScalingFeature s = (st, s')" "feature_err st = None"
  shows "getNumberOfCpus s \<le> length (allCPUDefaultPStatesInfo s')"
proof -
  let ?u = "s\<lparr>availableGovs := (case initAvailableGovernors s of Ret g \<Rightarrow> g | _ \<Rightarrow> [])\<rparr>"
  have "initScalingDriver s = (st, s')" using assms(1) by (simp add: featureInit_def)
  then have s': "s' = snd (generateDefaultPStates ?u)" "feature_err (fst (initScalingDriver s)) = None"
    using initScalingDriver_split(3) [of s] assms(2) by simp_all
  have n: "getNumberOfCpus ?u = getNumberOfCpus s" by (rule same_machine_reads(4)) (simp add: same_machine_def)
  have len: "length (allCPUDefaultPStatesInfo (snd (forEach defaultPStatesOf is t))) = length (allCPUDefaultPStatesInfo t)" for "is" t
    using defaultLength.forEach_keep [where b = "length (allCPUDefaultPStatesInfo t)" and s = t] by simp
  show ?thesis using s'(1) n by (simp add: generateDefaultPStates_def Let_def len)
qed

lemma initFeatures_defaults:
  assumes "initFeatures fs s = (errs, t)" "distinct fs" "FrequencyScalingFeature \<in> set fs"
    "feature_err (fst (featureInit FrequencyScalingFeature s)) = None"
  shows "getNumberOfCpus s \<le> length (allCPUDefaultPStatesInfo t)"
  using assms
proof (induction fs arbitrary: s errs)
  case (Cons g fs)
  obtain st s1 errs' where i: "featureInit g s = (st, s1)"
    "initFeatures fs (s1\<lparr>featureList := AList.update g st (featureList s1)\<rparr>) = (errs', t)"
    using Cons.prems(1) by (auto split: prod.splits)
  let ?s = "s1\<lparr>featureList := AList.update g st (featureList s1)\<rparr>"
  have sm: "same_machine ?s s" using featureInit_frame(1) [OF i(1)] by (simp add: same_machine_def)
  show ?case
  proof (cases "g = FrequencyScalingFeature")
    case True
    have keep: "length (allCPUDefaultPStatesInfo t) = length (allCPUDefaultPStatesInfo s)"
      if "initFeatures fs s = (errs, t)" "FrequencyScalingFeature \<notin> set fs" for fs s errs
      using that
    proof (induction fs arbitrary: s errs)
      case (Cons g fs)
      then show ?case using featureInit_frame(4) [of g s] by (fastforce split: prod.splits)
    qed simp
    have "getNumberOfCpus s \<le> length (allCPUDefaultPStatesInfo s1)"
      using scaling_defaults_length i(1) Cons.prems(4) True by simp
    with keep [OF i(2)] Cons.prems(2) True show ?thesis by simp
  next
    case False
    have "feature_err (fst (featureInit FrequencyScalingFeature ?s)) = None"
      using featureInit_status [OF sm] Cons.prems(4) by simp
    with Cons.IH [OF i(2)] Cons.prems(2,3) False same_machine_reads(4) [OF sm] show ?thesis by simp
  qed
qed simp

lemma initFeatures_ready:
  assumes "initFeatures fs s = (errs, t)" "distinct fs" "set fs = fst ` set (featureList s)"
    "isFeatureIDSupported (featureList t) FrequencyScalingFeature"
  shows "getNumberOfCpus t \<le> length (allCPUDefaultPStatesInfo t)"
proof -
  note st = initFeatures_status [OF assms(1,2)]
  have fr: "same_machine t s" using initFeatures_frame [OF assms(1)] by simp
  have "map_of (featureList t) FrequencyScalingFeature \<noteq> None"
    using assms(4) by (auto simp: isFeatureIDSupported_def split: option.splits)
  then have "FrequencyScalingFeature \<in> set fs"
    using initFeatures_keys [OF assms(1)] assms(3) by (metis map_of_eq_None_iff order_refl set_map)
  moreover from this have "feature_err (fst (featureInit FrequencyScalingFeature s)) = None"
    using st assms(4) by (simp add: isFeatureIDSupported_def isSupported_def)
  ultimately show ?thesis
    using initFeatures_defaults [OF assms(1,2)] same_machine_reads(4) [OF fr] by simp
qed

lemma initHost_Ret:
  assumes "initHost uname nm s = (Ret h, s')"
  shows "discoverTopology (host_architecture h) s = (Ret (topology h), s')" "machineOf h = s'" "host_name h = nm"
    "exclusivePools h = []" "nextPool h = 0" "cpuPool h = (\<lambda>_. RReserved)"
    "\<And>p. Cpus p h = (if p = RReserved then topology_CPUs (topology h) else [])"
    "setArchitecture uname = Ret (host_architecture h)" "setVendorID (host_architecture h) s = Ret (vendorID h)"
  using assms
  by (auto simp: initHost_def andThen_def wrapErr_def reading_def Cpus_def split: prod.splits gores.splits pool_ref.splits)

lemma initHost_inv:
  assumes "initHost uname nm s = (Ret h, s')"
    "isFeatureIDSupported (featureList s) FrequencyScalingFeature \<Longrightarrow> getNumberOfCpus s \<le> length (allCPUDefaultPStatesInfo s)"
  shows "host_inv h" "Cpus RReserved h = [0..<getNumberOfCpus s]"
proof -
  note h = initHost_Ret [OF assms(1)]
  note d = discoverTopology_placed [OF h(1)]
  obtain ts where ts: "s' = s\<lparr>coreTypes := ts\<rparr>" using d(2) by blast
  have cpus: "topology_CPUs (topology h) = [0..<getNumberOfCpus s]"
    using d(1) by (simp add: placed_def topology_CPUs_def)
  have "machine_ready h"
    using d(1) assms(2) unfolding machine_ready_def h(2) cpus ts placed_def
    by (fastforce simp: same_machine_def)
  with h cpus show "host_inv h"
    by (auto simp: host_inv_def membership_ok_def registry_ok_def allocated_def)
  show "Cpus RReserved h = [0..<getNumberOfCpus s]" using h(7) cpus by simp
qed

text \<open>A host that start-up returns was made from initialised features of the same machine, and is well formed.\<close>

lemma CreateInstance_start:
  assumes "CreateInstance uname nm s = (Ret (Some h, e), s')" "distinct (map fst (featureList s))"
  shows "\<exists>s1. FeatureSet_init s = (e, s1) \<and> anySupported (featureList s1) \<and> initHost uname nm s1 = (Ret h, s') \<and> same_machine s1 s
    \<and> host_inv h \<and> Cpus RReserved h = [0..<getNumberOfCpus s]"
proof -
  obtain s1 where s1: "FeatureSet_init s = (e, s1)" "anySupported (featureList s1)" "initHost uname nm s1 = (Ret h, s')"
    using assms(1) by (auto simp: CreateInstance_def split: prod.splits if_splits gores.splits)
  have ne: "featureList s \<noteq> []" using s1(1,2) by (auto simp: FeatureSet_init_def)
  then obtain errs where i: "initFeatures (map fst (featureList s)) s = (errs, s1)"
    using s1(1) by (auto simp: FeatureSet_init_def split: prod.splits)
  have sm: "same_machine s1 s" using initFeatures_frame [OF i] by simp
  with s1 initHost_inv [OF s1(3) initFeatures_ready [OF i assms(2)]] same_machine_reads(4) [OF sm] show ?thesis by auto
qed

text \<open>
  C30. An instance that is created is well formed: the pools partition the CPUs of the machine,
  which all start in the reserved pool, no exclusive pool exists, the tables the frequency code
  indexes cover every CPU, and some feature is supported.  The architecture and the vendor are the
  ones the machine reports.
\<close>

theorem CreateInstance_host:
  assumes "CreateInstance uname nm s = (Ret (Some h, e), s')" "distinct (map fst (featureList s))"
  shows "host_inv h \<and> Cpus RReserved h = [0..<getNumberOfCpus s] \<and> Cpus RShared h = []
    \<and> exclusivePools h = [] \<and> host_name h = nm \<and> machineOf h = s'
    \<and> setArchitecture uname = Ret (host_architecture h) \<and> setVendorID (host_architecture h) s = Ret (vendorID h)
    \<and> anySupported (featureList s') \<and> e = fst (FeatureSet_init s)"
proof -
  obtain s1 where s1: "FeatureSet_init s = (e, s1)" "anySupported (featureList s1)" "initHost uname nm s1 = (Ret h, s')"
      "same_machine s1 s" "host_inv h" "Cpus RReserved h = [0..<getNumberOfCpus s]"
    using CreateInstance_start [OF assms] by metis
  note h = initHost_Ret [OF s1(3)]
  have "setVendorID a s1 = setVendorID a s" for a
    unfolding setVendorID_def readCPUInfoField_def readCPUInfoFieldFrom_def
    by (simp only: same_machine_reads [OF s1(4)])
  moreover obtain ts where "s' = s1\<lparr>coreTypes := ts\<rparr>" using discoverTopology_placed(2) [OF h(1)] by blast
  ultimately show ?thesis using h s1 by simp
qed

lemma SetName_inv: "host_inv h \<Longrightarrow> host_inv (SetName name h)"
  by (simp add: SetName_def host_inv_def membership_ok_def registry_ok_def machine_ready_def Cpus_def allocated_def [abs_def] cong: pool_ref.case_cong)

section \<open>The properties at a concrete machine\<close>

text \<open>A one-CPU x86 machine as the library finds it: two features are declared, only one is there.\<close>

definition freshMachine :: hw where
  "freshMachine = (machine [] [] [(CPUFile 0 packageIDFile, ''0''), (CPUFile 0 dieIDFile, ''0''), (CPUFile 0 coreIDFile, ''0''),
      (CPUFile 0 cpuMinFreqFile, ''8''), (CPUFile 0 cpuMaxFreqFile, ''30''), (CPUFile 0 availGovFile, ''powersave performance''),
      (CPUFile 0 pStatesDrvFile, ''intel_pstate''), (CPUInfoFile, ''vendor_id : GenuineIntel'')])
    \<lparr>coresOverride := Some 1,
     featureList := [(EPPFeature, \<lparr>feature_name = '''', feature_driver = '''', feature_err = Some errUninitialized\<rparr>),
       (FrequencyScalingFeature, \<lparr>feature_name = '''', feature_driver = '''', feature_err = Some errUninitialized\<rparr>)]\<rparr>"

fun created :: "(hostImpl option \<times> gerr option) gores \<Rightarrow> bool" where
  "created (Ret (Some _, _)) = True"
| "created _ = False"

lemma created_iff: "created r \<longleftrightarrow> (\<exists>h e. r = Ret (Some h, e))"
  by (cases r rule: created.cases) simp_all

lemma freshMachine_features:
  "distinct (map fst (featureList freshMachine))" "featureList freshMachine \<noteq> []"
  "FrequencyScalingFeature \<in> fst ` set (featureList freshMachine)"
  by (simp_all add: freshMachine_def)

theorem FeatureSet_init_order_independent_witness:
  "\<exists>e t. FeatureSet_init freshMachine = (e, t)
     \<and> map_of (featureList t) FrequencyScalingFeature = Some (fst (featureInit FrequencyScalingFeature freshMachine))
     \<and> (e = None \<longleftrightarrow> (\<forall>f \<in> fst ` set (featureList freshMachine). isFeatureIDSupported (featureList t) f))"
proof -
  obtain e t where r: "FeatureSet_init freshMachine = (e, t)" by fastforce
  note f = FeatureSet_init_order_independent [OF r freshMachine_features(1,2)]
  have "map_of (featureList t) FrequencyScalingFeature = Some (fst (featureInit FrequencyScalingFeature freshMachine))"
    by (rule bspec [OF conjunct1 [OF f] freshMachine_features(3)])
  with f r show ?thesis by metis
qed

theorem CreateInstance_host_witness:
  "\<exists>h e s'. CreateInstance (Ret ''x86_64'') ''node'' freshMachine = (Ret (Some h, e), s')
     \<and> host_inv h \<and> Cpus RReserved h = [0] \<and> exclusivePools h = [] \<and> anySupported (featureList s')"
proof -
  have "created (fst (CreateInstance (Ret ''x86_64'') ''node'' freshMachine))" by code_simp
  then obtain h e s' where c: "CreateInstance (Ret ''x86_64'') ''node'' freshMachine = (Ret (Some h, e), s')"
    by (metis created_iff prod.collapse)
  have "getNumberOfCpus freshMachine = 1" by code_simp
  with CreateInstance_host [OF c freshMachine_features(1)] c show ?thesis by auto
qed

end
