(* ===== verification/API.thy ===== *)
theory API
  imports Hardware
begin

text \<open>
  The API types of the project (\<^verbatim>\<open>api/v1alpha1/*_types.go\<close>, \<^verbatim>\<open>common.go\<close>) and of the Kubernetes objects the
  code reads, and the reading side of the Kubernetes client.  Kubernetes itself is not modelled: a
  client is a record of functions, of which only what a property states is assumed.
\<close>

section \<open>Kubernetes objects\<close>

text \<open>
  A label selector distinguishes a missing map or list (Go's nil) from an empty one, because
  \<^verbatim>\<open>reflect.DeepEqual\<close> does.
\<close>

type_synonym labels = "(string \<times> string) list"

record requirement =
  req_Key :: string
  req_Operator :: string
  req_Values :: "string list option"

record LabelSelector =
  MatchLabels :: "labels option"
  MatchExpressions :: "requirement list option"

record NodeSelector =
  nodeLabelSelector :: LabelSelector

record ObjectMeta =
  meta_Name :: string
  meta_Namespace :: string
  meta_UID :: string
  meta_Generation :: int
  meta_CreationTimestamp :: int
  meta_Labels :: labels
  meta_Deleted :: bool

text \<open>Resource quantities are given in thousandths, as \<^verbatim>\<open>MilliValue\<close> reports them.\<close>

type_synonym resources = "(string \<times> int) list"

text \<open>Go's zero quantity for a resource that is not listed; \<^verbatim>\<open>Value()\<close> rounds away from zero.\<close>

definition quantity :: "resources \<Rightarrow> string \<Rightarrow> int" where
  "quantity rs name = (case map_of rs name of Some q \<Rightarrow> q | None \<Rightarrow> 0)"

definition quantityValue :: "int \<Rightarrow> int" where
  "quantityValue milli = (if 0 \<le> milli then (milli + 999) div 1000 else - ((999 - milli) div 1000))"

record kubeContainer =
  ctr_Name :: string
  ctr_Requests :: resources
  ctr_Limits :: resources
  ctr_Claims :: "string list"

record Pod =
  pod_meta :: ObjectMeta
  pod_NodeName :: string
  pod_InitContainers :: "kubeContainer list"
  pod_Containers :: "kubeContainer list"
  pod_Phase :: string
  pod_QOSClass :: string
  pod_InitContainerStatuses :: "(string \<times> string) list"
  pod_ContainerStatuses :: "(string \<times> string) list"

record Node =
  node_meta :: ObjectMeta
  node_Capacity :: resources

section \<open>Power profiles\<close>

record PStatesConfig =
  ps_Max :: "IntOrString option"
  ps_Min :: "IntOrString option"
  ps_Epp :: string
  ps_Governor :: string

record CStatesConfig =
  cs_Names :: "(string \<times> bool) list"
  cs_MaxLatencyUs :: "int option"

record CPUScalingPolicy =
  sp_WorkloadType :: string
  sp_SamplePeriod :: "int option"
  sp_CooldownPeriod :: "int option"
  sp_TargetUsage :: "int option"
  sp_AllowedUsageDifference :: "int option"
  sp_AllowedFrequencyDifference :: "int option"
  sp_ScalePercentage :: "int option"
  sp_FallbackFreqPercent :: "int option"

record PowerProfileSpec =
  pps_Shared :: bool
  pps_NodeSelector :: NodeSelector
  pps_PStates :: PStatesConfig
  pps_CStates :: CStatesConfig
  pps_CPUCapacity :: IntOrString
  pps_CPUScalingPolicy :: "CPUScalingPolicy option"

record PowerProfile =
  pp_meta :: ObjectMeta
  pp_Spec :: PowerProfileSpec

section \<open>Node configurations and uncore\<close>

record ReservedSpec =
  rs_Cores :: "nat list"
  rs_PowerProfile :: string

record PowerNodeConfigSpec =
  pncs_SharedPowerProfile :: string
  pncs_NodeSelector :: NodeSelector
  pncs_ReservedCPUs :: "ReservedSpec list"

record PowerNodeConfig =
  pnc_meta :: ObjectMeta
  pnc_Spec :: PowerNodeConfigSpec

record DieSelector =
  ds_Package :: "nat option"
  ds_Die :: "nat option"
  ds_Min :: "nat option"
  ds_Max :: "nat option"

record UncoreSpec =
  us_NodeSelector :: NodeSelector
  us_SysMax :: "nat option"
  us_SysMin :: "nat option"
  us_DieSelectors :: "DieSelector list option"

record Uncore =
  uncore_meta :: ObjectMeta
  uncore_Spec :: UncoreSpec

section \<open>Node state\<close>

record NodeInfo =
  ni_CPUCapacity :: int
  ni_Architecture :: string

record PowerNodeProfileStatus =
  pnps_Name :: string
  pnps_Config :: string
  pnps_Errors :: "string list"

record SharedCPUPoolStatus =
  scp_PowerProfile :: string
  scp_PowerNodeConfig :: string
  scp_CPUIDs :: string
  scp_Errors :: "string list"

record PowerProfileCPUs =
  ppc_PowerProfile :: string
  ppc_CPUIDs :: string
  ppc_Errors :: "string list"

record ReservedCPUPoolStatus =
  rcp_PowerProfileCPUs :: "PowerProfileCPUs list"
  rcp_PowerNodeConfig :: string

record PowerContainer =
  pc_Name :: string
  pc_ID :: string
  pc_PowerProfile :: string
  pc_CPUIDs :: "nat list"
  pc_Errors :: "string list"

record ExclusiveCPUPoolStatus =
  ecp_PodUID :: string
  ecp_Pod :: string
  ecp_PowerContainers :: "PowerContainer list"

text \<open>A list field that is omitted from a patch differs from an empty one (\<^verbatim>\<open>omitzero\<close>), hence the options.\<close>

record CPUPoolsStatus =
  cps_Shared :: "SharedCPUPoolStatus option"
  cps_Reserved :: "ReservedCPUPoolStatus list option"
  cps_Exclusive :: "ExclusiveCPUPoolStatus list option"

record NodeUncoreStatus =
  nus_Name :: string
  nus_Config :: string
  nus_Errors :: "string list"

record PowerNodeStateStatus =
  pns_NodeInfo :: "NodeInfo option"
  pns_PowerProfiles :: "PowerNodeProfileStatus list option"
  pns_CPUPools :: "CPUPoolsStatus option"
  pns_Uncore :: "NodeUncoreStatus option"

section \<open>The state the controllers keep of pods\<close>

record Container =
  c_Name :: string
  c_ID :: string
  c_Pod :: string
  c_PodUID :: string
  c_ExclusiveCPUs :: "nat list"
  c_PowerProfile :: string

record GuaranteedPod =
  gp_Node :: string
  gp_Name :: string
  gp_Namespace :: string
  gp_UID :: string
  gp_Containers :: "Container list"

section \<open>The client\<close>

abbreviation "PowerNamespace \<equiv> ''power-manager''"

text \<open>
  A client of the API server, as the code uses it: requests on a cluster whose state of type \<open>'k\<close> is
  left open.  Any request may fail, and any request may find a cluster that others have changed since the last one.
  Objects are named by namespace and name; \<^verbatim>\<open>Patch_Status\<close> is the server-side apply of a status
  on behalf of a field owner.
\<close>

record 'k client =
  Get_Pod :: "string \<Rightarrow> string \<Rightarrow> (Pod, 'k) action"
  Get_PowerProfile :: "string \<Rightarrow> string \<Rightarrow> (PowerProfile, 'k) action"
  Get_Node :: "string \<Rightarrow> (Node, 'k) action"
  Get_PowerNodeState :: "string \<Rightarrow> string \<Rightarrow> (PowerNodeStateStatus, 'k) action"
  List_PowerProfiles :: "(PowerProfile list, 'k) action"
  List_PowerNodeConfigs :: "string \<Rightarrow> (PowerNodeConfig list, 'k) action"
  List_Uncores :: "string \<Rightarrow> (Uncore list, 'k) action"
  List_Nodes :: "(labels \<Rightarrow> bool) \<Rightarrow> (Node list, 'k) action"
  List_Pods :: "string \<Rightarrow> string \<Rightarrow> (Pod list, 'k) action"
  Update_NodeStatus :: "Node \<Rightarrow> (unit, 'k) action"
  Patch_Status :: "string \<Rightarrow> string \<Rightarrow> PowerNodeStateStatus \<Rightarrow> string \<Rightarrow> (unit, 'k) action"

text \<open>\<^verbatim>\<open>metav1.LabelSelectorAsSelector\<close> of apimachinery: an error, or the predicate a selector stands for.\<close>

type_synonym selectors = "LabelSelector \<Rightarrow> gerr + (labels \<Rightarrow> bool)"

text \<open>\<^verbatim>\<open>apierrors.IsNotFound\<close>: it looks through wrapped errors.\<close>

fun isNotFoundErr :: "gerr \<Rightarrow> bool" where
  "isNotFoundErr (NotFound _) = True"
| "isNotFoundErr (Wrap _ e) = isNotFoundErr e"
| "isNotFoundErr _ = False"

text \<open>\<^verbatim>\<open>err.Error()\<close>\<close>

fun ErrorText :: "gerr \<Rightarrow> string" where
  "ErrorText (Msg m) = m"
| "ErrorText (Wrap p e) = p @ '': '' @ ErrorText e"
| "ErrorText (OSNotExist m) = m"
| "ErrorText (OSFailure m) = m"
| "ErrorText (NotFound m) = m"
| "ErrorText (Unavailable m) = m"
| "ErrorText (Joined es) = Join newline (map ErrorText es)"

text \<open>\<^verbatim>\<open>x, err := f(); if err != nil {...} else {...}\<close>: a failure is looked at instead of returned.\<close>

definition attempt :: "'a gores \<times> 's \<Rightarrow> (gerr + 'a) gores \<times> 's" where
  "attempt r = (case r of
      (Ret a, s) \<Rightarrow> (Ret (Inr a), s)
    | (Fail e, s) \<Rightarrow> (Ret (Inl e), s)
    | (Panic m, s) \<Rightarrow> (Panic m, s))"

lemma attempt_simps [simp, go_simps]:
  "attempt (Ret a, s) = (Ret (Inr a), s)"
  "attempt (Fail e, s) = (Ret (Inl e), s)"
  "attempt (Panic m, s) = (Panic m, s)"
  by (simp_all add: attempt_def)

lemma snd_attempt [simp]: "snd (attempt r) = snd r"
  by (auto simp: attempt_def split: prod.splits gores.splits)

lemma attempt_Ret_ex:
  "attempt r = (Ret x, s) \<longleftrightarrow> (\<exists>e. x = Inl e \<and> r = (Fail e, s)) \<or> (\<exists>a. x = Inr a \<and> r = (Ret a, s))"
  by (auto simp: attempt_def split: prod.splits gores.splits)

lemmas run_simps = andThen_Ret_iff attempt_Ret_ex

section \<open>Following code\<close>

text \<open>
  Code that takes the state \<open>s\<close> along a relation \<open>R\<close>, whatever its outcome, and does not panic (if \<open>quiet\<close>).  For a
  transitive relation the property follows the code: sequences and loops have it if their parts do.  The
  locale is interpreted for the calls of the power library, for the settings of the uncore and for the controllers.
\<close>

definition guarded :: "('s \<Rightarrow> 's \<Rightarrow> bool) \<Rightarrow> bool \<Rightarrow> 's \<Rightarrow> 'a gores \<times> 's \<Rightarrow> bool" where
  "guarded R quiet s r \<longleftrightarrow> R s (snd r) \<and> (quiet \<longrightarrow> \<not> isPanic (fst r))"

lemma isPanic_attempt [simp]: "isPanic (fst (attempt r)) = isPanic (fst r)"
  by (cases r; cases "fst r") auto

lemma guarded_simps [simp]:
  "guarded R quiet s (attempt r) = guarded R quiet s r" "guarded R quiet s (wrapErr m r) = guarded R quiet s r"
  "guarded R quiet s (Ret x, t) = R s t" "guarded R quiet s (Fail e, t) = R s t"
  by (simp_all add: guarded_def)

locale progress =
  fixes R :: "'s \<Rightarrow> 's \<Rightarrow> bool"
  assumes trans: "R s t \<Longrightarrow> R t u \<Longrightarrow> R s u"
begin

lemma andThen:
  assumes "guarded R quiet s r" and "\<And>x t. r = (Ret x, t) \<Longrightarrow> R s t \<Longrightarrow> guarded R quiet t (f x t)"
  shows "guarded R quiet s (andThen r f)"
  using assms by (cases r; cases "fst r") (auto simp: guarded_def intro: trans)

lemma forEach:
  assumes "I s" "\<forall>x \<in> set xs. good s x" and refl: "\<And>s. I s \<Longrightarrow> R s s" and inv: "\<And>s t. R s t \<Longrightarrow> I t"
    and keep: "\<And>x s t. good s x \<Longrightarrow> R s t \<Longrightarrow> good t x"
    and body: "\<And>x s. I s \<Longrightarrow> good s x \<Longrightarrow> guarded R quiet s (body x s)"
  shows "guarded R quiet s (forEach body xs s)"
  using assms(1,2)
proof (induction xs arbitrary: s)
  case (Cons x xs)
  show ?case
    unfolding forEach.simps
  proof (rule andThen)
    show "guarded R quiet s (body x s)" using Cons.prems body by simp
    show "guarded R quiet t (forEach body xs t)" if "R s t" for t
      using Cons.prems(2) that keep inv by (intro Cons.IH) auto
  qed
qed (simp add: refl)

end

end
