(* ===== verification/Stores.thy ===== *)
theory Stores
  imports API
begin

text \<open>
  The lists the controllers keep in memory (\<^verbatim>\<open>pkg/podstate\<close>, \<^verbatim>\<open>pkg/state\<close>) and the helpers of
  \<^verbatim>\<open>pkg/util\<close>.  Both lists delete an element in a loop over the list itself; the model of that loop keeps the array that the
  loop ranges over apart from the list that shrinks.
\<close>

section \<open>Helpers\<close>

fun CPUInCPUList :: "nat \<Rightarrow> nat list \<Rightarrow> bool" where
  "CPUInCPUList cpu [] = False"
| "CPUInCPUList cpu (cpuListID # rest) = (if cpuListID = cpu then True else CPUInCPUList cpu rest)"

fun NodeNameInNodeList :: "string \<Rightarrow> Node list \<Rightarrow> bool" where
  "NodeNameInNodeList name [] = False"
| "NodeNameInNodeList name (node # rest) = (if meta_Name (node_meta node) = name then True else NodeNameInNodeList name rest)"

fun StringInStringList :: "string \<Rightarrow> string list \<Rightarrow> bool" where
  "StringInStringList item [] = False"
| "StringInStringList item (i # rest) = (if i = item then True else StringInStringList item rest)"

text \<open>\<^verbatim>\<open>errors.As\<close> for an error that unwraps to a list: the first joined error in the chain.\<close>

fun joinedIn :: "gerr \<Rightarrow> gerr list option" where
  "joinedIn (Joined es) = Some es"
| "joinedIn (Wrap _ e) = joinedIn e"
| "joinedIn _ = None"

definition UnpackErrsToStrings :: "gerr option \<Rightarrow> string list" where
  "UnpackErrsToStrings err = (case err of
      None \<Rightarrow> []
    | Some e \<Rightarrow> (case joinedIn e of Some es \<Rightarrow> map ErrorText es | None \<Rightarrow> [ErrorText e]))"

section \<open>Deleting in a loop\<close>

text \<open>
  \<^verbatim>\<open>for i, x := range l { if p(x) { l = append(l[:i], l[i+1:]...) } }\<close>.  The loop ranges over the array
  \<open>arr\<close> as it is at each turn, up to the length \<open>n\<close> the list had at the start; \<open>len\<close> is the length the list has
  now.  \<^verbatim>\<open>append\<close> shifts the rest of the list to the left in the array; slicing from beyond the end panics.
\<close>

function deleteLoop :: "('a \<Rightarrow> bool) \<Rightarrow> nat \<Rightarrow> nat \<Rightarrow> 'a list \<Rightarrow> nat \<Rightarrow> 'a list gores" where
  "deleteLoop p n i arr len =
     (if i < n
      then (if p (arr ! i)
            then (if len < i + 1 then Panic ''runtime error: slice bounds out of range''
                  else deleteLoop p n (i + 1)
                    (take i arr @ take (len - (i + 1)) (drop (i + 1) arr) @ drop (len - 1) arr) (len - 1))
            else deleteLoop p n (i + 1) arr len)
      else Ret (take len arr))"
  by pat_completeness auto
termination by (relation "measure (\<lambda>(p, n, i, arr, len). n - i)") auto

declare deleteLoop.simps [simp del]

definition deleteRanging :: "('a \<Rightarrow> bool) \<Rightarrow> 'a list \<Rightarrow> 'a list gores" where
  "deleteRanging p l = deleteLoop p (length l) 0 l (length l)"

section \<open>Names of nodes\<close>

record PowerNodeData =
  PowerNodeList :: "string list"

definition NewPowerNodeData :: PowerNodeData where
  "NewPowerNodeData = \<lparr>PowerNodeList = []\<rparr>"

definition UpdatePowerNodeData :: "string \<Rightarrow> PowerNodeData \<Rightarrow> PowerNodeData" where
  "UpdatePowerNodeData nodeName nd =
     (if list_ex (\<lambda>node. nodeName = node) (PowerNodeList nd) then nd
      else nd\<lparr>PowerNodeList := PowerNodeList nd @ [nodeName]\<rparr>)"

definition DeletePowerNodeData :: "string \<Rightarrow> (unit, PowerNodeData) action" where
  "DeletePowerNodeData nodeName nd = (case deleteRanging (\<lambda>node. node = nodeName) (PowerNodeList nd) of
      Ret l \<Rightarrow> (Ret (), nd\<lparr>PowerNodeList := l\<rparr>)
    | Fail e \<Rightarrow> (Fail e, nd)
    | Panic m \<Rightarrow> (Panic m, nd))"

section \<open>Pods\<close>

record podState =
  GuaranteedPods :: "GuaranteedPod list"

definition NewState :: podState where
  "NewState = \<lparr>GuaranteedPods = []\<rparr>"

definition isPod :: "string \<Rightarrow> string \<Rightarrow> GuaranteedPod \<Rightarrow> bool" where
  "isPod podName podNamespace pod \<longleftrightarrow> gp_Name pod = podName \<and> gp_Namespace pod = podNamespace"

fun updatePods :: "GuaranteedPod \<Rightarrow> GuaranteedPod list \<Rightarrow> GuaranteedPod list" where
  "updatePods guaranteedPod [] = [guaranteedPod]"
| "updatePods guaranteedPod (existingPod # rest) =
     (if isPod (gp_Name guaranteedPod) (gp_Namespace guaranteedPod) existingPod then guaranteedPod # rest
      else existingPod # updatePods guaranteedPod rest)"

definition UpdateStateGuaranteedPods :: "GuaranteedPod \<Rightarrow> podState \<Rightarrow> podState" where
  "UpdateStateGuaranteedPods guaranteedPod s = s\<lparr>GuaranteedPods := updatePods guaranteedPod (GuaranteedPods s)\<rparr>"

definition noPod :: GuaranteedPod where
  "noPod = \<lparr>gp_Node = [], gp_Name = [], gp_Namespace = [], gp_UID = [], gp_Containers = []\<rparr>"

definition GetPodFromState :: "string \<Rightarrow> string \<Rightarrow> podState \<Rightarrow> GuaranteedPod" where
  "GetPodFromState podName podNamespace s =
     (case find (isPod podName podNamespace) (GuaranteedPods s) of Some pod \<Rightarrow> pod | None \<Rightarrow> noPod)"

definition GetCPUsFromPodState :: "GuaranteedPod \<Rightarrow> nat list" where
  "GetCPUsFromPodState pod = concat (map c_ExclusiveCPUs (gp_Containers pod))"

definition DeletePodFromState :: "string \<Rightarrow> string \<Rightarrow> (unit, podState) action" where
  "DeletePodFromState podName podNamespace s = (case deleteRanging (isPod podName podNamespace) (GuaranteedPods s) of
      Ret l \<Rightarrow> (Ret (), s\<lparr>GuaranteedPods := l\<rparr>)
    | Fail e \<Rightarrow> (Fail e, s)
    | Panic m \<Rightarrow> (Panic m, s))"

section \<open>The loop deletes exactly the element\<close>

lemma CPUInCPUList_iff: "CPUInCPUList c cs \<longleftrightarrow> c \<in> set cs"
  by (induction cs) auto

lemma StringInStringList_iff: "StringInStringList x xs \<longleftrightarrow> x \<in> set xs"
  by (induction xs) auto

lemma NodeNameInNodeList_iff: "NodeNameInNodeList n ns \<longleftrightarrow> n \<in> (meta_Name \<circ> node_meta) ` set ns"
  by (induction ns) auto

lemma deleteLoop_none:
  assumes "\<And>j. i \<le> j \<Longrightarrow> j < n \<Longrightarrow> \<not> p (arr ! j)"
  shows "deleteLoop p n i arr len = Ret (take len arr)"
  using assms
proof (induction "n - i" arbitrary: i)
  case 0
  then show ?case by (subst deleteLoop.simps) simp
next
  case (Suc m)
  then have "deleteLoop p n i arr len = deleteLoop p n (i + 1) arr len" by (subst deleteLoop.simps) simp
  also have "\<dots> = Ret (take len arr)" using Suc.hyps(2) Suc.prems by (intro Suc.hyps(1)) auto
  finally show ?case .
qed

lemma deleteLoop_skip:
  assumes "i \<le> k" "k \<le> n" "\<And>j. i \<le> j \<Longrightarrow> j < k \<Longrightarrow> \<not> p (arr ! j)"
  shows "deleteLoop p n i arr len = deleteLoop p n k arr len"
  using assms
proof (induction "k - i" arbitrary: i)
  case (Suc m)
  then have "i < n" "\<not> p (arr ! i)" by auto
  then have "deleteLoop p n i arr len = deleteLoop p n (i + 1) arr len" by (simp add: deleteLoop.simps [of p n i])
  also have "\<dots> = deleteLoop p n k arr len" using Suc.hyps(2) Suc.prems by (intro Suc.hyps(1)) auto
  finally show ?case .
qed simp

lemma deleteRanging_once:
  assumes "\<not> (\<exists>x \<in> set xs. p x)" "p y" "\<not> (\<exists>x \<in> set zs. p x)"
  shows "deleteRanging p (xs @ y # zs) = Ret (xs @ zs)"
proof -
  let ?l = "xs @ y # zs" and ?k = "length xs" and ?n = "length (xs @ y # zs)"
  let ?arr = "xs @ zs @ drop (?n - 1) ?l"
  have "deleteRanging p ?l = deleteLoop p ?n ?k ?l ?n"
    unfolding deleteRanging_def using assms(1) by (intro deleteLoop_skip) (auto simp: nth_append)
  also have "\<dots> = deleteLoop p ?n (?k + 1) ?arr (?n - 1)"
    using assms(2) by (subst deleteLoop.simps) simp
  also have "\<dots> = Ret (take (?n - 1) ?arr)"
  proof (rule deleteLoop_none)
    fix j assume j: "?k + 1 \<le> j" "j < ?n"
    show "\<not> p (?arr ! j)"
    proof (cases "j < ?n - 1")
      case True
      then have "?arr ! j = zs ! (j - ?k)" "j - ?k < length zs" using j by (auto simp: nth_append)
      then show ?thesis using assms(3) by simp
    next
      case False
      then have e: "j = ?n - 1" using j by simp
      then have "zs \<noteq> []" using j by auto
      then have "?arr ! j = last zs" using e by (simp add: nth_append last_conv_nth)
      then show ?thesis using \<open>zs \<noteq> []\<close> assms(3) by simp
    qed
  qed
  finally show ?thesis by simp
qed

lemma deleteRanging_absent: "\<not> (\<exists>x \<in> set l. p x) \<Longrightarrow> deleteRanging p l = Ret l"
  unfolding deleteRanging_def by (subst deleteLoop_none) auto

lemma deleteRanging_keyed:
  assumes "distinct (map key l)" and "\<And>x. p x \<longleftrightarrow> key x = k"
  shows "deleteRanging p l = Ret (filter (\<lambda>x. \<not> p x) l)"
proof (cases "\<exists>x \<in> set l. p x")
  case True
  then obtain xs y zs where l: "l = xs @ y # zs" "p y" "\<forall>x \<in> set xs. \<not> p x"
    using split_list_first_prop [of l p] by auto
  moreover have "\<forall>x \<in> set zs. \<not> p x" using assms l by (auto simp: image_iff)
  ultimately show ?thesis by (simp add: deleteRanging_once)
next
  case False
  then show ?thesis by (simp add: deleteRanging_absent filter_id_conv)
qed

section \<open>Laws of the stores\<close>

lemma updatePods_set:
  "distinct (map (\<lambda>g. (gp_Name g, gp_Namespace g)) l) \<Longrightarrow>
   distinct (map (\<lambda>g. (gp_Name g, gp_Namespace g)) (updatePods g l))
   \<and> set (map (\<lambda>g. (gp_Name g, gp_Namespace g)) (updatePods g l)) = insert (gp_Name g, gp_Namespace g) (set (map (\<lambda>g. (gp_Name g, gp_Namespace g)) l))"
  by (induction l) (auto simp: isPod_def)

lemma find_updatePods:
  "find (isPod n ns) (updatePods g l) = (if n = gp_Name g \<and> ns = gp_Namespace g then Some g else find (isPod n ns) l)"
  by (induction l) (auto simp: isPod_def [abs_def])

lemma podState_update:
  "GetPodFromState n ns (UpdateStateGuaranteedPods g s) = (if n = gp_Name g \<and> ns = gp_Namespace g then g else GetPodFromState n ns s)"
  by (simp add: GetPodFromState_def UpdateStateGuaranteedPods_def find_updatePods)

lemma podState_distinct:
  "distinct (map (\<lambda>g. (gp_Name g, gp_Namespace g)) (GuaranteedPods s)) \<Longrightarrow>
   distinct (map (\<lambda>g. (gp_Name g, gp_Namespace g)) (GuaranteedPods (UpdateStateGuaranteedPods g s)))"
  using updatePods_set by (simp add: UpdateStateGuaranteedPods_def)

lemma podState_delete:
  assumes "distinct (map (\<lambda>g. (gp_Name g, gp_Namespace g)) (GuaranteedPods s))"
  shows "\<exists>s'. DeletePodFromState m ms s = (Ret (), s') \<and> GuaranteedPods s' = filter (\<lambda>g. \<not> isPod m ms g) (GuaranteedPods s)
    \<and> distinct (map (\<lambda>g. (gp_Name g, gp_Namespace g)) (GuaranteedPods s'))"
  using deleteRanging_keyed [OF assms, of "isPod m ms" "(m, ms)"] assms
  by (simp add: DeletePodFromState_def isPod_def distinct_map_filter)

lemma find_delete:
  "find (isPod n ns) (filter (\<lambda>g. \<not> isPod m ms g) l) = (if n = m \<and> ns = ms then None else find (isPod n ns) l)"
  by (induction l) (auto simp: isPod_def [abs_def])

lemma powerNodeData_laws:
  assumes "distinct (PowerNodeList nd)"
  shows "set (PowerNodeList (UpdatePowerNodeData x nd)) = insert x (set (PowerNodeList nd)) \<and> distinct (PowerNodeList (UpdatePowerNodeData x nd))
    \<and> (\<exists>nd'. DeletePowerNodeData x nd = (Ret (), nd') \<and> set (PowerNodeList nd') = set (PowerNodeList nd) - {x} \<and> distinct (PowerNodeList nd'))"
  using assms deleteRanging_keyed [of id "PowerNodeList nd" "\<lambda>n. n = x" x]
  by (auto simp: UpdatePowerNodeData_def DeletePowerNodeData_def list_ex_iff)

section \<open>Properties\<close>

text \<open>
  The lists of pods and of nodes behave as finite maps.  If no pod is listed twice, updating a pod makes it the one found
  under its name and namespace and changes no other; deleting a pod returns, removes it and changes no
  other; and no pod is listed twice afterwards.  The list of node names behaves as a set.
\<close>

theorem stores_are_maps:
  assumes "distinct (map (\<lambda>g. (gp_Name g, gp_Namespace g)) (GuaranteedPods s))" and "distinct (PowerNodeList nd)"
  shows "GetPodFromState n ns (UpdateStateGuaranteedPods g s) = (if n = gp_Name g \<and> ns = gp_Namespace g then g else GetPodFromState n ns s)
     \<and> distinct (map (\<lambda>g. (gp_Name g, gp_Namespace g)) (GuaranteedPods (UpdateStateGuaranteedPods g s)))
     \<and> (\<exists>s'. DeletePodFromState m ms s = (Ret (), s') \<and> distinct (map (\<lambda>g. (gp_Name g, gp_Namespace g)) (GuaranteedPods s'))
          \<and> GetPodFromState n ns s' = (if n = m \<and> ns = ms then noPod else GetPodFromState n ns s))
     \<and> set (PowerNodeList (UpdatePowerNodeData x nd)) = insert x (set (PowerNodeList nd)) \<and> distinct (PowerNodeList (UpdatePowerNodeData x nd))
     \<and> (\<exists>nd'. DeletePowerNodeData x nd = (Ret (), nd') \<and> set (PowerNodeList nd') = set (PowerNodeList nd) - {x} \<and> distinct (PowerNodeList nd'))"
  using podState_update [of n ns g s] podState_distinct [OF assms(1), of g] podState_delete [OF assms(1), of m ms] find_delete [of n ns m ms]
    powerNodeData_laws [OF assms(2), of x]
  by (auto simp: GetPodFromState_def)

definition samplePod :: "string \<Rightarrow> GuaranteedPod" where
  "samplePod n = noPod\<lparr>gp_Name := n, gp_Namespace := ''default''\<rparr>"

theorem stores_are_maps_witness:
  "GetPodFromState ''b'' ''default'' (UpdateStateGuaranteedPods (samplePod ''b'') \<lparr>GuaranteedPods = [samplePod ''a'']\<rparr>) = samplePod ''b''
   \<and> (\<exists>nd'. DeletePowerNodeData ''n2'' \<lparr>PowerNodeList = [''n1'', ''n2'']\<rparr> = (Ret (), nd') \<and> set (PowerNodeList nd') = {''n1''})"
proof -
  have d: "distinct (map (\<lambda>g. (gp_Name g, gp_Namespace g)) (GuaranteedPods \<lparr>GuaranteedPods = [samplePod ''a'']\<rparr>))"
    "distinct (PowerNodeList \<lparr>PowerNodeList = [''n1'', ''n2'']\<rparr>)" by simp_all
  from stores_are_maps [OF d, of "''b''" "''default''" "samplePod ''b''" "''a''" "''default''" "''n2''"]
  show ?thesis by (auto simp: samplePod_def)
qed

end
