(* ===== verification/Pod_Resources.thy ===== *)
theory Pod_Resources
  imports API Cpuset
begin

text \<open>
  CPU lists as text and the kubelet's answers: \<^verbatim>\<open>pkg/podresourcesclient\<close>, \<^verbatim>\<open>prettifyCoreList\<close> of
  \<^verbatim>\<open>controllers/common.go\<close> and \<^verbatim>\<open>getCleanCoreList\<close> of \<^verbatim>\<open>controllers/powerpod_controller.go\<close>.  The two printers
  of CPU lists in the project (this one and the one of \<^verbatim>\<open>pkg/cpuset\<close>) and the two parsers agree:
  what the pod controller reads is the sorted list of the CPUs the kubelet reports.
\<close>

section \<open>Printing and reading core lists\<close>

text \<open>The inner loop: the last index of a run of consecutive numbers.\<close>

function runEnd :: "nat list \<Rightarrow> nat \<Rightarrow> nat" where
  "runEnd cores e =
     (if e < length cores - 1 then (if cores ! (e + 1) - cores ! e = 1 then runEnd cores (e + 1) else e) else e)"
  by auto
termination by (relation "measure (\<lambda>(s, e). length s - e)") auto

declare runEnd.simps [simp del]

lemma runEnd_ge: "i \<le> runEnd xs i"
proof (induction xs i rule: runEnd.induct)
  case (1 xs i)
  show ?case using 1 by (subst runEnd.simps) (auto dest: Suc_leD)
qed

function prettifyFrom :: "nat list \<Rightarrow> nat \<Rightarrow> string" where
  "prettifyFrom cores i =
     (if i < length cores then
        (let e = runEnd cores i in
         (if e - i > 0 then Itoa (int (cores ! i)) @ ''-'' @ Itoa (int (cores ! e)) else Itoa (int (cores ! i)))
         @ (if e < length cores - 1 then '','' else '''') @ prettifyFrom cores (e + 1))
      else '''')"
  by auto
termination by (relation "measure (\<lambda>(s, i). length s - i)") (auto simp: less_Suc_eq_le runEnd_ge intro!: diff_less_mono2)

declare prettifyFrom.simps [simp del]

definition prettifyCoreList :: "nat list \<Rightarrow> string" where
  "prettifyCoreList cores = prettifyFrom (sort cores) 0"

text \<open>\<^verbatim>\<open>for i := startCore; i <= endCore; i++\<close>, with the wrap-around of \<^verbatim>\<open>i++\<close>.\<close>

partial_function (option) coreRange :: "int \<Rightarrow> int \<Rightarrow> nat list \<Rightarrow> nat list option" where
  "coreRange i endCore cleanCores =
     (if i \<le> endCore then coreRange (to_int64 (i + 1)) endCore (cleanCores @ [nat (to_uint64 i)]) else Some cleanCores)"

primrec cleanParts :: "string list \<Rightarrow> nat list \<Rightarrow> nat list option" where
  "cleanParts [] cleanCores = Some cleanCores"
| "cleanParts (splitCore # rest) cleanCores =
     (let hyphenSeparated = Split (CHR ''-'') splitCore in
      if length hyphenSeparated = 1
      then (case ParseUint10 32 (hd hyphenSeparated) of
              None \<Rightarrow> Some []
            | Some intCore \<Rightarrow> cleanParts rest (cleanCores @ [intCore]))
      else (case Atoi (hd hyphenSeparated) of
              None \<Rightarrow> Some []
            | Some startCore \<Rightarrow> (case Atoi (last hyphenSeparated) of
                None \<Rightarrow> Some []
              | Some endCore \<Rightarrow> (case coreRange startCore endCore cleanCores of
                  None \<Rightarrow> None
                | Some cleanCores' \<Rightarrow> cleanParts rest cleanCores'))))"

definition getCleanCoreList :: "string \<Rightarrow> nat list option" where
  "getCleanCoreList coreIDs = cleanParts (Split (CHR '','') coreIDs) []"

section \<open>The kubelet's pod resources\<close>

record ContainerResources =
  cr_Name :: string
  cr_CpuIds :: "int list"

record PodResources =
  pr_Name :: string
  pr_Containers :: "ContainerResources list"

text \<open>
  The gRPC clients are parameters; a call that fails returns no response (Go's nil).  The control
  plane's client may be missing.
\<close>

type_synonym 'k lister = "(PodResources list, 'k) action"

record 'k PodResourcesClient =
  Client :: "'k lister"
  CPUControlPlaneClient :: "'k lister option"

abbreviation "cPlaneRetries \<equiv> 3 :: nat"

abbreviation "nilDereference \<equiv> ''runtime error: invalid memory address or nil pointer dereference''"

text \<open>
  Construction of the clients; what gRPC returns for a socket is a parameter.  A client that is not created is nil, and the
  control plane's is read before its error is looked at.
\<close>

abbreviation "socket \<equiv> ''unix:///var/lib/kubelet/pod-resources/kubelet.sock''"
abbreviation "cPlaneSocket \<equiv> ''unix:///var/lib/kubelet/pod-resources/cci-dra-driver-podrsc.sock''"

definition getV1Client :: "(string \<Rightarrow> gerr + 'k lister) \<Rightarrow> string \<Rightarrow> gerr + 'k lister" where
  "getV1Client dial sock = (case dial sock of
      Inl err \<Rightarrow> Inl (Wrap (''error creating client for socket '' @ sock) err)
    | Inr conn \<Rightarrow> Inr conn)"

definition newClient :: "(string \<Rightarrow> gerr + 'k lister) \<Rightarrow> string \<Rightarrow> gerr + 'k PodResourcesClient" where
  "newClient dial sock = (case getV1Client dial sock of
      Inl err \<Rightarrow> Inl (Unavailable (''failed to create podresources client: '' @ ErrorText err))
    | Inr client \<Rightarrow> Inr \<lparr>Client = client, CPUControlPlaneClient = None\<rparr>)"

definition NewPodResourcesClient :: "(string \<Rightarrow> gerr + 'k lister) \<Rightarrow> gerr + 'k PodResourcesClient" where
  "NewPodResourcesClient dial = newClient dial socket"

definition NewControlPlaneClient :: "(string \<Rightarrow> gerr + 'k lister) \<Rightarrow> gerr + 'k PodResourcesClient" where
  "NewControlPlaneClient dial = newClient dial cPlaneSocket"

definition NewDualSocketPodClient :: "(string \<Rightarrow> gerr + 'k lister) \<Rightarrow> 'k PodResourcesClient gores" where
  "NewDualSocketPodClient dial = (case NewPodResourcesClient dial of
      Inl err \<Rightarrow> Fail err
    | Inr client \<Rightarrow> (case NewControlPlaneClient dial of
        Inl _ \<Rightarrow> Panic nilDereference
      | Inr cPlane \<Rightarrow> Ret (client\<lparr>CPUControlPlaneClient := Some (Client cPlane)\<rparr>)))"

definition cpuIDsToString :: "int list \<Rightarrow> string" where
  "cpuIDsToString cpuIDs = CPUSet_String (NewCPUSet cpuIDs)"

fun parseContainers :: "PodResources list \<Rightarrow> string \<Rightarrow> string \<Rightarrow> gerr + string" where
  "parseContainers [] podName containerName =
     Inl (Unavailable (''resources for Pod:'' @ podName @ '' Container:'' @ containerName @ '' not found''))"
| "parseContainers (r # rs) podName containerName =
     (if pr_Name r = podName
      then (case find (\<lambda>c. cr_Name c = containerName) (pr_Containers r) of
              Some c \<Rightarrow> Inr (cpuIDsToString (cr_CpuIds c))
            | None \<Rightarrow> parseContainers rs podName containerName)
      else parseContainers rs podName containerName)"

definition listResources :: "'k PodResourcesClient \<Rightarrow> bool \<Rightarrow> (PodResources list option, 'k) action" where
  "listResources p controlPlaneClient k =
     (case (if controlPlaneClient then CPUControlPlaneClient p else None) of
        Some client \<Rightarrow> andThen (attempt (client k)) (\<lambda>r k1. (Ret (case r of Inr resp \<Rightarrow> Some resp | Inl _ \<Rightarrow> None), k1))
      | None \<Rightarrow> andThen (wrapErr ''can't receive response from default client'' (Client p k)) (\<lambda>resp k1. (Ret (Some resp), k1)))"

text \<open>
  The retry loop, with the number of turns left and the last result.  The field of a missing
  response is read as well.
\<close>

primrec retryControlPlane ::
    "nat \<Rightarrow> 'k PodResourcesClient \<Rightarrow> string \<Rightarrow> string \<Rightarrow> gerr + string \<Rightarrow> (string, 'k) action" where
  "retryControlPlane 0 p podName containerName res k =
     ((case res of Inl err \<Rightarrow> Fail err | Inr cpuSetString \<Rightarrow> Ret cpuSetString), k)"
| "retryControlPlane (Suc n) p podName containerName res k =
     andThen (listResources p True k) (\<lambda>resp k1. (case resp of
        None \<Rightarrow> (Panic nilDereference, k1)
      | Some resources \<Rightarrow> (case parseContainers resources podName containerName of
          Inr cpuSetString \<Rightarrow> (if cpuSetString \<noteq> '''' then (Ret cpuSetString, k1)
                              else retryControlPlane n p podName containerName (Inr cpuSetString) k1)
        | Inl err \<Rightarrow> retryControlPlane n p podName containerName (Inl err) k1)))"

definition GetContainerCPUs :: "'k PodResourcesClient \<Rightarrow> string \<Rightarrow> string \<Rightarrow> (string, 'k) action" where
  "GetContainerCPUs p podName containerName k =
     andThen (listResources p False k) (\<lambda>resp k1. (case resp of
        None \<Rightarrow> (Panic nilDereference, k1)
      | Some resources \<Rightarrow> (case parseContainers resources podName containerName of
          Inl err \<Rightarrow> (Fail err, k1)
        | Inr cpuSetString \<Rightarrow> (if cpuSetString = ''''
            then retryControlPlane cPlaneRetries p podName containerName (Inr cpuSetString) k1
            else (Ret cpuSetString, k1)))))"

section \<open>Runs of consecutive numbers\<close>

lemma runEnd_less: "i < length xs \<Longrightarrow> runEnd xs i < length xs"
proof (induction xs i rule: runEnd.induct)
  case (1 xs i)
  show ?case using 1 by (subst runEnd.simps) auto
qed

lemma runEnd_run:
  "i \<le> j \<Longrightarrow> j \<le> runEnd xs i \<Longrightarrow> xs ! j = xs ! i + (j - i)"
proof (induction xs i arbitrary: j rule: runEnd.induct)
  case (1 xs i)
  show ?case
  proof (cases "j = i")
    case False
    with 1(2,3) have c: "i < length xs - 1" "xs ! (i + 1) - xs ! i = 1"
      by (simp_all add: runEnd.simps [of xs i] split: if_splits)
    then have "runEnd xs i = runEnd xs (i + 1)" by (subst runEnd.simps) simp
    with 1(1) [OF c, of j] 1(2,3) False c(2) show ?thesis by simp
  qed simp
qed

lemma run_expand:
  assumes "i < length xs"
  shows "[int (xs ! i)..int (xs ! runEnd xs i)] = map int (take (Suc (runEnd xs i) - i) (drop i xs))"
proof (rule nth_equalityI)
  have e: "xs ! runEnd xs i = xs ! i + (runEnd xs i - i)" using runEnd_run runEnd_ge by blast
  have l: "runEnd xs i < length xs" by (rule runEnd_less [OF assms])
  show len: "length [int (xs ! i)..int (xs ! runEnd xs i)] = length (map int (take (Suc (runEnd xs i) - i) (drop i xs)))"
    using e l runEnd_ge [of i xs] by auto
  fix j assume "j < length [int (xs ! i)..int (xs ! runEnd xs i)]"
  then have "j \<le> runEnd xs i - i" using e by auto
  then show "[int (xs ! i)..int (xs ! runEnd xs i)] ! j = map int (take (Suc (runEnd xs i) - i) (drop i xs)) ! j"
    using runEnd_run [of i "i + j" xs] e l runEnd_ge [of i xs] by (auto simp: nth_upto)
qed

text \<open>The runs from an index on, which both printers print.\<close>

function rangesFrom :: "nat list \<Rightarrow> nat \<Rightarrow> rng list" where
  "rangesFrom xs i = (if i < length xs then (int (xs ! i), int (xs ! runEnd xs i)) # rangesFrom xs (Suc (runEnd xs i)) else [])"
  by auto
termination by (relation "measure (\<lambda>(s, i). length s - i)") (auto simp: less_Suc_eq_le runEnd_ge intro!: diff_less_mono2)

declare rangesFrom.simps [simp del]

lemma runEnd_last: "i < length xs \<Longrightarrow> xs ! runEnd xs i = xs ! i + (runEnd xs i - i)"
  using runEnd_run runEnd_ge by blast

lemma prettifyFrom_ranges: "prettifyFrom xs i = Join '','' (map rngString (rangesFrom xs i))"
proof (induction xs i rule: prettifyFrom.induct)
  case (1 xs i)
  show ?case
  proof (cases "i < length xs")
    case True
    let ?e = "runEnd xs i"
    have "prettifyFrom xs i = rngString (int (xs ! i), int (xs ! ?e)) @ (if ?e < length xs - 1 then '','' else '''') @ prettifyFrom xs (?e + 1)"
      using True runEnd_last [OF True] runEnd_ge [of i xs] by (subst prettifyFrom.simps) (auto simp: rngString_def Let_def)
    then show ?thesis
      using 1(1) [OF True refl] True runEnd_less [OF True]
      by (cases "rangesFrom xs (?e + 1)") (auto simp: rangesFrom.simps [of xs i] rangesFrom.simps [of xs "Suc ?e"] split: if_splits)
  qed (simp add: prettifyFrom.simps rangesFrom.simps)
qed

lemma rangesFrom_expand: "concat (map expand (rangesFrom xs i)) = map int (drop i xs)"
proof (induction xs i rule: rangesFrom.induct)
  case (1 xs i)
  show ?case
  proof (cases "i < length xs")
    case True
    let ?e = "runEnd xs i"
    have "drop i xs = take (Suc ?e - i) (drop i xs) @ drop (Suc ?e) xs"
      using append_take_drop_id [of "Suc ?e - i" "drop i xs"] runEnd_ge [of i xs] by simp
    then have "map int (drop i xs) = expand (int (xs ! i), int (xs ! ?e)) @ map int (drop (Suc ?e) xs)"
      using run_expand [OF True] by (metis expand_def fst_conv map_append snd_conv)
    with 1(1) [OF True] True show ?thesis by (simp add: rangesFrom.simps [of xs i])
  next
    case False
    then have "rangesFrom xs i = []" by (subst rangesFrom.simps) simp
    with False show ?thesis by simp
  qed
qed

lemma rangesFrom_bounds:
  "r \<in> set (rangesFrom xs i) \<Longrightarrow> 0 \<le> fst r \<and> fst r \<le> snd r \<and> snd r \<in> int ` set xs"
proof (induction xs i rule: rangesFrom.induct)
  case (1 xs i)
  show ?case
  proof (cases "i < length xs")
    case True
    have "xs ! runEnd xs i \<in> set xs" "xs ! i \<le> xs ! runEnd xs i"
      using nth_mem [OF runEnd_less [OF True]] runEnd_last [OF True] by simp_all
    with 1 True show ?thesis by (auto simp: rangesFrom.simps [of xs i])
  next
    case False
    then have "rangesFrom xs i = []" by (subst rangesFrom.simps) simp
    with 1(2) show ?thesis by simp
  qed
qed

section \<open>The two printers agree\<close>

lemma rangesStep_run:
  assumes "i < length xs" "\<forall>x \<in> set xs. x < 2 ^ 63 - 1"
  shows "foldl rangesStep (ps @ [(a, int (xs ! i))]) (map int (drop (Suc i) xs))
    = foldl rangesStep (ps @ [(a, int (xs ! runEnd xs i))]) (map int (drop (Suc (runEnd xs i)) xs))"
  using assms
proof (induction xs i rule: runEnd.induct)
  case (1 xs i)
  show ?case
  proof (cases "i < length xs - 1 \<and> xs ! (i + 1) - xs ! i = 1")
    case True
    then have e: "runEnd xs i = runEnd xs (i + 1)" by (subst runEnd.simps) simp
    have "drop (Suc i) xs = xs ! Suc i # drop (Suc (Suc i)) xs" using True by (intro Cons_nth_drop_Suc [symmetric]) auto
    moreover have "int (xs ! Suc i) = to_int64 (int (xs ! i) + 1)"
    proof -
      have "xs ! Suc i = Suc (xs ! i)" using True by auto
      moreover have "xs ! Suc i \<in> set xs" using True by (intro nth_mem) auto
      then have "xs ! Suc i < 2 ^ 63 - 1" using 1(3) by blast
      ultimately show ?thesis by simp
    qed
    moreover have "i + 1 < length xs" using True by auto
    ultimately show ?thesis using 1(1) True 1(3) e by (simp add: rangesStep_def Let_def)
  next
    case False
    then have "runEnd xs i = i" by (subst runEnd.simps) simp
    then show ?thesis by simp
  qed
qed

lemma runEnd_stops:
  "i < length xs \<Longrightarrow> Suc (runEnd xs i) < length xs \<Longrightarrow> xs ! Suc (runEnd xs i) - xs ! runEnd xs i \<noteq> 1"
proof (induction xs i rule: runEnd.induct)
  case (1 xs i)
  show ?case
  proof (cases "i < length xs - 1 \<and> xs ! (i + 1) - xs ! i = 1")
    case True
    then have e: "runEnd xs i = runEnd xs (i + 1)" by (subst runEnd.simps) simp
    have "i + 1 < length xs" using True by auto
    with 1(1) True 1(3) show ?thesis unfolding e by simp
  next
    case False
    then have "runEnd xs i = i" by (subst runEnd.simps) simp
    then show ?thesis using False 1(2,3) by simp
  qed
qed

lemma rangesStep_rangesFrom:
  assumes "i < length xs" "sorted xs" "distinct xs" "\<forall>x \<in> set xs. x < 2 ^ 63 - 1"
  shows "foldl rangesStep (ps @ [(int (xs ! i), int (xs ! i))]) (map int (drop (Suc i) xs)) = ps @ rangesFrom xs i"
  using assms
proof (induction xs i arbitrary: ps rule: rangesFrom.induct)
  case (1 xs i)
  let ?e = "runEnd xs i"
  show ?case
  proof (cases "Suc ?e < length xs")
    case True
    have d: "drop (Suc ?e) xs = xs ! Suc ?e # drop (Suc (Suc ?e)) xs" using True by (intro Cons_nth_drop_Suc [symmetric]) simp
    have "xs ! ?e < xs ! Suc ?e"
      using True 1(3,4) by (simp add: sorted_iff_nth_mono nth_eq_iff_index_eq order_less_le)
    with runEnd_stops [OF 1(2) True] have n: "xs ! Suc ?e \<noteq> Suc (xs ! ?e)" by simp
    have "xs ! ?e \<in> set xs" using True by simp
    then have "xs ! ?e < 2 ^ 63 - 1" using 1(5) by blast
    with n have "int (xs ! Suc ?e) \<noteq> to_int64 (int (xs ! ?e) + 1)" by simp
    then have "rangesStep (ps @ [(int (xs ! i), int (xs ! ?e))]) (int (xs ! Suc ?e))
        = (ps @ [(int (xs ! i), int (xs ! ?e))]) @ [(int (xs ! Suc ?e), int (xs ! Suc ?e))]"
      by (simp add: rangesStep_def Let_def)
    then show ?thesis
      using rangesStep_run [OF 1(2,5), of ps "int (xs ! i)"] 1(1) [OF 1(2) True 1(3,4,5), of "ps @ [(int (xs ! i), int (xs ! ?e))]"] 1(2)
      by (simp add: d rangesFrom.simps [of xs i])
  next
    case False
    then show ?thesis
      using rangesStep_run [OF 1(2,5), of ps "int (xs ! i)"] 1(2)
      by (simp add: rangesFrom.simps [of xs i] rangesFrom.simps [of xs "Suc ?e"])
  qed
qed

lemma ToSlice_ids:
  "CPUSet_ToSlice (NewCPUSet (map int cores)) = map int (sorted_list_of_set (set cores))"
proof -
  have "sorted_list_of_set (int ` set cores) = map int (sorted_list_of_set (set cores))"
    by (intro sorted_list_of_set_unique [THEN iffD1]) (auto simp: sorted_map strict_sorted_iff distinct_map card_image)
  then show ?thesis by (simp add: CPUSet_ToSlice_spec NewCPUSet_spec)
qed

lemma cpuIDsToString_ranges:
  assumes "\<forall>c \<in> set cores. c < 2 ^ 63 - 1"
  shows "cpuIDsToString (map int cores) = Join '','' (map rngString (rangesFrom (sorted_list_of_set (set cores)) 0))"
proof (cases "cores = []")
  case True
  then show ?thesis
    by (simp add: cpuIDsToString_def CPUSet_String_def CPUSet_IsEmpty_spec NewCPUSet_spec rangesFrom.simps)
next
  case False
  let ?s = "NewCPUSet (map int cores)"
  let ?xs = "sorted_list_of_set (set cores)"
  have ne: "?xs \<noteq> []" using False by simp
  then obtain x t where xs: "?xs = x # t" by (cases ?xs) auto
  have r: "foldl rangesStep [(int x, int x)] (map int t) = rangesFrom ?xs 0"
  proof -
    have "0 < length ?xs" using xs by simp
    then have "foldl rangesStep ([] @ [(int (?xs ! 0), int (?xs ! 0))]) (map int (drop (Suc 0) ?xs)) = [] @ rangesFrom ?xs 0"
      by (rule rangesStep_rangesFrom) (use assms in simp_all)
    then show ?thesis by (simp add: xs)
  qed
  have "rngString p \<noteq> [] \<and> last (rngString p) \<noteq> CHR '',''" if "p \<in> set (rangesFrom ?xs 0)" for p
    using rngString_chars [of p] rangesFrom_bounds [OF that] last_in_set by fastforce
  then have "TrimRight (concat (map (\<lambda>w. w @ [CHR '','']) (map rngString (rangesFrom ?xs 0)))) (CHR '','')
      = Join '','' (map rngString (rangesFrom ?xs 0))"
    using ne by (intro TrimRight_joined) (auto simp: rangesFrom.simps [of ?xs 0])
  then show ?thesis
    using False xs r by (simp add: cpuIDsToString_def CPUSet_String_def CPUSet_IsEmpty_spec NewCPUSet_spec(2) ToSlice_ids Let_def comp_def)
qed

section \<open>Reading gives back the cores\<close>

lemma coreRange_upto:
  assumes "0 \<le> lo" "hi < 2 ^ 63 - 1"
  shows "coreRange lo hi acc = Some (acc @ map nat [lo..hi])"
  using assms
proof (induction "nat (hi + 1 - lo)" arbitrary: lo acc)
  case 0
  then show ?case by (subst coreRange.simps) simp
next
  case (Suc n)
  then have "lo \<le> hi" by simp
  moreover from this Suc have "to_int64 (lo + 1) = lo + 1" "to_uint64 lo = lo" by (simp_all add: to_uint64_def)
  moreover have "coreRange (lo + 1) hi (acc @ [nat lo]) = Some ((acc @ [nat lo]) @ map nat [lo + 1..hi])"
    using Suc.prems Suc.hyps(2) by (intro Suc.hyps(1)) auto
  ultimately show ?case by (subst coreRange.simps) (simp add: upto_rec1)
qed

lemma cleanParts_rngs:
  assumes "\<forall>r \<in> set rs. 0 \<le> fst r \<and> fst r \<le> snd r \<and> snd r < 2 ^ 32"
  shows "cleanParts (map rngString rs) acc = Some (acc @ map nat (concat (map expand rs)))"
  using assms
proof (induction rs arbitrary: acc)
  case (Cons r rs)
  have r: "0 \<le> fst r" "0 \<le> snd r" "fst r \<le> snd r" "snd r < 2 ^ 32" using Cons.prems by auto
  have free: "CHR ''-'' \<notin> set (Itoa (fst r))" "CHR ''-'' \<notin> set (Itoa (snd r))"
    using r digits_no_sep by (auto simp: Itoa_nonneg)
  have at: "Atoi (Itoa (fst r)) = Some (fst r)" "Atoi (Itoa (snd r)) = Some (snd r)"
    using r by (auto intro: Atoi_Itoa)
  show ?case
  proof (cases "fst r = snd r")
    case True
    moreover have "ParseUint10 32 (Itoa (snd r)) = Some (nat (snd r))"
      using r by (simp add: Itoa_nonneg ParseUint10_digits nat_less_iff)
    ultimately show ?thesis using free Cons by (simp add: rngString_def Split_free expand_def)
  next
    case False
    then have "Split (CHR ''-'') (rngString r) = [Itoa (fst r), Itoa (snd r)]"
      using free by (simp add: rngString_def Split_append Split_free)
    then show ?thesis using at r Cons by (simp add: coreRange_upto expand_def)
  qed
qed simp

lemma getCleanCoreList_ranges:
  assumes "\<forall>x \<in> set xs. x < 2 ^ 32"
  shows "getCleanCoreList (Join '','' (map rngString (rangesFrom xs 0))) = Some xs"
proof (cases "xs = []")
  case True
  then show ?thesis by (simp add: rangesFrom.simps getCleanCoreList_def)
next
  case False
  have b: "0 \<le> fst r \<and> fst r \<le> snd r \<and> snd r < 2 ^ 32" if "r \<in> set (rangesFrom xs 0)" for r
    using rangesFrom_bounds [OF that] assms by auto
  have "Split (CHR '','') (Join '','' (map rngString (rangesFrom xs 0))) = map rngString (rangesFrom xs 0)"
  proof (rule Split_Join)
    show "map rngString (rangesFrom xs 0) \<noteq> []" using False by (simp add: rangesFrom.simps [of xs 0])
    show "\<forall>w \<in> set (map rngString (rangesFrom xs 0)). CHR '','' \<notin> set w"
      using b rngString_chars(2) by fastforce
  qed
  moreover have "map nat (concat (map expand (rangesFrom xs 0))) = xs"
    by (simp add: rangesFrom_expand comp_def)
  ultimately show ?thesis using cleanParts_rngs [of "rangesFrom xs 0" "[]"] b by (simp add: getCleanCoreList_def)
qed

lemma getCleanCoreList_ids:
  assumes "\<forall>c \<in> set cores. c < 2 ^ 32"
  shows "getCleanCoreList (cpuIDsToString (map int cores)) = Some (sorted_list_of_set (set cores))"
proof -
  have "\<forall>c \<in> set cores. c < 2 ^ 63 - 1" using assms by auto
  with getCleanCoreList_ranges [of "sorted_list_of_set (set cores)"] assms show ?thesis by (simp add: cpuIDsToString_ranges)
qed

text \<open>The entries of the kubelet's answer for a container of a pod; the code takes the first.\<close>

definition matching :: "PodResources list \<Rightarrow> string \<Rightarrow> string \<Rightarrow> ContainerResources list" where
  "matching rs podName containerName =
     concat (map (\<lambda>r. if pr_Name r = podName then filter (\<lambda>c. cr_Name c = containerName) (pr_Containers r) else []) rs)"

lemma find_filter: "find p xs = (case filter p xs of [] \<Rightarrow> None | x # _ \<Rightarrow> Some x)"
  by (induction xs) auto

lemma parseContainers_first:
  "parseContainers rs pod ctr = (case matching rs pod ctr of
      [] \<Rightarrow> Inl (Unavailable (''resources for Pod:'' @ pod @ '' Container:'' @ ctr @ '' not found''))
    | c # _ \<Rightarrow> Inr (cpuIDsToString (cr_CpuIds c)))"
proof (induction rs)
  case (Cons r rs)
  have "matching (r # rs) pod ctr = (if pr_Name r = pod then filter (\<lambda>c. cr_Name c = ctr) (pr_Containers r) else []) @ matching rs pod ctr"
    by (simp add: matching_def)
  with Cons.IH show ?case by (simp add: find_filter split: list.split)
qed (simp add: matching_def)

section \<open>Properties\<close>

text \<open>
  C23.  The two printers and the reader of CPU lists agree: for CPU numbers below \<open>2 ^ 32\<close>, reading what
  \<^verbatim>\<open>prettifyCoreList\<close> prints returns, and gives the sorted list; a list without repetitions is printed as
  \<^verbatim>\<open>cpuset\<close> prints it; and reading what \<^verbatim>\<open>cpuset\<close> prints gives every CPU once, in ascending order.
\<close>

theorem core_lists_agree:
  assumes "\<forall>c \<in> set cores. c < 2 ^ 32"
  shows "getCleanCoreList (prettifyCoreList cores) = Some (sort cores)
     \<and> (distinct cores \<longrightarrow> prettifyCoreList cores = cpuIDsToString (map int cores))
     \<and> getCleanCoreList (cpuIDsToString (map int cores)) = Some (sorted_list_of_set (set cores))"
proof -
  have b: "\<forall>c \<in> set cores. c < 2 ^ 63 - 1" using assms by auto
  show ?thesis
    using getCleanCoreList_ranges [of "sort cores"] getCleanCoreList_ids [OF assms] assms
    by (simp add: prettifyCoreList_def prettifyFrom_ranges cpuIDsToString_ranges [OF b] sorted_list_of_set_sort_remdups distinct_remdups_id)
qed

theorem core_lists_agree_witness:
  "getCleanCoreList (prettifyCoreList [7, 2, 0, 1, 5]) = Some [0, 1, 2, 5, 7]
     \<and> prettifyCoreList [7, 2, 0, 1, 5] = cpuIDsToString [7, 2, 0, 1, 5]"
proof -
  have "\<forall>c \<in> set [7, 2, 0, 1, 5 :: nat]. c < 2 ^ 32" by simp
  from core_lists_agree [OF this] show ?thesis by simp
qed

text \<open>The clients are not created, and the agent panics, when only the control plane's cannot be created.\<close>

lemma NewDualSocketPodClient_panics:
  "NewDualSocketPodClient dial = Panic m \<longleftrightarrow> m = nilDereference \<and> (\<exists>cl. dial socket = Inr cl) \<and> (\<exists>err. dial cPlaneSocket = Inl err)"
  by (auto simp: NewDualSocketPodClient_def NewPodResourcesClient_def NewControlPlaneClient_def newClient_def getV1Client_def split: sum.splits)

text \<open>
  What the pod controller learns of a container's CPUs when the kubelet answers.  A container that is not listed is
  an error.  CPUs that are listed are returned as text which the controller reads as the
  ascending list of exactly these CPUs.  But a container listed without CPUs sends the code to the
  control plane's socket, and if that does not answer, the code reads a field of the missing response and panics.
\<close>

theorem GetContainerCPUs_outcome:
  assumes "Client p k = (Ret rs, k1)"
  shows "(matching rs pod ctr = [] \<longrightarrow> (\<exists>m. GetContainerCPUs p pod ctr k = (Fail (Unavailable m), k1)))
     \<and> (\<forall>c cs ids. matching rs pod ctr = c # cs \<and> cr_CpuIds c = map int ids \<and> (\<forall>i \<in> set ids. i < 2 ^ 32) \<longrightarrow>
         (ids \<noteq> [] \<longrightarrow> (\<exists>s. GetContainerCPUs p pod ctr k = (Ret s, k1) \<and> getCleanCoreList s = Some (sorted_list_of_set (set ids))))
       \<and> (ids = [] \<longrightarrow> (\<forall>cp e k2. CPUControlPlaneClient p = Some cp \<and> cp k1 = (Fail e, k2) \<longrightarrow>
           GetContainerCPUs p pod ctr k = (Panic nilDereference, k2))))"
proof -
  have l: "GetContainerCPUs p pod ctr k = (case parseContainers rs pod ctr of Inl err \<Rightarrow> (Fail err, k1)
      | Inr s \<Rightarrow> (if s = '''' then retryControlPlane cPlaneRetries p pod ctr (Inr s) k1 else (Ret s, k1)))"
    by (simp add: GetContainerCPUs_def listResources_def assms split: sum.splits)
  have e: "cpuIDsToString [] = ''''"
    using cpuIDsToString_ranges [of "[]"] by (simp add: rangesFrom.simps)
  show ?thesis
  proof (intro conjI allI impI)
    assume "matching rs pod ctr = []"
    then show "\<exists>m. GetContainerCPUs p pod ctr k = (Fail (Unavailable m), k1)" by (simp add: l parseContainers_first)
  next
    fix c cs ids
    assume m: "matching rs pod ctr = c # cs \<and> cr_CpuIds c = map int ids \<and> (\<forall>i \<in> set ids. i < 2 ^ 32)" and "ids \<noteq> []"
    then have r: "getCleanCoreList (cpuIDsToString (map int ids)) = Some (sorted_list_of_set (set ids))"
      by (intro getCleanCoreList_ids) simp
    moreover have "sorted_list_of_set (set ids) \<noteq> []" using \<open>ids \<noteq> []\<close> by simp
    moreover have "getCleanCoreList '''' = Some []" by (simp add: getCleanCoreList_def)
    ultimately have "cpuIDsToString (map int ids) \<noteq> ''''" by (metis option.inject)
    with m r show "\<exists>s. GetContainerCPUs p pod ctr k = (Ret s, k1) \<and> getCleanCoreList s = Some (sorted_list_of_set (set ids))"
      by (simp add: l parseContainers_first)
  next
    fix c cs ids cp er k2
    assume m: "matching rs pod ctr = c # cs \<and> cr_CpuIds c = map int ids \<and> (\<forall>i \<in> set ids. i < 2 ^ 32)"
      and "ids = []" and cp: "CPUControlPlaneClient p = Some cp \<and> cp k1 = (Fail er, k2)"
    then show "GetContainerCPUs p pod ctr k = (Panic nilDereference, k2)"
      by (simp add: l parseContainers_first e listResources_def numeral_3_eq_3)
  qed
qed

definition kubelet :: "(string \<times> int list) list \<Rightarrow> unit PodResourcesClient" where
  "kubelet ctrs = \<lparr>Client = \<lambda>_. (Ret [\<lparr>pr_Name = ''pod'', pr_Containers = map (\<lambda>(n, ids). \<lparr>cr_Name = n, cr_CpuIds = ids\<rparr>) ctrs\<rparr>], ()),
     CPUControlPlaneClient = Some (\<lambda>_. (Fail (Unavailable ''no socket''), ()))\<rparr>"

theorem GetContainerCPUs_outcome_witness:
  "(\<exists>s. GetContainerCPUs (kubelet [(''c'', [5, 4])]) ''pod'' ''c'' () = (Ret s, ()) \<and> getCleanCoreList s = Some [4, 5])
   \<and> GetContainerCPUs (kubelet [(''c'', [])]) ''pod'' ''c'' () = (Panic nilDereference, ())"
proof -
  let ?rs = "\<lambda>ids. [\<lparr>pr_Name = ''pod'', pr_Containers = [\<lparr>cr_Name = ''c'', cr_CpuIds = ids\<rparr>]\<rparr>]"
  have c: "Client (kubelet [(''c'', ids)]) () = (Ret (?rs ids), ())" for ids by (simp add: kubelet_def)
  have m: "matching (?rs ids) ''pod'' ''c'' = [\<lparr>cr_Name = ''c'', cr_CpuIds = ids\<rparr>]" for ids by (simp add: matching_def)
  note o = GetContainerCPUs_outcome [OF c, THEN conjunct2, THEN spec, THEN spec [of _ "[]"], THEN spec]
  from o [of _ "''pod''" "''c''" "\<lparr>cr_Name = ''c'', cr_CpuIds = [5, 4]\<rparr>" "[5, 4]"]
  have "\<exists>s. GetContainerCPUs (kubelet [(''c'', [5, 4])]) ''pod'' ''c'' () = (Ret s, ()) \<and> getCleanCoreList s = Some (sorted_list_of_set (set [5, 4]))"
    by (simp add: m)
  moreover have "sorted_list_of_set (set [5, 4 :: nat]) = [4, 5]" by code_simp
  moreover from o [of "[]" "''pod''" "''c''" "\<lparr>cr_Name = ''c'', cr_CpuIds = []\<rparr>" "[]"]
  have "GetContainerCPUs (kubelet [(''c'', [])]) ''pod'' ''c'' () = (Panic nilDereference, ())"
    by (simp add: m kubelet_def)
  ultimately show ?thesis by simp
qed

end
