(* ===== verification/Common.thy ===== *)
theory Common
  imports Stores Pod_Resources Pools "HOL-Library.Char_ord" "HOL-Library.List_Lexorder" "HOL-Library.Product_Lexorder"
begin

text \<open>
  What the controllers share (\<^verbatim>\<open>controllers/common.go\<close>): matching of label selectors, the choice among several
  objects that match a node, availability of profiles, the texts of the status, and the entries of profiles in the
  status of the node.  \<open>prettifyCoreList\<close> is in \<open>Pod_Resources\<close>.
\<close>

section \<open>Names and selectors\<close>

abbreviation "FieldOwnerPowerProfileController \<equiv> ''powerprofile-controller''"

definition powerProfileFieldManager :: "string \<Rightarrow> string" where
  "powerProfileFieldManager profileName = FieldOwnerPowerProfileController @ ''.'' @ profileName"

definition powerNodeStateName :: "string \<Rightarrow> string" where
  "powerNodeStateName nodeName = nodeName @ ''-power-state''"

definition ValidEppValues :: "string list" where
  "ValidEppValues = [''performance'', ''balance_performance'', ''balance_power'', ''power'']"

definition isValidEpp :: "string \<Rightarrow> bool" where
  "isValidEpp inputName = list_ex (\<lambda>validEpp. inputName = validEpp) ValidEppValues"

text \<open>\<^verbatim>\<open>len(ls.MatchLabels) == 0 && len(ls.MatchExpressions) == 0\<close>\<close>

definition emptySelector :: "LabelSelector \<Rightarrow> bool" where
  "emptySelector ls \<longleftrightarrow> MatchLabels ls \<in> {None, Some []} \<and> MatchExpressions ls \<in> {None, Some []}"

definition nodeMatchesSelector :: "selectors \<Rightarrow> labels \<Rightarrow> LabelSelector \<Rightarrow> gerr + bool" where
  "nodeMatchesSelector sel nodeLabels ls =
     (if emptySelector ls then Inr True
      else (case sel ls of Inl err \<Rightarrow> Inl err | Inr selector \<Rightarrow> Inr (selector nodeLabels)))"

definition getActiveResourceName :: "'k client \<Rightarrow> string \<Rightarrow> (PowerNodeStateStatus \<Rightarrow> string) \<Rightarrow> (string, 'k) action" where
  "getActiveResourceName c nodeName extractName k =
     andThen (Get_PowerNodeState c PowerNamespace (powerNodeStateName nodeName) k) (\<lambda>status k1. (Ret (extractName status), k1))"

text \<open>Items with a malformed selector are skipped (and logged).\<close>

definition filterByNodeSelector :: "selectors \<Rightarrow> 'o list \<Rightarrow> labels \<Rightarrow> ('o \<Rightarrow> LabelSelector) \<Rightarrow> 'o list" where
  "filterByNodeSelector sel items nodeLabels getSelector =
     filter (\<lambda>item. case nodeMatchesSelector sel nodeLabels (getSelector item) of Inl _ \<Rightarrow> False | Inr match \<Rightarrow> match) items"

section \<open>The choice among matching objects\<close>

text \<open>
  The result is a pointer into the slice, or none, and the slice, which the search for the oldest sorts in place.  The order is by
  time and name; objects of one kind in a namespace have different names.
\<close>

definition ageOf :: "('o \<Rightarrow> ObjectMeta) \<Rightarrow> 'o \<Rightarrow> int \<times> string" where
  "ageOf getMeta x = (meta_CreationTimestamp (getMeta x), meta_Name (getMeta x))"

definition selectActiveOrOldest :: "('o \<Rightarrow> ObjectMeta) \<Rightarrow> 'o list \<Rightarrow> string \<Rightarrow> 'o option \<times> 'o list" where
  "selectActiveOrOldest getMeta matches activeName =
     (if matches = [] then (None, matches)
      else (case (if activeName \<noteq> '''' then find (\<lambda>m. meta_Name (getMeta m) = activeName) matches else None) of
          Some m \<Rightarrow> (Some m, matches)
        | None \<Rightarrow> (let byAge = sort_key (ageOf getMeta) matches in (Some (hd byAge), byAge))))"

section \<open>Availability of a profile\<close>

definition nodeMatchesPowerProfile :: "selectors \<Rightarrow> 'k client \<Rightarrow> PowerProfile \<Rightarrow> string \<Rightarrow> (bool, 'k) action" where
  "nodeMatchesPowerProfile sel c profile nodeName k =
     (let ls = nodeLabelSelector (pps_NodeSelector (pp_Spec profile)) in
      if emptySelector ls then (Ret True, k)
      else andThen (Get_Node c nodeName k) (\<lambda>node k1.
        (case nodeMatchesSelector sel (meta_Labels (node_meta node)) ls of Inl err \<Rightarrow> (Fail err, k1) | Inr match \<Rightarrow> (Ret match, k1))))"

definition validateProfileAvailabilityOnNode ::
    "selectors \<Rightarrow> 'k client \<Rightarrow> string \<Rightarrow> string \<Rightarrow> hostImpl option \<Rightarrow> (bool, 'k) action" where
  "validateProfileAvailabilityOnNode sel c profileName nodeName powerLibrary k =
     (if profileName = '''' then (Ret True, k)
      else andThen (attempt (Get_PowerProfile c PowerNamespace profileName k)) (\<lambda>r k1. (case r of
          Inl err \<Rightarrow> (if isNotFoundErr err then (Ret False, k1) else (Fail err, k1))
        | Inr powerProfile \<Rightarrow> (case powerLibrary of
            None \<Rightarrow> (Fail (Msg ''power library is nil''), k1)
          | Some lib \<Rightarrow> (case GetExclusivePool profileName lib of
              None \<Rightarrow> (Ret False, k1)
            | Some pool \<Rightarrow> nodeMatchesPowerProfile sel c powerProfile nodeName k1)))))"

section \<open>Texts\<close>

definition formatIntOrString :: "IntOrString option \<Rightarrow> string" where
  "formatIntOrString v = (case v of
      None \<Rightarrow> ''''
    | Some x \<Rightarrow> (if Type x = IsInt then Itoa (IntVal x) else StrVal x))"

text \<open>
  \<^verbatim>\<open>json.Marshal\<close> of a scaling policy: the fields that are set, in the order of the struct.  The text of a duration is
  given by \<^verbatim>\<open>metav1.Duration\<close>, a parameter; a workload type holds no character that needs escaping.
\<close>

definition jsonField :: "string \<Rightarrow> string option \<Rightarrow> string list" where
  "jsonField name v = (case v of None \<Rightarrow> [] | Some t \<Rightarrow> [CHR 0x22 # name @ [CHR 0x22] @ '':'' @ t])"

definition marshalPolicy :: "(int \<Rightarrow> string) \<Rightarrow> CPUScalingPolicy \<Rightarrow> string" where
  "marshalPolicy durationJSON p = ''{'' @ Join '','' (
      jsonField ''workloadType'' (if sp_WorkloadType p = '''' then None else Some (CHR 0x22 # sp_WorkloadType p @ [CHR 0x22]))
    @ jsonField ''samplePeriod'' (map_option durationJSON (sp_SamplePeriod p))
    @ jsonField ''cooldownPeriod'' (map_option durationJSON (sp_CooldownPeriod p))
    @ jsonField ''targetUsage'' (map_option Itoa (sp_TargetUsage p))
    @ jsonField ''allowedUsageDifference'' (map_option Itoa (sp_AllowedUsageDifference p))
    @ jsonField ''allowedFrequencyDifference'' (map_option Itoa (sp_AllowedFrequencyDifference p))
    @ jsonField ''scalePercentage'' (map_option Itoa (sp_ScalePercentage p))
    @ jsonField ''fallbackFreqPercent'' (map_option Itoa (sp_FallbackFreqPercent p))) @ ''}''"

definition zeroPolicy :: CPUScalingPolicy where
  "zeroPolicy = \<lparr>sp_WorkloadType = '''', sp_SamplePeriod = None, sp_CooldownPeriod = None, sp_TargetUsage = None,
     sp_AllowedUsageDifference = None, sp_AllowedFrequencyDifference = None, sp_ScalePercentage = None, sp_FallbackFreqPercent = None\<rparr>"

definition formatCPUScalingPolicy :: "(int \<Rightarrow> string) \<Rightarrow> CPUScalingPolicy option \<Rightarrow> string" where
  "formatCPUScalingPolicy durationJSON policy = (case policy of
      None \<Rightarrow> ''''
    | Some p \<Rightarrow> (if p = zeroPolicy then '''' else marshalPolicy durationJSON p))"

definition prettifyCStatesMap :: "(string \<times> bool) list \<Rightarrow> string" where
  "prettifyCStatesMap stateMap =
     (if length stateMap = 0 then ''''
      else (let on = sort (map fst (filter snd stateMap));
                disabled = sort (map fst (filter (\<lambda>s. \<not> snd s) stateMap)) in
        Join ''; '' ((if on \<noteq> [] then [''enabled: '' @ Join '','' on] else [])
                   @ (if disabled \<noteq> [] then [''disabled: '' @ Join '','' disabled] else []))))"

definition profileConfigText :: "(int \<Rightarrow> string) \<Rightarrow> PowerProfileSpec \<Rightarrow> string" where
  "profileConfigText durationJSON spec =
     (let pretty = prettifyCStatesMap (cs_Names (pps_CStates spec));
          cstatesString = (case (pretty = '''', cs_MaxLatencyUs (pps_CStates spec)) of
            (True, Some latency) \<Rightarrow> ''maxLatency: '' @ Itoa latency | _ \<Rightarrow> pretty);
          config = ''Min: '' @ formatIntOrString (ps_Min (pps_PStates spec)) @ '', Max: '' @ formatIntOrString (ps_Max (pps_PStates spec))
            @ '', Governor: '' @ ps_Governor (pps_PStates spec) @ '', EPP: '' @ ps_Epp (pps_PStates spec) @ '', C-States: '' @ cstatesString;
          scalingStr = formatCPUScalingPolicy durationJSON (pps_CPUScalingPolicy spec) in
      if scalingStr \<noteq> '''' then config @ '', CPUScalingPolicy: '' @ scalingStr else config)"

section \<open>Entries of profiles in the status\<close>

definition emptyStatus :: PowerNodeStateStatus where
  "emptyStatus = \<lparr>pns_NodeInfo = None, pns_PowerProfiles = None, pns_CPUPools = None, pns_Uncore = None\<rparr>"

definition applyPowerNodeStateProfilesStatus ::
    "'k client \<Rightarrow> string \<Rightarrow> PowerNodeProfileStatus list \<Rightarrow> string \<Rightarrow> (unit, 'k) action" where
  "applyPowerNodeStateProfilesStatus c stateName profiles fieldManager k =
     Patch_Status c PowerNamespace stateName (emptyStatus\<lparr>pns_PowerProfiles := Some profiles\<rparr>) fieldManager k"

definition addPowerNodeStatusProfileEntry ::
    "(int \<Rightarrow> string) \<Rightarrow> 'k client \<Rightarrow> string \<Rightarrow> PowerProfile \<Rightarrow> gerr option \<Rightarrow> (unit, 'k) action" where
  "addPowerNodeStatusProfileEntry durationJSON c nodeName profile profileErrors k =
     (if nodeName = '''' then (Fail (Msg ''nodeName cannot be empty''), k)
      else applyPowerNodeStateProfilesStatus c (powerNodeStateName nodeName)
        [\<lparr>pnps_Name = meta_Name (pp_meta profile), pnps_Config = profileConfigText durationJSON (pp_Spec profile),
          pnps_Errors = UnpackErrsToStrings profileErrors\<rparr>]
        (powerProfileFieldManager (meta_Name (pp_meta profile))) k)"

definition removePowerNodeStatusProfileEntry :: "'k client \<Rightarrow> string \<Rightarrow> string \<Rightarrow> (unit, 'k) action" where
  "removePowerNodeStatusProfileEntry c nodeName profileName k =
     (if nodeName = '''' then (Fail (Msg ''nodeName cannot be empty''), k)
      else andThen (attempt (applyPowerNodeStateProfilesStatus c (powerNodeStateName nodeName) [] (powerProfileFieldManager profileName) k))
        (\<lambda>r k1. (case r of
            Inl err \<Rightarrow> (if isNotFoundErr err then (Ret (), k1) else (Fail err, k1))
          | Inr _ \<Rightarrow> (Ret (), k1))))"

section \<open>The state of the node agent\<close>

text \<open>The cluster, as the client sees it, and the power library.\<close>

record 'k agent =
  kube :: 'k
  lib :: hostImpl

definition onKube :: "('a, 'k) action \<Rightarrow> ('a, ('k, 'z) agent_scheme) action" where
  "onKube f a = (case f (kube a) of (r, k) \<Rightarrow> (r, a\<lparr>kube := k\<rparr>))"

definition onLib :: "('a, hostImpl) action \<Rightarrow> ('a, ('k, 'z) agent_scheme) action" where
  "onLib f a = (case f (lib a) of (r, h) \<Rightarrow> (r, a\<lparr>lib := h\<rparr>))"

text \<open>\<^verbatim>\<open>ctrl.Result\<close>: done, or again after \<^verbatim>\<open>queuetime\<close>.\<close>

datatype ctrlResult = Done | RequeueAfter

text \<open>\<^verbatim>\<open>reconcile.Request\<close>, and the one request by which a watched event starts a reconciliation of all objects.\<close>

record Request =
  req_Namespace :: string
  req_Name :: string

definition firstRequest :: "('o \<Rightarrow> ObjectMeta) \<Rightarrow> 'o list \<Rightarrow> Request list" where
  "firstRequest meta items = (case items of
      [] \<Rightarrow> []
    | x # _ \<Rightarrow> [\<lparr>req_Namespace = meta_Namespace (meta x), req_Name = meta_Name (meta x)\<rparr>])"

text \<open>\<^verbatim>\<open>'%s'\<close>\<close>

definition ticked :: "string \<Rightarrow> string" where
  "ticked s = CHR 0x27 # s @ [CHR 0x27]"

text \<open>\<^verbatim>\<open>%v\<close> of a list of numbers.\<close>

definition uintsText :: "nat list \<Rightarrow> string" where
  "uintsText cores = ''['' @ Join '' '' (map (\<lambda>c. Itoa (int c)) cores) @ '']''"

lemma lib_onKube [simp]: "lib (snd (onKube f a)) = lib a"
  by (simp add: onKube_def split: prod.splits)

lemma lib_onLib [simp]: "lib (snd (onLib f a)) = snd (f (lib a))"
  by (simp add: onLib_def split: prod.splits)

lemma kube_onLib [simp]: "kube (snd (onLib f a)) = kube a"
  by (simp add: onLib_def split: prod.splits)

lemma fst_onLib [simp]: "fst (onLib f a) = fst (f (lib a))"
  by (simp add: onLib_def split: prod.splits)

lemma fst_onKube [simp]: "fst (onKube f a) = fst (f (kube a))"
  by (simp add: onKube_def split: prod.splits)

lemma onLib_Ret [simp]: "onLib f a = (r, a') \<longleftrightarrow> (\<exists>h. f (lib a) = (r, h) \<and> a' = a\<lparr>lib := h\<rparr>)"
  by (auto simp: onLib_def split: prod.splits)

lemma onKube_Ret: "onKube f a = (r, a') \<longleftrightarrow> (\<exists>k. f (kube a) = (r, k) \<and> a' = a\<lparr>kube := k\<rparr>)"
  by (auto simp: onKube_def split: prod.splits)

section \<open>Properties\<close>

lemma filterByNodeSelector_iff:
  "x \<in> set (filterByNodeSelector sel items l g) \<longleftrightarrow> x \<in> set items \<and> nodeMatchesSelector sel l (g x) = Inr True"
  by (auto simp: filterByNodeSelector_def split: sum.splits)

lemma hd_sort_key:
  assumes "xs \<noteq> []"
  shows "hd (sort_key f xs) \<in> set xs" "\<forall>x \<in> set xs. f (hd (sort_key f xs)) \<le> f x"
proof -
  obtain y ys where s: "sort_key f xs = y # ys" using assms by (cases "sort_key f xs") (auto dest: arg_cong [of _ _ length])
  have "set (sort_key f xs) = set xs" by simp
  moreover have "sorted (map f (y # ys))" using sorted_sort_key [of f xs] by (simp add: s)
  ultimately show "hd (sort_key f xs) \<in> set xs" "\<forall>x \<in> set xs. f (hd (sort_key f xs)) \<le> f x"
    unfolding s by auto
qed

lemma selectActiveOrOldest_keeps:
  "fst (selectActiveOrOldest getMeta ms active) = None \<longleftrightarrow> ms = []"
  "fst (selectActiveOrOldest getMeta ms active) = Some m \<Longrightarrow> m \<in> set ms"
  "set (snd (selectActiveOrOldest getMeta ms active)) = set ms"
  by (auto simp: selectActiveOrOldest_def Let_def find_Some_iff hd_sort_key(1) split: option.splits if_splits)

text \<open>
  Several objects match a node: the active one is kept as long as it matches.  Otherwise the oldest is
  chosen, and of two of the same age the one whose name comes first.  A choice is made exactly if some object
  matches, and choosing again with the chosen object active chooses it again.
\<close>

theorem selectActiveOrOldest_choice:
  assumes "distinct (map (\<lambda>m. meta_Name (getMeta m)) matches)" and "\<forall>m \<in> set matches. meta_Name (getMeta m) \<noteq> ''''"
  shows "(fst (selectActiveOrOldest getMeta matches active) = None \<longleftrightarrow> matches = [])
    \<and> (\<forall>m. fst (selectActiveOrOldest getMeta matches active) = Some m \<longrightarrow> m \<in> set matches
        \<and> (\<forall>x \<in> set matches. meta_Name (getMeta x) = active \<longrightarrow> m = x)
        \<and> ((\<forall>x \<in> set matches. meta_Name (getMeta x) \<noteq> active) \<longrightarrow>
            (\<forall>x \<in> set matches. x = m \<or> meta_CreationTimestamp (getMeta m) < meta_CreationTimestamp (getMeta x)
               \<or> meta_CreationTimestamp (getMeta m) = meta_CreationTimestamp (getMeta x) \<and> meta_Name (getMeta m) < meta_Name (getMeta x)))
        \<and> fst (selectActiveOrOldest getMeta matches (meta_Name (getMeta m))) = Some m)"
proof (intro conjI allI impI)
  show "fst (selectActiveOrOldest getMeta matches active) = None \<longleftrightarrow> matches = []" by (rule selectActiveOrOldest_keeps)
  fix m assume m: "fst (selectActiveOrOldest getMeta matches active) = Some m"
  then show mem: "m \<in> set matches" by (rule selectActiveOrOldest_keeps)
  have inj: "inj_on (\<lambda>m. meta_Name (getMeta m)) (set matches)" using assms(1) by (simp add: distinct_map)
  have u: "find (\<lambda>x. meta_Name (getMeta x) = meta_Name (getMeta y)) matches = Some y" if "y \<in> set matches" for y
    using assms(1) that by (induction matches) auto
  have s: "fst (selectActiveOrOldest getMeta matches (meta_Name (getMeta y))) = Some y" if "y \<in> set matches" for y
    using u [OF that] that assms(2) by (auto simp: selectActiveOrOldest_def)
  show "fst (selectActiveOrOldest getMeta matches (meta_Name (getMeta m))) = Some m" by (rule s [OF mem])
  show "\<forall>x \<in> set matches. meta_Name (getMeta x) = active \<longrightarrow> m = x"
    using s m by auto
  assume na: "\<forall>x \<in> set matches. meta_Name (getMeta x) \<noteq> active"
  then have "find (\<lambda>x. meta_Name (getMeta x) = active) matches = None" by (simp add: find_None_iff)
  with m mem have h: "m = hd (sort_key (ageOf getMeta) matches)"
    by (auto simp: selectActiveOrOldest_def Let_def split: if_splits)
  show "\<forall>x \<in> set matches. x = m \<or> meta_CreationTimestamp (getMeta m) < meta_CreationTimestamp (getMeta x)
      \<or> meta_CreationTimestamp (getMeta m) = meta_CreationTimestamp (getMeta x) \<and> meta_Name (getMeta m) < meta_Name (getMeta x)"
  proof
    fix x assume x: "x \<in> set matches"
    have ne: "matches \<noteq> []" using x by auto
    from hd_sort_key(2) [OF ne, THEN bspec, OF x, of "ageOf getMeta"]
    have "meta_CreationTimestamp (getMeta m) < meta_CreationTimestamp (getMeta x)
        \<or> meta_CreationTimestamp (getMeta m) = meta_CreationTimestamp (getMeta x) \<and> meta_Name (getMeta m) \<le> meta_Name (getMeta x)"
      unfolding h [symmetric] by (auto simp: ageOf_def less_eq_prod_def)
    moreover have "m = x" if "meta_Name (getMeta m) = meta_Name (getMeta x)"
      using inj_onD [OF inj that mem x] .
    ultimately show "x = m \<or> meta_CreationTimestamp (getMeta m) < meta_CreationTimestamp (getMeta x)
      \<or> meta_CreationTimestamp (getMeta m) = meta_CreationTimestamp (getMeta x) \<and> meta_Name (getMeta m) < meta_Name (getMeta x)"
      by (simp only: order_le_less [of "meta_Name (getMeta m)"]) blast
  qed
qed

definition aged :: "string \<Rightarrow> int \<Rightarrow> ObjectMeta" where
  "aged n t = \<lparr>meta_Name = n, meta_Namespace = PowerNamespace, meta_UID = n, meta_Generation = 1, meta_CreationTimestamp = t, meta_Labels = [], meta_Deleted = False\<rparr>"

theorem selectActiveOrOldest_choice_witness:
  "fst (selectActiveOrOldest (\<lambda>m. m) [aged ''b'' 3, aged ''a'' 3, aged ''c'' 7] ''c'') = Some (aged ''c'' 7)
   \<and> fst (selectActiveOrOldest (\<lambda>m. m) [aged ''b'' 3, aged ''a'' 3, aged ''c'' 7] ''gone'') = Some (aged ''a'' 3)"
proof -
  let ?ms = "[aged ''b'' 3, aged ''a'' 3, aged ''c'' 7]"
  have h: "distinct (map (\<lambda>m. meta_Name m) ?ms)" "\<forall>m \<in> set ?ms. meta_Name m \<noteq> ''''" by (simp_all add: aged_def)
  note c = selectActiveOrOldest_choice [of "\<lambda>m. m", OF h]
  have nb: "\<not> ''b'' < ''a''" by (simp add: less_char_def)
  obtain m where m: "fst (selectActiveOrOldest (\<lambda>m. m) ?ms ''c'') = Some m"
    using c [of "''c''", THEN conjunct1] by (cases "fst (selectActiveOrOldest (\<lambda>m. m) ?ms ''c'')") simp_all
  from c [of "''c''", THEN conjunct2, THEN spec, THEN mp, OF m] have "m = aged ''c'' 7"
    by (elim conjE) (drule bspec [of _ _ "aged ''c'' 7"], simp, simp add: aged_def)
  moreover obtain n where n: "fst (selectActiveOrOldest (\<lambda>m. m) ?ms ''gone'') = Some n"
    using c [of "''gone''", THEN conjunct1] by (cases "fst (selectActiveOrOldest (\<lambda>m. m) ?ms ''gone'')") simp_all
  from c [of "''gone''", THEN conjunct2, THEN spec, THEN mp, OF n]
  have "n \<in> set ?ms" "n = aged ''a'' 3 \<or> meta_CreationTimestamp n < 3 \<or> meta_CreationTimestamp n = 3 \<and> meta_Name n < ''a''"
    by (auto simp: aged_def)
  then have "n = aged ''a'' 3" using nb by (auto simp: aged_def)
  ultimately show ?thesis using m n by simp
qed

end
