(* ===== verification/Library_Calls.thy ===== *)
theory Library_Calls
  imports Common
begin

text \<open>
  What a call of the power library does to the host, in the form the controllers' proofs use: the
  call is a step of the library (so it keeps the host well formed), it never panics, and after success it has
  moved exactly the CPUs it names.
\<close>

section \<open>Reachable hosts\<close>

text \<open>A well-formed host reached from \<open>h0\<close> by calls of the library.\<close>

definition reached :: "hostImpl \<Rightarrow> hostImpl \<Rightarrow> bool" where
  "reached h0 h \<longleftrightarrow> host_inv h0 \<and> host_step\<^sup>*\<^sup>* h0 h"

lemma reached_refl: "host_inv h \<Longrightarrow> reached h h"
  by (simp add: reached_def)

lemma reached_step: "reached h0 h \<Longrightarrow> host_step h h' \<Longrightarrow> reached h0 h'"
  by (auto simp: reached_def intro: rtranclp.rtrancl_into_rtrancl)

lemma reached_trans: "reached h0 h \<Longrightarrow> reached h h' \<Longrightarrow> reached h0 h'"
  by (auto simp: reached_def intro: rtranclp_trans)

lemma reached_keeps:
  assumes "reached h0 h"
  shows "host_inv h \<and> allCpus h = allCpus h0"
proof -
  have "host_step\<^sup>*\<^sup>* h0 h" "host_inv h0" using assms by (simp_all add: reached_def)
  then show ?thesis by (induction rule: rtranclp_induct) (auto dest: host_step_keeps)
qed

lemma reached_inv: "reached h0 h \<Longrightarrow> host_inv h"
  by (simp add: reached_keeps)

lemma reached_allCpus: "reached h0 h \<Longrightarrow> allCpus h = allCpus h0"
  by (simp add: reached_keeps)

lemma registered_allocated: "host_inv h \<Longrightarrow> p \<in> set (exclusivePools h) \<Longrightarrow> allocated h p"
  by (simp add: host_inv_def registry_ok_def)

lemma found_allocated: "host_inv h \<Longrightarrow> GetExclusivePool n h = Some p \<Longrightarrow> allocated h p"
  by (simp add: host_inv_def GetExclusivePool_spec registered_allocated registry_ok_def)

lemma lookup_iff: "host_inv h \<Longrightarrow> GetExclusivePool n h = Some p \<longleftrightarrow> p \<in> set (exclusivePools h) \<and> pool_name (pools h p) = n"
  by (simp add: host_inv_def GetExclusivePool_spec)

lemma reached_calls:
  assumes "reached h0 h"
  shows "reached h0 (snd (SetPowerProfile p pr h))"
    and "allocated h p \<Longrightarrow> reached h0 (snd (SetCPUIDs p ids h))"
    and "allocated h p \<Longrightarrow> reached h0 (snd (MoveCPUIDs p ids h))"
    and "allocated h p \<Longrightarrow> reached h0 (snd (MoveCpus p ids h))"
    and "allocated h p \<Longrightarrow> reached h0 (snd (Remove p h))"
    and "reached h0 (snd (AddExclusivePool n h))"
  by (rule reached_step [OF assms], (rule step_profile step_setIDs step_moveIDs step_move step_remove step_add, assumption?, rule prod.collapse [symmetric]))+

section \<open>Effects\<close>

lemma SetCPUIDs_effect:
  assumes "host_inv h" "allocated h p" "SetCPUIDs p ids h = (r, h')"
  shows "host_frame h h'" "\<not> isPanic r"
    "r = Ret () \<Longrightarrow> set ids \<subseteq> set (allCpus h)
       \<and> cpuPool h' = (\<lambda>c. if c \<in> set (allCpus h) then setTarget p ids c (cpuPool h c) else cpuPool h c)"
proof -
  have "host_frame h h' \<and> \<not> isPanic r \<and> (r = Ret () \<longrightarrow> set ids \<subseteq> set (allCpus h)
       \<and> cpuPool h' = (\<lambda>c. if c \<in> set (allCpus h) then setTarget p ids c (cpuPool h c) else cpuPool h c))"
  proof (cases "set ids \<subseteq> set (allCpus h)")
    case True
    then have "setCpus p ids h = (r, h')" using assms(3) by (simp add: SetCPUIDs_eq CPUList_ManyByIDs_result)
    from setCpus_prefix [OF assms(1,2) this] True show ?thesis by auto
  qed (use assms in \<open>auto simp: SetCPUIDs_eq CPUList_ManyByIDs_result\<close>)
  then show "host_frame h h'" "\<not> isPanic r" "r = Ret () \<Longrightarrow> set ids \<subseteq> set (allCpus h)
       \<and> cpuPool h' = (\<lambda>c. if c \<in> set (allCpus h) then setTarget p ids c (cpuPool h c) else cpuPool h c)" by auto
qed

lemma moves_effect:
  assumes "host_inv h" "allocated h p" "MoveCpus p ids h = (r, h')"
  shows "host_frame h h'" "\<not> isPanic r" "r = Ret () \<Longrightarrow> cpuPool h' = (\<lambda>c. if c \<in> set ids then p else cpuPool h c)"
  using moves.forEach_prefix [OF conjI [OF assms(1,2)], of ids r h'] assms(3)
  by (auto simp: MoveCpus_eq moveCpus_def)

lemma MoveCPUIDs_effect:
  assumes "host_inv h" "allocated h p" "MoveCPUIDs p ids h = (r, h')"
  shows "host_frame h h'" "\<not> isPanic r"
    "r = Ret () \<Longrightarrow> set ids \<subseteq> set (allCpus h) \<and> cpuPool h' = (\<lambda>c. if c \<in> set ids then p else cpuPool h c)"
proof -
  have "host_frame h h' \<and> \<not> isPanic r \<and> (r = Ret () \<longrightarrow> set ids \<subseteq> set (allCpus h)
      \<and> cpuPool h' = (\<lambda>c. if c \<in> set ids then p else cpuPool h c))"
  proof (cases "set ids \<subseteq> set (allCpus h)")
    case True
    then have "MoveCpus p ids h = (r, h')" using assms(3) by (simp add: MoveCPUIDs_eq MoveCpus_eq CPUList_ManyByIDs_result)
    from moves_effect [OF assms(1,2) this] True show ?thesis by auto
  qed (use assms in \<open>auto simp: MoveCPUIDs_eq CPUList_ManyByIDs_result\<close>)
  then show "host_frame h h'" "\<not> isPanic r"
    "r = Ret () \<Longrightarrow> set ids \<subseteq> set (allCpus h) \<and> cpuPool h' = (\<lambda>c. if c \<in> set ids then p else cpuPool h c)" by auto
qed

lemma forEach_consolidate_no_panic:
  assumes "host_inv h" "set cs \<subseteq> set (allCpus h)"
  shows "\<not> isPanic (fst (forEach consolidate cs h))"
  using assms
proof (induction cs arbitrary: h)
  case (Cons c cs)
  show ?case
    unfolding forEach.simps
  proof (rule andThen_isPanic)
    show "\<not> isPanic (fst (consolidate c h))" using Cons.prems by (intro consolidate_no_panic) (auto simp: host_inv_def)
    fix a h1 assume s: "consolidate c h = (Ret a, h1)"
    have "host_inv h1" "allCpus h1 = allCpus h"
      using consolidate_keeps_inv [OF Cons.prems(1), of c] consolidate_frame [OF s] s by (simp_all add: host_frame_def)
    then show "\<not> isPanic (fst (forEach consolidate cs h1))" using Cons.prems(2) by (intro Cons.IH) simp_all
  qed
qed simp

lemma SetPowerProfile_effect:
  assumes "host_inv h" "p \<noteq> RReserved" "SetPowerProfile p pr h = (r, h')"
  shows "host_frame (withProfile p pr h) h'" "cpuPool h' = cpuPool h" "\<not> isPanic r"
proof -
  have run: "forEach consolidate (Cpus p h) (withProfile p pr h) = (r, h')"
    using assms(2,3) by (simp add: SetPowerProfile_unfold)
  show "host_frame (withProfile p pr h) h'" "cpuPool h' = cpuPool h" using forEach_consolidate_frame [OF run] by auto
  have "set (Cpus p h) \<subseteq> set (allCpus h)" using assms(1) by (auto simp: host_inv_def membership_ok_def)
  then show "\<not> isPanic r"
    using forEach_consolidate_no_panic [OF withProfile_inv [OF assms(1)], of "Cpus p h" p pr] run by simp
qed

lemma SetPowerProfile_no_panic: "host_inv h \<Longrightarrow> \<not> isPanic (fst (SetPowerProfile p pr h))"
  using SetPowerProfile_effect(3) [of h p pr "fst (SetPowerProfile p pr h)" "snd (SetPowerProfile p pr h)"]
  by (cases "p = RReserved") (auto simp: SetPowerProfile_eq)

lemma Remove_effect:
  assumes "host_inv h" "allocated h p" "Remove p h = (r, h')"
  shows "\<not> isPanic r" "allCpus h' = allCpus h" "nextPool h' = nextPool h"
    "\<And>q. pool_name (pools h' q) = pool_name (pools h q) \<and> pool_profile (pools h' q) = pool_profile (pools h q)"
    "set (exclusivePools h') \<subseteq> set (exclusivePools h)"
    "r = Ret () \<Longrightarrow> set (exclusivePools h') = set (exclusivePools h) - {p}
       \<and> cpuPool h' = (\<lambda>c. if c \<in> set (allCpus h) \<and> cpuPool h c = p then RShared else cpuPool h c)"
proof -
  have "\<not> isPanic r \<and> allCpus h' = allCpus h \<and> nextPool h' = nextPool h
    \<and> (\<forall>q. pool_name (pools h' q) = pool_name (pools h q) \<and> pool_profile (pools h' q) = pool_profile (pools h q))
    \<and> set (exclusivePools h') \<subseteq> set (exclusivePools h)
    \<and> (r = Ret () \<longrightarrow> set (exclusivePools h') = set (exclusivePools h) - {p}
       \<and> cpuPool h' = (\<lambda>c. if c \<in> set (allCpus h) \<and> cpuPool h c = p then RShared else cpuPool h c))"
  proof (cases p)
    case (RExcl k)
    obtain r1 h1 where s1: "setCpus p [] h = (r1, h1)" by (cases "setCpus p [] h")
    note e = setCpus_prefix [OF assms(1,2) s1]
    show ?thesis
    proof (cases "r1 = Ret ()")
      case True
      then have pr: "PoolList_remove p h1 = (r, h')" using assms(3) RExcl s1 by (simp add: Remove_eq)
      note f = PoolList_remove_effect [OF e(1) pr]
      have "nextPool h' = nextPool h1" using pr by (auto simp: PoolList_remove_def Let_def split: if_splits)
      with f e(2) e(4) [OF True] RExcl show ?thesis by (auto simp: host_frame_def setTarget_def)
    next
      case False
      then have "r = r1" "h' = h1" using assms(3) RExcl s1 by (cases r1; simp add: Remove_eq)+
      then show ?thesis using e False by (simp add: host_frame_def)
    qed
  qed (use assms in \<open>auto simp: Remove_eq\<close>)
  then show "\<not> isPanic r" "allCpus h' = allCpus h" "nextPool h' = nextPool h"
    "\<And>q. pool_name (pools h' q) = pool_name (pools h q) \<and> pool_profile (pools h' q) = pool_profile (pools h q)"
    "set (exclusivePools h') \<subseteq> set (exclusivePools h)"
    "r = Ret () \<Longrightarrow> set (exclusivePools h') = set (exclusivePools h) - {p}
       \<and> cpuPool h' = (\<lambda>c. if c \<in> set (allCpus h) \<and> cpuPool h c = p then RShared else cpuPool h c)"
    by blast+
qed

lemma AddExclusivePool_effect:
  assumes "host_inv h" "AddExclusivePool n h = ((p, e), h')"
  shows "allocated h' p" "e \<noteq> None \<Longrightarrow> h' = h"
    "e = None \<Longrightarrow> GetExclusivePool n h = None \<and> p = RExcl (nextPool h) \<and> exclusivePools h' = exclusivePools h @ [p]
       \<and> cpuPool h' = cpuPool h \<and> allCpus h' = allCpus h \<and> pool_name (pools h' p) = n
       \<and> (\<forall>q. q \<noteq> p \<longrightarrow> pools h' q = pools h q) \<and> nextPool h' = Suc (nextPool h)"
proof -
  have "allocated h' p \<and> (e \<noteq> None \<longrightarrow> h' = h) \<and> (e = None \<longrightarrow> GetExclusivePool n h = None \<and> p = RExcl (nextPool h)
       \<and> exclusivePools h' = exclusivePools h @ [p] \<and> cpuPool h' = cpuPool h \<and> allCpus h' = allCpus h \<and> pool_name (pools h' p) = n
       \<and> (\<forall>q. q \<noteq> p \<longrightarrow> pools h' q = pools h q) \<and> nextPool h' = Suc (nextPool h))"
  proof (cases "GetExclusivePool n h")
    case None
    have neg: "PoolList_IndexOfName n (exclusivePools h) h < 0"
      using None by (simp add: GetExclusivePool_def PoolList_ByName_def Let_def split: if_splits)
    have "(\<forall>q. q \<noteq> p \<longrightarrow> pools h' q = pools h q) \<and> nextPool h' = Suc (nextPool h)"
      using assms(2) neg by (auto simp: AddExclusivePool_def Let_def)
    with AddExclusivePool_new [OF assms(1) None assms(2)] None show ?thesis by simp
  next
    case (Some q)
    have "registry_ok h" using assms(1) by (simp add: host_inv_def)
    then obtain e' where "AddExclusivePool n h = ((q, Some e'), h)" using AddExclusivePool_existing Some by blast
    with assms Some show ?thesis by (auto simp: found_allocated)
  qed
  then show "allocated h' p" "e \<noteq> None \<Longrightarrow> h' = h"
    "e = None \<Longrightarrow> GetExclusivePool n h = None \<and> p = RExcl (nextPool h) \<and> exclusivePools h' = exclusivePools h @ [p]
       \<and> cpuPool h' = cpuPool h \<and> allCpus h' = allCpus h \<and> pool_name (pools h' p) = n
       \<and> (\<forall>q. q \<noteq> p \<longrightarrow> pools h' q = pools h q) \<and> nextPool h' = Suc (nextPool h)" by blast+
qed

lemma calls_no_panic:
  assumes "host_inv h" "allocated h p"
  shows "\<not> isPanic (fst (SetCPUIDs p ids h))" "\<not> isPanic (fst (MoveCPUIDs p ids h))"
    "\<not> isPanic (fst (MoveCpus p ids h))" "\<not> isPanic (fst (Remove p h))"
  using SetCPUIDs_effect(2) [OF assms] MoveCPUIDs_effect(2) [OF assms] moves_effect(2) [OF assms] Remove_effect(1) [OF assms]
  by (metis prod.collapse)+

section \<open>Loops and sequences\<close>

text \<open>Pools are never freed.\<close>

lemma host_step_grows:
  assumes "host_step h h'" "host_inv h"
  shows "nextPool h \<le> nextPool h'"
  using assms
proof cases
  case (step_profile p prof r)
  then show ?thesis
    using SetPowerProfile_effect(1) [OF assms(2) _ step_profile]
    by (cases "p = RReserved") (auto simp: SetPowerProfile_eq host_frame_def withProfile_def)
next
  case (step_add n r2)
  obtain p e where "r2 = (p, e)" by (cases r2)
  then show ?thesis using AddExclusivePool_effect(2,3) [OF assms(2), of n p e h'] step_add by (cases e) auto
qed (use assms(2) moves_effect(1) MoveCPUIDs_effect(1) SetCPUIDs_effect(1) Remove_effect(3) in \<open>fastforce simp: host_frame_def\<close>)+

lemma reached_allocated:
  assumes "reached h0 h" "allocated h0 p"
  shows "allocated h p"
proof -
  have "host_step\<^sup>*\<^sup>* h0 h" "host_inv h0" using assms(1) by (simp_all add: reached_def)
  then have "host_inv h \<and> nextPool h0 \<le> nextPool h"
    by (induction rule: rtranclp_induct) (auto dest: host_step_keeps host_step_grows intro: order_trans)
  then show ?thesis using assms(2) by (cases p) (auto simp: allocated_def)
qed

subsection \<open>The library's operations leave the topology alone\<close>

lemma topology_consolidate [simp]: "topology (snd (consolidate c h)) = topology h"
  unfolding consolidate_def by (rule andThen_snd_cases) (auto simp: onMachine_eq)

lemma topology_setters [simp]: "topology (setCpusOf p l h) = topology h" "topology (setPoolField c p h) = topology h"
  by (simp_all add: setCpusOf_def setPoolField_def)

lemma topology_setPool [simp]: "topology (snd (setPool c target h)) = topology h"
proof -
  have "topology (snd (doSetPool c p h)) = topology h" for p h
  proof (cases "CPUList_remove c (Cpus (cpuPool h c) (setPoolField c p h))")
    case (Ret l)
    define h2 where "h2 = setCpusOf (cpuPool h c) l (setPoolField c p h)"
    obtain r h3 where c: "consolidate c h2 = (r, h3)" by fastforce
    then have "topology h3 = topology h" using topology_consolidate [of c h2] by (simp add: h2_def)
    then show ?thesis using Ret c [unfolded h2_def] by (cases r) (simp_all add: doSetPool_def Let_def)
  qed (simp_all add: doSetPool_def Let_def)
  then show ?thesis by (simp add: setPool_def split: option.split)
qed

interpretation movesTopology: keeping "\<lambda>c. setPool c (Some p)" "\<lambda>h. topology h = tp" for p tp
  by unfold_locales simp

interpretation setsTopology: keeping "setCpuBody p cores" "\<lambda>h. topology h = tp" for p cores tp
  by unfold_locales (cases p; auto simp: setCpuBody_def sharedSetCpu_def reservedSetCpu_def exclusiveSetCpu_def)

interpretation consolidatesTopology: keeping consolidate "\<lambda>h. topology h = tp" for tp
  by unfold_locales simp

lemma topology_MoveCPUIDs: "topology (snd (MoveCPUIDs p ids h)) = topology h"
  using movesTopology.forEach_keep [of h "topology h"]
  by (cases "CPUList_ManyByIDs ids (allCpus h)") (simp_all add: MoveCPUIDs_eq reading_def moveCpus_def)

lemma host_step_topology: "host_step h h' \<Longrightarrow> topology h' = topology h"
proof -
  have m: "topology (snd (moveCpus p cs h)) = topology h" for p cs h
    using movesTopology.forEach_keep [of h "topology h"] by (simp add: moveCpus_def)
  have s: "topology (snd (setCpus p cs h)) = topology h" for p cs h
    using setsTopology.forEach_keep [of h "topology h"] by (simp add: setCpus_eq)
  have si: "topology (snd (SetCPUIDs p ids h)) = topology h" for p ids h
    by (cases "CPUList_ManyByIDs ids (allCpus h)") (simp_all add: SetCPUIDs_eq reading_def s)
  assume "host_step h h'"
  then show ?thesis
  proof cases
    case (step_move p cs r)
    then show ?thesis using m by (metis MoveCpus_eq snd_conv)
  next
    case (step_moveIDs p ids r)
    then show ?thesis using topology_MoveCPUIDs by (metis snd_conv)
  next
    case (step_setIDs p ids r)
    then show ?thesis using si by (metis snd_conv)
  next
    case (step_profile p prof r)
    then show ?thesis
      using consolidatesTopology.forEach_keep [of "withProfile p prof h" "topology h" "Cpus p h"] by (cases "p = RReserved") (auto simp: SetPowerProfile_eq Let_def withProfile_def Cpus_def)
  next
    case (step_add n r)
    then show ?thesis by (auto simp: AddExclusivePool_def Let_def split: if_splits)
  next
    case (step_remove p r)
    then show ?thesis
      using s [of p "[]" h] by (cases p; cases "setCpus p [] h"; cases "fst (setCpus p [] h)") (auto simp: Remove_eq PoolList_remove_def Let_def split: if_splits)
  qed
qed

lemma reached_topology: "reached h h' \<Longrightarrow> topology h' = topology h"
  unfolding reached_def by (rule rtranclp_induct [of host_step h h' "\<lambda>x. topology x = topology h"]) (auto dest: host_step_topology)

subsection \<open>Sequences of calls\<close>

text \<open>
  Code that changes the host \<open>h\<close> only through calls of the library and does not panic; \<open>safe\<close> says the
  same of a controller, whose requests to the cluster may panic unless the client is \<open>quiet\<close>.
\<close>

abbreviation libSafe :: "hostImpl \<Rightarrow> 'a gores \<times> hostImpl \<Rightarrow> bool" where
  "libSafe \<equiv> guarded reached True"

interpretation libProgress: progress reached
  by unfold_locales (rule reached_trans)

lemma libSafe_andThen:
  assumes "libSafe h r"
    and "\<And>x h'. r = (Ret x, h') \<Longrightarrow> host_inv h' \<Longrightarrow> \<forall>p. allocated h p \<longrightarrow> allocated h' p \<Longrightarrow> libSafe h' (f x h')"
  shows "libSafe h (andThen r f)"
  using assms(1) by (rule libProgress.andThen) (use assms(2) in \<open>auto intro: reached_inv reached_allocated\<close>)

lemma libSafe_calls:
  assumes "host_inv h"
  shows "libSafe h (SetPowerProfile p pr h)"
    and "allocated h p \<Longrightarrow> libSafe h (SetCPUIDs p ids h)"
    and "allocated h p \<Longrightarrow> libSafe h (MoveCPUIDs p ids h)"
    and "allocated h p \<Longrightarrow> libSafe h (MoveCpus p ids h)"
    and "allocated h p \<Longrightarrow> libSafe h (Remove p h)"
  unfolding guarded_def
  using reached_calls [OF reached_refl [OF assms]] SetPowerProfile_no_panic calls_no_panic assms by auto

lemma keeps_inv:
  "libSafe h (r, h') \<Longrightarrow> host_inv h'"
  by (auto simp: guarded_def reached_inv)

lemma libSafe_forEach:
  assumes "host_inv h" "\<forall>p \<in> set ps. allocated h p"
    and "\<And>p h1. host_inv h1 \<Longrightarrow> allocated h1 p \<Longrightarrow> libSafe h1 (body p h1)"
  shows "libSafe h (forEach body ps h)"
  by (rule libProgress.forEach [where I = host_inv and good = allocated])
    (use assms in \<open>auto intro: reached_refl reached_inv elim: reached_allocated\<close>)

abbreviation safe :: "bool \<Rightarrow> ('k, 'z) agent_scheme \<Rightarrow> 'a gores \<times> ('k, 'z) agent_scheme \<Rightarrow> bool" where
  "safe \<equiv> guarded (\<lambda>a a'. reached (lib a) (lib a'))"

interpretation agentProgress: progress "\<lambda>a a'. reached (lib a) (lib a')"
  by unfold_locales (rule reached_trans)

lemma safe_andThen:
  assumes "safe quiet a r" and "\<And>x a'. r = (Ret x, a') \<Longrightarrow> host_inv (lib a') \<Longrightarrow> safe quiet a' (f x a')"
  shows "safe quiet a (andThen r f)"
  using assms(1) by (rule agentProgress.andThen) (use assms(2) in \<open>auto intro: reached_inv\<close>)

lemma safe_onKube: "host_inv (lib a) \<Longrightarrow> (quiet \<Longrightarrow> \<not> isPanic (fst (f (kube a)))) \<Longrightarrow> safe quiet a (onKube f a)"
  by (simp add: guarded_def reached_refl)

lemma safe_onLib: "libSafe (lib a) (f (lib a)) \<Longrightarrow> safe quiet a (onLib f a)"
  by (simp add: guarded_def)

lemma safeD:
  "safe quiet a (r, a') \<Longrightarrow> host_step\<^sup>*\<^sup>* (lib a) (lib a') \<and> host_inv (lib a') \<and> (quiet \<longrightarrow> \<not> isPanic r)"
  using reached_inv by (auto simp: guarded_def reached_def)

text \<open>A client none of whose requests panics.\<close>

definition quietClient :: "'k client \<Rightarrow> bool" where
  "quietClient c \<longleftrightarrow> (\<forall>k. (\<forall>a b. \<not> isPanic (fst (Get_Pod c a b k))) \<and> (\<forall>a b. \<not> isPanic (fst (Get_PowerProfile c a b k))) \<and> (\<forall>a. \<not> isPanic (fst (Get_Node c a k)))
     \<and> (\<forall>a b. \<not> isPanic (fst (Get_PowerNodeState c a b k))) \<and> \<not> isPanic (fst (List_PowerProfiles c k))
     \<and> (\<forall>a. \<not> isPanic (fst (List_PowerNodeConfigs c a k))) \<and> (\<forall>a. \<not> isPanic (fst (List_Uncores c a k)))
     \<and> (\<forall>a. \<not> isPanic (fst (List_Nodes c a k))) \<and> (\<forall>a b. \<not> isPanic (fst (List_Pods c a b k)))
     \<and> (\<forall>a. \<not> isPanic (fst (Update_NodeStatus c a k))) \<and> (\<forall>a b s d. \<not> isPanic (fst (Patch_Status c a b s d k))))"

lemma quietClientD:
  assumes "quietClient c"
  shows "\<not> isPanic (fst (Get_PowerProfile c a b k))" "\<not> isPanic (fst (Get_Node c a k))"
    "\<not> isPanic (fst (Get_PowerNodeState c a b k))" "\<not> isPanic (fst (List_PowerProfiles c k))"
    "\<not> isPanic (fst (List_PowerNodeConfigs c a k))" "\<not> isPanic (fst (List_Uncores c a k))"
    "\<not> isPanic (fst (List_Nodes c p k))" "\<not> isPanic (fst (List_Pods c a b k))"
    "\<not> isPanic (fst (Update_NodeStatus c n k))" "\<not> isPanic (fst (Patch_Status c a b s d k))"
    "\<not> isPanic (fst (Get_Pod c a b k))"
  using assms by (simp_all add: quietClient_def)

lemma reads_no_panic:
  assumes "quietClient c"
  shows "\<not> isPanic (fst (getActiveResourceName c n f k))"
    "\<not> isPanic (fst (nodeMatchesPowerProfile sel c pp n k))"
    "\<not> isPanic (fst (validateProfileAvailabilityOnNode sel c pn n l k))"
    "\<not> isPanic (fst (addPowerNodeStatusProfileEntry d c n pp es k))"
    "\<not> isPanic (fst (removePowerNodeStatusProfileEntry c n pn k))"
proof -
  have m: "\<not> isPanic (fst (nodeMatchesPowerProfile sel c pp n k))" for pp k
    by (auto simp: nodeMatchesPowerProfile_def Let_def quietClientD [OF assms] andThen_isPanic_iff split: sum.splits)
  then show "\<not> isPanic (fst (nodeMatchesPowerProfile sel c pp n k))" .
  show "\<not> isPanic (fst (getActiveResourceName c n f k))"
    by (auto simp: getActiveResourceName_def quietClientD [OF assms] andThen_isPanic_iff)
  show "\<not> isPanic (fst (validateProfileAvailabilityOnNode sel c pn n l k))"
    by (auto simp: validateProfileAvailabilityOnNode_def quietClientD [OF assms] m andThen_isPanic_iff split: sum.splits option.splits)
  show "\<not> isPanic (fst (addPowerNodeStatusProfileEntry d c n pp es k))"
    by (simp add: addPowerNodeStatusProfileEntry_def applyPowerNodeStateProfilesStatus_def quietClientD [OF assms])
  show "\<not> isPanic (fst (removePowerNodeStatusProfileEntry c n pn k))"
    by (auto simp: removePowerNodeStatusProfileEntry_def applyPowerNodeStateProfilesStatus_def quietClientD [OF assms]
        andThen_isPanic_iff split: sum.splits)
qed

section \<open>A sample cluster\<close>

text \<open>A cluster with one profile, and a client that never fails.\<close>

definition anySelector :: LabelSelector where
  "anySelector = \<lparr>MatchLabels = None, MatchExpressions = None\<rparr>"

definition sampleSpec :: PowerProfileSpec where
  "sampleSpec = \<lparr>pps_Shared = True, pps_NodeSelector = \<lparr>nodeLabelSelector = anySelector\<rparr>,
     pps_PStates = \<lparr>ps_Max = None, ps_Min = None, ps_Epp = ''performance'', ps_Governor = ''''\<rparr>,
     pps_CStates = \<lparr>cs_Names = [], cs_MaxLatencyUs = None\<rparr>, pps_CPUCapacity = \<lparr>Type = IsInt, IntVal = 10, StrVal = ''''\<rparr>,
     pps_CPUScalingPolicy = None\<rparr>"

definition samplePowerProfile :: PowerProfile where
  "samplePowerProfile = \<lparr>pp_meta = aged ''performance'' 1, pp_Spec = sampleSpec\<rparr>"

definition sampleClient :: "unit client" where
  "sampleClient = \<lparr>
     Get_Pod = (\<lambda>_ name k. (Fail (NotFound name), k)),
     Get_PowerProfile = (\<lambda>_ name k. (if name = ''performance'' then Ret samplePowerProfile else Fail (NotFound name), k)),
     Get_Node = (\<lambda>name k. (Ret \<lparr>node_meta = aged name 1, node_Capacity = []\<rparr>, k)),
     Get_PowerNodeState = (\<lambda>_ _ k. (Ret emptyStatus, k)),
     List_PowerProfiles = (\<lambda>k. (Ret [samplePowerProfile], k)),
     List_PowerNodeConfigs = (\<lambda>_ k. (Ret [], k)), List_Uncores = (\<lambda>_ k. (Ret [], k)),
     List_Nodes = (\<lambda>_ k. (Ret [], k)), List_Pods = (\<lambda>_ _ k. (Ret [], k)),
     Update_NodeStatus = (\<lambda>_ k. (Ret (), k)), Patch_Status = (\<lambda>_ _ _ _ k. (Ret (), k))\<rparr>"

lemma sampleClient_quiet: "quietClient sampleClient"
  by (simp add: quietClient_def sampleClient_def)

definition sampleAgent :: "unit agent" where
  "sampleAgent = \<lparr>kube = (), lib = withProfile (RExcl 0) (Some sampleProfile) (sampleHost plainMachine)\<rparr>"

lemma sampleAgent_inv: "host_inv (lib sampleAgent)"
  by (simp add: sampleAgent_def withProfile_inv sampleHost_inv)

end
