(* ===== verification/NodeConfig.thy ===== *)
theory NodeConfig
  imports Library_Calls
begin

text \<open>
  The PowerNodeConfig controller (\<^verbatim>\<open>controllers/powernodeconfig_controller.go\<close>): which configuration a node gets,
  and how the shared pool, the reserved pool and the pseudo-reserved pools (exclusive pools named after the node and
  the cores) are set up and torn down.  The name of the node is an argument (the environment variable of the node agent).

  Two loops range over a slice from which the loop's body removes elements in place, by moving the last element into the gap.
  \<open>range_during_removal\<close> shows that such a loop still visits exactly the elements the slice had at the start, in order, so the model
  ranges over a copy.
\<close>

section \<open>Ranging over a slice that shrinks\<close>

text \<open>
  The elements a loop of \<open>n\<close> turns visits when every visited element that satisfies \<open>P\<close> is removed from the
  slice of length \<open>len\<close> at the front of the array.
\<close>

fun visited :: "('a \<Rightarrow> bool) \<Rightarrow> 'a list \<Rightarrow> nat \<Rightarrow> nat \<Rightarrow> nat \<Rightarrow> 'a list" where
  "visited P arr len i 0 = []"
| "visited P arr len i (Suc n) = arr ! i #
     (let j = nat (indexFrom (\<lambda>x. x = arr ! i) 0 (take len arr)) in
      if P (arr ! i) \<and> arr ! i \<in> set (take len arr) then visited P (arr[j := arr ! (len - 1)]) (len - 1) (Suc i) n
      else visited P arr len (Suc i) n)"

lemma visited_eq:
  assumes "distinct (take len arr)" "i + n \<le> length arr" "len \<le> length arr"
  shows "visited P arr len i n = take n (drop i arr)"
  using assms
proof (induction n arbitrary: arr len i)
  case (Suc n)
  let ?x = "arr ! i"
  have d: "take (Suc n) (drop i arr) = ?x # take n (drop (Suc i) arr)"
    using Suc.prems(2) by (simp add: Cons_nth_drop_Suc [symmetric])
  show ?case
  proof (cases "P ?x \<and> ?x \<in> set (take len arr)")
    case True
    let ?j = "indexFrom (\<lambda>y. y = ?x) 0 (take len arr)"
    have "\<not> ?j < 0" using True by (auto simp: indexFrom_neg)
    then have j: "nat ?j < len" "arr ! nat ?j = ?x"
      using indexFrom_find [of "\<lambda>y. y = ?x" "take len arr"] by auto
    have "nat ?j \<le> i"
    proof (cases "i < len")
      case i: True
      then have "take len arr ! nat ?j = take len arr ! i" using j by simp
      then show ?thesis using nth_eq_iff_index_eq [OF Suc.prems(1), of "nat ?j" i] Suc.prems(3) i j(1) by simp
    qed (use j in simp)
    then have rest: "drop (Suc i) (arr[nat ?j := arr ! (len - 1)]) = drop (Suc i) arr" by simp
    have "distinct (take (len - 1) (arr[nat ?j := arr ! (len - 1)]))"
    proof -
      have "take len arr = take (len - 1) arr @ [arr ! (len - 1)]"
        using j(1) Suc.prems(3) by (metis Suc_diff_1 less_nat_zero_code neq0_conv order_less_le_trans take_Suc_conv_app_nth lessI)
      then have "distinct (take (len - 1) arr)" "arr ! (len - 1) \<notin> set (take (len - 1) arr)"
        using Suc.prems(1) by simp_all
      then show ?thesis by (simp add: take_update_swap distinct_list_update)
    qed
    then have "visited P (arr[nat ?j := arr ! (len - 1)]) (len - 1) (Suc i) n = take n (drop (Suc i) arr)"
      using Suc.IH [of "len - 1" "arr[nat ?j := arr ! (len - 1)]" "Suc i"] Suc.prems rest by simp
    with True d show ?thesis by (simp add: Let_def)
  next
    case False
    with Suc d show ?thesis by (auto simp: Let_def)
  qed
qed simp

lemma range_during_removal: "distinct xs \<Longrightarrow> visited P xs (length xs) 0 (length xs) = xs"
  by (simp add: visited_eq)

section \<open>Which configurations match\<close>

abbreviation "FieldOwnerPowerNodeConfigController \<equiv> ''powernodeconfig-controller''"

definition powerNodeConfigActiveName :: "PowerNodeStateStatus \<Rightarrow> string" where
  "powerNodeConfigActiveName s = (case pns_CPUPools s of
      None \<Rightarrow> ''''
    | Some cpuPools \<Rightarrow> (case cps_Shared cpuPools of None \<Rightarrow> '''' | Some shared \<Rightarrow> scp_PowerNodeConfig shared))"

definition powerNodeConfigSelector :: "PowerNodeConfig \<Rightarrow> LabelSelector" where
  "powerNodeConfigSelector c = nodeLabelSelector (pncs_NodeSelector (pnc_Spec c))"

definition getMatchingPowerNodeConfigs :: "selectors \<Rightarrow> 'k client \<Rightarrow> string \<Rightarrow> (PowerNodeConfig list, 'k) action" where
  "getMatchingPowerNodeConfigs sel c nodeName k =
     andThen (wrapErr (''failed to get node '' @ nodeName) (Get_Node c nodeName k)) (\<lambda>node k1.
     andThen (wrapErr ''failed to list PowerNodeConfigs'' (List_PowerNodeConfigs c PowerNamespace k1)) (\<lambda>items k2.
       (Ret (filterByNodeSelector sel items (meta_Labels (node_meta node)) powerNodeConfigSelector), k2)))"

definition describeConflictingConfig :: "'k client \<Rightarrow> PowerNodeConfig \<Rightarrow> (string, 'k) action" where
  "describeConflictingConfig c config k =
     (let shared = pncs_SharedPowerProfile (pnc_Spec config);
          conflict = ''conflicting PowerNodeConfig: '' @ meta_Name (pnc_meta config) in
      andThen (attempt (Get_PowerProfile c PowerNamespace shared k)) (\<lambda>r k1. (Ret (case r of
          Inl err \<Rightarrow> (if isNotFoundErr err then conflict @ '' (profile '' @ ticked shared @ '' not found)'' else conflict)
        | Inr profile \<Rightarrow> (if \<not> pps_Shared (pp_Spec profile)
            then conflict @ '' (profile '' @ ticked shared @ '' is not a shared profile)'' else conflict)), k1)))"

primrec describeConflicts :: "'k client \<Rightarrow> PowerNodeConfig list \<Rightarrow> (string list, 'k) action" where
  "describeConflicts c [] k = (Ret [], k)"
| "describeConflicts c (m # ms) k = andThen (describeConflictingConfig c m k) (\<lambda>e k1.
     andThen (describeConflicts c ms k1) (\<lambda>es k2. (Ret (e # es), k2)))"

section \<open>Validation\<close>

fun firstRepeated :: "nat list \<Rightarrow> nat list \<Rightarrow> nat option" where
  "firstRepeated [] seenCores = None"
| "firstRepeated (core # cores) seenCores =
     (if core \<in> set seenCores then Some core else firstRepeated cores (core # seenCores))"

primrec validateAvailability :: "selectors \<Rightarrow> 'k client \<Rightarrow> string \<Rightarrow> hostImpl option \<Rightarrow> string list \<Rightarrow> (unit, 'k) action" where
  "validateAvailability sel c nodeName powerLibrary [] k = (Ret (), k)"
| "validateAvailability sel c nodeName powerLibrary (name # names) k =
     andThen (validateProfileAvailabilityOnNode sel c name nodeName powerLibrary k) (\<lambda>available k1.
       if \<not> available then (Fail (Msg (''PowerProfile '' @ ticked name @ '' not available on node '' @ nodeName)), k1)
       else validateAvailability sel c nodeName powerLibrary names k1)"

definition validatePowerNodeConfigProfiles ::
    "selectors \<Rightarrow> 'k client \<Rightarrow> PowerNodeConfig \<Rightarrow> string \<Rightarrow> hostImpl option \<Rightarrow> (unit, 'k) action" where
  "validatePowerNodeConfigProfiles sel c config nodeName powerLibrary k =
     (let shared = pncs_SharedPowerProfile (pnc_Spec config); reserved = pncs_ReservedCPUs (pnc_Spec config) in
      andThen (attempt (Get_PowerProfile c PowerNamespace shared k)) (\<lambda>r k1. (case r of
          Inl err \<Rightarrow> (if isNotFoundErr err then (Fail (Msg (''PowerProfile '' @ ticked shared @ '' not found'')), k1) else (Fail err, k1))
        | Inr sharedProfile \<Rightarrow>
            if \<not> pps_Shared (pp_Spec sharedProfile)
            then (Fail (Msg (''PowerProfile '' @ ticked shared @ '' is not a shared profile (spec.shared must be true)'')), k1)
            else (case firstRepeated (concat (map rs_Cores reserved)) [] of
                Some core \<Rightarrow> (Fail (Msg (''reserved CPU '' @ Itoa (int core) @ '' is listed in multiple reservedCPUs entries'')), k1)
              | None \<Rightarrow> validateAvailability sel c nodeName powerLibrary
                  (shared # filter (\<lambda>n. n \<noteq> '''') (map rs_PowerProfile reserved)) k1))))"

section \<open>Configuring the pools\<close>

definition configureSharedPool :: "PowerNodeConfig \<Rightarrow> (unit, hostImpl) action" where
  "configureSharedPool config h =
     (let shared = pncs_SharedPowerProfile (pnc_Spec config) in
      case GetExclusivePool shared h of
        None \<Rightarrow> (Fail (Msg (''pool for profile '' @ ticked shared @ '' not found'')), h)
      | Some pool \<Rightarrow> (case GetPowerProfile pool h of
          None \<Rightarrow> (Fail (Msg (''profile for pool '' @ ticked shared @ '' not found'')), h)
        | Some profile \<Rightarrow>
            andThen (wrapErr ''failed to set shared pool profile'' (SetPowerProfile GetSharedPool (Some profile) h)) (\<lambda>_ h1.
              wrapErr ''failed to clear reserved pool'' (SetCPUIDs GetReservedPool [] h1))))"

definition reservedPrefix :: "string \<Rightarrow> string" where
  "reservedPrefix nodeName = nodeName @ ''-reserved-''"

definition reservedPoolName :: "string \<Rightarrow> nat list \<Rightarrow> string" where
  "reservedPoolName nodeName cores = reservedPrefix nodeName @ uintsText cores"

text \<open>\<^verbatim>\<open>_ = pseudoPool.Remove()\<close>, then the error.\<close>

definition giveUp :: "pool_ref \<Rightarrow> gerr \<Rightarrow> (unit, hostImpl) action" where
  "giveUp pseudoPool err h = andThen (attempt (Remove pseudoPool h)) (\<lambda>_ h1. (Fail err, h1))"

definition createReservedPool :: "ReservedSpec \<Rightarrow> string \<Rightarrow> (unit, hostImpl) action" where
  "createReservedPool rc nodeName h =
     (case AddExclusivePool (reservedPoolName nodeName (rs_Cores rc)) h of
        ((_, Some err), h1) \<Rightarrow> (Fail (Wrap (''failed to create reserved pool for cores '' @ uintsText (rs_Cores rc)) err), h1)
      | ((pseudoPool, None), h1) \<Rightarrow> (case GetExclusivePool (rs_PowerProfile rc) h1 of
          None \<Rightarrow> giveUp pseudoPool (Msg (''profile '' @ ticked (rs_PowerProfile rc) @ '' has no existing pool'')) h1
        | Some corePool \<Rightarrow>
            andThen (attempt (SetPowerProfile pseudoPool (GetPowerProfile corePool h1) h1)) (\<lambda>r h2. (case r of
                Inl err \<Rightarrow> giveUp pseudoPool (Wrap ''failed to set profile for reserved cores'' err) h2
              | Inr _ \<Rightarrow> andThen (attempt (SetCPUIDs pseudoPool (rs_Cores rc) h2)) (\<lambda>r h3. (case r of
                  Inl err \<Rightarrow> giveUp pseudoPool (Wrap ''failed to move cores to reserved pool'' err) h3
                | Inr _ \<Rightarrow> (Ret (), h3)))))))"

definition removeReserved :: "string \<Rightarrow> pool_ref \<Rightarrow> (unit, hostImpl) action" where
  "removeReserved nodeName p h =
     (if HasPrefix (pool_name (pools h p)) (reservedPrefix nodeName)
      then wrapErr (''failed to remove reserved pool '' @ pool_name (pools h p)) (Remove p h) else (Ret (), h))"

definition groupStatus :: "ReservedSpec \<Rightarrow> string list \<Rightarrow> PowerProfileCPUs" where
  "groupStatus rc errs = \<lparr>ppc_PowerProfile = rs_PowerProfile rc, ppc_CPUIDs = prettifyCoreList (rs_Cores rc), ppc_Errors = errs\<rparr>"

text \<open>
  The loop over the groups with the statuses and errors collected so far.  A failure to move cores ends it with
  that error alone.
\<close>

fun configureGroups ::
    "string \<Rightarrow> ReservedSpec list \<Rightarrow> PowerProfileCPUs list \<Rightarrow> gerr list \<Rightarrow> (PowerProfileCPUs list \<times> gerr list, hostImpl) action" where
  "configureGroups nodeName [] statuses errs h = (Ret (statuses, errs), h)"
| "configureGroups nodeName (rc # rcs) statuses errs h =
     andThen (attempt (MoveCPUIDs GetSharedPool (rs_Cores rc) h)) (\<lambda>r h1. (case r of
        Inl err \<Rightarrow> (Ret (statuses, [Wrap ''failed to move reserved cores to shared'' err]), h1)
      | Inr _ \<Rightarrow>
          if rs_PowerProfile rc \<noteq> ''''
          then andThen (attempt (createReservedPool rc nodeName h1)) (\<lambda>r h2. (case r of
              Inl err \<Rightarrow> andThen (attempt (MoveCPUIDs GetReservedPool (rs_Cores rc) h2)) (\<lambda>r h3. (case r of
                  Inl err2 \<Rightarrow> (Ret (statuses, [Wrap ''failed to move cores to reserved'' err2]), h3)
                | Inr _ \<Rightarrow> configureGroups nodeName rcs (statuses @ [groupStatus rc [ErrorText err]]) (errs @ [err]) h3))
            | Inr _ \<Rightarrow> configureGroups nodeName rcs (statuses @ [groupStatus rc []]) errs h2))
          else andThen (attempt (MoveCPUIDs GetReservedPool (rs_Cores rc) h1)) (\<lambda>r h2. (case r of
              Inl err \<Rightarrow> (Ret (statuses, [Wrap ''failed to move cores to reserved'' err]), h2)
            | Inr _ \<Rightarrow> configureGroups nodeName rcs (statuses @ [groupStatus rc []]) errs h2))))"

definition configureReservedPools ::
    "PowerNodeConfig \<Rightarrow> string \<Rightarrow> (PowerProfileCPUs list \<times> gerr list, hostImpl) action" where
  "configureReservedPools config nodeName h =
     andThen (attempt (forEach (removeReserved nodeName) (exclusivePools h) h)) (\<lambda>r h1. (case r of
        Inl err \<Rightarrow> (Ret ([], [err]), h1)
      | Inr _ \<Rightarrow> configureGroups nodeName (pncs_ReservedCPUs (pnc_Spec config)) [] [] h1))"

section \<open>Status\<close>

definition poolsStatus :: "CPUPoolsStatus \<Rightarrow> PowerNodeStateStatus" where
  "poolsStatus cpuPools = emptyStatus\<lparr>pns_CPUPools := Some cpuPools\<rparr>"

definition updatePowerNodeStatusPools ::
    "'k client \<Rightarrow> string \<Rightarrow> string \<Rightarrow> string \<Rightarrow> string \<Rightarrow> PowerProfileCPUs list \<Rightarrow> string list \<Rightarrow> (unit, 'k) action" where
  "updatePowerNodeStatusPools c nodeName configName profileName sharedCPUIDs reservedProfileCPUs statusErrors k =
     (let cpuPools = \<lparr>cps_Shared = Some \<lparr>scp_PowerProfile = profileName, scp_PowerNodeConfig = configName,
            scp_CPUIDs = sharedCPUIDs, scp_Errors = statusErrors\<rparr>,
          cps_Reserved = (if reservedProfileCPUs \<noteq> []
            then Some [\<lparr>rcp_PowerProfileCPUs = reservedProfileCPUs, rcp_PowerNodeConfig = configName\<rparr>] else None),
          cps_Exclusive = None\<rparr> in
      andThen (attempt (Patch_Status c PowerNamespace (powerNodeStateName nodeName) (poolsStatus cpuPools) FieldOwnerPowerNodeConfigController k))
        (\<lambda>r k1. (case r of
            Inl err \<Rightarrow> (if isNotFoundErr err
              then (Fail (Msg (''PowerNodeState '' @ powerNodeStateName nodeName @ '' not found, requeueing'')), k1)
              else (Fail (Wrap ''failed to update PowerNodeState pool status'' err), k1))
          | Inr _ \<Rightarrow> (Ret (), k1))))"

definition removePowerNodeStatusPools :: "'k client \<Rightarrow> string \<Rightarrow> (unit, 'k) action" where
  "removePowerNodeStatusPools c nodeName k =
     andThen (attempt (Patch_Status c PowerNamespace (powerNodeStateName nodeName)
        (poolsStatus \<lparr>cps_Shared = None, cps_Reserved = Some [], cps_Exclusive = None\<rparr>) FieldOwnerPowerNodeConfigController k))
       (\<lambda>r k1. (case r of
          Inl err \<Rightarrow> (if isNotFoundErr err then (Ret (), k1) else (Fail (Wrap ''failed to remove pool status'' err), k1))
        | Inr _ \<Rightarrow> (Ret (), k1)))"

section \<open>Applying and cleaning up\<close>

definition applyPowerNodeConfig ::
    "selectors \<Rightarrow> 'k client \<Rightarrow> PowerNodeConfig \<Rightarrow> string \<Rightarrow> string list \<Rightarrow> (ctrlResult, 'k agent) action" where
  "applyPowerNodeConfig sel c config nodeName conflictErrors a =
     (let name = meta_Name (pnc_meta config); shared = pncs_SharedPowerProfile (pnc_Spec config) in
      andThen (attempt (onKube (validatePowerNodeConfigProfiles sel c config nodeName (Some (lib a))) a)) (\<lambda>r a1. (case r of
          Inl err \<Rightarrow>
            andThen (attempt (onKube (updatePowerNodeStatusPools c nodeName name shared '''' [] [ErrorText err]) a1)) (\<lambda>_ a2.
              (Ret RequeueAfter, a2))
        | Inr _ \<Rightarrow>
            andThen (onLib (configureSharedPool config) a1) (\<lambda>_ a2.
            andThen (onLib (configureReservedPools config nodeName) a2) (\<lambda>(reservedProfileCPUs, reservedErrors) a3.
            andThen (onKube (updatePowerNodeStatusPools c nodeName name shared
                (prettifyCoreList (CPUList_IDs (Cpus GetSharedPool (lib a3)))) reservedProfileCPUs
                (conflictErrors @ map ErrorText reservedErrors)) a3) (\<lambda>_ a4.
              if reservedErrors \<noteq> [] then (Fail (Msg ''errors configuring reserved pools''), a4) else (Ret Done, a4)))))))"

text \<open>
  The loop of the clean-up, with the cores collected so far.  \<^verbatim>\<open>movedCores\<close> starts as the slice of the
  shared pool itself; as long as its array has room, the appended cores and the cores a removed pool returns to the
  shared pool are written to the same places.  Both are the same cores, in an order that depends on the room: the
  argument \<open>order\<close>.
\<close>

fun collectReserved :: "string \<Rightarrow> pool_ref list \<Rightarrow> nat list \<Rightarrow> (nat list, hostImpl) action" where
  "collectReserved nodeName [] movedCores h = (Ret movedCores, h)"
| "collectReserved nodeName (p # ps) movedCores h =
     (if HasPrefix (pool_name (pools h p)) (reservedPrefix nodeName)
      then andThen (wrapErr (''failed to remove reserved pool '' @ pool_name (pools h p)) (Remove p h)) (\<lambda>_ h1.
             collectReserved nodeName ps (movedCores @ Cpus p h) h1)
      else collectReserved nodeName ps movedCores h)"

definition cleanupPowerNodeConfigPools ::
    "(nat list \<Rightarrow> nat list) \<Rightarrow> 'k client \<Rightarrow> string \<Rightarrow> (unit, 'k agent) action" where
  "cleanupPowerNodeConfigPools order c nodeName a =
     andThen (onLib (collectReserved nodeName (exclusivePools (lib a)) (Cpus GetSharedPool (lib a))) a) (\<lambda>movedCores a1.
     andThen (onLib (\<lambda>h. wrapErr ''failed to move cores to reserved'' (MoveCpus GetReservedPool (order movedCores) h)) a1) (\<lambda>_ a2.
       onKube (removePowerNodeStatusPools c nodeName) a2))"

section \<open>Reconciliation\<close>

definition powerNodeConfig_Reconcile ::
    "selectors \<Rightarrow> (nat list \<Rightarrow> nat list) \<Rightarrow> 'k client \<Rightarrow> string \<Rightarrow> Request \<Rightarrow> (ctrlResult, 'k agent) action" where
  "powerNodeConfig_Reconcile sel order c nodeName req a =
     (if req_Namespace req \<noteq> PowerNamespace then (Ret Done, a)
      else if nodeName = '''' then (Fail (Msg ''NODE_NAME environment variable not set''), a)
      else andThen (onKube (getMatchingPowerNodeConfigs sel c nodeName) a) (\<lambda>matches a1.
        andThen (attempt (onKube (getActiveResourceName c nodeName powerNodeConfigActiveName) a1)) (\<lambda>r a2. (case r of
            Inl err \<Rightarrow> (if isNotFoundErr err then (Ret RequeueAfter, a2) else (Fail err, a2))
          | Inr activeConfigName \<Rightarrow> (case selectActiveOrOldest pnc_meta matches activeConfigName of
              (None, _) \<Rightarrow>
                (if activeConfigName \<noteq> ''''
                 then andThen (cleanupPowerNodeConfigPools order c nodeName a2) (\<lambda>_ a3. (Ret Done, a3))
                 else (Ret Done, a2))
            | (Some selected, byAge) \<Rightarrow>
                andThen (onKube (describeConflicts c (if length byAge > 1
                    then filter (\<lambda>m. meta_Name (pnc_meta m) \<noteq> meta_Name (pnc_meta selected)) byAge else [])) a2) (\<lambda>conflictErrors a3.
                  applyPowerNodeConfig sel c selected nodeName conflictErrors a3))))))"

section \<open>Events\<close>

text \<open>The requests a watched event enqueues, and the filters of the watches.\<close>

definition enqueuePowerNodeConfigReconcile :: "'k client \<Rightarrow> (Request list, 'k) action" where
  "enqueuePowerNodeConfigReconcile c k =
     andThen (attempt (List_PowerNodeConfigs c PowerNamespace k)) (\<lambda>r k1.
       (Ret (case r of Inl _ \<Rightarrow> [] | Inr items \<Rightarrow> firstRequest pnc_meta items), k1))"

definition enqueueMatchingPowerNodeConfigReconcile :: "selectors \<Rightarrow> 'k client \<Rightarrow> string \<Rightarrow> (Request list, 'k) action" where
  "enqueueMatchingPowerNodeConfigReconcile sel c nodeName k =
     andThen (attempt (getMatchingPowerNodeConfigs sel c nodeName k)) (\<lambda>r k1.
       (Ret (case r of Inl _ \<Rightarrow> [] | Inr configs \<Rightarrow> firstRequest pnc_meta configs), k1))"

definition getExclusiveEntries :: "PowerNodeStateStatus \<Rightarrow> ExclusiveCPUPoolStatus list option" where
  "getExclusiveEntries s = (case pns_CPUPools s of None \<Rightarrow> None | Some cpuPools \<Rightarrow> cps_Exclusive cpuPools)"

definition exclusivePoolsChanged :: "string \<Rightarrow> string \<Rightarrow> PowerNodeStateStatus \<Rightarrow> PowerNodeStateStatus \<Rightarrow> bool" where
  "exclusivePoolsChanged nodeName newName oldPNS newPNS =
     (if newName \<noteq> powerNodeStateName nodeName then False else getExclusiveEntries oldPNS \<noteq> getExclusiveEntries newPNS)"

section \<open>The library is only changed through its operations\<close>

lemma configureSharedPool_safe: "host_inv h \<Longrightarrow> libSafe h (configureSharedPool config h)"
  by (auto simp: configureSharedPool_def Let_def libSafe_calls reached_refl split: option.splits intro!: libSafe_andThen)

lemma giveUp_safe: "host_inv h \<Longrightarrow> allocated h p \<Longrightarrow> libSafe h (giveUp p e h)"
  by (auto simp: giveUp_def libSafe_calls reached_refl intro!: libSafe_andThen)

lemma createReservedPool_safe:
  assumes "host_inv h"
  shows "libSafe h (createReservedPool rc nodeName h)"
proof -
  obtain p e h1 where add: "AddExclusivePool (reservedPoolName nodeName (rs_Cores rc)) h = ((p, e), h1)"
    by (metis prod.collapse)
  have r: "reached h h1" using reached_calls(6) [OF reached_refl [OF assms]] add by (metis snd_conv)
  have p: "allocated h1 p" using AddExclusivePool_effect(1) [OF assms add] .
  note [intro!] = libSafe_andThen
  note [simp] = libSafe_calls reached_refl giveUp_safe
  have "libSafe h1 (case GetExclusivePool (rs_PowerProfile rc) h1 of
          None \<Rightarrow> giveUp p (Msg (''profile '' @ ticked (rs_PowerProfile rc) @ '' has no existing pool'')) h1
        | Some corePool \<Rightarrow>
            andThen (attempt (SetPowerProfile p (GetPowerProfile corePool h1) h1)) (\<lambda>r h2. (case r of
                Inl err \<Rightarrow> giveUp p (Wrap ''failed to set profile for reserved cores'' err) h2
              | Inr _ \<Rightarrow> andThen (attempt (SetCPUIDs p (rs_Cores rc) h2)) (\<lambda>r h3. (case r of
                  Inl err \<Rightarrow> giveUp p (Wrap ''failed to move cores to reserved pool'' err) h3
                | Inr _ \<Rightarrow> (Ret (), h3))))))"
    using reached_inv [OF r] p by (auto split: option.splits sum.splits)
  then show ?thesis
    using r by (cases e) (auto simp: createReservedPool_def add guarded_def intro: reached_trans)
qed

lemma removeReserved_safe: "host_inv h \<Longrightarrow> allocated h p \<Longrightarrow> libSafe h (removeReserved nodeName p h)"
  by (simp add: removeReserved_def libSafe_calls reached_refl)

lemma configureGroups_safe: "host_inv h \<Longrightarrow> libSafe h (configureGroups nodeName rcs sts errs h)"
proof (induction rcs arbitrary: sts errs h)
  case (Cons rc rcs)
  then show ?case
    by (auto simp: libSafe_calls createReservedPool_safe reached_refl split: sum.splits intro!: libSafe_andThen)
qed (simp add: reached_refl)

lemma configureReservedPools_safe:
  assumes "host_inv h"
  shows "libSafe h (configureReservedPools config nodeName h)"
proof -
  have "libSafe h (forEach (removeReserved nodeName) (exclusivePools h) h)"
    using assms by (intro libSafe_forEach) (auto simp: registered_allocated removeReserved_safe)
  then show ?thesis
    by (auto simp: configureReservedPools_def configureGroups_safe reached_refl split: sum.splits intro!: libSafe_andThen)
qed

lemma collectReserved_safe:
  "host_inv h \<Longrightarrow> \<forall>p \<in> set ps. allocated h p \<Longrightarrow> libSafe h (collectReserved nodeName ps cores h)"
proof (induction ps arbitrary: cores h)
  case (Cons p ps)
  then show ?case by (auto simp: libSafe_calls intro!: libSafe_andThen)
qed (simp add: reached_refl)

text \<open>Requests to the cluster.\<close>

lemma updatePowerNodeStatusPools_no_panic: "quietClient c \<Longrightarrow> \<not> isPanic (fst (updatePowerNodeStatusPools c n cn pn ids rs es k))"
  by (auto simp: updatePowerNodeStatusPools_def Let_def quietClientD andThen_isPanic_iff split: sum.splits)

lemma removePowerNodeStatusPools_no_panic: "quietClient c \<Longrightarrow> \<not> isPanic (fst (removePowerNodeStatusPools c n k))"
  by (auto simp: removePowerNodeStatusPools_def Let_def quietClientD andThen_isPanic_iff split: sum.splits)

lemma validateAvailability_no_panic: "quietClient c \<Longrightarrow> \<not> isPanic (fst (validateAvailability sel c n l ns k))"
  by (induction ns arbitrary: k) (auto simp: andThen_isPanic_iff reads_no_panic)

lemma validatePowerNodeConfigProfiles_no_panic: "quietClient c \<Longrightarrow> \<not> isPanic (fst (validatePowerNodeConfigProfiles sel c cfg n l k))"
  by (auto simp: validatePowerNodeConfigProfiles_def Let_def quietClientD andThen_isPanic_iff reads_no_panic validateAvailability_no_panic split: sum.splits option.splits)

lemma getMatchingPowerNodeConfigs_no_panic: "quietClient c \<Longrightarrow> \<not> isPanic (fst (getMatchingPowerNodeConfigs sel c n k))"
  by (auto simp: getMatchingPowerNodeConfigs_def quietClientD andThen_isPanic_iff)

lemma describeConflicts_no_panic: "quietClient c \<Longrightarrow> \<not> isPanic (fst (describeConflicts c ms k))"
  by (induction ms arbitrary: k) (auto simp: describeConflictingConfig_def Let_def andThen_isPanic_iff quietClientD)

lemmas requests_no_panic = updatePowerNodeStatusPools_no_panic removePowerNodeStatusPools_no_panic
  validatePowerNodeConfigProfiles_no_panic getMatchingPowerNodeConfigs_no_panic describeConflicts_no_panic reads_no_panic

lemma applyPowerNodeConfig_safe: "host_inv (lib a) \<Longrightarrow> safe (quietClient c) a (applyPowerNodeConfig sel c cfg n es a)"
  unfolding applyPowerNodeConfig_def Let_def
  by (auto simp: configureSharedPool_safe configureReservedPools_safe requests_no_panic reached_refl split: sum.splits
      intro!: safe_andThen safe_onKube safe_onLib)

lemma cleanupPowerNodeConfigPools_safe: "host_inv (lib a) \<Longrightarrow> safe (quietClient c) a (cleanupPowerNodeConfigPools order c n a)"
  unfolding cleanupPowerNodeConfigPools_def
  by (auto simp: requests_no_panic reached_refl collectReserved_safe registered_allocated libSafe_calls
      intro!: safe_andThen safe_onKube safe_onLib)

lemma powerNodeConfig_Reconcile_safe:
  "host_inv (lib a) \<Longrightarrow> safe (quietClient c) a (powerNodeConfig_Reconcile sel order c n req a)"
  unfolding powerNodeConfig_Reconcile_def
  by (auto simp: requests_no_panic reached_refl applyPowerNodeConfig_safe cleanupPowerNodeConfigPools_safe split: sum.splits option.splits prod.splits
      intro!: safe_andThen safe_onKube safe_onLib)

section \<open>The layout of the pools\<close>

text \<open>Pools are added; those that exist keep their names and profiles.\<close>

definition extends :: "hostImpl \<Rightarrow> hostImpl \<Rightarrow> bool" where
  "extends h h' \<longleftrightarrow> host_inv h' \<and> allCpus h' = allCpus h \<and> set (exclusivePools h) \<subseteq> set (exclusivePools h')
     \<and> (\<forall>q. allocated h q \<longrightarrow> allocated h' q \<and> pool_name (pools h' q) = pool_name (pools h q)
          \<and> pool_profile (pools h' q) = pool_profile (pools h q))"

lemma extends_refl: "host_inv h \<Longrightarrow> extends h h"
  by (simp add: extends_def)

lemma extends_trans: "extends h h1 \<Longrightarrow> extends h1 h2 \<Longrightarrow> extends h h2"
  by (auto simp: extends_def)

lemma extends_frame: "host_inv h' \<Longrightarrow> host_frame h h' \<Longrightarrow> extends h h'"
  using host_frame_allocated by (auto simp: extends_def host_frame_def)

lemma extends_lookup:
  assumes "host_inv h" "extends h h'" "GetExclusivePool n h = Some p"
  shows "GetExclusivePool n h' = Some p" "pool_profile (pools h' p) = pool_profile (pools h p)" "allocated h p"
  using assms found_allocated [OF assms(1,3)] by (auto simp: extends_def lookup_iff)

lemma move_layout:
  assumes "host_inv h" "allocated h p" "MoveCPUIDs p ids h = (Ret (), h')"
  shows "extends h h'" "set ids \<subseteq> set (allCpus h)" "cpuPool h' = (\<lambda>c. if c \<in> set ids then p else cpuPool h c)"
  using MoveCPUIDs_effect [OF assms] keeps_inv [of h "Ret ()" h'] libSafe_calls(3) [OF assms(1,2), of ids] assms(3)
  by (simp_all add: extends_frame)

lemma giveUp_fails: "giveUp p e h \<noteq> (Ret x, h')"
  by (simp add: giveUp_def andThen_Ret_iff)

lemma createReservedPool_layout:
  assumes h: "host_inv h" and run: "createReservedPool rc n h = (Ret (), h')"
  shows "extends h h' \<and> (\<exists>p q. GetExclusivePool (reservedPoolName n (rs_Cores rc)) h' = Some p \<and> \<not> allocated h p
     \<and> GetExclusivePool (rs_PowerProfile rc) h' = Some q \<and> pool_profile (pools h' p) = pool_profile (pools h' q)
     \<and> (\<forall>c \<in> set (allCpus h). cpuPool h' c = (if c \<in> set (rs_Cores rc) then p else cpuPool h c)))"
proof -
  obtain p e h1 where add: "AddExclusivePool (reservedPoolName n (rs_Cores rc)) h = ((p, e), h1)"
    by (metis prod.collapse)
  have e: "e = None" using run by (cases e) (auto simp: createReservedPool_def add)
  note new = AddExclusivePool_effect(3) [OF h add e] and pa = AddExclusivePool_effect(1) [OF h add]
  have i1: "host_inv h1"
    using reached_calls(6) [OF reached_refl [OF h]] add by (metis snd_conv reached_inv)
  obtain q h2 where q: "GetExclusivePool (rs_PowerProfile rc) h1 = Some q"
    and s1: "SetPowerProfile p (GetPowerProfile q h1) h1 = (Ret (), h2)" and s2: "SetCPUIDs p (rs_Cores rc) h2 = (Ret (), h')"
    using run e by (auto simp: createReservedPool_def add giveUp_fails run_simps split: option.splits)
  have pr: "p \<noteq> RReserved" using new by simp
  note f = SetPowerProfile_effect [OF i1 pr s1]
  have i2: "host_inv h2" using libSafe_calls(1) [OF i1] s1 by (metis keeps_inv)
  have pa2: "allocated h2 p" using pa f(1) host_frame_allocated allocated_cong [of "withProfile p (GetPowerProfile q h1) h1" h1]
    by (auto simp: withProfile_def)
  note g = SetCPUIDs_effect [OF i2 pa2 s2]
  have i3: "host_inv h'" using libSafe_calls(2) [OF i2 pa2] s2 by (metis keeps_inv)
  have np: "\<not> allocated h p" using new by (simp add: allocated_def)
  have al: "allCpus h' = allCpus h" using new f(1) g(1) by (auto simp: host_frame_def withProfile_def)
  have ex: "exclusivePools h' = exclusivePools h @ [p]" using new f(1) g(1) by (auto simp: host_frame_def withProfile_def)
  have nm: "pool_name (pools h' r) = pool_name (pools h1 r)" for r
    using f(1) g(1) by (auto simp: host_frame_def withProfile_def)
  have prof: "pool_profile (pools h' r) = (if r = p then pool_profile (pools h1 q) else pool_profile (pools h1 r))" for r
    using f(1) g(1) by (auto simp: host_frame_def withProfile_def GetPowerProfile_def)
  have nx: "nextPool h' = Suc (nextPool h)" using new f(1) g(1) by (auto simp: host_frame_def withProfile_def)
  have ext: "extends h h'"
    using i3 al ex nm prof new np nx by (auto simp: extends_def allocated_def split: pool_ref.splits)
  have "GetExclusivePool (rs_PowerProfile rc) h' = Some q"
    using q i1 i3 ex nm new by (auto simp: lookup_iff)
  moreover have "GetExclusivePool (reservedPoolName n (rs_Cores rc)) h' = Some p"
    using i3 ex nm new by (auto simp: lookup_iff)
  moreover have "cpuPool h' c = (if c \<in> set (rs_Cores rc) then p else cpuPool h c)" if "c \<in> set (allCpus h)" for c
  proof -
    have "cpuPool h c \<noteq> p" using that h np by (auto simp: host_inv_def membership_ok_def)
    then show ?thesis using g(3) f(2) new that al g(1) by (auto simp: setTarget_def host_frame_def)
  qed
  ultimately show ?thesis using ext np prof by auto
qed

text \<open>The layout of the groups: each of them in its own pool, the others in the reserved pool.\<close>

definition groupPlaced :: "string \<Rightarrow> ReservedSpec \<Rightarrow> hostImpl \<Rightarrow> bool" where
  "groupPlaced n rc h \<longleftrightarrow> (if rs_PowerProfile rc = ''''
     then \<forall>c \<in> set (rs_Cores rc). cpuPool h c = RReserved
     else \<exists>p q. GetExclusivePool (reservedPoolName n (rs_Cores rc)) h = Some p \<and> GetExclusivePool (rs_PowerProfile rc) h = Some q
       \<and> pool_profile (pools h p) = pool_profile (pools h q) \<and> (\<forall>c \<in> set (allCpus h). cpuPool h c = p \<longleftrightarrow> c \<in> set (rs_Cores rc)))"

abbreviation "groupCores rcs \<equiv> \<Union> (set ` rs_Cores ` set rcs)"

definition grouped :: "string \<Rightarrow> ReservedSpec list \<Rightarrow> hostImpl \<Rightarrow> hostImpl \<Rightarrow> bool" where
  "grouped n rcs h h' \<longleftrightarrow> extends h h' \<and> groupCores rcs \<subseteq> set (allCpus h)
     \<and> (\<forall>c \<in> groupCores rcs. cpuPool h' c = RReserved \<or> \<not> allocated h (cpuPool h' c))
     \<and> (\<forall>c \<in> set (allCpus h) - groupCores rcs. cpuPool h' c = cpuPool h c)
     \<and> (\<forall>rc \<in> set rcs. groupPlaced n rc h')"

lemma grouped_in: "grouped n rcs h h' \<Longrightarrow> c \<in> groupCores rcs \<Longrightarrow> cpuPool h' c = RReserved \<or> \<not> allocated h (cpuPool h' c)"
  unfolding grouped_def by blast

lemma groupPlaced_keep:
  assumes placed: "groupPlaced n rc h1" and i: "host_inv h1" and g: "grouped n rcs h1 h2"
    and d: "set (rs_Cores rc) \<inter> groupCores rcs = {}" and m: "set (rs_Cores rc) \<subseteq> set (allCpus h1)"
  shows "groupPlaced n rc h2"
proof -
  have e: "extends h1 h2" and al: "allCpus h2 = allCpus h1" using g by (simp_all add: grouped_def extends_def)
  have same: "cpuPool h2 c = cpuPool h1 c" if "c \<in> set (allCpus h1)" "c \<notin> groupCores rcs" for c
    using g that by (simp add: grouped_def)
  show ?thesis
  proof (cases "rs_PowerProfile rc = ''''")
    case True
    then show ?thesis using placed same d m by (auto simp: groupPlaced_def disjoint_iff subset_iff)
  next
    case False
    then obtain p q where p: "GetExclusivePool (reservedPoolName n (rs_Cores rc)) h1 = Some p"
      and q: "GetExclusivePool (rs_PowerProfile rc) h1 = Some q" "pool_profile (pools h1 p) = pool_profile (pools h1 q)"
      and c: "\<forall>c \<in> set (allCpus h1). cpuPool h1 c = p \<longleftrightarrow> c \<in> set (rs_Cores rc)"
      using placed by (auto simp: groupPlaced_def)
    have pa: "allocated h1 p" "isExclusive p" using p i by (auto simp: lookup_iff host_inv_def registry_ok_def)
    have "cpuPool h2 c = p \<longleftrightarrow> c \<in> set (rs_Cores rc)" if cc: "c \<in> set (allCpus h1)" for c
    proof (cases "c \<in> groupCores rcs")
      case True
      from grouped_in [OF g this] show ?thesis using pa True d by (auto simp: isExclusive_def)
    qed (use c cc same in auto)
    then show ?thesis
      using extends_lookup [OF i e p] extends_lookup [OF i e q(1)] q(2) False al by (auto simp: groupPlaced_def)
  qed
qed

lemma configureGroups_errors: "errs \<noteq> [] \<Longrightarrow> configureGroups n rcs sts errs h \<noteq> (Ret (sts', []), h')"
proof (induction rcs arbitrary: sts errs h)
  case (Cons rc rcs)
  then show ?case by (auto simp: run_simps)
qed simp

lemma grouped_Cons:
  assumes h: "host_inv h" and e: "extends h h1" and one: "groupPlaced n rc h1"
    and c1: "\<forall>c \<in> set (allCpus h). cpuPool h1 c = (if c \<in> set (rs_Cores rc) then p else cpuPool h c)"
    and p: "p = RReserved \<or> \<not> allocated h p" and m: "set (rs_Cores rc) \<subseteq> set (allCpus h)"
    and d: "set (rs_Cores rc) \<inter> groupCores rcs = {}" and rest: "grouped n rcs h1 h2"
  shows "grouped n (rc # rcs) h h2"
proof -
  have i: "host_inv h1" and al: "allCpus h1 = allCpus h" using e by (simp_all add: extends_def)
  have "groupPlaced n rc h2" using groupPlaced_keep [OF one i rest d] m al by simp
  moreover have "cpuPool h2 c = RReserved \<or> \<not> allocated h (cpuPool h2 c)" if "c \<in> groupCores (rc # rcs)" for c
  proof (cases "c \<in> groupCores rcs")
    case True
    from grouped_in [OF rest this] show ?thesis using e by (auto simp: extends_def)
  next
    case False
    then have c: "c \<in> set (rs_Cores rc)" "c \<in> set (allCpus h)" using that m by auto
    with False have "cpuPool h2 c = cpuPool h1 c" using rest al by (simp add: grouped_def)
    then show ?thesis using c1 [THEN bspec, OF c(2)] c p by simp
  qed
  moreover have "cpuPool h2 c = cpuPool h c" if "c \<in> set (allCpus h) - groupCores (rc # rcs)" for c
    using rest c1 al that by (simp add: grouped_def)
  moreover have "extends h h2" using rest e extends_trans by (auto simp: grouped_def)
  ultimately show ?thesis using rest m al unfolding grouped_def by simp
qed

lemma configureGroups_layout:
  assumes "host_inv h" "configureGroups n rcs sts [] h = (Ret (sts', []), h')" "distinct (concat (map rs_Cores rcs))"
  shows "grouped n rcs h h'"
  using assms
proof (induction rcs arbitrary: sts h)
  case Nil
  then show ?case by (simp add: grouped_def extends_refl)
next
  case (Cons rc rcs)
  obtain h1 where m: "MoveCPUIDs RShared (rs_Cores rc) h = (Ret (), h1)"
    using Cons.prems(2) by (auto simp: run_simps)
  note m1 = move_layout [OF Cons.prems(1) allocated_predefined(1) m]
  have i1: "host_inv h1" and al1: "allCpus h1 = allCpus h" using m1(1) by (simp_all add: extends_def)
  have d: "set (rs_Cores rc) \<inter> groupCores rcs = {}" "distinct (concat (map rs_Cores rcs))" using Cons.prems(3) by auto
  obtain h2 p where e: "extends h1 h2" "groupPlaced n rc h2" "p = RReserved \<or> \<not> allocated h1 p"
    and c: "\<forall>c \<in> set (allCpus h). cpuPool h2 c = (if c \<in> set (rs_Cores rc) then p else cpuPool h1 c)"
    and rest: "configureGroups n rcs (sts @ [groupStatus rc []]) [] h2 = (Ret (sts', []), h')"
  proof (cases "rs_PowerProfile rc = ''''")
    case True
    then obtain h2 where m': "MoveCPUIDs RReserved (rs_Cores rc) h1 = (Ret (), h2)"
      and r: "configureGroups n rcs (sts @ [groupStatus rc []]) [] h2 = (Ret (sts', []), h')"
      using Cons.prems(2) m by (auto simp: run_simps)
    note m2 = move_layout [OF i1 allocated_predefined(2) m']
    show ?thesis by (rule that [of h2 RReserved]) (use m2 r True in \<open>auto simp: groupPlaced_def\<close>)
  next
    case False
    then obtain h2 where cr: "createReservedPool rc n h1 = (Ret (), h2)"
      and r: "configureGroups n rcs (sts @ [groupStatus rc []]) [] h2 = (Ret (sts', []), h')"
      using Cons.prems(2) m configureGroups_errors
      by (fastforce simp: run_simps)
    from createReservedPool_layout [OF i1 cr] obtain p q where pq:
      "extends h1 h2" "GetExclusivePool (reservedPoolName n (rs_Cores rc)) h2 = Some p" "\<not> allocated h1 p"
      "GetExclusivePool (rs_PowerProfile rc) h2 = Some q" "pool_profile (pools h2 p) = pool_profile (pools h2 q)"
      "\<forall>c \<in> set (allCpus h1). cpuPool h2 c = (if c \<in> set (rs_Cores rc) then p else cpuPool h1 c)" by blast
    have "cpuPool h1 c \<noteq> p" if "c \<in> set (allCpus h1)" for c
      using pq(3) i1 that by (auto simp: host_inv_def membership_ok_def)
    then have "groupPlaced n rc h2" using pq False by (auto simp: groupPlaced_def extends_def)
    then show ?thesis by (intro that [of h2 p]) (use pq al1 r in auto)
  qed
  have g: "grouped n rcs h2 h'" using e(1) rest d(2) by (intro Cons.IH) (auto simp: extends_def)
  show ?case
  proof (rule grouped_Cons [of h h2 n rc p])
    show "extends h h2" using m1(1) e(1) by (rule extends_trans)
    show "p = RReserved \<or> \<not> allocated h p" using e(3) m1(1) by (auto simp: extends_def)
  qed (use Cons.prems e c g d m1 in auto)
qed

section \<open>Removing the pseudo-reserved pools\<close>

definition pseudoReserved :: "string \<Rightarrow> hostImpl \<Rightarrow> pool_ref \<Rightarrow> bool" where
  "pseudoReserved n h p = HasPrefix (pool_name (pools h p)) (reservedPrefix n)"

definition dropped :: "string \<Rightarrow> pool_ref list \<Rightarrow> hostImpl \<Rightarrow> hostImpl \<Rightarrow> bool" where
  "dropped n ps h h' \<longleftrightarrow> host_inv h' \<and> allCpus h' = allCpus h
     \<and> (\<forall>q. pool_name (pools h' q) = pool_name (pools h q) \<and> pool_profile (pools h' q) = pool_profile (pools h q)
          \<and> allocated h' q = allocated h q)
     \<and> set (exclusivePools h') = set (exclusivePools h) - {p \<in> set ps. pseudoReserved n h p}
     \<and> (\<forall>c \<in> set (allCpus h). cpuPool h' c = (if cpuPool h c \<in> set ps \<and> pseudoReserved n h (cpuPool h c) then RShared else cpuPool h c))"

lemma dropped_one:
  assumes "host_inv h" "p \<in> set (exclusivePools h)" "removeReserved n p h = (Ret (), h')"
  shows "dropped n [p] h h'"
proof (cases "pseudoReserved n h p")
  case True
  then have r: "Remove p h = (Ret (), h')" using assms(3) by (simp add: removeReserved_def pseudoReserved_def)
  have a: "allocated h p" using assms(1,2) by (rule registered_allocated)
  have "host_inv h'" using keeps_inv [of h "Ret ()" h'] libSafe_calls(5) [OF assms(1) a] r by simp
  moreover have "allocated h' q = allocated h q" for q using Remove_effect(3) [OF assms(1) a r] by (rule allocated_cong)
  moreover have "{q. q = p \<and> pseudoReserved n h q} = {p}" using True by auto
  ultimately show ?thesis using Remove_effect(2,4,6) [OF assms(1) a r] True by (simp add: dropped_def)
qed (use assms in \<open>auto simp: removeReserved_def pseudoReserved_def dropped_def\<close>)

lemma dropped_Cons:
  assumes "dropped n [p] h h1" "dropped n ps h1 h2" "p \<noteq> RShared" "RShared \<notin> set ps"
  shows "dropped n (p # ps) h h2"
proof -
  have "pseudoReserved n h1 = pseudoReserved n h" using assms(1) by (auto simp: dropped_def pseudoReserved_def)
  with assms show ?thesis by (auto simp: dropped_def)
qed

lemma removal_layout:
  assumes "host_inv h" "forEach (removeReserved n) ps h = (Ret (), h')" "set ps \<subseteq> set (exclusivePools h)" "distinct ps"
  shows "dropped n ps h h'"
  using assms
proof (induction ps arbitrary: h)
  case Nil
  then show ?case by (simp add: dropped_def)
next
  case (Cons p ps)
  from Cons.prems(2) obtain h1 where one: "removeReserved n p h = (Ret (), h1)" and rest: "forEach (removeReserved n) ps h1 = (Ret (), h')"
    by (auto simp: andThen_Ret_iff)
  have d: "dropped n [p] h h1" using Cons.prems one by (intro dropped_one) auto
  have "dropped n ps h1 h'" using d Cons.prems(3,4) rest by (intro Cons.IH) (auto simp: dropped_def)
  then show ?case
    using Cons.prems(1,3) unfolding host_inv_def registry_ok_def isExclusive_def
    by (intro dropped_Cons [OF d]) force+
qed

lemma exclusivePools_distinct: "host_inv h \<Longrightarrow> distinct (exclusivePools h)"
  by (simp add: host_inv_def registry_ok_def distinct_map)

section \<open>Success of a configuration\<close>

lemma firstRepeated_None: "firstRepeated cores seen = None \<longleftrightarrow> distinct cores \<and> set cores \<inter> set seen = {}"
  by (induction cores arbitrary: seen) auto

lemma validate_distinct:
  assumes "validatePowerNodeConfigProfiles sel c config n l k = (Ret (), k')"
  shows "distinct (concat (map rs_Cores (pncs_ReservedCPUs (pnc_Spec config))))"
  using assms firstRepeated_None [of "concat (map rs_Cores (pncs_ReservedCPUs (pnc_Spec config)))" "[]"]
  by (auto simp: validatePowerNodeConfigProfiles_def Let_def run_simps split: if_splits option.splits)

lemma configureSharedPool_layout:
  assumes h: "host_inv h" and run: "configureSharedPool config h = (Ret (), h')"
  shows "host_inv h'" "allCpus h' = allCpus h" "exclusivePools h' = exclusivePools h" "\<And>q. allocated h' q = allocated h q"
    "\<And>q. pool_name (pools h' q) = pool_name (pools h q)" "\<And>q. q \<noteq> RShared \<Longrightarrow> pool_profile (pools h' q) = pool_profile (pools h q)"
    "\<exists>q pr. GetExclusivePool (pncs_SharedPowerProfile (pnc_Spec config)) h = Some q \<and> pool_profile (pools h q) = Some pr
       \<and> pool_profile (pools h' RShared) = Some pr"
    "\<forall>c \<in> set (allCpus h). cpuPool h' c = (if cpuPool h c = RReserved then RShared else cpuPool h c)"
proof -
  obtain q pr h1 where q: "GetExclusivePool (pncs_SharedPowerProfile (pnc_Spec config)) h = Some q" "pool_profile (pools h q) = Some pr"
    and s1: "SetPowerProfile RShared (Some pr) h = (Ret (), h1)" and s2: "SetCPUIDs RReserved [] h1 = (Ret (), h')"
    using run by (auto simp: configureSharedPool_def Let_def GetPowerProfile_def andThen_Ret_iff split: option.splits)
  note f = SetPowerProfile_effect [OF h _ s1]
  have i1: "host_inv h1" using libSafe_calls(1) [OF h] s1 by (metis keeps_inv)
  note g = SetCPUIDs_effect [OF i1 allocated_predefined(2) s2]
  show "host_inv h'" using libSafe_calls(2) [OF i1 allocated_predefined(2)] s2 by (metis keeps_inv)
  show "allCpus h' = allCpus h" "exclusivePools h' = exclusivePools h" 
    "\<And>q. pool_name (pools h' q) = pool_name (pools h q)" "\<And>q. q \<noteq> RShared \<Longrightarrow> pool_profile (pools h' q) = pool_profile (pools h q)"
    using f(1) g(1) by (auto simp: host_frame_def withProfile_def)
  show "\<And>q. allocated h' q = allocated h q"
    by (rule allocated_cong) (use f(1) g(1) in \<open>simp add: host_frame_def withProfile_def\<close>)
  show "\<exists>q pr. GetExclusivePool (pncs_SharedPowerProfile (pnc_Spec config)) h = Some q \<and> pool_profile (pools h q) = Some pr
       \<and> pool_profile (pools h' RShared) = Some pr"
    using q f(1) g(1) by (auto simp: host_frame_def withProfile_def)
  show "\<forall>c \<in> set (allCpus h). cpuPool h' c = (if cpuPool h c = RReserved then RShared else cpuPool h c)"
    using f g by (auto simp: host_frame_def withProfile_def setTarget_def)
qed

lemma applyPowerNodeConfig_success:
  assumes "applyPowerNodeConfig sel c config n conflicts a = (Ret Done, a')"
  obtains h1 h2 sts where "configureSharedPool config (lib a) = (Ret (), h1)"
    "forEach (removeReserved n) (exclusivePools h1) h1 = (Ret (), h2)"
    "configureGroups n (pncs_ReservedCPUs (pnc_Spec config)) [] [] h2 = (Ret (sts, []), lib a')"
    "distinct (concat (map rs_Cores (pncs_ReservedCPUs (pnc_Spec config))))"
proof -
  obtain k h1 h2 sts where v: "validatePowerNodeConfigProfiles sel c config n (Some (lib a)) (kube a) = (Ret (), k)"
    and s: "configureSharedPool config (lib a) = (Ret (), h1)" "forEach (removeReserved n) (exclusivePools h1) h1 = (Ret (), h2)"
    "configureGroups n (pncs_ReservedCPUs (pnc_Spec config)) [] [] h2 = (Ret (sts, []), lib a')"
    using assms by (auto simp: applyPowerNodeConfig_def configureReservedPools_def Let_def onKube_Ret run_simps split: if_splits)
  from validate_distinct [OF v] show ?thesis by (rule that [OF s])
qed


lemma placed_cpus:
  assumes "host_inv h" "groupPlaced n rc h" "rs_PowerProfile rc \<noteq> ''''" "set (rs_Cores rc) \<subseteq> set (allCpus h)"
  shows "\<exists>p q. GetExclusivePool (reservedPoolName n (rs_Cores rc)) h = Some p \<and> GetExclusivePool (rs_PowerProfile rc) h = Some q
      \<and> pool_profile (pools h p) = pool_profile (pools h q) \<and> set (Cpus p h) = set (rs_Cores rc)"
proof -
  have m: "membership_ok h" using assms by (simp add: host_inv_def)
  from assms obtain p q where "GetExclusivePool (reservedPoolName n (rs_Cores rc)) h = Some p" "GetExclusivePool (rs_PowerProfile rc) h = Some q"
      "pool_profile (pools h p) = pool_profile (pools h q)" "\<forall>c \<in> set (allCpus h). cpuPool h c = p \<longleftrightarrow> c \<in> set (rs_Cores rc)"
    by (auto simp: groupPlaced_def)
  moreover from this(4) assms(4) have "set (Cpus p h) = set (rs_Cores rc)" by (auto simp: set_Cpus [OF m])
  ultimately show ?thesis by blast
qed

definition returned :: "string \<Rightarrow> hostImpl \<Rightarrow> pool_ref \<Rightarrow> bool" where
  "returned n h p \<longleftrightarrow> p = RReserved \<or> p = RShared \<or> p \<in> set (exclusivePools h) \<and> pseudoReserved n h p"

text \<open>Where the CPUs are after a successful configuration.\<close>

lemma applyPowerNodeConfig_where:
  assumes h: "host_inv (lib a)" and run: "applyPowerNodeConfig sel c config n conflicts a = (Ret Done, a')"
  defines "groups \<equiv> pncs_ReservedCPUs (pnc_Spec config)"
  shows "\<exists>h2. grouped n groups h2 (lib a') \<and> host_inv h2 \<and> allCpus h2 = allCpus (lib a)
    \<and> (\<forall>c \<in> set (allCpus (lib a)). cpuPool h2 c = (if returned n (lib a) (cpuPool (lib a) c) then RShared else cpuPool (lib a) c))
    \<and> (\<forall>q. allocated h2 q = allocated (lib a) q)
    \<and> (\<exists>q pr. GetExclusivePool (pncs_SharedPowerProfile (pnc_Spec config)) (lib a) = Some q \<and> pool_profile (pools (lib a) q) = Some pr
       \<and> pool_profile (pools h2 RShared) = Some pr)"
proof -
  from applyPowerNodeConfig_success [OF run] obtain h1 h2 sts where s1: "configureSharedPool config (lib a) = (Ret (), h1)"
    and s2: "forEach (removeReserved n) (exclusivePools h1) h1 = (Ret (), h2)"
    and s3: "configureGroups n groups [] [] h2 = (Ret (sts, []), lib a')" and d: "distinct (concat (map rs_Cores groups))"
    unfolding groups_def .
  note c1 = configureSharedPool_layout [OF h s1]
  have dr: "dropped n (exclusivePools h1) h1 h2"
    using c1(1) s2 by (rule removal_layout) (simp_all add: exclusivePools_distinct c1(1))
  have i2: "host_inv h2" using dr by (simp add: dropped_def)
  have nr: "RReserved \<notin> set (exclusivePools (lib a))"
    using h unfolding host_inv_def registry_ok_def isExclusive_def by force
  have pr: "pseudoReserved n h1 = pseudoReserved n (lib a)" using c1(5) by (simp add: pseudoReserved_def fun_eq_iff)
  have "grouped n groups h2 (lib a')" using i2 s3 d by (rule configureGroups_layout)
  moreover have "allCpus h2 = allCpus (lib a)" using dr c1(2) by (simp add: dropped_def)
  moreover have "\<forall>c \<in> set (allCpus (lib a)). cpuPool h2 c = (if returned n (lib a) (cpuPool (lib a) c) then RShared else cpuPool (lib a) c)"
  proof
    fix c assume c: "c \<in> set (allCpus (lib a))"
    have "cpuPool h2 c = (if cpuPool h1 c \<in> set (exclusivePools h1) \<and> pseudoReserved n h1 (cpuPool h1 c) then RShared else cpuPool h1 c)"
      using dr c c1(2) by (simp add: dropped_def)
    then show "cpuPool h2 c = (if returned n (lib a) (cpuPool (lib a) c) then RShared else cpuPool (lib a) c)"
      using c1(8) [THEN bspec, OF c] c1(3) pr nr by (auto simp: returned_def)
  qed
  moreover have "\<forall>q. allocated h2 q = allocated (lib a) q" using dr c1(4) by (simp add: dropped_def)
  moreover have "\<exists>q pr. GetExclusivePool (pncs_SharedPowerProfile (pnc_Spec config)) (lib a) = Some q \<and> pool_profile (pools (lib a) q) = Some pr
       \<and> pool_profile (pools h2 RShared) = Some pr" using c1(7) dr by (simp add: dropped_def)
  ultimately show ?thesis using i2 by blast
qed

text \<open>A configured host, by CPU: where the CPUs of no group are, and that the groups are placed.\<close>

definition configured :: "string \<Rightarrow> ReservedSpec list \<Rightarrow> hostImpl \<Rightarrow> hostImpl \<Rightarrow> bool" where
  "configured n groups h h' \<longleftrightarrow> host_inv h \<and> host_inv h' \<and> allCpus h' = allCpus h \<and> groupCores groups \<subseteq> set (allCpus h)
     \<and> (\<forall>rc \<in> set groups. groupPlaced n rc h')
     \<and> (\<forall>c \<in> groupCores groups. cpuPool h' c = RReserved \<or> \<not> allocated h (cpuPool h' c))
     \<and> (\<forall>c \<in> set (allCpus h) - groupCores groups. cpuPool h' c = (if returned n h (cpuPool h c) then RShared else cpuPool h c))"

lemma applyPowerNodeConfig_configured:
  assumes h: "host_inv (lib a)" and run: "applyPowerNodeConfig sel c config n conflicts a = (Ret Done, a')"
  shows "configured n (pncs_ReservedCPUs (pnc_Spec config)) (lib a) (lib a')"
    "\<exists>q pr. GetExclusivePool (pncs_SharedPowerProfile (pnc_Spec config)) (lib a) = Some q \<and> pool_profile (pools (lib a) q) = Some pr
       \<and> pool_profile (pools (lib a') RShared) = Some pr"
proof -
  from applyPowerNodeConfig_where [OF assms] obtain h2 where g: "grouped n (pncs_ReservedCPUs (pnc_Spec config)) h2 (lib a')"
    and i2: "host_inv h2" and al: "allCpus h2 = allCpus (lib a)"
    and c2: "\<forall>c \<in> set (allCpus (lib a)). cpuPool h2 c = (if returned n (lib a) (cpuPool (lib a) c) then RShared else cpuPool (lib a) c)"
    and a2: "\<forall>q. allocated h2 q = allocated (lib a) q"
    and sh: "\<exists>q pr. GetExclusivePool (pncs_SharedPowerProfile (pnc_Spec config)) (lib a) = Some q \<and> pool_profile (pools (lib a) q) = Some pr
       \<and> pool_profile (pools h2 RShared) = Some pr" by blast
  have "allocated h2 = allocated (lib a)" using a2 by (simp add: fun_eq_iff)
  with g h al c2 show "configured n (pncs_ReservedCPUs (pnc_Spec config)) (lib a) (lib a')"
    by (simp add: configured_def grouped_def extends_def)
  show "\<exists>q pr. GetExclusivePool (pncs_SharedPowerProfile (pnc_Spec config)) (lib a) = Some q \<and> pool_profile (pools (lib a) q) = Some pr
       \<and> pool_profile (pools (lib a') RShared) = Some pr"
    using sh g by (simp add: grouped_def extends_def)
qed

text \<open>The same by pool.\<close>

lemma configured_reserved:
  assumes "configured n groups h h'"
  shows "set (Cpus RReserved h') = \<Union> (set ` rs_Cores ` {rc \<in> set groups. rs_PowerProfile rc = ''''})"
proof -
  have i': "host_inv h'" and al': "allCpus h' = allCpus h" and in_all: "groupCores groups \<subseteq> set (allCpus h)"
    and placed: "\<forall>rc \<in> set groups. groupPlaced n rc h'" using assms by (simp_all add: configured_def)
  have m: "membership_ok h'" using i' by (simp add: host_inv_def)
  have fresh: "cpuPool h' c \<noteq> RReserved" if rc: "rs_PowerProfile rc \<noteq> ''''" "rc \<in> set groups" "c \<in> set (rs_Cores rc)" for rc c
  proof -
    have "c \<in> set (allCpus h')" using in_all rc al' by auto
    moreover have "groupPlaced n rc h'" using placed rc(2) by simp
    ultimately obtain p where "GetExclusivePool (reservedPoolName n (rs_Cores rc)) h' = Some p" "cpuPool h' c = p"
      using rc by (auto simp: groupPlaced_def)
    then show ?thesis using i' by (auto simp: lookup_iff host_inv_def registry_ok_def isExclusive_def)
  qed
  show ?thesis
  proof (intro equalityI subsetI)
    fix c assume "c \<in> set (Cpus RReserved h')"
    then have c: "c \<in> set (allCpus h)" "cpuPool h' c = RReserved" by (simp_all add: set_Cpus [OF m] al')
    have "c \<in> groupCores groups"
    proof (rule ccontr)
      assume "c \<notin> groupCores groups"
      then have "RReserved = (if returned n h (cpuPool h c) then RShared else cpuPool h c)"
        using assms c by (simp add: configured_def)
      then show False by (simp add: returned_def split: if_splits)
    qed
    then show "c \<in> \<Union> (set ` rs_Cores ` {rc \<in> set groups. rs_PowerProfile rc = ''''})" using fresh c by auto
  next
    fix c assume "c \<in> \<Union> (set ` rs_Cores ` {rc \<in> set groups. rs_PowerProfile rc = ''''})"
    then obtain rc where rc: "rc \<in> set groups" "rs_PowerProfile rc = ''''" "c \<in> set (rs_Cores rc)" by auto
    with placed have "groupPlaced n rc h'" by simp
    with rc show "c \<in> set (Cpus RReserved h')" using in_all al' by (auto simp: set_Cpus [OF m] groupPlaced_def)
  qed
qed

lemma configured_kept:
  assumes "configured n groups h h'" "allocated h p" "p \<noteq> RReserved"
  shows "set (Cpus p h') = {c \<in> set (allCpus h). (if returned n h (cpuPool h c) then RShared else cpuPool h c) = p} - groupCores groups"
proof (rule set_eqI)
  fix c
  have m: "membership_ok h'" "allCpus h' = allCpus h" using assms by (simp_all add: configured_def host_inv_def)
  have "c \<in> groupCores groups \<Longrightarrow> cpuPool h' c = RReserved \<or> \<not> allocated h (cpuPool h' c)"
    "c \<in> set (allCpus h) \<Longrightarrow> c \<notin> groupCores groups \<Longrightarrow> cpuPool h' c = (if returned n h (cpuPool h c) then RShared else cpuPool h c)"
    using assms(1) unfolding configured_def by blast+
  then show "c \<in> set (Cpus p h') \<longleftrightarrow>
      c \<in> {c \<in> set (allCpus h). (if returned n h (cpuPool h c) then RShared else cpuPool h c) = p} - groupCores groups"
    using assms(2,3) unfolding set_Cpus [OF m(1)] m(2)
    by (cases "c \<in> groupCores groups"; cases "c \<in> set (allCpus h)") (auto simp del: UN_iff)
qed

lemma configured_groups:
  assumes "configured n groups h h'" "rc \<in> set groups" "rs_PowerProfile rc \<noteq> ''''"
  shows "\<exists>p q. GetExclusivePool (reservedPoolName n (rs_Cores rc)) h' = Some p \<and> GetExclusivePool (rs_PowerProfile rc) h' = Some q
      \<and> pool_profile (pools h' p) = pool_profile (pools h' q) \<and> set (Cpus p h') = set (rs_Cores rc)"
  using assms by (intro placed_cpus) (auto simp: configured_def)

text \<open>
  C5.  A configuration that is applied without an error leaves the node as the object describes it: the shared
  pool runs the shared profile; the reserved pool holds exactly the cores of the groups without a profile; each
  group with a profile is exactly the content of the pool named after the node and the cores, which runs the profile of that
  name; and the shared pool holds every other CPU that was shared, reserved or in a pool of an earlier configuration.  CPUs
  of other pools stay where they are, unless the configuration reserves them.
\<close>

theorem applyPowerNodeConfig_layout:
  assumes "host_inv (lib a)" and "applyPowerNodeConfig sel c config n conflicts a = (Ret Done, a')"
  defines "h \<equiv> lib a" and "h' \<equiv> lib a'" and "groups \<equiv> pncs_ReservedCPUs (pnc_Spec config)"
  shows "(\<exists>q pr. GetExclusivePool (pncs_SharedPowerProfile (pnc_Spec config)) h = Some q \<and> pool_profile (pools h q) = Some pr
        \<and> pool_profile (pools h' RShared) = Some pr)
    \<and> set (Cpus RReserved h') = \<Union> (set ` rs_Cores ` {rc \<in> set groups. rs_PowerProfile rc = ''''})
    \<and> (\<forall>rc \<in> set groups. rs_PowerProfile rc \<noteq> '''' \<longrightarrow> (\<exists>p q. GetExclusivePool (reservedPoolName n (rs_Cores rc)) h' = Some p
        \<and> GetExclusivePool (rs_PowerProfile rc) h' = Some q \<and> pool_profile (pools h' p) = pool_profile (pools h' q)
        \<and> set (Cpus p h') = set (rs_Cores rc)))
    \<and> set (Cpus RShared h') = {c \<in> set (allCpus h). returned n h (cpuPool h c)} - groupCores groups
    \<and> (\<forall>p. allocated h p \<and> \<not> returned n h p \<longrightarrow> set (Cpus p h') = set (Cpus p h) - groupCores groups)"
proof -
  note c = applyPowerNodeConfig_configured [OF assms(1,2), folded h_def h'_def groups_def]
  have m: "membership_ok h" using assms(1) by (simp add: host_inv_def h_def)
  have "set (Cpus RShared h') = {c \<in> set (allCpus h). returned n h (cpuPool h c)} - groupCores groups"
    using configured_kept [OF c(1) allocated_predefined(1)] by (auto simp: returned_def)
  moreover have "set (Cpus p h') = set (Cpus p h) - groupCores groups" if "allocated h p" "\<not> returned n h p" for p
    using configured_kept [OF c(1) that(1)] that(2) unfolding set_Cpus [OF m] by (auto simp: returned_def)
  ultimately show ?thesis using c(2) configured_reserved [OF c(1)] configured_groups [OF c(1)] by (intro conjI ballI allI impI) simp_all
qed

section \<open>Cleaning up\<close>

lemma collectReserved_removes:
  "collectReserved n ps cores h = (Ret cores', h') \<Longrightarrow> forEach (removeReserved n) ps h = (Ret (), h')"
  by (induction n ps cores h rule: collectReserved.induct) (auto simp: removeReserved_def andThen_Ret_iff split: if_splits)

lemma collectReserved_cores:
  assumes "host_inv h" "collectReserved n ps cores h = (Ret cores', h')" "set ps \<subseteq> set (exclusivePools h)" "distinct ps"
  shows "set cores' = set cores \<union> {c \<in> set (allCpus h). cpuPool h c \<in> set ps \<and> pseudoReserved n h (cpuPool h c)}"
  using assms
proof (induction ps arbitrary: cores h)
  case (Cons p ps)
  have m: "membership_ok h" using Cons.prems(1) by (simp add: host_inv_def)
  have ps: "p \<notin> set ps" "RShared \<notin> set ps"
    using Cons.prems(1,3,4) unfolding host_inv_def registry_ok_def isExclusive_def by force+
  show ?case
  proof (cases "pseudoReserved n h p")
    case True
    then obtain h1 where r: "Remove p h = (Ret (), h1)" and rest: "collectReserved n ps (cores @ Cpus p h) h1 = (Ret cores', h')"
      using Cons.prems(2) by (auto simp: pseudoReserved_def andThen_Ret_iff)
    have d: "dropped n [p] h h1"
      using Cons.prems(1,3) True r by (intro dropped_one) (auto simp: removeReserved_def pseudoReserved_def)
    have "set cores' = set (cores @ Cpus p h) \<union> {c \<in> set (allCpus h1). cpuPool h1 c \<in> set ps \<and> pseudoReserved n h1 (cpuPool h1 c)}"
      using d Cons.prems(3,4) rest by (intro Cons.IH) (auto simp: dropped_def)
    moreover have "pseudoReserved n h1 = pseudoReserved n h" using d by (auto simp: dropped_def pseudoReserved_def)
    ultimately show ?thesis using d ps True by (auto simp: dropped_def set_Cpus [OF m])
  next
    case False
    then have "collectReserved n ps cores h = (Ret cores', h')" using Cons.prems(2) by (simp add: pseudoReserved_def)
    from Cons.IH [OF Cons.prems(1) this] Cons.prems(3,4) False show ?thesis by auto
  qed
qed simp


text \<open>
  Whatever the cluster answers and whichever step fails, reconciling a node configuration changes the power
  library only through its operations, so every CPU stays in exactly one pool and names of pools stay unique; and it does
  not panic, as long as no request to the cluster does.
\<close>

theorem powerNodeConfig_keeps_library:
  assumes "host_inv (lib a)" and "powerNodeConfig_Reconcile sel order c nodeName req a = (r, a')"
  shows "host_step\<^sup>*\<^sup>* (lib a) (lib a') \<and> host_inv (lib a') \<and> (quietClient c \<longrightarrow> \<not> isPanic r)"
  using powerNodeConfig_Reconcile_safe [OF assms(1), of c sel order nodeName req] unfolding assms(2) by (rule safeD)

section \<open>The properties at a concrete node\<close>

definition sampleConfig :: PowerNodeConfig where
  "sampleConfig = \<lparr>pnc_meta = aged ''config'' 1, pnc_Spec = \<lparr>pncs_SharedPowerProfile = ''performance'',
     pncs_NodeSelector = \<lparr>nodeLabelSelector = anySelector\<rparr>,
     pncs_ReservedCPUs = [\<lparr>rs_Cores = [0], rs_PowerProfile = ''performance''\<rparr>]\<rparr>\<rparr>"

theorem powerNodeConfig_keeps_library_witness:
  "host_inv (lib (snd (powerNodeConfig_Reconcile (\<lambda>_. Inr (\<lambda>_. True)) id sampleClient ''node''
     \<lparr>req_Namespace = PowerNamespace, req_Name = ''config''\<rparr> sampleAgent)))"
  using powerNodeConfig_keeps_library [OF sampleAgent_inv prod.collapse [symmetric]] by blast

theorem applyPowerNodeConfig_layout_witness:
  "\<exists>p. GetExclusivePool ''node-reserved-[0]'' (lib (snd (applyPowerNodeConfig (\<lambda>_. Inr (\<lambda>_. True)) sampleClient sampleConfig ''node'' [] sampleAgent))) = Some p
     \<and> set (Cpus p (lib (snd (applyPowerNodeConfig (\<lambda>_. Inr (\<lambda>_. True)) sampleClient sampleConfig ''node'' [] sampleAgent)))) = {0}"
proof -
  let ?run = "applyPowerNodeConfig (\<lambda>_. Inr (\<lambda>_. True)) sampleClient sampleConfig ''node'' [] sampleAgent"
  have "fst ?run = Ret Done" by code_simp
  then have "?run = (Ret Done, snd ?run)" by (metis prod.collapse)
  note l = applyPowerNodeConfig_layout [OF sampleAgent_inv this, THEN conjunct2, THEN conjunct2, THEN conjunct1, THEN bspec,
      of "\<lparr>rs_Cores = [0], rs_PowerProfile = ''performance''\<rparr>"]
  have "reservedPoolName ''node'' [0] = ''node-reserved-[0]''" by code_simp
  with l show ?thesis by (auto simp: sampleConfig_def)
qed


end
