(* ===== verification/UncoreSettings.thy ===== *)
theory UncoreSettings
  imports Uncore
begin

text \<open>
  The uncore settings of a topology as a map from what they are set on, and the three ways of setting one as an update of
  that map.  \<open>settled\<close> says that the files of every die hold the range in effect.
\<close>

section \<open>Settings\<close>

datatype uncoreTarget = TSystem | TPackage int | TDie int int

definition setting :: "cpuTopology \<Rightarrow> uncoreTarget \<Rightarrow> uncoreFreq option" where
  "setting tp t = (case t of
      TSystem \<Rightarrow> topology_uncore tp
    | TPackage p \<Rightarrow> Option.bind (Package p tp) package_uncore
    | TDie p d \<Rightarrow> Option.bind (Option.bind (Package p tp) (Die d)) die_uncore)"

definition present :: "cpuTopology \<Rightarrow> uncoreTarget \<Rightarrow> bool" where
  "present tp t = (case t of
      TSystem \<Rightarrow> True
    | TPackage p \<Rightarrow> Package p tp \<noteq> None
    | TDie p d \<Rightarrow> Option.bind (Package p tp) (Die d) \<noteq> None)"

definition setUncore :: "uncoreTarget \<Rightarrow> uncoreFreq option \<Rightarrow> cpuTopology \<Rightarrow> hw \<Rightarrow> unit gores \<times> cpuTopology \<times> hw" where
  "setUncore t u = (case t of
      TSystem \<Rightarrow> topology_SetUncore u
    | TPackage p \<Rightarrow> package_SetUncore p u
    | TDie p d \<Rightarrow> die_SetUncore p d u)"

definition inEffect :: "(uncoreTarget \<Rightarrow> uncoreFreq option) \<Rightarrow> uncoreFreq \<Rightarrow> int \<Rightarrow> int \<Rightarrow> uncoreFreq" where
  "inEffect \<sigma> dflt p d = (case \<sigma> (TDie p d) of Some u \<Rightarrow> u | None \<Rightarrow>
     (case \<sigma> (TPackage p) of Some u \<Rightarrow> u | None \<Rightarrow> (case \<sigma> TSystem of Some u \<Rightarrow> u | None \<Rightarrow> dflt)))"

definition carries :: "hw \<Rightarrow> int \<Rightarrow> int \<Rightarrow> uncoreFreq \<Rightarrow> bool" where
  "carries s p d u \<longleftrightarrow> contents (sys s) (UncoreFile p d uncoreMaxFreqFile) = Some (Itoa (uncore_max u))
     \<and> contents (sys s) (UncoreFile p d uncoreMinFreqFile) = Some (Itoa (uncore_min u))"

definition settled :: "cpuTopology \<Rightarrow> hw \<Rightarrow> bool" where
  "settled tp s \<longleftrightarrow> (\<forall>p d. present tp (TDie p d) \<longrightarrow> carries s p d (inEffect (setting tp) (defaultUncore s) p d))"

section \<open>The levels by their identifiers\<close>

lemma topology_ok_ids:
  assumes "topology_ok tp" "Package p tp = Some c"
  shows "package_id c = p" "Die d c = Some x \<Longrightarrow> die_id x = d" "distinct (map fst (package_dies c))"
proof -
  have k: "childrenOk package_id package_cpus (package_wf ''x86_64'') (packages tp)" using assms(1) by (simp add: topology_ok_def)
  have c: "package_wf ''x86_64'' c \<and> package_id c = p"
    using childrenOkD(2) [OF k map_of_SomeD] assms(2) by (simp add: Package_def)
  then show "package_id c = p" by simp
  have w: "childrenOk die_id die_cpus die_wf (package_dies c)" using c by (simp add: package_wf_def)
  show "die_id x = d" if "Die d c = Some x"
    using childrenOkD(2) [OF w map_of_SomeD] that by (simp add: Die_def)
  show "distinct (map fst (package_dies c))" using childrenOkD(1) [OF w] .
qed

lemma effective_setting:
  assumes "Package p tp = Some c" "Die d c = Some x"
  shows "die_getEffectiveUncore x c tp s = inEffect (setting tp) (defaultUncore s) p d"
  using assms by (simp add: die_getEffectiveUncore_def package_getEffectiveUncore_def topology_getEffectiveUncore_def
      inEffect_def setting_def split: option.splits)

lemma present_TDie: "present tp (TDie p d) \<longleftrightarrow> (\<exists>c x. Package p tp = Some c \<and> Die d c = Some x)"
  by (auto simp: present_def bind_eq_Some_conv)

lemma Package_in: "Package p tp = Some c \<Longrightarrow> c \<in> set (Packages tp)"
  by (auto simp: Package_def Packages_def dest!: map_of_SomeD intro: rev_image_eqI)

lemma Die_in: "Die d c = Some x \<Longrightarrow> x \<in> set (Dies c)"
  by (auto simp: Die_def Dies_def dest!: map_of_SomeD intro: rev_image_eqI)

lemma carries_touches: "touches F s s' \<Longrightarrow> uncoreFiles p d \<inter> F = {} \<Longrightarrow> carries s' p d u = carries s p d u"
  by (auto simp: touches_def carries_def uncoreFiles_def)

lemma package_applyUncore_carries:
  assumes "topology_ok tp" "Package p tp = Some c" "package_applyUncore tp c s = (Ret (), t)" "Die d c = Some x"
  shows "carries t p d (inEffect (setting tp) (defaultUncore s) p d)"
  using package_applyUncore_Ret [OF assms(3) Die_in [OF assms(4)] topology_ok_dies [OF assms(1) Package_in [OF assms(2)]]]
    topology_ok_ids [OF assms(1,2)] assms(4) effective_setting [OF assms(2,4), of s]
  by (simp add: carries_def)

lemma packageFiles_disjoint:
  assumes "topology_ok tp" "y \<in> set (Packages tp)" "z \<in> set (Packages tp)" "y \<noteq> z"
  shows "packageFiles y \<inter> packageFiles z = {}"
proof -
  have "package_id y \<noteq> package_id z" using assms topology_ok_packages(2) [OF assms(1)] by (auto dest: inj_onD)
  then show ?thesis by (auto simp: packageFiles_def uncoreFiles_def)
qed

lemma inEffect_knowledge: "knowledge s = knowledge t \<Longrightarrow> defaultUncore s = defaultUncore t"
  by (rule knowledge_fields(6))

lemma topology_applyUncore_carries:
  assumes "topology_ok tp" "topology_applyUncore tp s = (Ret (), t)"
  shows "settled tp t" "knowledge t = knowledge s"
proof -
  have "touches (\<Union> (packageFiles ` set (Packages tp))) s t"
    using packageWrites.forEach_touches [of "Packages tp" s tp] assms(2) by (simp add: topology_applyUncore_def)
  then show k: "knowledge t = knowledge s" by (auto simp: touches_def)
  show "settled tp t"
    unfolding settled_def
  proof (intro allI impI)
    fix p d assume "present tp (TDie p d)"
    then obtain c x where cx: "Package p tp = Some c" "Die d c = Some x" by (auto simp: present_TDie)
    from packageWrites.forEach_result [OF assms(2) [unfolded topology_applyUncore_def] Package_in [OF cx(1)]
        topology_ok_packages(1) [OF assms(1)] packageFiles_disjoint [OF assms(1)]]
    obtain s1 s2 where w: "package_applyUncore tp c s1 = (Ret (), s2)" "knowledge s1 = knowledge s"
      "\<forall>p \<in> packageFiles c. contents (sys t) p = contents (sys s2) p" by blast
    have "uncoreFiles p d \<subseteq> packageFiles c"
      using Die_in [OF cx(2)] topology_ok_ids(1) [OF assms(1) cx(1)] topology_ok_ids(2) [OF assms(1) cx]
      by (auto simp: packageFiles_def)
    then have "carries t p d u = carries s2 p d u" for u using w(3) by (auto simp: carries_def uncoreFiles_def)
    then show "carries t p d (inEffect (setting tp) (defaultUncore t) p d)"
      using package_applyUncore_carries [OF assms(1) cx(1) w(1) cx(2)] w(2) k inEffect_knowledge [of s1 t] by simp
  qed
qed

section \<open>Setting one range\<close>

text \<open>What setting \<open>u\<close> on a target leaves: the map of settings updated, everything else of the topology as it was.\<close>

definition updated :: "uncoreTarget \<Rightarrow> uncoreFreq option \<Rightarrow> cpuTopology \<Rightarrow> cpuTopology \<Rightarrow> bool" where
  "updated t u tp tp' \<longleftrightarrow> topology_ok tp' \<and> setting tp' = (setting tp)(t := u) \<and> present tp' = present tp
     \<and> topology_cpus tp' = topology_cpus tp"

lemma bind_Some_None: "Option.bind x f \<noteq> None \<longleftrightarrow> (\<exists>y. x = Some y \<and> f y \<noteq> None)"
  by (cases x) auto

lemma setUncore_updates:
  assumes ok: "topology_ok tp" and p: "present tp t" and run: "setUncore t u tp s = (r, tp', s')"
  shows "updated t u tp tp'"
proof -
  have ok': "topology_ok tp'"
    using SetUncore_keeps_topology [OF ok] run by (cases t) (auto simp: setUncore_def)
  show ?thesis
  proof (cases t)
    case TSystem
    then have "tp' = tp\<lparr>topology_uncore := u\<rparr>" using run by (auto simp: setUncore_def topology_SetUncore_def Let_def split: prod.splits)
    then show ?thesis using ok' TSystem
      by (auto simp: updated_def setting_def present_def Package_def fun_eq_iff split: uncoreTarget.splits)
  next
    case (TPackage q)
    then obtain c where c: "Package q tp = Some c" "tp' = tp\<lparr>packages := AList.update q (c\<lparr>package_uncore := u\<rparr>) (packages tp)\<rparr>"
      using run p by (auto simp: setUncore_def present_def package_SetUncore_def Let_def split: prod.splits)
    have "Package r tp' = (if r = q then Some (c\<lparr>package_uncore := u\<rparr>) else Package r tp)" for r
      by (simp add: c(2) Package_def update_conv')
    then show ?thesis using ok' c TPackage
      by (auto simp: updated_def setting_def present_def Die_def fun_eq_iff split: uncoreTarget.splits)
  next
    case (TDie q e)
    then obtain c x where c: "Package q tp = Some c" "Die e c = Some x"
      "tp' = tp\<lparr>packages := AList.update q (c\<lparr>package_dies := AList.update e (x\<lparr>die_uncore := u\<rparr>) (package_dies c)\<rparr>) (packages tp)\<rparr>"
      using run p by (auto simp: setUncore_def present_TDie die_SetUncore_def Let_def split: prod.splits)
    let ?c = "c\<lparr>package_dies := AList.update e (x\<lparr>die_uncore := u\<rparr>) (package_dies c)\<rparr>"
    have "Package r tp' = (if r = q then Some ?c else Package r tp)" for r by (simp add: c(3) Package_def update_conv')
    moreover have "Die r ?c = (if r = e then Some (x\<lparr>die_uncore := u\<rparr>) else Die r c)" for r by (simp add: Die_def update_conv')
    ultimately show ?thesis using ok' c TDie
      by (auto simp: updated_def setting_def present_def fun_eq_iff split: uncoreTarget.splits)
  qed
qed

text \<open>The dies whose files setting a range on a target writes.\<close>

fun concerns :: "uncoreTarget \<Rightarrow> int \<Rightarrow> int \<Rightarrow> bool" where
  "concerns TSystem p d = True"
| "concerns (TPackage q) p d = (p = q)"
| "concerns (TDie q e) p d = (p = q \<and> d = e)"

lemma inEffect_other: "\<not> concerns t p d \<Longrightarrow> inEffect (\<sigma>(t := u)) dflt p d = inEffect \<sigma> dflt p d"
  by (cases t) (auto simp: inEffect_def split: option.split)

lemma setUncore_writes:
  assumes ok: "topology_ok tp" and p: "present tp t" and run: "setUncore t u tp s = (Ret (), tp', s')"
  shows "touches (\<Union> {uncoreFiles p d |p d. concerns t p d}) s s'"
    "present tp (TDie p d) \<Longrightarrow> concerns t p d \<Longrightarrow> carries s' p d (inEffect (setting tp') (defaultUncore s) p d)"
proof -
  note up = setUncore_updates [OF assms]
  have ok': "topology_ok tp'" and pr: "present tp' = present tp" using up by (simp_all add: updated_def)
  have "touches (\<Union> {uncoreFiles p d |p d. concerns t p d}) s s'
    \<and> (\<forall>p d. present tp' (TDie p d) \<longrightarrow> concerns t p d \<longrightarrow> carries s' p d (inEffect (setting tp') (defaultUncore s) p d))"
  proof (cases t)
    case TSystem
    then have a: "topology_applyUncore tp' s = (Ret (), s')"
      using run by (auto simp: setUncore_def topology_SetUncore_def Let_def split: prod.splits)
    have "touches (\<Union> (packageFiles ` set (Packages tp'))) s s'"
      using packageWrites.forEach_touches [of "Packages tp'" s tp'] a by (simp add: topology_applyUncore_def)
    then have "touches (\<Union> {uncoreFiles p d |p d. concerns t p d}) s s'"
      using TSystem by (auto simp: touches_def packageFiles_def)
    then show ?thesis
      using topology_applyUncore_carries [OF ok' a] inEffect_knowledge [of s' s] by (auto simp: settled_def)
  next
    case (TPackage q)
    then obtain c where c: "Package q tp' = Some c" "package_applyUncore tp' c s = (Ret (), s')"
      using run p by (auto simp: setUncore_def present_def package_SetUncore_def Let_def Package_def update_conv' split: prod.splits)
    have "touches (packageFiles c) s s'" using packageWrites.owned [of c s tp'] c(2) by simp
    then have "touches (\<Union> {uncoreFiles p d |p d. concerns t p d}) s s'"
      using TPackage topology_ok_ids(1) [OF ok' c(1)] by (fastforce simp: touches_def packageFiles_def)
    then show ?thesis using package_applyUncore_carries [OF ok' c(1,2)] TPackage c(1) by (auto simp: present_TDie)
  next
    case (TDie q e)
    then obtain c x where c: "Package q tp' = Some c" "Die e c = Some x" "die_applyUncore tp' c x s = (Ret (), s')"
      using run p by (auto simp: setUncore_def present_TDie die_SetUncore_def Let_def Package_def Die_def update_conv' split: prod.splits)
    have w: "uncore_write (inEffect (setting tp') (defaultUncore s) q e) q e s = (Ret (), s')"
      using c(3) effective_setting [OF c(1,2)] topology_ok_ids(1) [OF ok' c(1)] topology_ok_ids(2) [OF ok' c(1,2)]
      by (simp add: die_applyUncore_def)
    have "touches (uncoreFiles q e) s s'" using uncore_write_frame [of q e s] w by (metis snd_conv)
    then have "touches (\<Union> {uncoreFiles p d |p d. concerns t p d}) s s'" using TDie by simp
    then show ?thesis using uncore_write_Ret [OF w] TDie by (simp add: carries_def)
  qed
  then show "touches (\<Union> {uncoreFiles p d |p d. concerns t p d}) s s'"
    "present tp (TDie p d) \<Longrightarrow> concerns t p d \<Longrightarrow> carries s' p d (inEffect (setting tp') (defaultUncore s) p d)"
    by (simp_all add: pr)
qed

lemma setUncore_effect:
  assumes ok: "topology_ok tp" and p: "present tp t" and run: "setUncore t u tp s = (Ret (), tp', s')"
  shows "updated t u tp tp'" "knowledge s' = knowledge s" "settled tp s \<or> t = TSystem \<Longrightarrow> settled tp' s'"
proof -
  show up: "updated t u tp tp'" using assms by (rule setUncore_updates)
  note w = setUncore_writes [OF assms]
  show k: "knowledge s' = knowledge s" using w(1) by (simp add: touches_def)
  assume st: "settled tp s \<or> t = TSystem"
  show "settled tp' s'"
    unfolding settled_def
  proof (intro allI impI)
    fix p d assume "present tp' (TDie p d)"
    then have pr: "present tp (TDie p d)" using up by (simp add: updated_def)
    have dflt: "defaultUncore s' = defaultUncore s" using k by (rule inEffect_knowledge)
    show "carries s' p d (inEffect (setting tp') (defaultUncore s') p d)"
    proof (cases "concerns t p d")
      case True
      then show ?thesis using w(2) [OF pr] dflt by simp
    next
      case False
      then have "t \<noteq> TSystem" by auto
      then have "carries s p d (inEffect (setting tp) (defaultUncore s) p d)" using st pr by (simp add: settled_def)
      moreover have "uncoreFiles p d \<inter> \<Union> {uncoreFiles p d |p d. concerns t p d} = {}"
        using False by (auto simp: uncoreFiles_def)
      ultimately show ?thesis
        using carries_touches [OF w(1)] inEffect_other [OF False] up dflt by (simp add: updated_def)
    qed
  qed
qed

end
