(* ===== verification/UncoreController.thy ===== *)
theory UncoreController
  imports Library_Calls UncoreSettings
begin

text \<open>
  The Uncore controller (\<^verbatim>\<open>controllers/uncore_controller.go\<close>): the range of uncore frequencies that one of the
  matching objects asks for, machine-wide, per package or per die.  Whether the library has a topology is the argument
  \<open>hasTopology\<close>; the topology of the model's host always exists.
\<close>

section \<open>Model\<close>

abbreviation "FieldOwnerUncoreController \<equiv> ''uncore-controller''"

text \<open>Calls of the topology, on the host and its machine.\<close>

definition onTopology :: "(cpuTopology \<Rightarrow> hw \<Rightarrow> unit gores \<times> cpuTopology \<times> hw) \<Rightarrow> (unit, hostImpl) action" where
  "onTopology f h = (case f (topology h) (machineOf h) of (r, tp, m) \<Rightarrow> (r, h\<lparr>topology := tp, machineOf := m\<rparr>))"

definition resetPackage :: "cpuPackage \<Rightarrow> (unit, hostImpl) action" where
  "resetPackage pkg h =
     andThen (onTopology (package_SetUncore (package_id pkg) None) h) (\<lambda>_.
       forEach (\<lambda>die. onTopology (die_SetUncore (package_id pkg) (die_id die) None)) (Dies pkg))"

definition resetUncoreSettings :: "(unit, hostImpl) action" where
  "resetUncoreSettings h =
     andThen (onTopology (topology_SetUncore None) h) (\<lambda>_ h1. forEach resetPackage (Packages (topology h1)) h1)"

definition uncoreActiveName :: "PowerNodeStateStatus \<Rightarrow> string" where
  "uncoreActiveName s = (case pns_Uncore s of Some u \<Rightarrow> nus_Name u | None \<Rightarrow> '''')"

definition uncoreSelector :: "Uncore \<Rightarrow> LabelSelector" where
  "uncoreSelector u = nodeLabelSelector (us_NodeSelector (uncore_Spec u))"

definition getMatchingUncores :: "selectors \<Rightarrow> 'k client \<Rightarrow> string \<Rightarrow> (Uncore list, 'k) action" where
  "getMatchingUncores sel c nodeName k =
     andThen (wrapErr (''failed to get node '' @ nodeName) (Get_Node c nodeName k)) (\<lambda>node k1.
     andThen (wrapErr ''failed to list Uncores'' (List_Uncores c PowerNamespace k1)) (\<lambda>items k2.
       (Ret (filterByNodeSelector sel items (meta_Labels (node_meta node)) uncoreSelector), k2)))"

abbreviation "num n \<equiv> Itoa (int n)"

text \<open>
  The result of a part of the specification: an error for the status, or the text of what was applied.
\<close>

definition applySystem :: "nat \<Rightarrow> nat \<Rightarrow> (string + string, hostImpl) action" where
  "applySystem mn mx h = (case NewUncore (int mn) (int mx) (machineOf h) of
      Ret pUncore \<Rightarrow> andThen (attempt (onTopology (topology_SetUncore (Some pUncore)) h)) (\<lambda>r h1. (Ret (case r of
          Inl err \<Rightarrow> Inl (''error setting system uncore: '' @ ErrorText err)
        | Inr _ \<Rightarrow> Inr (''SysMin: '' @ num mn @ '', SysMax: '' @ num mx)), h1))
    | Fail err \<Rightarrow> (Ret (Inl (''error creating system uncore: '' @ ErrorText err)), h)
    | Panic m \<Rightarrow> (Panic m, h))"

definition applyPackage :: "nat \<Rightarrow> nat \<Rightarrow> nat \<Rightarrow> uncoreFreq \<Rightarrow> (string + string, hostImpl) action" where
  "applyPackage pkg mn mx pUncore h = (case Package (int pkg) (topology h) of
      None \<Rightarrow> (Ret (Inl (''invalid package: '' @ num pkg)), h)
    | Some _ \<Rightarrow> andThen (attempt (onTopology (package_SetUncore (int pkg) (Some pUncore)) h)) (\<lambda>r h1. (Ret (case r of
          Inl err \<Rightarrow> Inl (''error setting uncore for package '' @ num pkg @ '': '' @ ErrorText err)
        | Inr _ \<Rightarrow> Inr (''Package '' @ num pkg @ '': Min '' @ num mn @ '', Max '' @ num mx)), h1)))"

definition applyDie :: "nat \<Rightarrow> nat \<Rightarrow> nat \<Rightarrow> nat \<Rightarrow> uncoreFreq \<Rightarrow> (string + string, hostImpl) action" where
  "applyDie pkg die mn mx pUncore h = (case Package (int pkg) (topology h) of
      None \<Rightarrow> (Ret (Inl (''invalid package: '' @ num pkg)), h)
    | Some c \<Rightarrow> (case Die (int die) c of
        None \<Rightarrow> (Ret (Inl (''invalid die: '' @ num die)), h)
      | Some _ \<Rightarrow> andThen (attempt (onTopology (die_SetUncore (int pkg) (int die) (Some pUncore)) h)) (\<lambda>r h1. (Ret (case r of
            Inl err \<Rightarrow> Inl (''error setting uncore for package '' @ num pkg @ '' die '' @ num die @ '': '' @ ErrorText err)
          | Inr _ \<Rightarrow> Inr (''Package '' @ num pkg @ '' Die '' @ num die @ '': Min '' @ num mn @ '', Max '' @ num mx)), h1))))"

definition applySelector :: "DieSelector \<Rightarrow> (string + string, hostImpl) action" where
  "applySelector dieselect h = (case (ds_Max dieselect, ds_Min dieselect, ds_Package dieselect) of
      (Some mx, Some mn, Some pkg) \<Rightarrow> (case NewUncore (int mn) (int mx) (machineOf h) of
          Ret pUncore \<Rightarrow> (case ds_Die dieselect of
              None \<Rightarrow> applyPackage pkg mn mx pUncore h
            | Some die \<Rightarrow> applyDie pkg die mn mx pUncore h)
        | Fail err \<Rightarrow> (Ret (Inl (''error creating uncore for package '' @ num pkg @ '': '' @ ErrorText err)), h)
        | Panic m \<Rightarrow> (Panic m, h))
    | _ \<Rightarrow> (Ret (Inl ''die selector max, min and package fields must not be empty''), h))"

primrec applySelectors :: "DieSelector list \<Rightarrow> ((string + string) list, hostImpl) action" where
  "applySelectors [] h = (Ret [], h)"
| "applySelectors (d # ds) h = andThen (applySelector d h) (\<lambda>x h1. andThen (applySelectors ds h1) (\<lambda>xs h2. (Ret (x # xs), h2)))"

definition applySpec :: "UncoreSpec \<Rightarrow> ((string + string) list, hostImpl) action" where
  "applySpec spec h =
     andThen (case (us_SysMax spec, us_SysMin spec) of
         (Some mx, Some mn) \<Rightarrow> andThen (applySystem mn mx h) (\<lambda>x h1. (Ret [x], h1))
       | _ \<Rightarrow> (Ret [], h)) (\<lambda>xs h1.
     andThen (case us_DieSelectors spec of None \<Rightarrow> (Ret [], h1) | Some ds \<Rightarrow> applySelectors ds h1) (\<lambda>ys h2. (Ret (xs @ ys), h2)))"

definition lefts :: "('a + 'b) list \<Rightarrow> 'a list" where
  "lefts xs = concat (map (\<lambda>x. case x of Inl a \<Rightarrow> [a] | Inr _ \<Rightarrow> []) xs)"

definition rights :: "('a + 'b) list \<Rightarrow> 'b list" where
  "rights xs = concat (map (\<lambda>x. case x of Inl _ \<Rightarrow> [] | Inr b \<Rightarrow> [b]) xs)"

definition updateUncoreInPowerNodeState :: "'k client \<Rightarrow> string \<Rightarrow> string \<Rightarrow> string \<Rightarrow> string list \<Rightarrow> (unit, 'k) action" where
  "updateUncoreInPowerNodeState c nodeName crName configString statusErrors k =
     andThen (attempt (Patch_Status c PowerNamespace (powerNodeStateName nodeName)
        (emptyStatus\<lparr>pns_Uncore := Some \<lparr>nus_Name = crName, nus_Config = configString, nus_Errors = statusErrors\<rparr>\<rparr>)
        FieldOwnerUncoreController k)) (\<lambda>r k1. (case r of
          Inl err \<Rightarrow> (if isNotFoundErr err
            then (Fail (Msg (''PowerNodeState '' @ powerNodeStateName nodeName @ '' not found, requeueing'')), k1)
            else (Fail (Wrap ''failed to update PowerNodeState uncore status'' err), k1))
        | Inr _ \<Rightarrow> (Ret (), k1)))"

definition removeUncoreFromPowerNodeState :: "'k client \<Rightarrow> string \<Rightarrow> (unit, 'k) action" where
  "removeUncoreFromPowerNodeState c nodeName k =
     andThen (attempt (Patch_Status c PowerNamespace (powerNodeStateName nodeName) emptyStatus FieldOwnerUncoreController k))
       (\<lambda>r k1. (case r of
          Inl err \<Rightarrow> (if isNotFoundErr err then (Ret (), k1) else (Fail (Wrap ''failed to remove uncore status'' err), k1))
        | Inr _ \<Rightarrow> (Ret (), k1)))"

abbreviation "noUncoreConfiguration \<equiv>
  ''no valid uncore configuration: requires either both sysMin and sysMax, or non-empty dieSelectors''"

definition applyUncoreConfig :: "'k client \<Rightarrow> Uncore \<Rightarrow> string \<Rightarrow> string list \<Rightarrow> (ctrlResult, 'k agent) action" where
  "applyUncoreConfig c u nodeName conflictErrors a =
     (let spec = uncore_Spec u; name = meta_Name (uncore_meta u);
          hasSysWide = us_SysMax spec \<noteq> None \<and> us_SysMin spec \<noteq> None;
          hasDieSelectors = us_DieSelectors spec \<noteq> None \<and> us_DieSelectors spec \<noteq> Some [] in
      if \<not> hasSysWide \<and> \<not> hasDieSelectors
      then andThen (onKube (updateUncoreInPowerNodeState c nodeName name '''' [noUncoreConfiguration]) a) (\<lambda>_ a1.
             (Fail (Msg noUncoreConfiguration), a1))
      else andThen (onLib resetUncoreSettings a) (\<lambda>_ a1.
           andThen (onLib (applySpec spec) a1) (\<lambda>outcomes a2.
           andThen (onKube (updateUncoreInPowerNodeState c nodeName name (Join ''; '' (rights outcomes))
               (conflictErrors @ lefts outcomes)) a2) (\<lambda>_ a3.
             if lefts outcomes \<noteq> [] then (Fail (Msg (''errors applying uncore config: '' @ Join ''; '' (lefts outcomes))), a3)
             else (Ret Done, a3)))))"

definition uncore_Reconcile ::
    "selectors \<Rightarrow> bool \<Rightarrow> 'k client \<Rightarrow> string \<Rightarrow> Request \<Rightarrow> (ctrlResult, 'k agent) action" where
  "uncore_Reconcile sel hasTopology c nodeName req a =
     (if req_Namespace req \<noteq> PowerNamespace then (Ret Done, a)
      else if nodeName = '''' then (Fail (Msg ''NODE_NAME environment variable not set''), a)
      else if \<not> hasTopology then (Fail (Msg ''power library topology not available''), a)
      else andThen (onKube (getMatchingUncores sel c nodeName) a) (\<lambda>matches a1.
        andThen (attempt (onKube (getActiveResourceName c nodeName uncoreActiveName) a1)) (\<lambda>r a2. (case r of
            Inl err \<Rightarrow> (if isNotFoundErr err then (Ret RequeueAfter, a2) else (Fail err, a2))
          | Inr activeUncoreName \<Rightarrow> (case selectActiveOrOldest uncore_meta matches activeUncoreName of
              (None, _) \<Rightarrow>
                (if activeUncoreName \<noteq> ''''
                 then andThen (onLib resetUncoreSettings a2) (\<lambda>_ a3.
                      andThen (onKube (removeUncoreFromPowerNodeState c nodeName) a3) (\<lambda>_ a4. (Ret Done, a4)))
                 else (Ret Done, a2))
            | (Some selected, byAge) \<Rightarrow>
                applyUncoreConfig c selected nodeName
                  (if length byAge > 1
                   then map (\<lambda>m. ''conflicting Uncore: '' @ meta_Name (uncore_meta m))
                     (filter (\<lambda>m. meta_Name (uncore_meta m) \<noteq> meta_Name (uncore_meta selected)) byAge) else []) a2)))))"

definition enqueueUncoreReconcile :: "'k client \<Rightarrow> (Request list, 'k) action" where
  "enqueueUncoreReconcile c k =
     andThen (attempt (List_Uncores c PowerNamespace k)) (\<lambda>r k1.
       (Ret (case r of Inl _ \<Rightarrow> [] | Inr items \<Rightarrow> firstRequest uncore_meta items), k1))"

text \<open>The filter of the watch on nodes; labels are maps.\<close>

definition nodeLabelsChanged :: "string \<Rightarrow> Node \<Rightarrow> Node \<Rightarrow> bool" where
  "nodeLabelsChanged nodeName oldNode newNode =
     (if meta_Name (node_meta newNode) \<noteq> nodeName then False
      else (let l1 = meta_Labels (node_meta oldNode); l2 = meta_Labels (node_meta newNode) in
        \<not> list_all (\<lambda>k. map_of l1 k = map_of l2 k) (map fst l1 @ map fst l2)))"

section \<open>The pools are left alone\<close>

text \<open>Everything of the host but its uncore settings and the files of the machine.\<close>

definition apart :: "hostImpl \<Rightarrow> hostImpl \<Rightarrow> bool" where
  "apart h h' \<longleftrightarrow> topology_ok (topology h') \<and> present (topology h') = present (topology h)
     \<and> topology_cpus (topology h') = topology_cpus (topology h) \<and> knowledge (machineOf h') = knowledge (machineOf h)
     \<and> exclusivePools h' = exclusivePools h \<and> nextPool h' = nextPool h \<and> pools h' = pools h \<and> cpuPool h' = cpuPool h
     \<and> host_name h' = host_name h"

lemma apart_refl: "topology_ok (topology h) \<Longrightarrow> apart h h"
  by (simp add: apart_def)

lemma apart_trans: "apart h h1 \<Longrightarrow> apart h1 h2 \<Longrightarrow> apart h h2"
  by (simp add: apart_def)

lemma apart_inv:
  assumes "apart h h'" "host_inv h"
  shows "host_inv h'"
proof -
  have "allCpus h' = allCpus h" using assms(1) by (simp add: apart_def topology_CPUs_def)
  then have "host_frame h h'" "Cpus p h' = Cpus p h" "cpuPool h' = cpuPool h" for p
    using assms(1) by (simp_all add: apart_def host_frame_def Cpus_def)
  moreover from this have "membership_ok h'"
    using assms(2) host_frame_allocated [of h h'] by (simp add: membership_ok_def host_inv_def host_frame_def)
  ultimately show ?thesis using assms(2) by (blast intro: host_frame_inv)
qed

abbreviation uncoreSafe :: "hostImpl \<Rightarrow> 'a gores \<times> hostImpl \<Rightarrow> bool" where
  "uncoreSafe \<equiv> guarded apart True"

interpretation uncoreProgress: progress apart
  by unfold_locales (rule apart_trans)

lemma uncoreSafe_andThen:
  assumes "uncoreSafe h r"
    and "\<And>x h'. r = (Ret x, h') \<Longrightarrow> topology_ok (topology h') \<Longrightarrow> present (topology h') = present (topology h) \<Longrightarrow> uncoreSafe h' (f x h')"
  shows "uncoreSafe h (andThen r f)"
  using assms(1) by (rule uncoreProgress.andThen) (use assms(2) in \<open>simp add: apart_def\<close>)

lemma uncore_write_no_panic: "\<not> isPanic (fst (uncore_write u p d s))"
  by (simp add: uncore_write_def andThen_isPanic_iff)

interpretation dieTotal: total_keeping "die_applyUncore tp c" "\<lambda>_. True" for tp c
  by unfold_locales (simp_all add: die_applyUncore_def uncore_write_no_panic)

interpretation packageTotal: total_keeping "package_applyUncore tp" "\<lambda>_. True" for tp
  by unfold_locales (simp_all add: package_applyUncore_def dieTotal.forEach_no_panic)

lemma setUncore_total:
  assumes "present tp t"
  shows "\<not> isPanic (fst (setUncore t u tp s))" "knowledge (snd (snd (setUncore t u tp s))) = knowledge s"
proof -
  have k: "knowledge (snd (package_applyUncore tp' c s)) = knowledge s" for tp' c
    using packageWrites.owned [of c s tp'] by (simp add: touches_def)
  have k2: "knowledge (snd (topology_applyUncore tp' s)) = knowledge s" for tp'
    using packageWrites.forEach_touches [of "Packages tp'" s tp'] by (simp add: touches_def topology_applyUncore_def)
  have k3: "knowledge (snd (die_applyUncore tp' c x s)) = knowledge s" for tp' c x
    using dieWrites.owned [of c x s tp'] by (simp add: touches_def)
  have n: "\<not> isPanic (fst (topology_applyUncore tp' s))" "\<not> isPanic (fst (package_applyUncore tp' c s))"
    "\<not> isPanic (fst (die_applyUncore tp' c x s))" for tp' c x
    by (simp_all add: topology_applyUncore_def packageTotal.forEach_no_panic packageTotal.no_panic dieTotal.no_panic)
  note d = setUncore_def topology_SetUncore_def package_SetUncore_def die_SetUncore_def Let_def case_prod_beta
  have "\<not> isPanic (fst (setUncore t u tp s)) \<and> knowledge (snd (snd (setUncore t u tp s))) = knowledge s"
  proof (cases t)
    case (TDie p e)
    with assms obtain c x where "Package p tp = Some c" "Die e c = Some x" by (auto simp: present_TDie)
    with TDie show ?thesis by (simp add: d k3 n)
  qed (use assms in \<open>auto simp: present_def d k k2 n\<close>)
  then show "\<not> isPanic (fst (setUncore t u tp s))" "knowledge (snd (snd (setUncore t u tp s))) = knowledge s" by simp_all
qed

lemma set_levels:
  "topology_SetUncore = setUncore TSystem" "package_SetUncore p = setUncore (TPackage p)" "die_SetUncore p d = setUncore (TDie p d)"
  by (simp_all add: setUncore_def fun_eq_iff)

lemma setUncore_safe:
  assumes "topology_ok (topology h)" "present (topology h) t"
  shows "uncoreSafe h (onTopology (setUncore t u) h)"
proof -
  obtain r tp m where run: "setUncore t u (topology h) (machineOf h) = (r, tp, m)" by (metis prod.collapse)
  from setUncore_updates [OF assms run] setUncore_total [OF assms(2), of u "machineOf h"] show ?thesis
    by (simp add: guarded_def onTopology_def run apart_def updated_def)
qed

text \<open>Clearing a list of targets; the reset is one such list.\<close>

definition clearAll :: "uncoreTarget list \<Rightarrow> (unit, hostImpl) action" where
  "clearAll ts = forEach (\<lambda>t. onTopology (setUncore t None)) ts"

definition packageTargets :: "cpuPackage \<Rightarrow> uncoreTarget list" where
  "packageTargets pkg = TPackage (package_id pkg) # map (\<lambda>die. TDie (package_id pkg) (die_id die)) (Dies pkg)"

lemma forEach_append: "forEach f (xs @ ys) s = andThen (forEach f xs s) (\<lambda>_. forEach f ys)"
proof (induction xs arbitrary: s)
  case (Cons x xs)
  show ?case by (cases "f x s"; cases "fst (f x s)") (auto simp: Cons)
qed simp

lemma forEach_map: "forEach f (map g xs) s = forEach (\<lambda>x. f (g x)) xs s"
proof (induction xs arbitrary: s)
  case (Cons x xs)
  show ?case by (cases "f (g x) s"; cases "fst (f (g x) s)") (auto simp: Cons)
qed simp

lemma forEach_concat: "forEach (\<lambda>x. forEach f (g x)) xs s = forEach f (concat (map g xs)) s"
proof (induction xs arbitrary: s)
  case (Cons x xs)
  show ?case by (cases "forEach f (g x) s"; cases "fst (forEach f (g x) s)") (auto simp: Cons forEach_append)
qed simp

lemma resetPackage_clears: "resetPackage pkg = clearAll (packageTargets pkg)"
  by (simp add: fun_eq_iff resetPackage_def clearAll_def packageTargets_def set_levels forEach_map)

lemma reset_clears:
  "resetUncoreSettings h = andThen (onTopology (setUncore TSystem None) h) (\<lambda>_ h1.
     clearAll (concat (map packageTargets (Packages (topology h1)))) h1)"
proof -
  have "forEach resetPackage ps h = clearAll (concat (map packageTargets ps)) h" for ps h
    using forEach_concat [of "\<lambda>t. onTopology (setUncore t None)" packageTargets ps h]
    by (simp only: clearAll_def [symmetric] resetPackage_clears [symmetric] )
  then show ?thesis by (simp add: resetUncoreSettings_def set_levels)
qed

lemma in_Packages:
  assumes "topology_ok tp"
  shows "c \<in> set (Packages tp) \<longleftrightarrow> Package (package_id c) tp = Some c"
proof -
  have k: "childrenOk package_id package_cpus (package_wf ''x86_64'') (packages tp)" using assms by (simp add: topology_ok_def)
  have "Package (package_id c) tp = Some c \<longleftrightarrow> (package_id c, c) \<in> set (packages tp)"
    using childrenOkD(1) [OF k] by (simp add: Package_def)
  moreover have "c \<in> set (Packages tp) \<longleftrightarrow> (\<exists>i. (i, c) \<in> set (packages tp))" by (auto simp: Packages_def intro: rev_image_eqI)
  ultimately show ?thesis using childrenOkD(2) [OF k] by auto
qed

lemma in_Dies:
  assumes "topology_ok tp" "Package p tp = Some c"
  shows "x \<in> set (Dies c) \<longleftrightarrow> Die (die_id x) c = Some x"
proof -
  have k: "Die i c = Some x \<longleftrightarrow> (i, x) \<in> set (package_dies c)" for i
    using topology_ok_ids(3) [OF assms] by (simp add: Die_def)
  have "x \<in> set (Dies c) \<longleftrightarrow> (\<exists>i. (i, x) \<in> set (package_dies c))" by (auto simp: Dies_def intro: rev_image_eqI)
  then show ?thesis using topology_ok_ids(2) [OF assms, of _ x] by (auto simp: k)
qed

lemma packageTargets_present:
  assumes "topology_ok tp"
  shows "t \<in> set (concat (map packageTargets (Packages tp))) \<longleftrightarrow> present tp t \<and> t \<noteq> TSystem"
proof
  assume "t \<in> set (concat (map packageTargets (Packages tp)))"
  then obtain c where c: "c \<in> set (Packages tp)" "t \<in> set (packageTargets c)" by auto
  have p: "Package (package_id c) tp = Some c" using c(1) in_Packages [OF assms] by simp
  from c(2) show "present tp t \<and> t \<noteq> TSystem"
    using in_Dies [OF assms p] p by (auto simp: packageTargets_def present_def)
next
  assume t: "present tp t \<and> t \<noteq> TSystem"
  then obtain p c where c: "Package p tp = Some c" "t \<in> set (packageTargets c)"
  proof (cases t)
    case (TPackage p)
    then obtain c where "Package p tp = Some c" using t by (auto simp: present_def)
    then show ?thesis using that TPackage topology_ok_ids(1) [OF assms] by (simp add: packageTargets_def)
  next
    case (TDie p d)
    then obtain c x where cx: "Package p tp = Some c" "Die d c = Some x" using t by (auto simp: present_TDie)
    have "x \<in> set (Dies c)" "die_id x = d" "package_id c = p"
      using Die_in [OF cx(2)] topology_ok_ids [OF assms cx(1)] cx(2) by auto
    then show ?thesis using that [OF cx(1)] TDie by (auto simp: packageTargets_def)
  qed simp
  then show "t \<in> set (concat (map packageTargets (Packages tp)))" using Package_in [OF c(1)] by auto
qed

lemma clearAll_safe:
  assumes "topology_ok (topology h)" "\<forall>t \<in> set ts. present (topology h) t"
  shows "uncoreSafe h (clearAll ts h)"
  using assms
proof (induction ts arbitrary: h)
  case (Cons t ts)
  show ?case
    unfolding clearAll_def forEach.simps
    by (rule uncoreSafe_andThen) (use Cons in \<open>auto simp: setUncore_safe clearAll_def\<close>)
qed (simp add: clearAll_def apart_refl)

lemma reset_safe: "topology_ok (topology h) \<Longrightarrow> uncoreSafe h (resetUncoreSettings h)"
  unfolding reset_clears
  by (rule uncoreSafe_andThen) (auto simp: setUncore_safe present_def intro!: clearAll_safe simp: packageTargets_present simp del: set_concat set_map)

lemma NewUncore_no_panic [simp]: "NewUncore mn mx s \<noteq> Panic m"
  by (simp add: NewUncore_def)

lemma applySelector_safe:
  assumes "topology_ok (topology h)"
  shows "uncoreSafe h (applySelector ds h)"
  using assms
  by (auto simp: applySelector_def applyPackage_def applyDie_def set_levels setUncore_safe present_def apart_refl
      split: option.splits gores.splits intro!: uncoreSafe_andThen)

lemma applySelectors_safe: "topology_ok (topology h) \<Longrightarrow> uncoreSafe h (applySelectors ds h)"
proof (induction ds arbitrary: h)
  case (Cons d ds)
  then show ?case by (auto simp: applySelector_safe apart_refl intro!: uncoreSafe_andThen)
qed (simp add: apart_refl)

lemma applySystem_safe: "topology_ok (topology h) \<Longrightarrow> uncoreSafe h (applySystem mn mx h)"
  by (auto simp: applySystem_def set_levels setUncore_safe present_def apart_refl split: gores.splits intro!: uncoreSafe_andThen)

lemma applySpec_safe: "topology_ok (topology h) \<Longrightarrow> uncoreSafe h (applySpec spec h)"
  by (auto simp: applySpec_def applySystem_safe applySelectors_safe apart_refl split: option.splits intro!: uncoreSafe_andThen)

interpretation uncoreAgent: progress "\<lambda>a a'. apart (lib a) (lib a')"
  by unfold_locales (rule apart_trans)

abbreviation uncoreAgentSafe :: "bool \<Rightarrow> 'k agent \<Rightarrow> 'a gores \<times> 'k agent \<Rightarrow> bool" where
  "uncoreAgentSafe \<equiv> guarded (\<lambda>a a'. apart (lib a) (lib a'))"

lemma uncoreAgent_andThen:
  assumes "uncoreAgentSafe quiet a r"
    and "\<And>x a'. r = (Ret x, a') \<Longrightarrow> topology_ok (topology (lib a')) \<Longrightarrow> uncoreAgentSafe quiet a' (f x a')"
  shows "uncoreAgentSafe quiet a (andThen r f)"
  using assms(1) by (rule uncoreAgent.andThen) (use assms(2) in \<open>simp add: apart_def\<close>)

lemma uncoreAgent_onKube:
  "topology_ok (topology (lib a)) \<Longrightarrow> (quiet \<Longrightarrow> \<not> isPanic (fst (f (kube a)))) \<Longrightarrow> uncoreAgentSafe quiet a (onKube f a)"
  by (simp add: guarded_def apart_refl)

lemma uncoreAgent_onLib: "uncoreSafe (lib a) (f (lib a)) \<Longrightarrow> uncoreAgentSafe quiet a (onLib f a)"
  by (simp add: guarded_def)

lemma uncore_requests_no_panic:
  assumes "quietClient c"
  shows "\<not> isPanic (fst (updateUncoreInPowerNodeState c n cr cf es k))" "\<not> isPanic (fst (removeUncoreFromPowerNodeState c n k))"
    "\<not> isPanic (fst (getMatchingUncores sel c n k))"
  by (auto simp: updateUncoreInPowerNodeState_def removeUncoreFromPowerNodeState_def getMatchingUncores_def quietClientD [OF assms]
      andThen_isPanic_iff split: sum.splits)

lemma applyUncoreConfig_safe:
  "topology_ok (topology (lib a)) \<Longrightarrow> uncoreAgentSafe (quietClient c) a (applyUncoreConfig c u n es a)"
  unfolding applyUncoreConfig_def Let_def
  by (auto simp: reset_safe applySpec_safe uncore_requests_no_panic apart_refl
      intro!: uncoreAgent_andThen uncoreAgent_onKube uncoreAgent_onLib)

lemma uncore_Reconcile_safe:
  "topology_ok (topology (lib a)) \<Longrightarrow> uncoreAgentSafe (quietClient c) a (uncore_Reconcile sel b c n req a)"
  unfolding uncore_Reconcile_def
  by (auto simp: reset_safe applyUncoreConfig_safe uncore_requests_no_panic reads_no_panic apart_refl split: sum.splits option.splits prod.splits
      intro!: uncoreAgent_andThen uncoreAgent_onKube uncoreAgent_onLib)

text \<open>
  Reconciling uncore objects leaves the pools alone: whatever the cluster answers and whichever write
  fails, no CPU changes its pool, no pool changes its profile, the topology keeps its packages, dies and CPUs, the invariants of the host stay
  true, and nothing panics as long as no request to the cluster does.
\<close>

theorem uncore_Reconcile_keeps_pools:
  assumes "host_inv (lib a)" "topology_ok (topology (lib a))" and "uncore_Reconcile sel hasTopology c nodeName req a = (r, a')"
  shows "host_inv (lib a') \<and> topology_ok (topology (lib a')) \<and> cpuPool (lib a') = cpuPool (lib a) \<and> pools (lib a') = pools (lib a)
    \<and> exclusivePools (lib a') = exclusivePools (lib a) \<and> present (topology (lib a')) = present (topology (lib a))
    \<and> (quietClient c \<longrightarrow> \<not> isPanic r)"
  using uncore_Reconcile_safe [OF assms(2), of c sel hasTopology nodeName req] apart_inv [OF _ assms(1)] unfolding assms(3)
  by (simp add: guarded_def) (simp add: apart_def)

section \<open>What is in effect afterwards\<close>

definition holds :: "(uncoreTarget \<Rightarrow> uncoreFreq option) \<Rightarrow> hostImpl \<Rightarrow> bool" where
  "holds \<sigma> h \<longleftrightarrow> topology_ok (topology h) \<and> settled (topology h) (machineOf h) \<and> setting (topology h) = \<sigma>"

lemma onTopology_holds:
  assumes "onTopology (setUncore t u) h = (Ret (), h')" "topology_ok (topology h)" "present (topology h) t"
    and "settled (topology h) (machineOf h) \<or> t = TSystem"
  shows "holds ((setting (topology h))(t := u)) h'" "apart h h'"
proof -
  obtain tp m where run: "setUncore t u (topology h) (machineOf h) = (Ret (), tp, m)" and h': "h' = h\<lparr>topology := tp, machineOf := m\<rparr>"
    using assms(1) by (auto simp: onTopology_def split: prod.splits)
  note e = setUncore_effect [OF assms(2,3) run]
  show "holds ((setting (topology h))(t := u)) h'"
    using e assms(4) by (simp add: holds_def h' updated_def)
  show "apart h h'" using setUncore_safe [OF assms(2,3), of u] assms(1) by (simp add: guarded_def)
qed

lemma clearAll_holds:
  assumes "clearAll ts h = (Ret (), h')" "holds \<sigma> h" "\<forall>t \<in> set ts. present (topology h) t"
  shows "holds (\<lambda>t. if t \<in> set ts then None else \<sigma> t) h'"
  using assms
proof (induction ts arbitrary: h \<sigma>)
  case (Cons t ts)
  from Cons.prems(1) obtain h1 where one: "onTopology (setUncore t None) h = (Ret (), h1)" and rest: "clearAll ts h1 = (Ret (), h')"
    by (auto simp: clearAll_def andThen_Ret_iff)
  have h1: "holds (\<sigma>(t := None)) h1" "apart h h1"
    using onTopology_holds [OF one] Cons.prems(2,3) by (auto simp: holds_def)
  have "\<forall>x \<in> set ts. present (topology h1) x" using Cons.prems(3) h1(2) by (simp add: apart_def)
  from Cons.IH [OF rest h1(1) this] show ?case
    by (rule back_subst [of "\<lambda>\<tau>. holds \<tau> h'"]) (auto simp: fun_eq_iff)
qed (simp add: clearAll_def)

lemma setting_absent: "\<not> present tp t \<Longrightarrow> setting tp t = None"
  by (cases t) (auto simp: present_def setting_def bind_eq_None_conv)

lemma reset_holds:
  assumes "resetUncoreSettings h = (Ret (), h')" "topology_ok (topology h)"
  shows "holds (\<lambda>_. None) h'" "apart h h'"
proof -
  from assms(1) obtain h1 where one: "onTopology (setUncore TSystem None) h = (Ret (), h1)"
    and rest: "clearAll (concat (map packageTargets (Packages (topology h1)))) h1 = (Ret (), h')"
    by (auto simp: reset_clears andThen_Ret_iff)
  have h1: "holds ((setting (topology h))(TSystem := None)) h1" using onTopology_holds [OF one assms(2)] by (simp add: present_def)
  then have ok: "topology_ok (topology h1)" by (simp add: holds_def)
  note pt = packageTargets_present [OF ok]
  have "holds (\<lambda>t. if t \<in> set (concat (map packageTargets (Packages (topology h1)))) then None
      else ((setting (topology h))(TSystem := None)) t) h'"
    using rest h1 by (rule clearAll_holds) (use pt in blast)
  moreover have "((setting (topology h))(TSystem := None)) t = None" if "\<not> present (topology h1) t \<or> t = TSystem" for t
    using that h1 setting_absent [of "topology h1" t] by (auto simp: holds_def)
  then have "(\<lambda>t. if t \<in> set (concat (map packageTargets (Packages (topology h1)))) then None
      else ((setting (topology h))(TSystem := None)) t) = (\<lambda>_. None)"
    unfolding pt by (auto simp: fun_eq_iff)
  ultimately show "holds (\<lambda>_. None) h'" by simp
  show "apart h h'" using reset_safe [OF assms(2)] assms(1) by (simp add: guarded_def)
qed

text \<open>What a specification asks for: the last selector of a target counts.\<close>

definition askedRange :: "nat \<Rightarrow> nat \<Rightarrow> uncoreFreq" where
  "askedRange mn mx = \<lparr>uncore_min = normalizeUncoreFreq (int mn), uncore_max = normalizeUncoreFreq (int mx)\<rparr>"

definition selectorTarget :: "DieSelector \<Rightarrow> uncoreTarget option" where
  "selectorTarget ds = (case ds_Package ds of None \<Rightarrow> None
     | Some p \<Rightarrow> Some (case ds_Die ds of None \<Rightarrow> TPackage (int p) | Some d \<Rightarrow> TDie (int p) (int d)))"

definition requested :: "UncoreSpec \<Rightarrow> uncoreTarget \<Rightarrow> uncoreFreq option" where
  "requested spec t = (case find (\<lambda>ds. selectorTarget ds = Some t) (rev (case us_DieSelectors spec of None \<Rightarrow> [] | Some l \<Rightarrow> l)) of
      Some ds \<Rightarrow> Some (askedRange (the (ds_Min ds)) (the (ds_Max ds)))
    | None \<Rightarrow> (case (us_SysMax spec, us_SysMin spec) of
        (Some mx, Some mn) \<Rightarrow> if t = TSystem then Some (askedRange mn mx) else None
      | _ \<Rightarrow> None))"

lemma NewUncore_asked: "NewUncore (int mn) (int mx) s = Ret u \<Longrightarrow> u = askedRange mn mx"
  by (simp add: NewUncore_def askedRange_def split: if_splits)

lemma applySystem_holds:
  assumes "applySystem mn mx h = (Ret (Inr txt), h')" "holds \<sigma> h"
  shows "holds (\<sigma>(TSystem := Some (askedRange mn mx))) h'"
proof -
  obtain u where "NewUncore (int mn) (int mx) (machineOf h) = Ret u" "onTopology (setUncore TSystem (Some u)) h = (Ret (), h')"
    using assms(1) by (auto simp: applySystem_def set_levels run_simps split: gores.splits)
  with onTopology_holds(1) [OF this(2)] assms(2) NewUncore_asked show ?thesis by (auto simp: holds_def present_def)
qed

lemma applySelector_holds:
  assumes "applySelector ds h = (Ret (Inr txt), h')" "holds \<sigma> h"
  shows "\<exists>t. selectorTarget ds = Some t \<and> holds (\<sigma>(t := Some (askedRange (the (ds_Min ds)) (the (ds_Max ds))))) h'"
proof -
  obtain t u mn mx where "selectorTarget ds = Some t" "present (topology h) t" "onTopology (setUncore t (Some u)) h = (Ret (), h')"
    "NewUncore (int mn) (int mx) (machineOf h) = Ret u" "ds_Min ds = Some mn" "ds_Max ds = Some mx"
    using assms(1)
    by (auto simp: applySelector_def applyPackage_def applyDie_def set_levels run_simps selectorTarget_def present_def
        split: gores.splits option.splits)
  with onTopology_holds(1) [OF this(3)] assms(2) NewUncore_asked show ?thesis by (auto simp: holds_def)
qed

lemma applySelectors_holds:
  assumes "applySelectors dss h = (Ret outs, h')" "lefts outs = []" "holds \<sigma> h"
  shows "holds (\<lambda>t. case find (\<lambda>ds. selectorTarget ds = Some t) (rev dss) of
      Some ds \<Rightarrow> Some (askedRange (the (ds_Min ds)) (the (ds_Max ds))) | None \<Rightarrow> \<sigma> t) h'"
  using assms
proof (induction dss arbitrary: h \<sigma> outs)
  case (Cons ds dss)
  from Cons.prems obtain x h1 xs where one: "applySelector ds h = (Ret x, h1)" and rest: "applySelectors dss h1 = (Ret xs, h')" and o: "outs = x # xs"
    by (auto simp: andThen_Ret_iff)
  have l: "lefts xs = []" and x: "\<exists>txt. x = Inr txt" using Cons.prems(2) o by (cases x; simp add: lefts_def)+
  from applySelector_holds [OF _ Cons.prems(3), of ds] one x obtain t where t: "selectorTarget ds = Some t"
    "holds (\<sigma>(t := Some (askedRange (the (ds_Min ds)) (the (ds_Max ds))))) h1" by auto
  have f: "find P (xs @ [y]) = (case find P xs of Some z \<Rightarrow> Some z | None \<Rightarrow> if P y then Some y else None)" for P :: "DieSelector \<Rightarrow> bool" and xs y
    by (induction xs) auto
  show ?case
    using Cons.IH [OF rest l t(2)] by (rule back_subst [of "\<lambda>\<tau>. holds \<tau> h'"]) (auto simp: fun_eq_iff f t(1) split: option.splits)
qed simp

lemma lefts_append [simp]: "lefts (xs @ ys) = lefts xs @ lefts ys"
  by (simp add: lefts_def)

lemma applySpec_holds:
  assumes "applySpec spec h = (Ret outs, h')" "lefts outs = []" "holds (\<lambda>_. None) h"
  shows "holds (requested spec) h'"
proof -
  obtain xs h1 ys where s1: "(case (us_SysMax spec, us_SysMin spec) of
         (Some mx, Some mn) \<Rightarrow> andThen (applySystem mn mx h) (\<lambda>x h1. (Ret [x], h1))
       | _ \<Rightarrow> (Ret [], h)) = (Ret xs, h1)"
    and s2: "(case us_DieSelectors spec of None \<Rightarrow> (Ret [], h1) | Some ds \<Rightarrow> applySelectors ds h1) = (Ret ys, h')"
    and outs: "outs = xs @ ys"
    using assms(1) unfolding applySpec_def andThen_Ret_iff by blast
  have l: "lefts xs = []" "lefts ys = []" using assms(2) outs by simp_all
  let ?\<sigma> = "\<lambda>t. case (us_SysMax spec, us_SysMin spec) of
      (Some mx, Some mn) \<Rightarrow> if t = TSystem then Some (askedRange mn mx) else None | _ \<Rightarrow> None"
  have h1: "holds ?\<sigma> h1"
  proof (cases "us_SysMax spec = None \<or> us_SysMin spec = None")
    case True
    then show ?thesis using s1 assms(3) by (auto split: option.splits)
  next
    case False
    then obtain mn mx where m: "us_SysMax spec = Some mx" "us_SysMin spec = Some mn" by auto
    with s1 obtain x where x: "applySystem mn mx h = (Ret x, h1)" "xs = [x]" by (auto simp: andThen_Ret_iff)
    from l(1) x(2) obtain tx where tx: "x = Inr tx" by (cases x) (auto simp: lefts_def)
    show ?thesis using applySystem_holds [OF x(1) [unfolded tx] assms(3)]
      by (rule back_subst [of "\<lambda>\<tau>. holds \<tau> h1"]) (simp add: m fun_eq_iff)
  qed
  show ?thesis
  proof (cases "us_DieSelectors spec")
    case None
    then show ?thesis using s2 h1 by (auto simp: requested_def [abs_def])
  next
    case (Some dss)
    from applySelectors_holds [OF s2 [unfolded Some, simplified] l(2) h1] show ?thesis
      by (rule back_subst [of "\<lambda>\<tau>. holds \<tau> h'"]) (auto simp: requested_def Some fun_eq_iff split: option.splits)
  qed
qed

text \<open>
  C9.  After an uncore object has been applied without an error, the driver's files of every die hold the range the object asks
  for: that of the last selector for the die, else of the last selector for its package, else the machine-wide
  range, else the range found at start-up; nothing of an earlier object is left.  Ranges are rounded down to multiples of 100 MHz.
\<close>

theorem applyUncoreConfig_in_effect:
  assumes "topology_ok (topology (lib a))" and "applyUncoreConfig c u nodeName conflicts a = (Ret Done, a')"
    and "Package p (topology (lib a)) = Some pkg" and "Die d pkg = Some die"
  shows "carries (machineOf (lib a')) p d (inEffect (requested (uncore_Spec u)) (defaultUncore (machineOf (lib a))) p d)"
proof -
  obtain h1 outs h2 where s: "resetUncoreSettings (lib a) = (Ret (), h1)" "applySpec (uncore_Spec u) h1 = (Ret outs, h2)"
    "lefts outs = []" "lib a' = h2"
    using assms(2) by (auto simp: applyUncoreConfig_def Let_def onKube_Ret run_simps split: if_splits)
  note r = reset_holds [OF s(1) assms(1)]
  have h2: "holds (requested (uncore_Spec u)) h2" using s(2,3) r(1) by (rule applySpec_holds)
  have "apart h1 h2" using applySpec_safe [of h1 "uncore_Spec u"] r(2) s(2) by (simp add: guarded_def apart_def)
  with r(2) have ap: "apart (lib a) h2" by (rule apart_trans)
  then have k: "defaultUncore (machineOf h2) = defaultUncore (machineOf (lib a))" by (intro inEffect_knowledge) (simp add: apart_def)
  have "present (topology h2) (TDie p d)" using ap assms(3,4) by (simp add: apart_def present_TDie)
  then have "carries (machineOf h2) p d (inEffect (setting (topology h2)) (defaultUncore (machineOf h2)) p d)"
    using h2 unfolding holds_def settled_def by blast
  then show ?thesis using h2 by (simp add: holds_def s(4) k)
qed

section \<open>The properties at a concrete node\<close>

definition uncoreAgentSample :: "unit agent" where
  "uncoreAgentSample = sampleAgent\<lparr>lib := (sampleHost (uncoreMachine 800000))\<lparr>topology := oneDie, exclusivePools := [], nextPool := 0,
     pools := (\<lambda>p. \<lparr>pool_name = '''', pool_cpus = (if p = RShared then [0] else []), pool_profile = None\<rparr>), cpuPool := (\<lambda>_. RShared)\<rparr>\<rparr>"

definition sampleUncore :: Uncore where
  "sampleUncore = \<lparr>uncore_meta = aged ''u'' 1, uncore_Spec = \<lparr>us_NodeSelector = \<lparr>nodeLabelSelector = anySelector\<rparr>,
     us_SysMax = Some 2400000, us_SysMin = Some 800000,
     us_DieSelectors = Some [\<lparr>ds_Package = Some 0, ds_Die = Some 0, ds_Min = Some 1000000, ds_Max = Some 2350000\<rparr>,
       \<lparr>ds_Package = Some 0, ds_Die = None, ds_Min = Some 900000, ds_Max = Some 2400000\<rparr>]\<rparr>\<rparr>"

lemma oneDie_ok: "topology_ok oneDie"
  by (simp add: topology_ok_def oneDie_def childrenOk_def package_wf_def die_wf_def core_wf_def childCpus_def)

theorem applyUncoreConfig_in_effect_witness:
  "carries (machineOf (lib (snd (applyUncoreConfig sampleClient sampleUncore ''node'' [] uncoreAgentSample)))) 0 0
     \<lparr>uncore_min = 1000000, uncore_max = 2300000\<rparr>"
proof -
  let ?run = "applyUncoreConfig sampleClient sampleUncore ''node'' [] uncoreAgentSample"
  have "fst ?run = Ret Done"
    by (simp add: applyUncoreConfig_def sampleUncore_def uncoreAgentSample_def resetUncoreSettings_def resetPackage_def onLib_def onKube_def onTopology_def
        topology_SetUncore_def package_SetUncore_def die_SetUncore_def topology_applyUncore_def package_applyUncore_def die_applyUncore_def
        uncore_write_def oneDie_def Packages_def Dies_def Package_def Die_def WriteFile_def sampleHost_def sampleAgent_def uncoreMachine_def machine_def
        applySpec_def applySystem_def applySelector_def applyPackage_def applyDie_def NewUncore_def isFeatureIDSupported_def isSupported_def
        updateUncoreInPowerNodeState_def sampleClient_def lefts_def rights_def withProfile_def Let_def
        die_getEffectiveUncore_def package_getEffectiveUncore_def topology_getEffectiveUncore_def)
  then have run: "?run = (Ret Done, snd ?run)" by (metis prod.collapse)
  have t: "topology (lib uncoreAgentSample) = oneDie" by (simp add: uncoreAgentSample_def)
  obtain pkg die where pd: "Package 0 oneDie = Some pkg" "Die 0 pkg = Some die" by (auto simp: oneDie_def Package_def Die_def)
  have "inEffect (requested (uncore_Spec sampleUncore)) (defaultUncore (machineOf (lib uncoreAgentSample))) 0 0
      = \<lparr>uncore_min = 1000000, uncore_max = 2300000\<rparr>"
    by (simp add: inEffect_def requested_def sampleUncore_def selectorTarget_def askedRange_def normalizeUncoreFreq_def)
  with applyUncoreConfig_in_effect [OF _ run, unfolded t, OF oneDie_ok pd] show ?thesis by simp
qed

theorem uncore_Reconcile_keeps_pools_witness:
  "topology_ok (topology (lib (snd (uncore_Reconcile (\<lambda>_. Inr (\<lambda>_. True)) True sampleClient ''node''
     \<lparr>req_Namespace = PowerNamespace, req_Name = ''u''\<rparr> uncoreAgentSample))))"
proof -
  have t: "topology (lib uncoreAgentSample) = oneDie" by (simp add: uncoreAgentSample_def)
  have "host_inv (lib uncoreAgentSample)"
    by (simp add: host_inv_def membership_ok_def registry_ok_def machine_ready_def uncoreAgentSample_def topology_CPUs_def oneDie_def
        Cpus_def allocated_def uncoreMachine_def machine_def isFeatureIDSupported_def sampleHost_def eq_commute)
  from uncore_Reconcile_keeps_pools [OF this _ prod.collapse [symmetric]] oneDie_ok t show ?thesis by simp
qed

end
