(* ===== verification/ProfileController.thy ===== *)
theory ProfileController
  imports Library_Calls
begin

text \<open>
  The PowerProfile controller (\<^verbatim>\<open>controllers/powerprofile_controller.go\<close>): each profile that matches the node gets an
  exclusive pool of its name, updates reach the shared pool and the pseudo-reserved pools that use it, and profiles
  that are not shared are offered as extended resources of the node.

  The text of a duration is the argument \<open>durationJSON\<close>.  The error that the deferred function writes to the status is the variable \<^verbatim>\<open>err\<close> of the
  function, which inner declarations shadow: the model returns it beside the result.
\<close>

section \<open>Extended resources\<close>

abbreviation "ExtendedResourcePrefix \<equiv> ''power.cluster-power-manager.github.io/''"

text \<open>\<^verbatim>\<open>IntOrString.String()\<close>\<close>

definition capacityText :: "IntOrString \<Rightarrow> string" where
  "capacityText v = (if Type v = IsString then StrVal v else Itoa (IntVal v))"

definition numExtendedResources :: "IntOrString \<Rightarrow> int \<Rightarrow> int" where
  "numExtendedResources capacity totalCPUs =
     (if capacityText capacity \<noteq> ''''
      then (case GetScaledValueFromIntOrPercent capacity totalCPUs False of
          Ret absoluteCPUs \<Rightarrow> (if absoluteCPUs > 0 then absoluteCPUs else totalCPUs)
        | _ \<Rightarrow> totalCPUs)
      else totalCPUs)"

text \<open>The capacity of a node that has none is a nil map, to which nothing can be assigned.\<close>

definition ensureExtendedResources ::
    "'k client \<Rightarrow> string \<Rightarrow> PowerProfile \<Rightarrow> nat \<Rightarrow> (unit, 'k) action" where
  "ensureExtendedResources c nodeName profile totalCPUs k =
     andThen (Get_Node c nodeName k) (\<lambda>node k1.
       if node_Capacity node = [] then (Panic ''assignment to entry in nil map'', k1)
       else Update_NodeStatus c (node\<lparr>node_Capacity := AList.update (ExtendedResourcePrefix @ meta_Name (pp_meta profile))
              (1000 * numExtendedResources (pps_CPUCapacity (pp_Spec profile)) (int totalCPUs)) (node_Capacity node)\<rparr>) k1)"

definition removeExtendedResources :: "'k client \<Rightarrow> string \<Rightarrow> string \<Rightarrow> (unit, 'k) action" where
  "removeExtendedResources c nodeName profileName k =
     andThen (Get_Node c nodeName k) (\<lambda>node k1.
       Update_NodeStatus c (node\<lparr>node_Capacity :=
         filter (\<lambda>(name, _). name \<noteq> ExtendedResourcePrefix @ profileName) (node_Capacity node)\<rparr>) k1)"

definition cleanupProfileFromNode :: "'k client \<Rightarrow> PowerProfile \<Rightarrow> string \<Rightarrow> (unit, 'k) action" where
  "cleanupProfileFromNode c profile nodeName k =
     andThen (removeExtendedResources c nodeName (meta_Name (pp_meta profile)) k) (\<lambda>_ k1.
       removePowerNodeStatusProfileEntry c nodeName (meta_Name (pp_meta profile)) k1)"

section \<open>Deletion\<close>

text \<open>The last step of both branches: a failure only delays.\<close>

definition removeEntry :: "'k client \<Rightarrow> string \<Rightarrow> string \<Rightarrow> (ctrlResult, 'k agent) action" where
  "removeEntry c nodeName profileName a =
     andThen (attempt (onKube (removePowerNodeStatusProfileEntry c nodeName profileName) a)) (\<lambda>r a1.
       (Ret (case r of Inl _ \<Rightarrow> RequeueAfter | Inr _ \<Rightarrow> Done), a1))"

definition usesProfile :: "pool_ref \<Rightarrow> string \<Rightarrow> hostImpl \<Rightarrow> bool" where
  "usesProfile p name h = (case GetPowerProfile p h of None \<Rightarrow> False | Some pr \<Rightarrow> prof_name pr = name)"

definition handleProfileDeletion :: "'k client \<Rightarrow> Request \<Rightarrow> string \<Rightarrow> (ctrlResult, 'k agent) action" where
  "handleProfileDeletion c req nodeName a =
     (if usesProfile GetSharedPool (req_Name req) (lib a)
      then andThen (onLib (SetPowerProfile GetSharedPool None) a) (\<lambda>_ a1.
        (case GetExclusivePool (req_Name req) (lib a1) of
           None \<Rightarrow> (Fail (Msg ''pool not found''), a1)
         | Some pool \<Rightarrow> andThen (onLib (Remove pool) a1) (\<lambda>_ a2. removeEntry c nodeName (req_Name req) a2)))
      else andThen (onKube (removeExtendedResources c nodeName (req_Name req)) a) (\<lambda>_ a1. removeEntry c nodeName (req_Name req) a1))"

section \<open>Creation and update\<close>

text \<open>
  \<open>(returned error, variable err)\<close> of the part that changes the library; no error is \<open>None\<close>.
\<close>

type_synonym errors = "gerr option \<times> gerr option"

definition createPool :: "string \<Rightarrow> Profile \<Rightarrow> (errors, hostImpl) action" where
  "createPool name powerProfile h = (case AddExclusivePool name h of
      ((_, Some err), h1) \<Rightarrow> (Ret (Some err, None), h1)
    | ((pool, None), h1) \<Rightarrow> andThen (attempt (SetPowerProfile pool (Some powerProfile) h1)) (\<lambda>r h2.
        (Ret (case r of Inl err \<Rightarrow> (Some err, None) | Inr _ \<Rightarrow> (None, None)), h2)))"

definition updateMessage :: "string \<Rightarrow> string \<Rightarrow> string" where
  "updateMessage name nodeName =
     ''updating the power profile '' @ ticked name @ '' to the power library for node '' @ ticked nodeName"

definition updateSharedMessage :: "string \<Rightarrow> string \<Rightarrow> string" where
  "updateSharedMessage name nodeName =
     ''updating shared pool in power library with updated profile '' @ ticked name @ '' for node '' @ ticked nodeName"

definition updateReservedMessage :: "string \<Rightarrow> string \<Rightarrow> string \<Rightarrow> string" where
  "updateReservedMessage poolName name nodeName = ''updating special reserved pool '' @ ticked poolName
     @ '' in power library with updated profile '' @ ticked name @ '' for node '' @ ticked nodeName"

definition updateReserved :: "string \<Rightarrow> string \<Rightarrow> Profile \<Rightarrow> pool_ref \<Rightarrow> (unit, hostImpl) action" where
  "updateReserved name nodeName powerProfile pool h =
     (if Contains (pool_name (pools h pool)) (nodeName @ ''-reserved-'') \<and> usesProfile pool name h
      then wrapErr (''error '' @ updateReservedMessage (pool_name (pools h pool)) name nodeName)
        (SetPowerProfile pool (Some powerProfile) h)
      else (Ret (), h))"

definition updateUsers :: "string \<Rightarrow> string \<Rightarrow> Profile \<Rightarrow> (unit, hostImpl) action" where
  "updateUsers name nodeName powerProfile h =
     andThen (if usesProfile GetSharedPool name h
              then wrapErr (''error '' @ updateSharedMessage name nodeName) (SetPowerProfile GetSharedPool (Some powerProfile) h)
              else (Ret (), h)) (\<lambda>_ h1.
       forEach (updateReserved name nodeName powerProfile) (exclusivePools h1) h1)"

definition updatePool :: "pool_ref \<Rightarrow> string \<Rightarrow> string \<Rightarrow> Profile \<Rightarrow> (errors, hostImpl) action" where
  "updatePool pool name nodeName powerProfile h =
     andThen (attempt (SetPowerProfile pool (Some powerProfile) h)) (\<lambda>r h1. (case r of
        Inl err \<Rightarrow> (Ret (Some (Wrap (''error '' @ updateMessage name nodeName) err), Some err), h1)
      | Inr _ \<Rightarrow> andThen (attempt (updateUsers name nodeName powerProfile h1)) (\<lambda>r h2.
          (Ret (case r of Inl err \<Rightarrow> Some err | Inr _ \<Rightarrow> None, None), h2))))"

definition applyProfile :: "string \<Rightarrow> string \<Rightarrow> Profile \<Rightarrow> (errors, hostImpl) action" where
  "applyProfile name nodeName powerProfile h = (case GetExclusivePool name h of
      None \<Rightarrow> createPool name powerProfile h
    | Some pool \<Rightarrow> updatePool pool name nodeName powerProfile h)"

text \<open>The EPP handed to the library, which drops it where the feature is missing.\<close>

definition actualEpp :: "PowerProfile \<Rightarrow> hw \<Rightarrow> string" where
  "actualEpp profile m =
     (let e = ps_Epp (pps_PStates (pp_Spec profile)) in if \<not> IsFeatureSupported [EPPFeature] m \<and> e \<noteq> '''' then '''' else e)"

definition libraryProfile :: "PowerProfile \<Rightarrow> hw \<Rightarrow> Profile gores" where
  "libraryProfile profile m =
     (let spec = pp_Spec profile in
      NewPowerProfile (meta_Name (pp_meta profile)) (ps_Min (pps_PStates spec)) (ps_Max (pps_PStates spec))
        (ps_Governor (pps_PStates spec)) (actualEpp profile m) (cs_Names (pps_CStates spec)) (cs_MaxLatencyUs (pps_CStates spec)) m)"

text \<open>What follows the changes of the library: profiles that are not shared become extended resources.\<close>

definition offerResources :: "'k client \<Rightarrow> string \<Rightarrow> PowerProfile \<Rightarrow> gerr option \<Rightarrow> gerr option \<Rightarrow> (errors, 'k agent) action" where
  "offerResources c nodeName profile ret err a =
     (if ret \<noteq> None then (Ret (ret, err), a)
      else if pps_Shared (pp_Spec profile) then (Ret (None, err), a)
      else andThen (attempt (onKube (ensureExtendedResources c nodeName profile (length (allCpus (lib a)))) a)) (\<lambda>r a1.
        (Ret (case r of
            Inl err \<Rightarrow> (Some (Wrap ''error creating or updating the extended resources for the base profile'' err), Some err)
          | Inr _ \<Rightarrow> (None, None)), a1)))"

text \<open>From the validation of the EPP on, for a profile that matches the node.\<close>

definition reconcileMatching ::
    "'k client \<Rightarrow> string \<Rightarrow> PowerProfile \<Rightarrow> (errors, 'k agent) action" where
  "reconcileMatching c nodeName profile a =
     (let e = ps_Epp (pps_PStates (pp_Spec profile)); name = meta_Name (pp_meta profile) in
      if e \<noteq> '''' \<and> \<not> isValidEpp e
      then (let err = Unavailable (''EPP value not allowed: '' @ e) in (Ret (Some err, Some err), a))
      else (case libraryProfile profile (machineOf (lib a)) of
          Panic m \<Rightarrow> (Panic m, a)
        | Fail err \<Rightarrow> (Ret (Some err, Some err), a)
        | Ret powerProfile \<Rightarrow> andThen (onLib (applyProfile name nodeName powerProfile) a) (\<lambda>(ret, err) a1.
            offerResources c nodeName profile ret err a1)))"

text \<open>
  The deferred function.  It also runs when the function panics, with \<^verbatim>\<open>err\<close> not set.
\<close>

definition withEntry ::
    "(int \<Rightarrow> string) \<Rightarrow> 'k client \<Rightarrow> string \<Rightarrow> PowerProfile \<Rightarrow> errors gores \<times> 'k agent \<Rightarrow> ctrlResult gores \<times> 'k agent" where
  "withEntry durationJSON c nodeName profile r = (case r of
      (Ret (ret, err), a) \<Rightarrow>
        andThen (attempt (onKube (addPowerNodeStatusProfileEntry durationJSON c nodeName profile err) a)) (\<lambda>u a1.
          (case ret of Some e \<Rightarrow> Fail e | None \<Rightarrow> (case u of Inl _ \<Rightarrow> Ret RequeueAfter | Inr _ \<Rightarrow> Ret Done), a1))
    | (Fail e, a) \<Rightarrow> (Fail e, a)
    | (Panic m, a) \<Rightarrow>
        andThen (attempt (onKube (addPowerNodeStatusProfileEntry durationJSON c nodeName profile None) a)) (\<lambda>_ a1. (Panic m, a1)))"

definition powerProfile_Reconcile ::
    "selectors \<Rightarrow> (int \<Rightarrow> string) \<Rightarrow> 'k client \<Rightarrow> string \<Rightarrow> Request \<Rightarrow> (ctrlResult, 'k agent) action" where
  "powerProfile_Reconcile sel durationJSON c nodeName req a =
     (if req_Namespace req \<noteq> PowerNamespace then (Fail (Msg ''incorrect namespace''), a)
      else andThen (attempt (onKube (Get_PowerProfile c (req_Namespace req) (req_Name req)) a)) (\<lambda>r a1. (case r of
          Inl err \<Rightarrow> (if isNotFoundErr err then handleProfileDeletion c req nodeName a1 else (Fail err, a1))
        | Inr profile \<Rightarrow> andThen (onKube (nodeMatchesPowerProfile sel c profile nodeName) a1) (\<lambda>match a2.
            if \<not> match
            then andThen (attempt (onKube (cleanupProfileFromNode c profile nodeName) a2)) (\<lambda>r a3.
                   (Ret (case r of Inl _ \<Rightarrow> RequeueAfter | Inr _ \<Rightarrow> Done), a3))
            else withEntry durationJSON c nodeName profile (reconcileMatching c nodeName profile a2)))))"

section \<open>Events\<close>

definition nodeToProfileRequests :: "'k client \<Rightarrow> (Request list, 'k) action" where
  "nodeToProfileRequests c k = andThen (attempt (List_PowerProfiles c k)) (\<lambda>r k1.
     (Ret (case r of Inl _ \<Rightarrow> []
        | Inr items \<Rightarrow> map (\<lambda>p. \<lparr>req_Namespace = meta_Namespace (pp_meta p), req_Name = meta_Name (pp_meta p)\<rparr>) items), k1))"

section \<open>The library is only changed through its operations\<close>

lemma createPool_safe:
  assumes "host_inv h"
  shows "libSafe h (createPool name pr h)"
proof -
  obtain p e h1 where add: "AddExclusivePool name h = ((p, e), h1)" by (metis prod.collapse)
  have r: "reached h h1" using reached_calls(6) [OF reached_refl [OF assms]] add by (metis snd_conv)
  have "libSafe h1 (andThen (attempt (SetPowerProfile p (Some pr) h1)) (\<lambda>r h2.
        (Ret (case r of Inl err \<Rightarrow> (Some err, None) | Inr _ \<Rightarrow> (None, None)), h2)))"
    using reached_inv [OF r] by (auto simp: libSafe_calls reached_refl intro!: libSafe_andThen)
  then show ?thesis using r by (cases e) (auto simp: createPool_def add guarded_def intro: reached_trans)
qed

lemma updateUsers_safe:
  assumes "host_inv h"
  shows "libSafe h (updateUsers name n pr h)"
proof -
  have l: "libSafe h1 (forEach (updateReserved name n pr) (exclusivePools h1) h1)" if "host_inv h1" for h1
    using that by (intro libSafe_forEach) (auto simp: registered_allocated updateReserved_def libSafe_calls reached_refl)
  with assms show ?thesis
    by (auto simp: updateUsers_def libSafe_calls reached_refl intro!: libSafe_andThen)
qed

lemma applyProfile_safe: "host_inv h \<Longrightarrow> libSafe h (applyProfile name n pr h)"
  by (auto simp: applyProfile_def createPool_safe updatePool_def updateUsers_safe libSafe_calls reached_refl
      split: option.splits sum.splits intro!: libSafe_andThen)

text \<open>Every node has a capacity.\<close>

definition capable :: "'k client \<Rightarrow> bool" where
  "capable c \<longleftrightarrow> (\<forall>n k node k'. Get_Node c n k = (Ret node, k') \<longrightarrow> node_Capacity node \<noteq> [])"

lemma extendedResources_no_panic:
  assumes "quietClient c"
  shows "\<not> isPanic (fst (removeExtendedResources c n name k))"
    "capable c \<Longrightarrow> \<not> isPanic (fst (ensureExtendedResources c n profile cpus k))"
    "\<not> isPanic (fst (cleanupProfileFromNode c profile n k))"
  by (auto simp: removeExtendedResources_def ensureExtendedResources_def cleanupProfileFromNode_def quietClientD [OF assms]
      andThen_isPanic_iff capable_def reads_no_panic [OF assms])

lemma NewPowerProfile_no_panic:
  assumes "coreTypes s \<noteq> []"
  shows "\<not> isPanic (NewPowerProfile name mn mx gov ep csts lat s)"
proof -
  obtain r where r: "getAbsMinMaxFreq (coreTypes s) = Ret r" using assms by (cases "coreTypes s") (simp_all add: getAbsMinMaxFreq_def)
  have "\<not> isPanic (AdjustMinMaxFreq mn mx s)" using r by (auto simp: AdjustMinMaxFreq_def Let_def split: prod.splits option.splits)
  moreover have "\<not> isPanic (ValidatePStates a b gov ep s)" for a b
    using r by (auto simp: ValidatePStates_def validateFreqs_def Let_def split: prod.splits option.splits gores.splits if_splits)
  moreover have "\<not> isPanic (validateCStateNames csts s)" by (induction csts s rule: validateCStateNames.induct) auto
  then have "\<not> isPanic (ValidateCStates csts lat s)" by (auto simp: ValidateCStates_def)
  ultimately show ?thesis by (auto simp: NewPowerProfile_def bindRes_isPanic)
qed

lemma libraryProfile_no_panic:
  assumes "host_inv h" "allCpus h \<noteq> []"
  shows "\<not> isPanic (libraryProfile profile (machineOf h))"
proof (cases "isFeatureIDSupported (featureList (machineOf h)) FrequencyScalingFeature")
  case True
  have "machine_ready h" using assms(1) by (simp add: host_inv_def)
  moreover have "hd (allCpus h) \<in> set (allCpus h)" using assms(2) by (rule hd_in_set)
  ultimately have "coreTypes (machineOf h) \<noteq> []" using True by (auto simp: machine_ready_def)
  then show ?thesis by (simp add: libraryProfile_def Let_def NewPowerProfile_no_panic)
qed (simp add: libraryProfile_def Let_def NewPowerProfile_def)

lemma removeEntry_safe: "host_inv (lib a) \<Longrightarrow> safe (quietClient c) a (removeEntry c n name a)"
  by (auto simp: removeEntry_def reads_no_panic reached_refl intro!: safe_andThen safe_onKube)

lemma handleProfileDeletion_safe:
  assumes "host_inv (lib a)"
  shows "safe (quietClient c) a (handleProfileDeletion c req n a)"
  using assms unfolding handleProfileDeletion_def
  by (auto simp: libSafe_calls removeEntry_safe found_allocated extendedResources_no_panic reached_refl split: option.splits
      intro!: safe_andThen safe_onKube safe_onLib)

lemma offerResources_safe:
  "host_inv (lib a) \<Longrightarrow> safe (quietClient c \<and> capable c) a (offerResources c n profile ret err a)"
  by (auto simp: offerResources_def extendedResources_no_panic reached_refl intro!: safe_andThen safe_onKube)

lemma reconcileMatching_safe:
  assumes "host_inv (lib a)" "allCpus (lib a) \<noteq> []"
  shows "safe (quietClient c \<and> capable c) a (reconcileMatching c n profile a)"
proof -
  note libraryProfile_no_panic [OF assms, of profile]
  then show ?thesis
    using assms(1) unfolding reconcileMatching_def Let_def
    by (auto simp: applyProfile_safe offerResources_safe reached_refl split: gores.splits intro!: safe_andThen safe_onLib)
qed

lemma observed:
  "lib (snd (andThen (attempt (onKube f a)) (\<lambda>u a1. (g u, a1)))) = lib a"
  "\<not> isPanic (fst (f (kube a))) \<Longrightarrow> (\<And>u. \<not> isPanic (g u)) \<Longrightarrow> \<not> isPanic (fst (andThen (attempt (onKube f a)) (\<lambda>u a1. (g u, a1))))"
  by (cases "f (kube a)"; cases "fst (f (kube a))"; simp add: onKube_def)+

lemma withEntry_safe:
  assumes "safe quiet a r" "quiet \<Longrightarrow> quietClient c"
  shows "safe quiet a (withEntry d c n profile r)"
proof (cases r)
  case (Pair res a1)
  have r1: "reached (lib a) (lib a1)" "quiet \<Longrightarrow> \<not> isPanic res" using assms(1) by (simp_all add: guarded_def Pair)
  have q: "\<not> isPanic (fst (addPowerNodeStatusProfileEntry d c n profile err k))" if quiet for err k
    using reads_no_panic(4) [OF assms(2) [OF that]] .
  show ?thesis
  proof (cases res)
    case (Ret x)
    obtain ret err where "x = (ret, err)" by (cases x)
    then show ?thesis
      unfolding withEntry_def Pair Ret guarded_def
      by (auto simp: observed r1 q intro!: observed(2) split: option.splits sum.splits)
  qed (use r1 in \<open>auto simp: Pair withEntry_def guarded_def observed\<close>)
qed

lemma powerProfile_Reconcile_safe:
  assumes "host_inv (lib a)" "allCpus (lib a) \<noteq> []"
  shows "safe (quietClient c \<and> capable c) a (powerProfile_Reconcile sel d c n req a)"
proof -
  have del: "safe (quietClient c \<and> capable c) a1 (handleProfileDeletion c req n a1)" if "host_inv (lib a1)" for a1 :: "'a agent"
    using handleProfileDeletion_safe [OF that, of c req n] by (auto simp: guarded_def)
  show ?thesis
    unfolding powerProfile_Reconcile_def
    by (auto simp: assms del reached_refl quietClientD reads_no_panic extendedResources_no_panic onKube_Ret run_simps
        split: sum.splits intro!: safe_andThen safe_onKube withEntry_safe reconcileMatching_safe)
qed

section \<open>The profiles of the pools\<close>

abbreviation profileOf :: "hostImpl \<Rightarrow> pool_ref \<Rightarrow> Profile option" where
  "profileOf h q \<equiv> pool_profile (pools h q)"

text \<open>Only profiles of pools have changed.\<close>

definition reprofiled :: "hostImpl \<Rightarrow> hostImpl \<Rightarrow> bool" where
  "reprofiled h h' \<longleftrightarrow> host_inv h' \<and> cpuPool h' = cpuPool h \<and> exclusivePools h' = exclusivePools h \<and> allCpus h' = allCpus h
     \<and> (\<forall>q. pool_name (pools h' q) = pool_name (pools h q))"

lemma reprofiled_trans: "reprofiled h h1 \<Longrightarrow> reprofiled h1 h2 \<Longrightarrow> reprofiled h h2"
  by (simp add: reprofiled_def)

lemma SetPowerProfile_profiles:
  assumes "host_inv h" "p \<noteq> RReserved" "SetPowerProfile p pr h = (r, h')"
  shows "reprofiled h h'" "profileOf h' = (profileOf h)(p := pr)"
proof -
  note e = SetPowerProfile_effect [OF assms]
  have "host_inv h'" using libSafe_calls(1) [OF assms(1)] assms(3) by (metis keeps_inv)
  then show "reprofiled h h'" using e(1,2) by (auto simp: reprofiled_def host_frame_def withProfile_def)
  show "profileOf h' = (profileOf h)(p := pr)" using e(1) by (auto simp: host_frame_def withProfile_def fun_eq_iff)
qed

definition concernsReserved :: "string \<Rightarrow> string \<Rightarrow> hostImpl \<Rightarrow> pool_ref \<Rightarrow> bool" where
  "concernsReserved name n h q \<longleftrightarrow> Contains (pool_name (pools h q)) (n @ ''-reserved-'') \<and> usesProfile q name h"

lemma updateReserved_loop:
  assumes "host_inv h" "forEach (updateReserved name n pr) ps h = (Ret (), h')" "RReserved \<notin> set ps" "prof_name pr = name"
  shows "reprofiled h h' \<and> profileOf h' = (\<lambda>q. if q \<in> set ps \<and> concernsReserved name n h q then Some pr else profileOf h q)"
  using assms
proof (induction ps arbitrary: h)
  case Nil
  then show ?case by (simp add: reprofiled_def)
next
  case (Cons p ps)
  from Cons.prems(2) obtain h1 where one: "updateReserved name n pr p h = (Ret (), h1)" and rest: "forEach (updateReserved name n pr) ps h1 = (Ret (), h')"
    by (auto simp: andThen_Ret_iff)
  have e: "reprofiled h h1 \<and> profileOf h1 = (if concernsReserved name n h p then (profileOf h)(p := Some pr) else profileOf h)"
  proof (cases "concernsReserved name n h p")
    case True
    then have "SetPowerProfile p (Some pr) h = (Ret (), h1)" using one by (auto simp: updateReserved_def concernsReserved_def)
    from SetPowerProfile_profiles [OF Cons.prems(1) _ this] Cons.prems(3) True show ?thesis by auto
  next
    case False
    then show ?thesis using one Cons.prems(1) by (auto simp: updateReserved_def concernsReserved_def reprofiled_def)
  qed
  then have h1: "host_inv h1" by (simp add: reprofiled_def)
  have c: "concernsReserved name n h1 q = concernsReserved name n h q" for q
    using e Cons.prems(4)
    by (cases "q = p") (auto simp: concernsReserved_def usesProfile_def GetPowerProfile_def reprofiled_def fun_eq_iff split: if_splits)
  from Cons.IH [OF h1 rest] Cons.prems(3,4) e show ?case
    by (auto simp: c fun_eq_iff intro: reprofiled_trans)
qed

lemma updatePool_profiles:
  assumes h: "host_inv h" and p: "GetExclusivePool name h = Some p" and run: "updatePool p name n pr h = (Ret (None, err), h')"
    and nm: "prof_name pr = name"
  shows "reprofiled h h' \<and> profileOf h' = (\<lambda>q. if q = p \<or> q = RShared \<and> usesProfile RShared name h
      \<or> q \<in> set (exclusivePools h) \<and> concernsReserved name n h q then Some pr else profileOf h q)"
proof -
  have ex: "q \<noteq> RReserved \<and> q \<noteq> RShared" if "q \<in> set (exclusivePools h)" for q
    using that h unfolding host_inv_def registry_ok_def isExclusive_def by force
  have pe: "p \<in> set (exclusivePools h)" using p h by (simp add: lookup_iff)
  then have pr: "p \<noteq> RReserved" "p \<noteq> RShared" using ex by auto
  obtain h1 where s1: "SetPowerProfile p (Some pr) h = (Ret (), h1)" and s2: "updateUsers name n pr h1 = (Ret (), h')"
    using run by (auto simp: updatePool_def run_simps)
  note e1 = SetPowerProfile_profiles [OF h pr(1) s1]
  have i1: "host_inv h1" using e1(1) by (simp add: reprofiled_def)
  obtain h2 where s3: "(if usesProfile RShared name h1 then SetPowerProfile RShared (Some pr) h1 else (Ret (), h1)) = (Ret (), h2)"
    and s4: "forEach (updateReserved name n pr) (exclusivePools h2) h2 = (Ret (), h')"
    using s2 by (auto simp: updateUsers_def andThen_Ret_iff split: if_splits)
  have e2: "reprofiled h1 h2" "profileOf h2 = (if usesProfile RShared name h1 then (profileOf h1)(RShared := Some pr) else profileOf h1)"
    using SetPowerProfile_profiles [OF i1, of RShared "Some pr" "Ret ()" h2] s3 i1 by (auto simp: reprofiled_def split: if_splits)
  have i2: "host_inv h2" and ps: "exclusivePools h2 = exclusivePools h" using e2(1) e1(1) by (simp_all add: reprofiled_def)
  have "RReserved \<notin> set (exclusivePools h2)" using ex by (auto simp: ps)
  note e3 = updateReserved_loop [OF i2 s4 this nm]
  have u: "usesProfile RShared name h1 = usesProfile RShared name h" using fun_cong [OF e1(2), of RShared] pr by (simp add: usesProfile_def GetPowerProfile_def)
  have c: "concernsReserved name n h2 q = (concernsReserved name n h q \<or> q = p \<and> Contains (pool_name (pools h q)) (n @ ''-reserved-''))"
    if "q \<in> set (exclusivePools h)" for q
    using e1(1) e2(1) fun_cong [OF e1(2), of q] fun_cong [OF e2(2), of q] nm ex [OF that] by (auto simp: concernsReserved_def usesProfile_def GetPowerProfile_def reprofiled_def split: if_splits)
  show ?thesis
    using e3 e1 e2 reprofiled_trans pr u c by (auto simp: fun_eq_iff ps)
qed

lemma applyProfile_profiles:
  assumes h: "host_inv h" and run: "applyProfile name n pr h = (Ret (None, err), h')" and nm: "prof_name pr = name"
  shows "cpuPool h' = cpuPool h \<and> (\<exists>p. GetExclusivePool name h' = Some p \<and> profileOf h' p = Some pr
    \<and> (\<forall>q \<in> insert RShared (set (exclusivePools h)) - {p}. profileOf h' q =
        (if GetExclusivePool name h \<noteq> None \<and> (q = RShared \<and> usesProfile q name h \<or> q \<noteq> RShared \<and> concernsReserved name n h q)
         then Some pr else profileOf h q)))"
proof (cases "GetExclusivePool name h")
  case (Some p)
  then have "updatePool p name n pr h = (Ret (None, err), h')" using run by (simp add: applyProfile_def)
  from updatePool_profiles [OF h Some this nm] have r: "reprofiled h h'"
    and pr: "profileOf h' q = (if q = p \<or> q = RShared \<and> usesProfile RShared name h
      \<or> q \<in> set (exclusivePools h) \<and> concernsReserved name n h q then Some pr else profileOf h q)" for q
    by (auto simp: fun_eq_iff)
  have "GetExclusivePool name h' = Some p" using Some h r by (simp add: lookup_iff reprofiled_def)
  moreover have "RShared \<notin> set (exclusivePools h)" using h unfolding host_inv_def registry_ok_def isExclusive_def by force
  ultimately show ?thesis using r Some by (auto simp: reprofiled_def pr)
next
  case None
  then have c: "createPool name pr h = (Ret (None, err), h')" using run by (simp add: applyProfile_def)
  obtain p e h1 where add: "AddExclusivePool name h = ((p, e), h1)" by (metis prod.collapse)
  have e: "e = None" using c by (cases e) (auto simp: createPool_def add)
  have s: "SetPowerProfile p (Some pr) h1 = (Ret (), h')" using c e by (auto simp: createPool_def add run_simps)
  note new = AddExclusivePool_effect(3) [OF h add e]
  have i1: "host_inv h1" using reached_calls(6) [OF reached_refl [OF h]] add by (metis snd_conv reached_inv)
  note p = SetPowerProfile_profiles [OF i1 _ s]
  have pr: "p \<noteq> RReserved" using new by simp
  have "GetExclusivePool name h' = Some p" using p(1) [OF pr] new by (auto simp: lookup_iff reprofiled_def)
  moreover have "profileOf h' p = Some pr" using fun_cong [OF p(2) [OF pr], of p] by simp
  moreover have "profileOf h' q = profileOf h q" if "q \<noteq> p" for q using fun_cong [OF p(2) [OF pr], of q] that new by simp
  ultimately show ?thesis using None p(1) [OF pr] new by (auto simp: reprofiled_def)
qed

lemma lib_withEntry: "lib (snd (withEntry d c n profile (r, a))) = lib a"
  by (cases r) (auto simp: withEntry_def observed split: prod.splits)

lemma withEntry_Ret: "withEntry d c n profile r = (Ret res, a') \<Longrightarrow> \<exists>err a1. r = (Ret (None, err), a1)"
  by (cases r; cases "fst r") (auto simp: withEntry_def run_simps split: option.splits)

lemma offerResources_frame:
  "lib (snd (offerResources c n profile ret err a)) = lib a"
  "fst (offerResources c n profile ret err a) = Ret (None, err') \<Longrightarrow> ret = None"
  by (auto simp: offerResources_def observed split: if_splits)

lemma reconcileMatching_Ret:
  assumes "reconcileMatching c n profile a = (Ret (None, err), a1)"
  shows "\<exists>pr err'. libraryProfile profile (machineOf (lib a)) = Ret pr
    \<and> applyProfile (meta_Name (pp_meta profile)) n pr (lib a) = (Ret (None, err'), lib a1)"
proof (cases "libraryProfile profile (machineOf (lib a))")
  case (Ret pr)
  with assms obtain ret err' h where ap: "applyProfile (meta_Name (pp_meta profile)) n pr (lib a) = (Ret (ret, err'), h)"
    and rest: "offerResources c n profile ret err' (a\<lparr>lib := h\<rparr>) = (Ret (None, err), a1)"
    by (auto simp: reconcileMatching_def Let_def andThen_Ret_iff split: if_splits)
  show ?thesis using offerResources_frame [of c n profile ret err' "a\<lparr>lib := h\<rparr>"] rest Ret ap by auto
qed (use assms in \<open>auto simp: reconcileMatching_def Let_def split: if_splits\<close>)

lemma libraryProfile_name: "libraryProfile profile m = Ret pr \<Longrightarrow> prof_name pr = meta_Name (pp_meta profile)"
  by (auto simp: libraryProfile_def Let_def elim: NewPowerProfile_Ret)

text \<open>
  Whatever the cluster answers and whichever step fails, reconciling a power profile changes the power library only through its
  operations, so every CPU stays in exactly one pool; and on a node with CPUs and a capacity it does not panic, as long as no
  request to the cluster does.
\<close>

theorem powerProfile_keeps_library:
  assumes "host_inv (lib a)" "allCpus (lib a) \<noteq> []" and "powerProfile_Reconcile sel durationJSON c nodeName req a = (r, a')"
  shows "host_step\<^sup>*\<^sup>* (lib a) (lib a') \<and> host_inv (lib a') \<and> (quietClient c \<and> capable c \<longrightarrow> \<not> isPanic r)"
  using powerProfile_Reconcile_safe [OF assms(1,2), of c sel durationJSON nodeName req] unfolding assms(3) by (rule safeD)

text \<open>
  C8.  A profile that matches the node is in the library after a reconciliation that returns no error: the pool of its name runs it, no CPU has
  changed its pool, and, if the pool existed, the shared pool and the pseudo-reserved pools that ran the profile run the
  new version while all other pools run what they did.
\<close>

theorem powerProfile_applied:
  assumes h: "host_inv (lib a)" and ns: "req_Namespace req = PowerNamespace"
    and get: "Get_PowerProfile c PowerNamespace (req_Name req) (kube a) = (Ret profile, k1)"
    and match: "nodeMatchesPowerProfile sel c profile nodeName k1 = (Ret True, k2)"
    and run: "powerProfile_Reconcile sel durationJSON c nodeName req a = (Ret res, a')"
  defines "name \<equiv> meta_Name (pp_meta profile)"
  shows "\<exists>pr p. libraryProfile profile (machineOf (lib a)) = Ret pr \<and> GetExclusivePool name (lib a') = Some p
    \<and> pool_profile (pools (lib a') p) = Some pr \<and> cpuPool (lib a') = cpuPool (lib a)
    \<and> (\<forall>q \<in> insert RShared (set (exclusivePools (lib a))) - {p}. pool_profile (pools (lib a') q) =
        (if GetExclusivePool name (lib a) \<noteq> None
            \<and> (q = RShared \<and> usesProfile q name (lib a) \<or> q \<noteq> RShared \<and> concernsReserved name nodeName (lib a) q)
         then Some pr else pool_profile (pools (lib a) q)))"
proof -
  let ?a = "a\<lparr>kube := k2\<rparr>"
  have w: "withEntry durationJSON c nodeName profile (reconcileMatching c nodeName profile ?a) = (Ret res, a')"
    using run ns get match by (simp add: powerProfile_Reconcile_def onKube_def)
  then obtain err a1 where r: "reconcileMatching c nodeName profile ?a = (Ret (None, err), a1)" using withEntry_Ret by blast
  have a1: "lib a' = lib a1" using lib_withEntry [of durationJSON c nodeName profile "Ret (None, err)" a1] w r by simp
  obtain pr err' where pr: "libraryProfile profile (machineOf (lib a)) = Ret pr" and ap: "applyProfile name nodeName pr (lib a) = (Ret (None, err'), lib a1)"
    using reconcileMatching_Ret [OF r] by (auto simp: name_def)
  from applyProfile_profiles [OF h ap libraryProfile_name [OF pr, folded name_def]] pr show ?thesis unfolding a1 by auto
qed

text \<open>
  C38.  An error that is returned need not be reported: if the pool of a profile is updated but the shared pool or a pseudo-reserved pool that uses the
  profile cannot be, the reconciliation fails with that error, and the entry written to the node's status lists no error
  (the variable the deferred function reads is shadowed).
\<close>

theorem update_error_not_reported:
  assumes "req_Namespace req = PowerNamespace" and "Get_PowerProfile c PowerNamespace (req_Name req) (kube a) = (Ret profile, k1)"
    and "nodeMatchesPowerProfile sel c profile nodeName k1 = (Ret True, k2)"
    and "ps_Epp (pps_PStates (pp_Spec profile)) = '''' \<or> isValidEpp (ps_Epp (pps_PStates (pp_Spec profile)))"
    and "libraryProfile profile (machineOf (lib a)) = Ret pr"
    and "GetExclusivePool (meta_Name (pp_meta profile)) (lib a) = Some p" and "SetPowerProfile p (Some pr) (lib a) = (Ret (), h1)"
    and "updateUsers (meta_Name (pp_meta profile)) nodeName pr h1 = (Fail e, h2)"
    and "addPowerNodeStatusProfileEntry durationJSON c nodeName profile None k2 = (Ret (), k3)"
  shows "powerProfile_Reconcile sel durationJSON c nodeName req a = (Fail e, a\<lparr>lib := h2, kube := k3\<rparr>)"
proof -
  have ap: "applyProfile (meta_Name (pp_meta profile)) nodeName pr (lib a) = (Ret (Some e, None), h2)"
    using assms by (simp add: applyProfile_def updatePool_def)
  have "reconcileMatching c nodeName profile (a\<lparr>kube := k2\<rparr>) = (Ret (Some e, None), a\<lparr>kube := k2, lib := h2\<rparr>)"
    using assms(4,5) ap by (auto simp: reconcileMatching_def offerResources_def Let_def onLib_def)
  with assms(1,2,3,9) show ?thesis by (simp add: powerProfile_Reconcile_def withEntry_def onKube_def)
qed

text \<open>
  Deleting a profile that the shared pool does not use leaves its pool, with the CPUs in it and the profile, in the
  library: only the extended resource and the status entry go.
\<close>

theorem deletion_keeps_pool:
  assumes "\<not> usesProfile RShared (req_Name req) (lib a)"
  shows "lib (snd (handleProfileDeletion c req nodeName a)) = lib a"
proof -
  have e: "lib (snd (removeEntry c nodeName (req_Name req) a1)) = lib a1" for a1 :: "'a agent"
    by (simp add: removeEntry_def observed)
  show ?thesis
    using assms by (cases "removeExtendedResources c nodeName (req_Name req) (kube a)"; cases "fst (removeExtendedResources c nodeName (req_Name req) (kube a))")
      (auto simp: handleProfileDeletion_def onKube_def e)
qed

section \<open>The properties at a concrete node\<close>

definition profileRequest :: Request where
  "profileRequest = \<lparr>req_Namespace = PowerNamespace, req_Name = ''performance''\<rparr>"

definition busyAgent :: "(nat \<Rightarrow> bool) \<Rightarrow> unit agent" where
  "busyAgent f = \<lparr>kube = (), lib = withProfile RShared (Some sampleProfile) (sampleHost (twoCPUMachine\<lparr>sys := (sys twoCPUMachine)\<lparr>faults := f\<rparr>\<rparr>))\<rparr>"

lemma busyAgent_inv: "host_inv (lib (busyAgent f))" "allCpus (lib (busyAgent f)) \<noteq> []"
proof -
  have "host_inv (sampleHost twoCPUMachine)" by (simp add: sampleHost_inv)
  then have "host_inv (sampleHost (twoCPUMachine\<lparr>sys := (sys twoCPUMachine)\<lparr>faults := f\<rparr>\<rparr>))"
    by (simp add: host_inv_def membership_ok_def registry_ok_def machine_ready_def sampleHost_def Cpus_def allocated_def)
  then show "host_inv (lib (busyAgent f))" by (simp add: busyAgent_def withProfile_inv)
  show "allCpus (lib (busyAgent f)) \<noteq> []" by (simp add: busyAgent_def withProfile_def sampleHost_def topology_CPUs_def)
qed

lemma sample_reads:
  "Get_PowerProfile sampleClient PowerNamespace (req_Name profileRequest) k = (Ret samplePowerProfile, k)"
  "nodeMatchesPowerProfile sel sampleClient samplePowerProfile ''node'' k = (Ret True, k)"
  by (simp_all add: sampleClient_def profileRequest_def nodeMatchesPowerProfile_def samplePowerProfile_def sampleSpec_def anySelector_def emptySelector_def)

theorem powerProfile_keeps_library_witness:
  "host_inv (lib (snd (powerProfile_Reconcile (\<lambda>_. Inr (\<lambda>_. True)) Itoa sampleClient ''node'' profileRequest (busyAgent (\<lambda>_. True)))))"
  using powerProfile_keeps_library [OF busyAgent_inv prod.collapse [symmetric]] by blast

theorem powerProfile_applied_witness:
  "\<exists>pr. libraryProfile samplePowerProfile (machineOf (lib (busyAgent (\<lambda>_. False)))) = Ret pr
     \<and> pool_profile (pools (lib (snd (powerProfile_Reconcile (\<lambda>_. Inr (\<lambda>_. True)) Itoa sampleClient ''node'' profileRequest (busyAgent (\<lambda>_. False))))) RShared) = Some pr"
proof -
  let ?run = "powerProfile_Reconcile (\<lambda>_. Inr (\<lambda>_. True)) Itoa sampleClient ''node'' profileRequest (busyAgent (\<lambda>_. False))"
  have "fst ?run = Ret Done" by code_simp
  then have run: "?run = (Ret Done, snd ?run)" by (metis prod.collapse)
  have n: "meta_Name (pp_meta samplePowerProfile) = ''performance''" by (simp add: samplePowerProfile_def aged_def)
  have h: "registry_ok (lib (busyAgent (\<lambda>_. False)))" using busyAgent_inv(1) by (simp add: host_inv_def)
  have "GetExclusivePool ''performance'' (lib (busyAgent (\<lambda>_. False))) = Some (RExcl 0)"
    by (simp add: GetExclusivePool_spec [OF h]) (simp add: busyAgent_def withProfile_def sampleHost_def)
  moreover have "usesProfile RShared ''performance'' (lib (busyAgent (\<lambda>_. False)))"
    by (simp add: busyAgent_def withProfile_def usesProfile_def GetPowerProfile_def sampleProfile_def)
  moreover have "req_Namespace profileRequest = PowerNamespace" by (simp add: profileRequest_def)
  moreover have "kube (busyAgent (\<lambda>_. False)) = ()" by simp
  moreover note host = busyAgent_inv(1) [of "\<lambda>_. False"]
  moreover from powerProfile_applied [OF host _ _ sample_reads(2) run] sample_reads(1)
  obtain pr p where pr: "libraryProfile samplePowerProfile (machineOf (lib (busyAgent (\<lambda>_. False)))) = Ret pr"
    and p: "GetExclusivePool ''performance'' (lib (snd ?run)) = Some p"
    and q: "\<forall>q \<in> insert RShared (set (exclusivePools (lib (busyAgent (\<lambda>_. False))))) - {p}. pool_profile (pools (lib (snd ?run)) q) =
        (if GetExclusivePool ''performance'' (lib (busyAgent (\<lambda>_. False))) \<noteq> None
            \<and> (q = RShared \<and> usesProfile q ''performance'' (lib (busyAgent (\<lambda>_. False))) \<or> q \<noteq> RShared \<and> concernsReserved ''performance'' ''node'' (lib (busyAgent (\<lambda>_. False))) q)
         then Some pr else pool_profile (pools (lib (busyAgent (\<lambda>_. False))) q))"
    unfolding n by (auto simp: profileRequest_def)
  moreover have "p \<noteq> RShared"
  proof -
    have i: "host_inv (lib (snd ?run))"
      using powerProfile_Reconcile_safe [OF busyAgent_inv, of sampleClient "\<lambda>_. False" "\<lambda>_. Inr (\<lambda>_. True)" Itoa "''node''" profileRequest]
      unfolding guarded_def by (blast intro: reached_inv)
    then show ?thesis using p by (auto simp: lookup_iff host_inv_def registry_ok_def isExclusive_def)
  qed
  ultimately show ?thesis by auto
qed

theorem deletion_keeps_pool_witness:
  "lib (snd (handleProfileDeletion sampleClient \<lparr>req_Namespace = PowerNamespace, req_Name = ''other''\<rparr> ''node'' (busyAgent (\<lambda>_. False)))) = lib (busyAgent (\<lambda>_. False))"
  by (rule deletion_keeps_pool) (simp add: busyAgent_def withProfile_def usesProfile_def GetPowerProfile_def sampleProfile_def)

theorem update_error_not_reported_witness:
  "\<exists>e h. powerProfile_Reconcile (\<lambda>_. Inr (\<lambda>_. True)) Itoa sampleClient ''node'' profileRequest (busyAgent (\<lambda>_. True)) = (Fail e, (busyAgent (\<lambda>_. True))\<lparr>lib := h, kube := ()\<rparr>)"
proof -
  let ?a = "busyAgent (\<lambda>_. True)"
  have n: "meta_Name (pp_meta samplePowerProfile) = ''performance''" by (simp add: samplePowerProfile_def aged_def)
  have "isRet (libraryProfile samplePowerProfile (machineOf (lib ?a)))" by code_simp
  then obtain pr where pr: "libraryProfile samplePowerProfile (machineOf (lib ?a)) = Ret pr" by (auto simp: isRet_iff)
  have h: "registry_ok (lib ?a)" using busyAgent_inv(1) by (simp add: host_inv_def)
  have p: "GetExclusivePool (meta_Name (pp_meta samplePowerProfile)) (lib ?a) = Some (RExcl 0)"
    unfolding n by (simp add: GetExclusivePool_spec [OF h]) (simp add: busyAgent_def withProfile_def sampleHost_def)
  define h1 where "h1 = withProfile (RExcl 0) (Some pr) (lib ?a)"
  have s: "SetPowerProfile (RExcl 0) (Some pr) (lib ?a) = (Ret (), h1)"
    by (simp add: SetPowerProfile_unfold h1_def busyAgent_def withProfile_def sampleHost_def Cpus_def)
  have "(case libraryProfile samplePowerProfile (machineOf (lib ?a)) of
      Ret x \<Rightarrow> \<not> isRet (fst (updateUsers ''performance'' ''node'' x (withProfile (RExcl 0) (Some x) (lib ?a))))
           \<and> \<not> isPanic (fst (updateUsers ''performance'' ''node'' x (withProfile (RExcl 0) (Some x) (lib ?a)))) | _ \<Rightarrow> False)" by code_simp
  then obtain e h2 where u: "updateUsers (meta_Name (pp_meta samplePowerProfile)) ''node'' pr h1 = (Fail e, h2)"
    unfolding n h1_def pr by (cases "updateUsers ''performance'' ''node'' pr (withProfile (RExcl 0) (Some pr) (lib ?a))"; cases "fst (updateUsers ''performance'' ''node'' pr (withProfile (RExcl 0) (Some pr) (lib ?a)))") auto
  have v: "ps_Epp (pps_PStates (pp_Spec samplePowerProfile)) = '''' \<or> isValidEpp (ps_Epp (pps_PStates (pp_Spec samplePowerProfile)))" by code_simp
  have "addPowerNodeStatusProfileEntry Itoa sampleClient ''node'' samplePowerProfile None (kube ?a) = (Ret (), kube ?a)"
    by (simp add: addPowerNodeStatusProfileEntry_def applyPowerNodeStateProfilesStatus_def sampleClient_def)
  note x = update_error_not_reported [OF _ sample_reads(1) sample_reads(2) v pr p s u this]
  have "powerProfile_Reconcile (\<lambda>_. Inr (\<lambda>_. True)) Itoa sampleClient ''node'' profileRequest ?a = (Fail e, ?a\<lparr>lib := h2, kube := kube ?a\<rparr>)"
    by (rule x) (simp add: profileRequest_def)
  then show ?thesis by auto
qed

end
