(* ===== verification/Telemetry.thy ===== *)
theory Telemetry
  imports Hardware "HOL-Library.Word"
begin

text \<open>
  The DPDK telemetry client (\<^verbatim>\<open>internal/scaling/dpdk_client.go\<close>): one goroutine per pod
  connects to the pod's telemetry socket and polls the busy and total cycle counters of its CPUs;
  the client keeps the latest usage of every watched CPU.

  The peer at the other end of the socket, the clock and the decoder of \<^verbatim>\<open>encoding/json\<close> are
  parameters, of which nothing is assumed: a script of events says how every dial ended and what
  every exchange delivered.  Counters are 64-bit words.  The facts: a sample without an error is a
  percentage and is the share of busy cycles in the window, the exact condition under which a reply
  makes the agent panic, and that the client never keeps a reading for a CPU that no open
  connection watches.
\<close>

section \<open>Data\<close>

record initialMessage =
  im_Version :: string
  im_PID :: int
  im_MaxOutputLength :: int

record usageData =
  LcoreIDs :: "nat list"
  TotalCycles :: "64 word list"
  BusyCycles :: "64 word list"

record cycleCounters =
  cc_total :: "64 word"
  cc_busy :: "64 word"

record telemetryResult =
  tr_percent :: int
  tr_err :: "gerr option"

record DPDKTelemetryConnectionData =
  PodUID :: string
  WatchedCPUs :: "nat list"

text \<open>
  Where the goroutine of a connection is: waiting to dial, polling, or returned.  The two flags
  are local variables of \<^verbatim>\<open>connectLoop\<close> and say what has been logged.
\<close>

datatype phase = Dialing (loggedWait: bool) (loggedUnexpected: bool) | Polling | Finished

record dpdkTelemetryConnection =
  conn_podUID :: string
  conn_watchedCPUs :: "nat list"
  prevUsageCycles :: "nat \<rightharpoonup> cycleCounters"
  conn_buffer :: nat
  conn_phase :: phase

record dpdkTelemetryClientImpl =
  connections :: "(string \<times> dpdkTelemetryConnection) list"
  deltaUsage :: "nat \<rightharpoonup> telemetryResult"

definition ErrDPDKMetricMissing :: gerr where
  "ErrDPDKMetricMissing = Msg ''no entry found for this cpu''"

definition ErrDPDKMetricNotProvided :: gerr where
  "ErrDPDKMetricNotProvided = Msg ''dpdk telemetry did not provide a reading for this cpu''"

text \<open>A connection works on its own state and on the usage table it shares with the client.\<close>

type_synonym conn_state = "dpdkTelemetryConnection \<times> (nat \<rightharpoonup> telemetryResult)"

section \<open>One exchange with the socket\<close>

text \<open>What the operating system answers to the four calls of an exchange.\<close>

record exchange =
  ex_setWriteDeadline :: "gerr option"
  ex_write :: "gerr option"
  ex_setReadDeadline :: "gerr option"
  ex_read :: "string gores"

text \<open>\<^verbatim>\<open>conn.Read(c.buffer)\<close>: a message longer than the buffer is cut, and a read into an empty buffer returns at once.\<close>

definition connRead :: "nat \<Rightarrow> exchange \<Rightarrow> string gores" where
  "connRead bufLen ex = (if bufLen = 0 then Ret [] else (case ex_read ex of Ret m \<Rightarrow> Ret (take bufLen m) | Fail e \<Rightarrow> Fail e | Panic m \<Rightarrow> Panic m))"

definition processCommand :: "(string \<Rightarrow> 'v gores) \<Rightarrow> string \<Rightarrow> nat \<Rightarrow> exchange \<Rightarrow> 'v gores" where
  "processCommand unmarshal cmd bufLen ex =
     (case (if cmd \<noteq> [] then ex_setWriteDeadline ex else None) of
        Some e \<Rightarrow> Fail (Wrap ''error setting write deadline'' e)
      | None \<Rightarrow>
     (case (if cmd \<noteq> [] then ex_write ex else None) of
        Some e \<Rightarrow> Fail (Wrap ''write error'' e)
      | None \<Rightarrow>
     (case ex_setReadDeadline ex of
        Some e \<Rightarrow> Fail (Wrap ''error setting read deadline'' e)
      | None \<Rightarrow>
     (case connRead bufLen ex of
        Fail e \<Rightarrow> Fail (Wrap ''read error'' e)
      | Panic m \<Rightarrow> Panic m
      | Ret m \<Rightarrow> unmarshal m))))"

text \<open>\<^verbatim>\<open>make([]byte, n)\<close> panics for a negative length and for one beyond the address space.\<close>

definition makeSlice :: "int \<Rightarrow> nat gores" where
  "makeSlice n = (if n < 0 \<or> 2 ^ 48 < n then Panic ''makeslice: len out of range'' else Ret (nat n))"

definition handleInitialMessage :: "(string \<Rightarrow> initialMessage gores) \<Rightarrow> exchange \<Rightarrow> (unit, conn_state) action" where
  "handleInitialMessage unmarshal ex st = (case st of (c, d) \<Rightarrow>
     let c1 = c\<lparr>conn_buffer := 1024\<rparr> in
     (case processCommand unmarshal [] 1024 ex of
        Fail e \<Rightarrow> (Fail (Wrap ''initial message error'' e), (c1, d))
      | Panic m \<Rightarrow> (Panic m, (c1, d))
      | Ret msg \<Rightarrow> (case makeSlice (im_MaxOutputLength msg) of
            Ret n \<Rightarrow> (Ret (), (c1\<lparr>conn_buffer := n\<rparr>, d))
          | Fail e \<Rightarrow> (Fail e, (c1, d))
          | Panic m \<Rightarrow> (Panic m, (c1, d)))))"

section \<open>Usage of the CPUs\<close>

definition lcoreIndex :: "nat list \<Rightarrow> nat \<rightharpoonup> nat" where
  "lcoreIndex ids = foldl (\<lambda>m (index, cpuID). m(cpuID \<mapsto> index)) Map.empty (enumerate 0 ids)"

text \<open>The sample of one window from two readings of the counters.\<close>

definition windowResult :: "cycleCounters option \<Rightarrow> cycleCounters \<Rightarrow> telemetryResult" where
  "windowResult prev cur = (case prev of
      None \<Rightarrow> \<lparr>tr_percent = 0, tr_err = Some ErrDPDKMetricNotProvided\<rparr>
    | Some p \<Rightarrow>
        if cc_total p \<le> cc_total cur \<and> cc_busy p \<le> cc_busy cur then
          (let deltaTotal = cc_total cur - cc_total p; deltaBusy = cc_busy cur - cc_busy p in
           if deltaTotal = 0 then \<lparr>tr_percent = 0, tr_err = None\<rparr>
           else (let percent = (deltaBusy * 100) div deltaTotal in
             \<lparr>tr_percent = sint percent, tr_err = (if 100 < percent then Some ErrDPDKMetricNotProvided else None)\<rparr>))
        else \<lparr>tr_percent = 0, tr_err = Some ErrDPDKMetricNotProvided\<rparr>)"

definition sampleCPU :: "usageData \<Rightarrow> (nat \<rightharpoonup> nat) \<Rightarrow> nat \<Rightarrow> (unit, conn_state) action" where
  "sampleCPU u lcoreIDs cpuID st = (case st of (c, d) \<Rightarrow>
     (case lcoreIDs cpuID of
        None \<Rightarrow> (Ret (), (c, d(cpuID \<mapsto> \<lparr>tr_percent = 0, tr_err = Some ErrDPDKMetricNotProvided\<rparr>)))
      | Some index \<Rightarrow>
          if length (TotalCycles u) \<le> index \<or> length (BusyCycles u) \<le> index
          then (Panic ''index out of range'', (c, d))
          else (let cur = \<lparr>cc_total = TotalCycles u ! index, cc_busy = BusyCycles u ! index\<rparr> in
            (Ret (), (c\<lparr>prevUsageCycles := (prevUsageCycles c)(cpuID \<mapsto> cur)\<rparr>,
                      d(cpuID \<mapsto> windowResult (prevUsageCycles c cpuID) cur))))))"

abbreviation "usageCommand \<equiv> ''/eal/lcore/usage''"

definition handleUsage :: "(string \<Rightarrow> usageData gores) \<Rightarrow> exchange \<Rightarrow> (unit, conn_state) action" where
  "handleUsage unmarshal ex st = (case st of (c, d) \<Rightarrow>
     (case processCommand unmarshal usageCommand (conn_buffer c) ex of
        Fail e \<Rightarrow> (Fail (Wrap ''usage error'' e), (c, d))
      | Panic m \<Rightarrow> (Panic m, (c, d))
      | Ret u \<Rightarrow> forEach (sampleCPU u (lcoreIndex (LcoreIDs u))) (conn_watchedCPUs c) (c, d)))"

definition clearMetrics :: "nat list \<Rightarrow> conn_state \<Rightarrow> conn_state" where
  "clearMetrics cpuList st = foldl (\<lambda>(c, d) cpuID.
     (c\<lparr>prevUsageCycles := (prevUsageCycles c)(cpuID := None)\<rparr>, d(cpuID := None))) st cpuList"

section \<open>The goroutine of a connection\<close>

datatype event = CtxDone | DialTick "exchange gores" | PollTick exchange

text \<open>
  One iteration of the loop of \<^verbatim>\<open>connectLoop\<close>: \<open>Inl None\<close> is the return of no connection,
  \<open>Inl (Some ex)\<close> the return of a connection whose first exchange is \<open>ex\<close>, and \<open>Inr\<close> goes on with
  the two flags.
\<close>

definition connectLoop :: "event \<Rightarrow> bool \<Rightarrow> bool \<Rightarrow> exchange option + bool \<times> bool" where
  "connectLoop ev waited failed = (case ev of
      CtxDone \<Rightarrow> Inl None
    | DialTick (Ret ex) \<Rightarrow> Inl (Some ex)
    | DialTick r \<Rightarrow> if isNotExist r then Inr (True, failed) else Inr (waited, True)
    | PollTick _ \<Rightarrow> Inr (waited, failed))"

text \<open>One iteration of the loop of \<^verbatim>\<open>ioLoop\<close>: whether the loop goes on.\<close>

definition ioLoop :: "(string \<Rightarrow> usageData gores) \<Rightarrow> event \<Rightarrow> (bool, conn_state) action" where
  "ioLoop unmarshal ev st = (case ev of
      CtxDone \<Rightarrow> (Ret False, st)
    | PollTick ex \<Rightarrow> andThen (handleUsage unmarshal ex st) (\<lambda>_ st1. (Ret True, st1))
    | DialTick _ \<Rightarrow> (Ret True, st))"

definition setPhase :: "phase \<Rightarrow> conn_state \<Rightarrow> conn_state" where
  "setPhase ph st = ((fst st)\<lparr>conn_phase := ph\<rparr>, snd st)"

text \<open>The error of \<^verbatim>\<open>ioLoop\<close> clears the metrics and starts the dialling again.\<close>

definition ioFailed :: "conn_state \<Rightarrow> conn_state" where
  "ioFailed st = setPhase (Dialing False False) (clearMetrics (conn_watchedCPUs (fst st)) st)"

definition connect ::
  "(string \<Rightarrow> initialMessage gores) \<Rightarrow> (string \<Rightarrow> usageData gores) \<Rightarrow> event \<Rightarrow> (unit, conn_state) action" where
  "connect decInit decUsage ev st = (case conn_phase (fst st) of
      Finished \<Rightarrow> (Ret (), st)
    | Dialing w f \<Rightarrow>
        (case connectLoop ev w f of
           Inl None \<Rightarrow> (Ret (), setPhase Finished st)
         | Inr (w1, f1) \<Rightarrow> (Ret (), setPhase (Dialing w1 f1) st)
         | Inl (Some ex) \<Rightarrow>
             (case handleInitialMessage decInit ex st of
                (Ret _, st1) \<Rightarrow> (Ret (), setPhase Polling st1)
              | (Fail _, st1) \<Rightarrow> (Ret (), ioFailed st1)
              | (Panic m, st1) \<Rightarrow> (Panic m, st1)))
    | Polling \<Rightarrow>
        (case ioLoop decUsage ev st of
           (Ret True, st1) \<Rightarrow> (Ret (), st1)
         | (Ret False, st1) \<Rightarrow> (Ret (), setPhase Finished st1)
         | (Fail _, st1) \<Rightarrow> (Ret (), ioFailed st1)
         | (Panic m, st1) \<Rightarrow> (Panic m, st1)))"

text \<open>
  \<^verbatim>\<open>close\<close>: the context is cancelled, the goroutine may still handle events until it sees that,
  and after it has returned the readings are dropped.
\<close>

definition connection_close ::
  "(string \<Rightarrow> initialMessage gores) \<Rightarrow> (string \<Rightarrow> usageData gores) \<Rightarrow> event list \<Rightarrow> (unit, conn_state) action" where
  "connection_close decInit decUsage pending st =
     andThen (forEach (connect decInit decUsage) (pending @ [CtxDone]) st) (\<lambda>_ st1.
       (Ret (), clearMetrics (conn_watchedCPUs (fst st1)) st1))"

section \<open>The client\<close>

definition NewDPDKTelemetryClient :: dpdkTelemetryClientImpl where
  "NewDPDKTelemetryClient = \<lparr>connections = [], deltaUsage = Map.empty\<rparr>"

definition EnsureConnection :: "DPDKTelemetryConnectionData \<Rightarrow> dpdkTelemetryClientImpl \<Rightarrow> dpdkTelemetryClientImpl" where
  "EnsureConnection data cl = (case map_of (connections cl) (PodUID data) of
      Some _ \<Rightarrow> cl
    | None \<Rightarrow> cl\<lparr>connections := AList.update (PodUID data)
        \<lparr>conn_podUID = PodUID data, conn_watchedCPUs = WatchedCPUs data, prevUsageCycles = Map.empty,
         conn_buffer = 0, conn_phase = Dialing False False\<rparr> (connections cl)\<rparr>)"

definition ListConnections :: "dpdkTelemetryClientImpl \<Rightarrow> DPDKTelemetryConnectionData list" where
  "ListConnections cl = map (\<lambda>(k, c). \<lparr>PodUID = conn_podUID c, WatchedCPUs = conn_watchedCPUs c\<rparr>) (connections cl)"

definition GetUsagePercent :: "nat \<Rightarrow> dpdkTelemetryClientImpl \<Rightarrow> int gores" where
  "GetUsagePercent cpuID cl = (case deltaUsage cl cpuID of
      Some r \<Rightarrow> (case tr_err r of None \<Rightarrow> Ret (tr_percent r) | Some e \<Rightarrow> Fail e)
    | None \<Rightarrow> Fail ErrDPDKMetricMissing)"

text \<open>An event of the goroutine of one pod's connection.\<close>

definition connectionEvent ::
  "(string \<Rightarrow> initialMessage gores) \<Rightarrow> (string \<Rightarrow> usageData gores) \<Rightarrow> string \<Rightarrow> event \<Rightarrow> (unit, dpdkTelemetryClientImpl) action" where
  "connectionEvent decInit decUsage podUID ev cl = (case map_of (connections cl) podUID of
      None \<Rightarrow> (Ret (), cl)
    | Some c \<Rightarrow> (case connect decInit decUsage ev (c, deltaUsage cl) of (r, (c1, d1)) \<Rightarrow>
        (r, cl\<lparr>connections := AList.update podUID c1 (connections cl), deltaUsage := d1\<rparr>)))"

definition CloseConnection ::
  "(string \<Rightarrow> initialMessage gores) \<Rightarrow> (string \<Rightarrow> usageData gores) \<Rightarrow> event list \<Rightarrow> string \<Rightarrow> (unit, dpdkTelemetryClientImpl) action" where
  "CloseConnection decInit decUsage pending podUID cl = (case map_of (connections cl) podUID of
      None \<Rightarrow> (Ret (), cl)
    | Some c \<Rightarrow> (case connection_close decInit decUsage pending (c, deltaUsage cl) of (r, (c1, d1)) \<Rightarrow>
        (r, cl\<lparr>connections := AList.delete podUID (connections cl), deltaUsage := d1\<rparr>)))"

text \<open>\<^verbatim>\<open>Close\<close> visits the entries of the map; each is closed and then deleted.\<close>

definition CloseEntry ::
  "(string \<Rightarrow> initialMessage gores) \<Rightarrow> (string \<Rightarrow> usageData gores) \<Rightarrow> (string \<Rightarrow> event list) \<Rightarrow> string \<times> dpdkTelemetryConnection
     \<Rightarrow> (unit, dpdkTelemetryClientImpl) action" where
  "CloseEntry decInit decUsage pending kc cl = (case kc of (k, c) \<Rightarrow>
     (case connection_close decInit decUsage (pending k) (c, deltaUsage cl) of
        (Ret _, (c1, d1)) \<Rightarrow> (Ret (), cl\<lparr>connections := AList.delete k (connections cl), deltaUsage := d1\<rparr>)
      | (r, (c1, d1)) \<Rightarrow> (r, cl\<lparr>deltaUsage := d1\<rparr>)))"

definition client_Close ::
  "(string \<Rightarrow> initialMessage gores) \<Rightarrow> (string \<Rightarrow> usageData gores) \<Rightarrow> (string \<Rightarrow> event list) \<Rightarrow> (unit, dpdkTelemetryClientImpl) action" where
  "client_Close decInit decUsage pending cl = forEach (CloseEntry decInit decUsage pending) (connections cl) cl"

section \<open>Samples\<close>

lemma lcoreIndex_snoc: "lcoreIndex (ids @ [x]) = (lcoreIndex ids)(x \<mapsto> length ids)"
  by (simp add: lcoreIndex_def enumerate_append_eq)

lemma lcoreIndex_nth: "lcoreIndex ids x = Some i \<Longrightarrow> i < length ids \<and> ids ! i = x"
proof (induction ids arbitrary: i rule: rev_induct)
  case Nil
  then show ?case by (simp add: lcoreIndex_def)
next
  case (snoc y ids)
  then show ?case by (fastforce simp: lcoreIndex_snoc nth_append split: if_splits)
qed

lemma lcoreIndex_None: "lcoreIndex ids x = None \<longleftrightarrow> x \<notin> set ids"
proof (induction ids rule: rev_induct)
  case Nil
  then show ?case by (simp add: lcoreIndex_def)
qed (auto simp: lcoreIndex_snoc)

definition countersAt :: "usageData \<Rightarrow> nat \<Rightarrow> cycleCounters" where
  "countersAt u i = \<lparr>cc_total = TotalCycles u ! i, cc_busy = BusyCycles u ! i\<rparr>"

definition indexOk :: "usageData \<Rightarrow> nat \<Rightarrow> bool" where
  "indexOk u x \<longleftrightarrow> (\<forall>i. lcoreIndex (LcoreIDs u) x = Some i \<longrightarrow> i < length (TotalCycles u) \<and> i < length (BusyCycles u))"

text \<open>The sample of a CPU given a reply and the previous counters.\<close>

definition sampleOf :: "usageData \<Rightarrow> cycleCounters option \<Rightarrow> nat \<Rightarrow> telemetryResult" where
  "sampleOf u prev x = (case lcoreIndex (LcoreIDs u) x of
      None \<Rightarrow> \<lparr>tr_percent = 0, tr_err = Some ErrDPDKMetricNotProvided\<rparr>
    | Some i \<Rightarrow> windowResult prev (countersAt u i))"

definition prevOf :: "usageData \<Rightarrow> cycleCounters option \<Rightarrow> nat \<Rightarrow> cycleCounters option" where
  "prevOf u prev x = (case lcoreIndex (LcoreIDs u) x of None \<Rightarrow> prev | Some i \<Rightarrow> Some (countersAt u i))"

lemma sampleCPU_effect:
  "sampleCPU u (lcoreIndex (LcoreIDs u)) x (c, d) =
     (if indexOk u x
      then (Ret (), (c\<lparr>prevUsageCycles := (prevUsageCycles c)(x := prevOf u (prevUsageCycles c x) x)\<rparr>,
                     d(x \<mapsto> sampleOf u (prevUsageCycles c x) x)))
      else (Panic ''index out of range'', (c, d)))"
  by (auto simp: sampleCPU_def indexOk_def sampleOf_def prevOf_def countersAt_def Let_def not_le split: option.splits)

lemma sample_loop:
  assumes "distinct ws"
  shows "if \<forall>x \<in> set ws. indexOk u x
    then forEach (sampleCPU u (lcoreIndex (LcoreIDs u))) ws (c, d)
      = (Ret (), (c\<lparr>prevUsageCycles := (\<lambda>x. if x \<in> set ws then prevOf u (prevUsageCycles c x) x else prevUsageCycles c x)\<rparr>,
                  \<lambda>x. if x \<in> set ws then Some (sampleOf u (prevUsageCycles c x) x) else d x))
    else isPanic (fst (forEach (sampleCPU u (lcoreIndex (LcoreIDs u))) ws (c, d)))"
  using assms
proof (induction ws arbitrary: c d)
  case Nil
  then show ?case by simp
next
  case (Cons w ws)
  show ?case
  proof (cases "indexOk u w")
    case False
    then show ?thesis by (simp add: sampleCPU_effect)
  next
    case True
    let ?c = "c\<lparr>prevUsageCycles := (prevUsageCycles c)(w := prevOf u (prevUsageCycles c w) w)\<rparr>"
    let ?d = "d(w \<mapsto> sampleOf u (prevUsageCycles c w) w)"
    have "w \<notin> set ws" using Cons.prems by simp
    then have p: "?c\<lparr>prevUsageCycles := (\<lambda>x. if x \<in> set ws then prevOf u (prevUsageCycles ?c x) x else prevUsageCycles ?c x)\<rparr>
        = c\<lparr>prevUsageCycles := (\<lambda>x. if x \<in> set (w # ws) then prevOf u (prevUsageCycles c x) x else prevUsageCycles c x)\<rparr>"
      "(\<lambda>x. if x \<in> set ws then Some (sampleOf u (prevUsageCycles ?c x) x) else ?d x)
        = (\<lambda>x. if x \<in> set (w # ws) then Some (sampleOf u (prevUsageCycles c x) x) else d x)"
      by (auto simp: fun_eq_iff intro!: arg_cong [where f = "\<lambda>f. c\<lparr>prevUsageCycles := f\<rparr>"])
    show ?thesis
      using Cons.IH [of ?c ?d] Cons.prems True unfolding p by (simp add: sampleCPU_effect)
  qed
qed

text \<open>Whatever the outcome, a loop over the watched CPUs touches only their readings.\<close>

lemma sample_loop_frame:
  assumes "forEach (sampleCPU u (lcoreIndex (LcoreIDs u))) ws (c, d) = (r, (c', d'))"
  shows "conn_watchedCPUs c' = conn_watchedCPUs c \<and> conn_podUID c' = conn_podUID c \<and> conn_phase c' = conn_phase c
    \<and> (\<forall>x. x \<notin> set ws \<longrightarrow> d' x = d x)"
  using assms
proof (induction ws arbitrary: c d)
  case (Cons w ws)
  show ?case
  proof (cases "indexOk u w")
    case True
    with Cons.IH [OF _] Cons.prems show ?thesis by (fastforce simp: sampleCPU_effect)
  qed (use Cons.prems in \<open>simp add: sampleCPU_effect\<close>)
qed simp

lemma restrict_clear: "m(w := None) |` (- set ws) = m |` (- set (w # ws))"
  by (auto simp: restrict_map_def)

lemma clearMetrics_effect:
  "clearMetrics ws (c, d) = (c\<lparr>prevUsageCycles := prevUsageCycles c |` (- set ws)\<rparr>, d |` (- set ws))"
proof (induction ws arbitrary: c d)
  case Nil
  then show ?case by (simp add: clearMetrics_def restrict_map_def)
next
  case (Cons w ws)
  have "clearMetrics (w # ws) (c, d)
      = clearMetrics ws (c\<lparr>prevUsageCycles := (prevUsageCycles c)(w := None)\<rparr>, d(w := None))"
    by (simp add: clearMetrics_def)
  then show ?case unfolding Cons.IH by (cases c) (simp del: fun_upd_apply restrict_fun_upd list.set add: restrict_clear)
qed

section \<open>The window\<close>

text \<open>
  The usage of a window over mathematical integers: the share of busy cycles in percent, if the
  two readings are consistent.
\<close>

definition windowShare :: "(nat \<times> nat) option \<Rightarrow> nat \<times> nat \<Rightarrow> nat option" where
  "windowShare prev cur = (case prev of
      None \<Rightarrow> None
    | Some (t0, b0) \<Rightarrow> (case cur of (t1, b1) \<Rightarrow>
        if t1 < t0 \<or> b1 < b0 then None
        else if t1 = t0 then Some 0
        else let q = (b1 - b0) * 100 div (t1 - t0) in if 100 < q then None else Some q))"

definition unatCounters :: "cycleCounters \<Rightarrow> nat \<times> nat" where
  "unatCounters c = (unat (cc_total c), unat (cc_busy c))"

lemma small_word:
  fixes q :: "64 word"
  assumes "\<not> 100 < q"
  shows "sint q = int (unat q)" "unat q \<le> 100"
proof -
  show u: "unat q \<le> 100" using assms by (simp add: word_less_nat_alt)
  have "uint q < 9223372036854775808" "0 \<le> uint q" using u unfolding uint_nat by linarith+
  then have "- (2 ^ 63) \<le> uint q \<and> uint q < 2 ^ 63" by (simp, linarith)
  then have "sint q = uint q" by (simp add: sint_uint signed_take_bit_int_eq_self del: power_numeral)
  then show "sint q = int (unat q)" by (simp only: uint_nat)
qed

lemma unat_times_100: "unat b * 100 < 2 ^ 64 \<Longrightarrow> unat (b * 100) = unat b * 100" for b :: "64 word"
  using unat_mult_lem [of b 100] by simp

lemma windowResult_bounds:
  assumes "tr_err (windowResult prev cur) = None"
  shows "0 \<le> tr_percent (windowResult prev cur) \<and> tr_percent (windowResult prev cur) \<le> 100"
proof -
  have "0 \<le> sint q \<and> sint q \<le> 100" if "\<not> 100 < q" for q :: "64 word"
    using small_word [OF that] by linarith
  with assms show ?thesis by (auto simp: windowResult_def Let_def split: option.splits if_splits)
qed

lemma windowResult_share:
  assumes "\<And>p. prev = Some p \<Longrightarrow> (unat (cc_busy cur) - unat (cc_busy p)) * 100 < 2 ^ 64"
  shows "case windowShare (map_option unatCounters prev) (unatCounters cur) of
      Some q \<Rightarrow> windowResult prev cur = \<lparr>tr_percent = int q, tr_err = None\<rparr>
    | None \<Rightarrow> tr_err (windowResult prev cur) = Some ErrDPDKMetricNotProvided"
proof (cases prev)
  case None
  then show ?thesis by (simp add: windowShare_def windowResult_def)
next
  case (Some p)
  note ovf = assms [OF Some]
  show ?thesis
  proof (cases "cc_total p \<le> cc_total cur \<and> cc_busy p \<le> cc_busy cur")
    case False
    then show ?thesis using Some by (auto simp: windowShare_def windowResult_def unatCounters_def word_le_nat_alt)
  next
    case True
    let ?dt = "cc_total cur - cc_total p" and ?db = "cc_busy cur - cc_busy p"
    have d: "unat ?dt = unat (cc_total cur) - unat (cc_total p)" "unat ?db = unat (cc_busy cur) - unat (cc_busy p)"
      using True by (simp_all add: unat_sub_if_size word_le_nat_alt)
    have m: "unat (?db * 100) = unat ?db * 100" using ovf by (intro unat_times_100) (simp only: d)
    then have q: "unat ((?db * 100) div ?dt) = unat ?db * 100 div unat ?dt" by (simp only: unat_div)
    have z: "?dt = 0 \<longleftrightarrow> unat (cc_total cur) = unat (cc_total p)" by (metis right_minus_eq word_unat_eq_iff)
    have w: "windowResult prev cur = (if ?dt = 0 then \<lparr>tr_percent = 0, tr_err = None\<rparr>
        else \<lparr>tr_percent = sint ((?db * 100) div ?dt),
              tr_err = (if 100 < (?db * 100) div ?dt then Some ErrDPDKMetricNotProvided else None)\<rparr>)"
      using True Some by (simp add: windowResult_def)
    have s: "windowShare (map_option unatCounters prev) (unatCounters cur)
        = (if ?dt = 0 then Some 0 else if 100 < unat ((?db * 100) div ?dt) then None else Some (unat ((?db * 100) div ?dt)))"
      unfolding q d z using True Some by (simp add: windowShare_def unatCounters_def Let_def word_le_nat_alt not_less)
    have g: "100 < unat ((?db * 100) div ?dt) \<longleftrightarrow> 100 < (?db * 100) div ?dt"
      by (simp only: word_less_nat_alt) simp
    show ?thesis
      unfolding s w g using small_word(1) [of "(?db * 100) div ?dt"] by simp
  qed
qed
section \<open>What one poll does\<close>

lemma processCommand_no_panic:
  "\<not> isPanic (ex_read ex) \<Longrightarrow> (\<And>m. \<not> isPanic (unmarshal m)) \<Longrightarrow> \<not> isPanic (processCommand unmarshal cmd n ex)"
  by (auto simp: processCommand_def connRead_def split: option.splits gores.splits)

lemma handleUsage_cases:
  obtains (fail) e where "processCommand dec usageCommand (conn_buffer c) ex = Fail e" "handleUsage dec ex (c, d) = (Fail (Wrap ''usage error'' e), (c, d))"
    | (panic) m where "processCommand dec usageCommand (conn_buffer c) ex = Panic m" "handleUsage dec ex (c, d) = (Panic m, (c, d))"
    | (reply) u where "processCommand dec usageCommand (conn_buffer c) ex = Ret u"
        "handleUsage dec ex (c, d) = forEach (sampleCPU u (lcoreIndex (LcoreIDs u))) (conn_watchedCPUs c) (c, d)"
  by (cases "processCommand dec usageCommand (conn_buffer c) ex") (auto simp: handleUsage_def)

text \<open>What a sample says of a reply and of the counters of the previous poll.\<close>

definition goodSample :: "usageData \<Rightarrow> cycleCounters option \<Rightarrow> nat \<Rightarrow> telemetryResult \<Rightarrow> bool" where
  "goodSample u prev x r \<longleftrightarrow> (tr_err r = None \<longrightarrow> 0 \<le> tr_percent r \<and> tr_percent r \<le> 100)
     \<and> (case lcoreIndex (LcoreIDs u) x of
          None \<Rightarrow> tr_err r = Some ErrDPDKMetricNotProvided
        | Some i \<Rightarrow> (\<forall>p. prev = Some p \<longrightarrow> (unat (BusyCycles u ! i) - unat (cc_busy p)) * 100 < 2 ^ 64) \<longrightarrow>
            (case windowShare (map_option unatCounters prev) (unat (TotalCycles u ! i), unat (BusyCycles u ! i)) of
               Some q \<Rightarrow> r = \<lparr>tr_percent = int q, tr_err = None\<rparr>
             | None \<Rightarrow> tr_err r = Some ErrDPDKMetricNotProvided))"

lemma sampleOf_good: "goodSample u prev x (sampleOf u prev x)"
proof (cases "lcoreIndex (LcoreIDs u) x")
  case None
  then show ?thesis by (simp add: goodSample_def sampleOf_def)
next
  case (Some i)
  have c: "(unat (TotalCycles u ! i), unat (BusyCycles u ! i)) = unatCounters (countersAt u i)"
    by (simp add: unatCounters_def countersAt_def)
  show ?thesis
    unfolding goodSample_def sampleOf_def Some option.case c
    using windowResult_bounds [of prev "countersAt u i"]
    by (intro conjI impI windowResult_share) (simp_all add: countersAt_def)
qed

text \<open>
  After a successful poll every watched CPU has a fresh sample and no other CPU's sample has
  changed.  A sample is the share of busy cycles of the window since the previous poll, in percent
  and between 0 and 100, or the error that no reading is available: when the reply does not list
  the CPU, on the first poll, and when the counters are inconsistent (a counter went backwards, or
  more than all cycles were busy).  The current counters become the previous ones of the next
  window.
\<close>

theorem handleUsage_samples:
  assumes "handleUsage dec ex (c, d) = (Ret (), (c', d'))" "distinct (conn_watchedCPUs c)"
  shows "\<exists>u. processCommand dec usageCommand (conn_buffer c) ex = Ret u
    \<and> (\<forall>x. x \<notin> set (conn_watchedCPUs c) \<longrightarrow> d' x = d x \<and> prevUsageCycles c' x = prevUsageCycles c x)
    \<and> (\<forall>x \<in> set (conn_watchedCPUs c). \<exists>r. d' x = Some r \<and> goodSample u (prevUsageCycles c x) x r
        \<and> prevUsageCycles c' x = (case lcoreIndex (LcoreIDs u) x of None \<Rightarrow> prevUsageCycles c x | Some i \<Rightarrow> Some (countersAt u i)))"
proof (cases rule: handleUsage_cases [of dec c ex d])
  case (reply u)
  note lp = sample_loop [OF assms(2), of u c d]
  have "fst (forEach (sampleCPU u (lcoreIndex (LcoreIDs u))) (conn_watchedCPUs c) (c, d)) = Ret ()"
    using assms(1) reply(2) by simp
  then have ok: "\<forall>x \<in> set (conn_watchedCPUs c). indexOk u x" using lp by (auto split: if_splits)
  then have e: "c' = c\<lparr>prevUsageCycles := (\<lambda>x. if x \<in> set (conn_watchedCPUs c) then prevOf u (prevUsageCycles c x) x else prevUsageCycles c x)\<rparr>"
    "d' = (\<lambda>x. if x \<in> set (conn_watchedCPUs c) then Some (sampleOf u (prevUsageCycles c x) x) else d x)"
    using lp assms(1) reply(2) by simp_all
  show ?thesis
    using reply(1) sampleOf_good by (intro exI [of _ u]) (simp add: e prevOf_def)
qed (use assms in simp_all)

text \<open>
  The exact condition under which a poll panics, which ends the node agent: the reply lists a
  watched CPU at a position beyond the end of one of its two counter lists.  Nothing in the reply
  format is checked before the lists are indexed.
\<close>

theorem handleUsage_panics_iff:
  assumes "\<not> isPanic (ex_read ex)" "\<And>m. \<not> isPanic (dec m)" "distinct (conn_watchedCPUs c)"
  shows "isPanic (fst (handleUsage dec ex (c, d))) \<longleftrightarrow>
    (\<exists>u x i. processCommand dec usageCommand (conn_buffer c) ex = Ret u \<and> x \<in> set (conn_watchedCPUs c)
       \<and> lcoreIndex (LcoreIDs u) x = Some i \<and> (length (TotalCycles u) \<le> i \<or> length (BusyCycles u) \<le> i))"
proof (cases rule: handleUsage_cases [of dec c ex d])
  case (fail e)
  then show ?thesis by simp
next
  case (panic m)
  then have False using processCommand_no_panic [of ex dec usageCommand "conn_buffer c"] assms(1,2) by simp
  then show ?thesis ..
next
  case (reply u)
  have "isPanic (fst (handleUsage dec ex (c, d))) \<longleftrightarrow> \<not> (\<forall>x \<in> set (conn_watchedCPUs c). indexOk u x)"
    using sample_loop [OF assms(3), of u c d] unfolding reply(2)
    by (cases "\<forall>x \<in> set (conn_watchedCPUs c). indexOk u x") simp_all
  then show ?thesis unfolding reply(1) indexOk_def by (simp add: not_less) blast
qed

section \<open>Connections keep to their CPUs\<close>

definition conn_frame :: "conn_state \<Rightarrow> conn_state \<Rightarrow> bool" where
  "conn_frame st st' \<longleftrightarrow> conn_watchedCPUs (fst st') = conn_watchedCPUs (fst st) \<and> conn_podUID (fst st') = conn_podUID (fst st)
     \<and> (\<forall>x. x \<notin> set (conn_watchedCPUs (fst st)) \<longrightarrow> snd st' x = snd st x)"

lemma conn_frame_refl [simp]: "conn_frame st st"
  by (simp add: conn_frame_def)

lemma conn_frame_trans: "conn_frame a b \<Longrightarrow> conn_frame b c \<Longrightarrow> conn_frame a c"
  by (simp add: conn_frame_def)

lemma conn_frame_setPhase [simp]: "conn_frame st (setPhase ph st') \<longleftrightarrow> conn_frame st st'"
  by (simp add: conn_frame_def setPhase_def)

lemma conn_frame_clear: "conn_frame st (clearMetrics (conn_watchedCPUs (fst st)) st)"
  by (cases st) (simp add: clearMetrics_effect conn_frame_def restrict_map_def)

lemma conn_frame_ioFailed: "conn_frame st st' \<Longrightarrow> conn_frame st (ioFailed st')"
  unfolding ioFailed_def conn_frame_setPhase by (rule conn_frame_trans [OF _ conn_frame_clear])

lemma handleInitialMessage_frame: "conn_frame st (snd (handleInitialMessage dec ex st))"
  by (cases st) (auto simp: handleInitialMessage_def conn_frame_def Let_def split: gores.splits)

lemma handleUsage_frame: "conn_frame st (snd (handleUsage dec ex st))"
proof (cases st)
  case (Pair c d)
  show ?thesis
  proof (cases rule: handleUsage_cases [of dec c ex d])
    case (reply u)
    obtain r c' d' where "forEach (sampleCPU u (lcoreIndex (LcoreIDs u))) (conn_watchedCPUs c) (c, d) = (r, (c', d'))"
      by (metis prod.collapse)
    from sample_loop_frame [OF this] this reply(2) Pair show ?thesis by (simp add: conn_frame_def)
  qed (use Pair in simp_all)
qed

lemma connect_frame: "conn_frame st (snd (connect decI decU ev st))"
proof (cases "conn_phase (fst st)")
  case (Dialing w f)
  have "conn_frame st (snd (connect decI decU ev st))" if "connectLoop ev w f = Inl (Some ex)" for ex
    using handleInitialMessage_frame [of st decI ex] Dialing that
    by (auto simp: connect_def conn_frame_ioFailed split: prod.splits gores.splits)
  then show ?thesis using Dialing by (auto simp: connect_def split: sum.splits option.splits)
next
  case Polling
  have "conn_frame st (snd (ioLoop decU ev st))"
  proof (cases ev)
    case (PollTick ex)
    then show ?thesis using handleUsage_frame [of st decU ex] by (auto simp: ioLoop_def andThen_def split: prod.splits gores.splits)
  qed (simp_all add: ioLoop_def)
  then show ?thesis using Polling by (auto simp: connect_def conn_frame_ioFailed split: prod.splits gores.splits bool.splits)
qed (simp add: connect_def)

interpretation connEvents: keeping "connect decI decU" "conn_frame st0" for decI decU st0
  by unfold_locales (blast intro: conn_frame_trans connect_frame)

text \<open>Closing leaves no reading of the CPUs of the connection, whatever the goroutine still did.\<close>

lemma connection_close_clears:
  assumes "connection_close decI decU pending (c, d) = (Ret (), (c', d'))"
  shows "conn_frame (c, d) (c', d')" "x \<in> set (conn_watchedCPUs c) \<Longrightarrow> d' x = None"
proof -
  obtain st1 where st1: "forEach (connect decI decU) (pending @ [CtxDone]) (c, d) = (Ret (), st1)"
    "(c', d') = clearMetrics (conn_watchedCPUs (fst st1)) st1"
    using assms by (auto simp: connection_close_def andThen_Ret_iff)
  have f: "conn_frame (c, d) st1" using connEvents.forEach_keep [of "(c, d)" "(c, d)" decI decU "pending @ [CtxDone]"] st1(1) by simp
  then show "conn_frame (c, d) (c', d')" unfolding st1(2) by (rule conn_frame_trans [OF _ conn_frame_clear])
  show "d' x = None" if "x \<in> set (conn_watchedCPUs c)"
    using st1(2) f that by (cases st1) (simp add: clearMetrics_effect conn_frame_def)
qed

section \<open>The client's table\<close>

definition client_inv :: "dpdkTelemetryClientImpl \<Rightarrow> bool" where
  "client_inv cl \<longleftrightarrow> distinct (map fst (connections cl))
     \<and> (\<forall>(k, c) \<in> set (connections cl). conn_podUID c = k)
     \<and> (\<forall>x. deltaUsage cl x \<noteq> None \<longrightarrow> (\<exists>(k, c) \<in> set (connections cl). x \<in> set (conn_watchedCPUs c)))"

lemma client_invI:
  assumes "distinct (map fst (connections cl))" "\<And>k c. (k, c) \<in> set (connections cl) \<Longrightarrow> conn_podUID c = k"
    "\<And>x. deltaUsage cl x \<noteq> None \<Longrightarrow> \<exists>k c. (k, c) \<in> set (connections cl) \<and> x \<in> set (conn_watchedCPUs c)"
  shows "client_inv cl"
  using assms unfolding client_inv_def by fastforce

lemma client_invD:
  assumes "client_inv cl"
  shows "distinct (map fst (connections cl))" "(k, c) \<in> set (connections cl) \<Longrightarrow> conn_podUID c = k"
    "deltaUsage cl x \<noteq> None \<Longrightarrow> \<exists>k c. (k, c) \<in> set (connections cl) \<and> x \<in> set (conn_watchedCPUs c)"
proof -
  show "distinct (map fst (connections cl))" using assms by (simp add: client_inv_def)
  show "conn_podUID c = k" if "(k, c) \<in> set (connections cl)" using assms that by (auto simp: client_inv_def)
  show "\<exists>k c. (k, c) \<in> set (connections cl) \<and> x \<in> set (conn_watchedCPUs c)" if "deltaUsage cl x \<noteq> None"
    using assms that unfolding client_inv_def by blast
qed

lemma EnsureConnection_inv:
  assumes "client_inv cl"
  shows "client_inv (EnsureConnection dat cl)"
proof (cases "map_of (connections cl) (PodUID dat)")
  case None
  note i = client_invD [OF assms]
  let ?c = "\<lparr>conn_podUID = PodUID dat, conn_watchedCPUs = WatchedCPUs dat, prevUsageCycles = Map.empty,
       conn_buffer = 0, conn_phase = Dialing False False\<rparr>"
  have e: "EnsureConnection dat cl = cl\<lparr>connections := AList.update (PodUID dat) ?c (connections cl)\<rparr>"
    using None by (simp add: EnsureConnection_def)
  have "\<forall>p \<in> set (connections cl). fst p \<noteq> PodUID dat" using None by (auto simp: map_of_eq_None_iff image_iff)
  then have s: "set (connections (EnsureConnection dat cl)) = insert (PodUID dat, ?c) (set (connections cl))"
    using i(1) by (auto simp: e set_AList_update)
  show ?thesis
  proof (rule client_invI)
    show "distinct (map fst (connections (EnsureConnection dat cl)))"
      using None i(1) by (simp add: EnsureConnection_def distinct_update)
    show "conn_podUID c = k" if "(k, c) \<in> set (connections (EnsureConnection dat cl))" for k c
      using that i(2) unfolding s by auto
    show "\<exists>k c. (k, c) \<in> set (connections (EnsureConnection dat cl)) \<and> x \<in> set (conn_watchedCPUs c)"
      if "deltaUsage (EnsureConnection dat cl) x \<noteq> None" for x
      using that i(3) [of x] None unfolding s by (auto simp: EnsureConnection_def)
  qed
qed (use assms in \<open>simp add: EnsureConnection_def\<close>)

lemma connectionEvent_inv:
  assumes "client_inv cl" "connectionEvent decI decU pod ev cl = (r, cl')"
  shows "client_inv cl'"
proof (cases "map_of (connections cl) pod")
  case None
  then show ?thesis using assms by (simp add: connectionEvent_def)
next
  case (Some c)
  obtain c1 d1 where c1: "connect decI decU ev (c, deltaUsage cl) = (r, (c1, d1))"
    "cl' = cl\<lparr>connections := AList.update pod c1 (connections cl), deltaUsage := d1\<rparr>"
    using assms(2) Some by (auto simp: connectionEvent_def split: prod.splits)
  have f: "conn_frame (c, deltaUsage cl) (c1, d1)" using connect_frame [of "(c, deltaUsage cl)" decI decU ev] c1(1) by simp
  have m: "(pod, c) \<in> set (connections cl)" using Some by (rule map_of_SomeD)
  note i = client_invD [OF assms(1)]
  show ?thesis
  proof (rule client_invI)
    show "distinct (map fst (connections cl'))" using i(1) c1(2) by (simp add: distinct_update)
    show "conn_podUID c' = k" if "(k, c') \<in> set (connections cl')" for k c'
      using that c1(2) i(1) i(2) [OF m] i(2) [of k c'] f by (auto simp: set_AList_update conn_frame_def)
    show "\<exists>k c. (k, c) \<in> set (connections cl') \<and> x \<in> set (conn_watchedCPUs c)" if "deltaUsage cl' x \<noteq> None" for x
    proof (cases "x \<in> set (conn_watchedCPUs c)")
      case True
      then have "(pod, c1) \<in> set (connections cl') \<and> x \<in> set (conn_watchedCPUs c1)"
        using c1(2) i(1) f by (simp add: set_AList_update conn_frame_def)
      then show ?thesis by blast
    next
      case False
      then have "deltaUsage cl x \<noteq> None" using that f c1(2) by (simp add: conn_frame_def)
      with i(3) obtain k c2 where "(k, c2) \<in> set (connections cl)" "x \<in> set (conn_watchedCPUs c2)" by blast
      moreover from this have "k \<noteq> pod" using False m i(1) by (metis eq_key_imp_eq_value)
      ultimately show ?thesis using c1(2) i(1) by (auto simp: set_AList_update)
    qed
  qed
qed

text \<open>Closing the connection of a pod and forgetting it.\<close>

lemma close_and_delete_inv:
  assumes "client_inv cl" "(pod, c) \<in> set (connections cl)"
    "connection_close decI decU pending (c, deltaUsage cl) = (Ret (), (c1, d1))"
  shows "client_inv (cl\<lparr>connections := AList.delete pod (connections cl), deltaUsage := d1\<rparr>)"
proof (rule client_invI)
  note i = client_invD [OF assms(1)] and cc = connection_close_clears [OF assms(3)]
  show "distinct (map fst (connections (cl\<lparr>connections := AList.delete pod (connections cl), deltaUsage := d1\<rparr>)))"
    using i(1) by (simp add: distinct_delete)
  show "conn_podUID c' = k" if "(k, c') \<in> set (connections (cl\<lparr>connections := AList.delete pod (connections cl), deltaUsage := d1\<rparr>))" for k c'
    using that i(2) by (auto simp: AList.delete_eq)
  show "\<exists>k c'. (k, c') \<in> set (connections (cl\<lparr>connections := AList.delete pod (connections cl), deltaUsage := d1\<rparr>)) \<and> x \<in> set (conn_watchedCPUs c')"
    if x: "deltaUsage (cl\<lparr>connections := AList.delete pod (connections cl), deltaUsage := d1\<rparr>) x \<noteq> None" for x
  proof -
    have nw: "x \<notin> set (conn_watchedCPUs c)" using x cc(2) by auto
    then have "deltaUsage cl x \<noteq> None" using x cc(1) by (simp add: conn_frame_def)
    with i(3) obtain k c2 where "(k, c2) \<in> set (connections cl)" "x \<in> set (conn_watchedCPUs c2)" by blast
    moreover from this have "k \<noteq> pod" using nw assms(2) i(1) by (metis eq_key_imp_eq_value)
    ultimately show ?thesis by (auto simp: AList.delete_eq)
  qed
qed
lemma CloseConnection_Ret:
  assumes "CloseConnection decI decU pending pod cl = (Ret (), cl')" "map_of (connections cl) pod = Some c"
  obtains c1 d1 where "connection_close decI decU pending (c, deltaUsage cl) = (Ret (), (c1, d1))"
    "cl' = cl\<lparr>connections := AList.delete pod (connections cl), deltaUsage := d1\<rparr>"
  using assms by (auto simp: CloseConnection_def split: prod.splits)

lemma CloseConnection_inv:
  assumes "client_inv cl" "CloseConnection decI decU pending pod cl = (Ret (), cl')"
  shows "client_inv cl'"
proof (cases "map_of (connections cl) pod")
  case None
  then show ?thesis using assms by (simp add: CloseConnection_def)
next
  case (Some c)
  from assms(2) Some obtain c1 d1 where "connection_close decI decU pending (c, deltaUsage cl) = (Ret (), (c1, d1))"
    "cl' = cl\<lparr>connections := AList.delete pod (connections cl), deltaUsage := d1\<rparr>" by (rule CloseConnection_Ret)
  with close_and_delete_inv [OF assms(1) map_of_SomeD [OF Some]] show ?thesis by blast
qed

lemma CloseEntry_Ret:
  assumes "CloseEntry decI decU pending (k, c) cl = (Ret (), cl')"
  obtains c1 d1 where "connection_close decI decU (pending k) (c, deltaUsage cl) = (Ret (), (c1, d1))"
    "cl' = cl\<lparr>connections := AList.delete k (connections cl), deltaUsage := d1\<rparr>"
  using assms by (auto simp: CloseEntry_def split: prod.splits gores.splits)

lemma client_Close_loop:
  assumes "forEach (CloseEntry decI decU pending) es cl = (Ret (), cl')" "client_inv cl"
    "set es \<subseteq> set (connections cl)" "distinct (map fst es)"
  shows "client_inv cl' \<and> set (connections cl') = {p \<in> set (connections cl). fst p \<notin> fst ` set es}"
  using assms
proof (induction es arbitrary: cl)
  case (Cons e es)
  obtain k c where e: "e = (k, c)" by (cases e)
  obtain cl1 where cl1: "CloseEntry decI decU pending (k, c) cl = (Ret (), cl1)"
    "forEach (CloseEntry decI decU pending) es cl1 = (Ret (), cl')"
    using Cons.prems(1) e by (auto simp: andThen_Ret_iff)
  from cl1(1) obtain c1 d1 where c1: "connection_close decI decU (pending k) (c, deltaUsage cl) = (Ret (), (c1, d1))"
    "cl1 = cl\<lparr>connections := AList.delete k (connections cl), deltaUsage := d1\<rparr>" by (rule CloseEntry_Ret)
  have s: "set (connections cl1) = {p \<in> set (connections cl). fst p \<noteq> k}" using c1(2) by (auto simp: AList.delete_eq)
  have inv: "client_inv cl1" using close_and_delete_inv [OF Cons.prems(2) _ c1(1)] Cons.prems(3) e c1(2) by simp
  have sub: "set es \<subseteq> set (connections cl1)" "distinct (map fst es)"
    using Cons.prems(3,4) e unfolding s by (auto simp: image_iff)
  show ?case using Cons.IH [OF cl1(2) inv sub] e unfolding s by auto
qed simp

lemma client_Close_empties:
  assumes "client_Close decI decU pending cl = (Ret (), cl')" "client_inv cl"
  shows "client_inv cl'" "connections cl' = []"
proof -
  note l = client_Close_loop [OF assms(1) [unfolded client_Close_def] assms(2) subset_refl client_invD(1) [OF assms(2)]]
  show "client_inv cl'" using l by blast
  have "{p \<in> set (connections cl). fst p \<notin> fst ` set (connections cl)} = {}" by auto
  with l show "connections cl' = []" by (metis set_empty)
qed

section \<open>Every history of the client\<close>

inductive client_step :: "dpdkTelemetryClientImpl \<Rightarrow> dpdkTelemetryClientImpl \<Rightarrow> bool" where
  ensure: "client_step cl (EnsureConnection dat cl)"
| event: "connectionEvent decI decU pod ev cl = (Ret (), cl') \<Longrightarrow> client_step cl cl'"
| close: "CloseConnection decI decU pending pod cl = (Ret (), cl') \<Longrightarrow> client_step cl cl'"
| closeAll: "client_Close decI decU pendings cl = (Ret (), cl') \<Longrightarrow> client_step cl cl'"

lemma client_step_keeps: "client_step cl cl' \<Longrightarrow> client_inv cl \<Longrightarrow> client_inv cl'"
  by (induction rule: client_step.induct)
    (blast intro: EnsureConnection_inv connectionEvent_inv CloseConnection_inv client_Close_empties)+

lemma client_runs_keep: "client_step\<^sup>*\<^sup>* cl cl' \<Longrightarrow> client_inv cl \<Longrightarrow> client_inv cl'"
  by (induction rule: rtranclp_induct) (blast intro: client_step_keeps)+

text \<open>
  C27. In every history of the client, with any replies, failures and interleaving of the
  connections, a reading exists only for a CPU that an open connection watches; for every other
  CPU the client reports the metric as missing.  Each pod has at most one connection.  In
  particular nothing is left after \<^verbatim>\<open>Close\<close>.
\<close>

theorem usage_only_of_watched:
  assumes "client_step\<^sup>*\<^sup>* NewDPDKTelemetryClient cl"
  shows "(\<forall>x. GetUsagePercent x cl \<noteq> Fail ErrDPDKMetricMissing \<longrightarrow> (\<exists>c \<in> set (ListConnections cl). x \<in> set (WatchedCPUs c)))
    \<and> distinct (map PodUID (ListConnections cl))
    \<and> (\<forall>decI decU pendings cl' x. client_Close decI decU pendings cl = (Ret (), cl') \<longrightarrow>
         ListConnections cl' = [] \<and> GetUsagePercent x cl' = Fail ErrDPDKMetricMissing)"
proof -
  have "client_inv NewDPDKTelemetryClient" by (simp add: client_inv_def NewDPDKTelemetryClient_def)
  then have inv: "client_inv cl" using client_runs_keep [OF assms] by blast
  have w: "\<exists>c \<in> set (ListConnections cl). x \<in> set (WatchedCPUs c)"
    if "GetUsagePercent x cl \<noteq> Fail ErrDPDKMetricMissing" for x
  proof -
    have "deltaUsage cl x \<noteq> None" using that by (cases "deltaUsage cl x") (simp_all add: GetUsagePercent_def)
    from client_invD(3) [OF inv this] obtain k c where "(k, c) \<in> set (connections cl)" "x \<in> set (conn_watchedCPUs c)" by blast
    then show ?thesis by (force simp: ListConnections_def)
  qed
  have "map PodUID (ListConnections cl) = map fst (connections cl)"
    using client_invD(2) [OF inv] by (auto simp: ListConnections_def comp_def case_prod_unfold)
  then have d: "distinct (map PodUID (ListConnections cl))" using client_invD(1) [OF inv] by simp
  have "ListConnections cl' = [] \<and> GetUsagePercent x cl' = Fail ErrDPDKMetricMissing"
    if "client_Close decI decU pendings cl = (Ret (), cl')" for decI decU pendings cl' x
  proof -
    note e = client_Close_empties [OF that inv]
    have "deltaUsage cl' x = None" using client_invD(3) [OF e(1), of x] e(2) by fastforce
    with e(2) show ?thesis by (simp add: ListConnections_def GetUsagePercent_def)
  qed
  with w d show ?thesis by blast
qed

text \<open>
  \<^verbatim>\<open>EnsureConnection\<close> makes the pod listed, with the CPUs asked for if the pod had no connection
  and with the CPUs of the existing connection otherwise; it changes no other entry and no
  reading.  \<^verbatim>\<open>CloseConnection\<close>, whatever the goroutine still did, removes exactly the pod's entry and
  the readings of its CPUs, and touches no reading of other CPUs.
\<close>

theorem connection_lifecycle:
  assumes "client_inv cl"
  shows "set (connections (EnsureConnection dat cl)) \<supseteq> set (connections cl)
    \<and> deltaUsage (EnsureConnection dat cl) = deltaUsage cl
    \<and> (case map_of (connections cl) (PodUID dat) of
         Some c \<Rightarrow> EnsureConnection dat cl = cl
       | None \<Rightarrow> set (ListConnections (EnsureConnection dat cl)) = insert dat (set (ListConnections cl)))
    \<and> (\<forall>decI decU pending c cl'. map_of (connections cl) pod = Some c \<longrightarrow>
         CloseConnection decI decU pending pod cl = (Ret (), cl') \<longrightarrow>
         set (connections cl') = {p \<in> set (connections cl). fst p \<noteq> pod}
         \<and> (\<forall>x. deltaUsage cl' x = (if x \<in> set (conn_watchedCPUs c) then None else deltaUsage cl x)))"
proof -
  have ens: "set (connections (EnsureConnection dat cl)) = insert (PodUID dat,
      \<lparr>conn_podUID = PodUID dat, conn_watchedCPUs = WatchedCPUs dat, prevUsageCycles = Map.empty,
       conn_buffer = 0, conn_phase = Dialing False False\<rparr>) (set (connections cl))"
    if "map_of (connections cl) (PodUID dat) = None"
    using that client_invD(1) [OF assms]
    by (auto simp: EnsureConnection_def set_AList_update map_of_eq_None_iff image_iff split: option.split)
  have "set (connections cl') = {p \<in> set (connections cl). fst p \<noteq> pod}
      \<and> (\<forall>x. deltaUsage cl' x = (if x \<in> set (conn_watchedCPUs c) then None else deltaUsage cl x))"
    if "map_of (connections cl) pod = Some c" "CloseConnection decI decU pending pod cl = (Ret (), cl')"
    for decI decU pending c cl'
  proof -
    from that(2,1) obtain c1 d1 where c1: "connection_close decI decU pending (c, deltaUsage cl) = (Ret (), (c1, d1))"
      "cl' = cl\<lparr>connections := AList.delete pod (connections cl), deltaUsage := d1\<rparr>" by (rule CloseConnection_Ret)
    with connection_close_clears [OF c1(1)] show ?thesis by (auto simp: AList.delete_eq conn_frame_def)
  qed
  moreover have "set (connections (EnsureConnection dat cl)) \<supseteq> set (connections cl)"
    using ens by (cases "map_of (connections cl) (PodUID dat)") (auto simp: EnsureConnection_def)
  moreover have "deltaUsage (EnsureConnection dat cl) = deltaUsage cl"
    by (auto simp: EnsureConnection_def split: option.split)
  moreover have "set (ListConnections (EnsureConnection dat cl)) = insert dat (set (ListConnections cl))"
    if "map_of (connections cl) (PodUID dat) = None"
    unfolding ListConnections_def set_map ens [OF that] by (cases dat) simp
  ultimately show ?thesis by (auto simp: EnsureConnection_def split: option.split)
qed

section \<open>The properties at a concrete connection\<close>

text \<open>A pod with two watched CPUs whose telemetry reports one of them, and a reply with a missing counter.\<close>

definition sampleConn :: dpdkTelemetryConnection where
  "sampleConn = \<lparr>conn_podUID = ''pod'', conn_watchedCPUs = [2, 3], prevUsageCycles = [2 \<mapsto> \<lparr>cc_total = 1000, cc_busy = 100\<rparr>],
     conn_buffer = 100, conn_phase = Polling\<rparr>"

definition okExchange :: exchange where
  "okExchange = \<lparr>ex_setWriteDeadline = None, ex_write = None, ex_setReadDeadline = None, ex_read = Ret ''reply''\<rparr>"

definition goodReply :: "string \<Rightarrow> usageData gores" where
  "goodReply m = Ret \<lparr>LcoreIDs = [7, 2], TotalCycles = [0, 2000], BusyCycles = [0, 850]\<rparr>"

definition shortReply :: "string \<Rightarrow> usageData gores" where
  "shortReply m = Ret \<lparr>LcoreIDs = [7, 2], TotalCycles = [0, 2000], BusyCycles = [0]\<rparr>"

theorem handleUsage_samples_witness:
  "\<exists>c' d'. handleUsage goodReply okExchange (sampleConn, Map.empty) = (Ret (), (c', d')) \<and> d' 2 = Some \<lparr>tr_percent = 75, tr_err = None\<rparr>
     \<and> d' 5 = None"
proof -
  obtain c' d' where r: "handleUsage goodReply okExchange (sampleConn, Map.empty) = (Ret (), (c', d'))"
    by (simp add: handleUsage_def processCommand_def connRead_def okExchange_def goodReply_def sampleConn_def
        sampleCPU_def lcoreIndex_def Let_def)
  note s = handleUsage_samples [OF r]
  have "processCommand goodReply usageCommand (conn_buffer sampleConn) okExchange
      = Ret \<lparr>LcoreIDs = [7, 2], TotalCycles = [0, 2000], BusyCycles = [0, 850]\<rparr>"
    by (simp add: processCommand_def connRead_def okExchange_def goodReply_def sampleConn_def)
  with s r show ?thesis
    by (auto simp: sampleConn_def goodSample_def lcoreIndex_def windowShare_def unatCounters_def)
qed

theorem handleUsage_panics_iff_witness:
  "isPanic (fst (handleUsage shortReply okExchange (sampleConn, Map.empty)))"
proof -
  have "\<not> isPanic (ex_read okExchange)" "\<And>m. \<not> isPanic (shortReply m)" "distinct (conn_watchedCPUs sampleConn)"
    by (simp_all add: okExchange_def shortReply_def sampleConn_def)
  note i = handleUsage_panics_iff [OF this, where d = Map.empty]
  have "processCommand shortReply usageCommand (conn_buffer sampleConn) okExchange
      = Ret \<lparr>LcoreIDs = [7, 2], TotalCycles = [0, 2000], BusyCycles = [0]\<rparr>"
    by (simp add: processCommand_def connRead_def okExchange_def shortReply_def sampleConn_def)
  moreover have "lcoreIndex [7, 2] 2 = Some 1" by (simp add: lcoreIndex_def)
  ultimately show ?thesis unfolding i by (intro exI [of _ 2] exI [of _ 1] exI conjI) (auto simp: sampleConn_def)
qed

theorem usage_only_of_watched_witness:
  "GetUsagePercent 9 (EnsureConnection \<lparr>PodUID = ''pod'', WatchedCPUs = [2, 3]\<rparr> NewDPDKTelemetryClient) = Fail ErrDPDKMetricMissing
     \<and> distinct (map PodUID (ListConnections (EnsureConnection \<lparr>PodUID = ''pod'', WatchedCPUs = [2, 3]\<rparr> NewDPDKTelemetryClient)))"
proof -
  let ?cl = "EnsureConnection \<lparr>PodUID = ''pod'', WatchedCPUs = [2, 3]\<rparr> NewDPDKTelemetryClient"
  have "client_step\<^sup>*\<^sup>* NewDPDKTelemetryClient ?cl" by (rule r_into_rtranclp) (rule client_step.ensure)
  note u = usage_only_of_watched [OF this]
  have "\<forall>c \<in> set (ListConnections ?cl). 9 \<notin> set (WatchedCPUs c)"
    by (simp add: ListConnections_def EnsureConnection_def NewDPDKTelemetryClient_def)
  with u show ?thesis by blast
qed

theorem connection_lifecycle_witness:
  "set (ListConnections (EnsureConnection \<lparr>PodUID = ''pod'', WatchedCPUs = [2, 3]\<rparr> NewDPDKTelemetryClient))
     = {\<lparr>PodUID = ''pod'', WatchedCPUs = [2, 3]\<rparr>}"
proof -
  have "client_inv NewDPDKTelemetryClient" by (simp add: client_inv_def NewDPDKTelemetryClient_def)
  from connection_lifecycle [OF this, of "\<lparr>PodUID = ''pod'', WatchedCPUs = [2, 3]\<rparr>"]
  show ?thesis by (simp add: NewDPDKTelemetryClient_def ListConnections_def)
qed

end
