(* ===== verification/Go_Float.thy ===== *)
theory Go_Float
  imports Complex_Main "HOL-Library.Log_Nat"
begin

text \<open>
  Go's \<^verbatim>\<open>float64\<close> as far as the frequency scaler uses it: IEEE 754 binary64 with rounding to
  nearest, ties to even.  A finite value is the rational it stands for.  The sign of a zero is
  dropped: it can only be observed by dividing by a zero, and the one divisor of the program is
  converted from an integer and so never is a negative zero.  The facts are those a proof about
  a rounded computation needs: rounding never crosses an integer below $2^{53}$.
\<close>

section \<open>Rounding\<close>

datatype float64 = Fin rat | PInf | NInf | NaN

text \<open>The binary exponent of a positive rational.\<close>

definition ilog2 :: "rat \<Rightarrow> int" where
  "ilog2 r = (case quotient_of r of (p, q) \<Rightarrow>
     let e = bitlen p - bitlen q in if 2 powi e \<le> r then e else e - 1)"

text \<open>The distance of neighbouring floats at a value: 53 bits of precision, and $2^{-1074}$ below the normal range.\<close>

definition ulpExp :: "rat \<Rightarrow> int" where
  "ulpExp r = max (ilog2 \<bar>r\<bar> - 52) (- 1074)"

definition roundEven :: "rat \<Rightarrow> int" where
  "roundEven m = (let f = \<lfloor>m\<rfloor>; d = m - of_int f in
     if d < 1 / 2 then f else if 1 / 2 < d then f + 1 else if even f then f else f + 1)"

definition rnd :: "rat \<Rightarrow> rat" where
  "rnd r = (if r = 0 then 0 else of_int (roundEven (r / 2 powi ulpExp r)) * 2 powi ulpExp r)"

definition roundF :: "rat \<Rightarrow> float64" where
  "roundF r = (let v = rnd r in if 2 ^ 1024 \<le> v then PInf else if v \<le> - (2 ^ 1024) then NInf else Fin v)"

section \<open>Arithmetic\<close>

definition float64_of_int :: "int \<Rightarrow> float64" where
  "float64_of_int i = roundF (of_int i)"

fun addF :: "float64 \<Rightarrow> float64 \<Rightarrow> float64" where
  "addF (Fin a) (Fin b) = roundF (a + b)"
| "addF NaN _ = NaN"
| "addF _ NaN = NaN"
| "addF PInf NInf = NaN"
| "addF NInf PInf = NaN"
| "addF PInf _ = PInf"
| "addF NInf _ = NInf"
| "addF (Fin _) x = x"

fun negF :: "float64 \<Rightarrow> float64" where
  "negF (Fin a) = Fin (- a)"
| "negF PInf = NInf"
| "negF NInf = PInf"
| "negF NaN = NaN"

definition subF :: "float64 \<Rightarrow> float64 \<Rightarrow> float64" where
  "subF x y = addF x (negF y)"

text \<open>An infinity with the sign of a factor; an infinity times zero is not a number.\<close>

definition infTimes :: "rat \<Rightarrow> float64" where
  "infTimes a = (if a = 0 then NaN else if 0 < a then PInf else NInf)"

fun mulF :: "float64 \<Rightarrow> float64 \<Rightarrow> float64" where
  "mulF (Fin a) (Fin b) = roundF (a * b)"
| "mulF NaN _ = NaN"
| "mulF _ NaN = NaN"
| "mulF PInf (Fin b) = infTimes b"
| "mulF NInf (Fin b) = infTimes (- b)"
| "mulF (Fin a) PInf = infTimes a"
| "mulF (Fin a) NInf = infTimes (- a)"
| "mulF PInf PInf = PInf"
| "mulF NInf NInf = PInf"
| "mulF PInf NInf = NInf"
| "mulF NInf PInf = NInf"

fun divF :: "float64 \<Rightarrow> float64 \<Rightarrow> float64" where
  "divF (Fin a) (Fin b) = (if b = 0 then infTimes a else roundF (a / b))"
| "divF NaN _ = NaN"
| "divF _ NaN = NaN"
| "divF (Fin _) _ = Fin 0"
| "divF PInf (Fin b) = (if 0 \<le> b then PInf else NInf)"
| "divF NInf (Fin b) = (if 0 \<le> b then NInf else PInf)"
| "divF _ _ = NaN"

text \<open>
  \<^verbatim>\<open>x*y + z\<close>.  The language lets an implementation fuse the two operations and round once, which
  the compiler does on arm64 and does not on amd64.
\<close>

fun mulAddF :: "bool \<Rightarrow> float64 \<Rightarrow> float64 \<Rightarrow> float64 \<Rightarrow> float64" where
  "mulAddF True (Fin x) (Fin y) (Fin z) = roundF (x * y + z)"
| "mulAddF _ x y z = addF (mulF x y) z"

text \<open>
  \<^verbatim>\<open>int(f)\<close> discards the fraction.  The result for a value that does not fit is left open by the
  language, and here by the function \<open>conv\<close>.
\<close>

definition truncR :: "rat \<Rightarrow> int" where
  "truncR r = (if 0 \<le> r then \<lfloor>r\<rfloor> else \<lceil>r\<rceil>)"

definition int_of_float64 :: "(float64 \<Rightarrow> int) \<Rightarrow> float64 \<Rightarrow> int" where
  "int_of_float64 conv f = (case f of
      Fin r \<Rightarrow> if - (2 ^ 63) \<le> truncR r \<and> truncR r < 2 ^ 63 then truncR r else conv f
    | _ \<Rightarrow> conv f)"

section \<open>Rounding does not cross small integers\<close>

lemma bitlen_rat:
  assumes "0 < p"
  shows "2 powi (bitlen p - 1) \<le> (of_int p :: rat)" "(of_int p :: rat) < 2 powi bitlen p"
proof -
  have b: "1 \<le> bitlen p" using assms by (simp add: bitlen_alt_def)
  note pb = bitlen_bounds [OF assms]
  have "(2 :: rat) powi (bitlen p - 1) = of_int (2 ^ nat (bitlen p - 1))" using b by (simp add: power_int_def)
  also have "\<dots> \<le> of_int p" using pb by (simp only: of_int_le_iff)
  finally show "2 powi (bitlen p - 1) \<le> (of_int p :: rat)" .
  have "(of_int p :: rat) < of_int (2 ^ nat (bitlen p))" using pb by (simp only: of_int_less_iff)
  also have "\<dots> = 2 powi bitlen p" using b by (simp add: power_int_def)
  finally show "(of_int p :: rat) < 2 powi bitlen p" .
qed

lemma ilog2_bounds:
  assumes "0 < r"
  shows "2 powi ilog2 r \<le> r" "r < 2 powi (ilog2 r + 1)"
proof -
  obtain p q where pq: "quotient_of r = (p, q)" by (cases "quotient_of r")
  have q: "0 < q" using quotient_of_denom_pos [OF pq] .
  have r: "r = of_int p / of_int q" using quotient_of_div [OF pq] .
  have p: "0 < p" using assms q unfolding r by (simp add: zero_less_divide_iff)
  note bp = bitlen_rat [OF p] and bq = bitlen_rat [OF q]
  let ?e = "bitlen p - bitlen q"
  have "(2 :: rat) powi (?e - 1) = 2 powi (bitlen p - 1) / 2 powi bitlen q"
    by (simp add: power_int_diff)
  also have "\<dots> \<le> r" unfolding r using bp bq p q by (intro frac_le) (auto intro: less_imp_le)
  finally have lo: "2 powi (?e - 1) \<le> r" .
  have "r < 2 powi bitlen p / 2 powi (bitlen q - 1)"
    unfolding r using bp bq q p by (intro frac_less) auto
  also have "\<dots> = 2 powi (?e + 1)" by (simp add: power_int_diff power_int_add)
  finally have hi: "r < 2 powi (?e + 1)" .
  show "2 powi ilog2 r \<le> r" "r < 2 powi (ilog2 r + 1)"
    using lo hi by (auto simp: ilog2_def pq Let_def)
qed

lemma roundEven_bounds:
  shows "of_int g \<le> m \<Longrightarrow> g \<le> roundEven m" "m \<le> of_int g \<Longrightarrow> roundEven m \<le> g"
proof -
  show "g \<le> roundEven m" if "of_int g \<le> m"
  proof -
    have "g \<le> \<lfloor>m\<rfloor>" using that by (simp add: le_floor_iff)
    then show ?thesis by (simp add: roundEven_def Let_def)
  qed
  show "roundEven m \<le> g" if "m \<le> of_int g"
  proof (cases "m = of_int g")
    case True
    then show ?thesis by (simp add: roundEven_def)
  next
    case False
    with that have "m < of_int g" by simp
    then have "\<lfloor>m\<rfloor> < g" by (simp only: floor_less_iff)
    then show ?thesis by (simp add: roundEven_def Let_def)
  qed
qed

lemma rnd_bounds:
  fixes n :: int
  assumes "r \<noteq> 0"
  shows "of_int n * 2 powi ulpExp r \<le> r \<Longrightarrow> of_int n * 2 powi ulpExp r \<le> rnd r"
    "r \<le> of_int n * 2 powi ulpExp r \<Longrightarrow> rnd r \<le> of_int n * 2 powi ulpExp r"
proof -
  have u: "0 < (2 :: rat) powi ulpExp r" by simp
  show "of_int n * 2 powi ulpExp r \<le> rnd r" if "of_int n * 2 powi ulpExp r \<le> r"
  proof -
    have "of_int n \<le> r / 2 powi ulpExp r" using that u by (simp add: pos_le_divide_eq)
    then have "n \<le> roundEven (r / 2 powi ulpExp r)" by (rule roundEven_bounds)
    then show ?thesis using assms by (simp add: rnd_def)
  qed
  show "rnd r \<le> of_int n * 2 powi ulpExp r" if "r \<le> of_int n * 2 powi ulpExp r"
  proof -
    have "r / 2 powi ulpExp r \<le> of_int n" using that u by (simp add: pos_divide_le_eq)
    then have "roundEven (r / 2 powi ulpExp r) \<le> n" by (rule roundEven_bounds)
    then show ?thesis using assms by (simp add: rnd_def)
  qed
qed

text \<open>Either an integer is on the grid of a value, or the value is beyond every small integer.\<close>

lemma grid_cases:
  assumes "r \<noteq> 0"
  obtains (fine) k where "\<And>g. (of_int g :: rat) = of_int (g * 2 ^ k) * 2 powi ulpExp r"
    | (coarse) "2 ^ 53 \<le> \<bar>r\<bar>" "2 ^ 53 \<le> of_int (2 ^ 52) * (2 :: rat) powi ulpExp r" "of_int (2 ^ 52) * 2 powi ulpExp r \<le> \<bar>r\<bar>"
proof (cases "ulpExp r \<le> 0")
  case True
  have "(of_int g :: rat) = of_int (g * 2 ^ nat (- ulpExp r)) * 2 powi ulpExp r" for g
    using True by (simp add: power_int_def power_mult_distrib [symmetric])
  then show ?thesis by (rule fine)
next
  case False
  then have e: "ulpExp r = ilog2 \<bar>r\<bar> - 52" "53 \<le> ilog2 \<bar>r\<bar>" by (auto simp: ulpExp_def)
  have "of_int (2 ^ 52) * (2 :: rat) powi ulpExp r = 2 powi (int 52) * 2 powi ulpExp r" by (simp only: power_int_of_nat of_int_power of_int_numeral)
  also have "\<dots> = 2 powi ilog2 \<bar>r\<bar>" unfolding e(1) by (subst power_int_add [symmetric]) simp_all
  finally have g: "of_int (2 ^ 52) * (2 :: rat) powi ulpExp r = 2 powi ilog2 \<bar>r\<bar>" .
  have "(2 :: rat) ^ 53 = 2 powi (int 53)" by (simp only: power_int_of_nat)
  also have "\<dots> \<le> 2 powi ilog2 \<bar>r\<bar>" using e(2) by (intro power_int_increasing) simp_all
  finally have "2 ^ 53 \<le> (2 :: rat) powi ilog2 \<bar>r\<bar>" .
  moreover have "2 powi ilog2 \<bar>r\<bar> \<le> \<bar>r\<bar>" using assms by (intro ilog2_bounds) simp
  ultimately show ?thesis using coarse g by simp
qed

lemma rnd_ge:
  assumes "of_int g \<le> r" "\<bar>g\<bar> < 2 ^ 53"
  shows "of_int g \<le> rnd r"
proof (cases "r = 0")
  case False
  from False show ?thesis
  proof (cases rule: grid_cases)
    case (fine k)
    then show ?thesis using rnd_bounds(1) [OF False, of "g * 2 ^ k"] assms(1) by metis
  next
    case coarse
    have "\<bar>of_int g :: rat\<bar> < 2 ^ 53"
      using assms(2) by (metis of_int_abs of_int_less_iff of_int_numeral of_int_power)
    then have "0 \<le> r" "of_int g < (2 ^ 53 :: rat)" using coarse(1) assms(1) by linarith+
    then show ?thesis using rnd_bounds(1) [OF False, of "2 ^ 52"] coarse(2,3) by linarith
  qed
qed (use assms in \<open>simp add: rnd_def\<close>)

lemma rnd_le:
  assumes "r \<le> of_int g" "\<bar>g\<bar> < 2 ^ 53"
  shows "rnd r \<le> of_int g"
proof (cases "r = 0")
  case False
  from False show ?thesis
  proof (cases rule: grid_cases)
    case (fine k)
    then show ?thesis using rnd_bounds(2) [OF False, of "g * 2 ^ k"] assms(1) by metis
  next
    case coarse
    have "\<bar>of_int g :: rat\<bar> < 2 ^ 53"
      using assms(2) by (metis of_int_abs of_int_less_iff of_int_numeral of_int_power)
    then have "r \<le> 0" "- (2 ^ 53 :: rat) < of_int g" using coarse(1) assms(1) by linarith+
    then show ?thesis using rnd_bounds(2) [OF False, of "- (2 ^ 52)"] coarse(2,3) by simp
  qed
qed (use assms in \<open>simp add: rnd_def\<close>)

lemma rnd_int: "\<bar>g\<bar> < 2 ^ 53 \<Longrightarrow> rnd (of_int g) = of_int g"
  using rnd_ge [of g "of_int g"] rnd_le [of "of_int g" g] by simp

lemma roundF_between:
  assumes "of_int a \<le> r" "r \<le> of_int b" "\<bar>a\<bar> < 2 ^ 53" "\<bar>b\<bar> < 2 ^ 53"
  shows "\<exists>v. roundF r = Fin v \<and> of_int a \<le> v \<and> v \<le> of_int b"
proof -
  have r: "of_int a \<le> rnd r" "rnd r \<le> of_int b" using assms rnd_ge rnd_le by blast+
  have "(of_int b :: rat) < of_int (2 ^ 53)" "(of_int (- (2 ^ 53)) :: rat) < of_int a"
    using assms(3,4) unfolding of_int_less_iff by linarith+
  moreover have "(2 :: rat) ^ 53 \<le> 2 ^ 1024" by (rule power_increasing) simp_all
  ultimately have "\<not> 2 ^ 1024 \<le> rnd r" "\<not> rnd r \<le> - (2 ^ 1024)" using r by simp_all
  with r show ?thesis by (simp add: roundF_def Let_def)
qed

lemma float64_of_int_small: "\<bar>i\<bar> < 2 ^ 53 \<Longrightarrow> float64_of_int i = Fin (of_int i)"
  using roundF_between [of i "of_int i" i] by (auto simp: float64_of_int_def)

end
