(* ===== verification/Scaling.thy ===== *)
theory Scaling
  imports PStates Telemetry Go_Float
begin

text \<open>
  The user-space frequency scaler (\<^verbatim>\<open>internal/scaling\<close>): the updater that chooses the next
  frequency of a CPU from its usage, the worker that runs the updater in a loop for one CPU, and
  the manager that keeps one worker per CPU.

  The options of a worker are shared by pointer between the manager and the goroutine, so they
  live in a store.  Floating-point code may be compiled with or without fused operations, and the
  conversion of a float that does not fit an integer is left open by the language: both are
  parameters of which nothing is assumed.  The facts: what an update writes, that it moves the
  frequency in the right direction in spite of rounding, and that the interleaved workers only
  ever write admissible frequencies to CPUs they were given.
\<close>

section \<open>Options\<close>

record CPUScalingOpts =
  opt_cpu :: nat
  SamplePeriod :: int
  CooldownPeriod :: int
  TargetUsage :: int
  AllowedUsageDifference :: int
  AllowedFrequencyDifference :: int
  HWMaxFrequency :: int
  HWMinFrequency :: int
  CurrentTargetFrequency :: int
  ScaleFactor :: float64
  FallbackFreq :: int

abbreviation (input) FrequencyNotYetSet :: int where "FrequencyNotYetSet \<equiv> -1"

section \<open>The updater\<close>

definition frequencyInAllowedDifference :: "int \<Rightarrow> CPUScalingOpts \<Rightarrow> bool" where
  "frequencyInAllowedDifference frequency opts \<longleftrightarrow>
     CurrentTargetFrequency opts \<noteq> FrequencyNotYetSet
     \<and> to_int64 (CurrentTargetFrequency opts - AllowedFrequencyDifference opts) \<le> frequency
     \<and> frequency \<le> to_int64 (CurrentTargetFrequency opts + AllowedFrequencyDifference opts)"

text \<open>The block that follows a missing reading of the usage or of the frequency.\<close>

definition setFallback :: "CPUScalingOpts \<Rightarrow> hw \<Rightarrow> int \<times> CPUScalingOpts \<times> hw" where
  "setFallback opts s =
     (if frequencyInAllowedDifference (FallbackFreq opts) opts then (SamplePeriod opts, opts, s)
      else (case SetCPUFrequency (opt_cpu opts) (to_uint64 (FallbackFreq opts)) s of
              (Ret _, s1) \<Rightarrow> (SamplePeriod opts, opts\<lparr>CurrentTargetFrequency := FallbackFreq opts\<rparr>, s1)
            | (_, s1) \<Rightarrow> (SamplePeriod opts, opts, s1)))"

definition nextFrequencyFloat :: "bool \<Rightarrow> int \<Rightarrow> int \<Rightarrow> CPUScalingOpts \<Rightarrow> float64" where
  "nextFrequencyFloat fused currentFrequency currentUsage opts =
     mulF (float64_of_int currentFrequency)
       (mulAddF fused
          (subF (divF (float64_of_int currentUsage) (float64_of_int (TargetUsage opts))) (Fin 1))
          (ScaleFactor opts) (Fin 1))"

definition clampFrequency :: "CPUScalingOpts \<Rightarrow> int \<Rightarrow> int" where
  "clampFrequency opts f =
     (let f1 = (if f < HWMinFrequency opts then HWMinFrequency opts else f)
      in if HWMaxFrequency opts < f1 then HWMaxFrequency opts else f1)"

definition Update ::
  "bool \<Rightarrow> (float64 \<Rightarrow> int) \<Rightarrow> dpdkTelemetryClientImpl \<Rightarrow> CPUScalingOpts \<Rightarrow> hw \<Rightarrow> int \<times> CPUScalingOpts \<times> hw" where
  "Update fused conv dpdkClient opts s =
     (case GetUsagePercent (opt_cpu opts) dpdkClient of
        Ret currentUsage \<Rightarrow>
          if to_int64 (TargetUsage opts - AllowedUsageDifference opts) \<le> currentUsage
             \<and> currentUsage \<le> to_int64 (TargetUsage opts + AllowedUsageDifference opts)
          then (SamplePeriod opts, opts, s)
          else (case GetCurrentCPUFrequency (opt_cpu opts) s of
             Ret currentFrequencyUint \<Rightarrow>
               (let currentFrequency = to_int64 currentFrequencyUint;
                    nextFrequency = clampFrequency opts
                      (int_of_float64 conv (nextFrequencyFloat fused currentFrequency currentUsage opts))
                in if frequencyInAllowedDifference nextFrequency opts then (SamplePeriod opts, opts, s)
                   else (case SetCPUFrequency (opt_cpu opts) (to_uint64 nextFrequency) s of
                      (Ret _, s1) \<Rightarrow> (CooldownPeriod opts, opts\<lparr>CurrentTargetFrequency := nextFrequency\<rparr>, s1)
                    | (_, s1) \<Rightarrow> (SamplePeriod opts, opts, s1)))
           | _ \<Rightarrow> setFallback opts s)
      | _ \<Rightarrow> setFallback opts s)"

section \<open>Workers\<close>

text \<open>
  Where the goroutine of a worker is: not yet started, about to load its options, or waiting with
  the options it has loaded.
\<close>

datatype loopPhase = NotStarted | Loading int | Waiting nat int

record cpuScalingWorkerImpl =
  worker_cpuID :: nat
  worker_opts :: nat
  worker_loop :: loopPhase

text \<open>The store of option structs, the workers of the manager, and the machine.\<close>

record cpuScalingManagerImpl =
  optsStore :: "nat \<Rightarrow> CPUScalingOpts"
  nextOpts :: nat
  workers :: "(nat \<times> cpuScalingWorkerImpl) list"
  scalingMachine :: hw

definition NewCPUScalingWorker :: "nat \<Rightarrow> nat \<Rightarrow> cpuScalingWorkerImpl" where
  "NewCPUScalingWorker cpuID opts = \<lparr>worker_cpuID = cpuID, worker_opts = opts, worker_loop = NotStarted\<rparr>"

definition UpdateOpts :: "nat \<Rightarrow> cpuScalingWorkerImpl \<Rightarrow> cpuScalingWorkerImpl" where
  "UpdateOpts opts w = w\<lparr>worker_opts := opts\<rparr>"

text \<open>
  One step of \<^verbatim>\<open>runLoop\<close>: reading the first period, loading the options, or an update with the options
  that were loaded before the wait, written back to their place in the store.
\<close>

definition runLoop ::
  "bool \<Rightarrow> (float64 \<Rightarrow> int) \<Rightarrow> dpdkTelemetryClientImpl \<Rightarrow> cpuScalingWorkerImpl \<Rightarrow> cpuScalingManagerImpl
     \<Rightarrow> cpuScalingWorkerImpl \<times> cpuScalingManagerImpl" where
  "runLoop fused conv client w m = (case worker_loop w of
      NotStarted \<Rightarrow> (w\<lparr>worker_loop := Loading (SamplePeriod (optsStore m (worker_opts w)))\<rparr>, m)
    | Loading waitFor \<Rightarrow> (w\<lparr>worker_loop := Waiting (worker_opts w) waitFor\<rparr>, m)
    | Waiting a _ \<Rightarrow> (case Update fused conv client (optsStore m a) (scalingMachine m) of (waitFor, opts, s1) \<Rightarrow>
        (w\<lparr>worker_loop := Loading waitFor\<rparr>,
         m\<lparr>optsStore := (optsStore m)(a := opts), scalingMachine := s1\<rparr>)))"

text \<open>A step of the worker of one CPU inside the manager.\<close>

definition workerStep ::
  "bool \<Rightarrow> (float64 \<Rightarrow> int) \<Rightarrow> dpdkTelemetryClientImpl \<Rightarrow> nat \<Rightarrow> cpuScalingManagerImpl \<Rightarrow> cpuScalingManagerImpl" where
  "workerStep fused conv client cpuID m = (case map_of (workers m) cpuID of
      None \<Rightarrow> m
    | Some w \<Rightarrow> (case runLoop fused conv client w m of (w1, m1) \<Rightarrow>
        m1\<lparr>workers := AList.update cpuID w1 (workers m1)\<rparr>))"

section \<open>The manager\<close>

definition NewCPUScalingManager :: "hw \<Rightarrow> cpuScalingManagerImpl" where
  "NewCPUScalingManager s =
     \<lparr>optsStore = (\<lambda>_. \<lparr>opt_cpu = 0, SamplePeriod = 0, CooldownPeriod = 0, TargetUsage = 0, AllowedUsageDifference = 0,
        AllowedFrequencyDifference = 0, HWMaxFrequency = 0, HWMinFrequency = 0, CurrentTargetFrequency = 0,
        ScaleFactor = Fin 0, FallbackFreq = 0\<rparr>),
      nextOpts = 0, workers = [], scalingMachine = s\<rparr>"

definition getCPUScalingWorker :: "nat \<Rightarrow> cpuScalingManagerImpl \<Rightarrow> cpuScalingWorkerImpl option" where
  "getCPUScalingWorker cpuID m = map_of (workers m) cpuID"

definition getManagedCPUIDs :: "cpuScalingManagerImpl \<Rightarrow> nat list" where
  "getManagedCPUIDs m = map fst (workers m)"

text \<open>The body of the loop of \<^verbatim>\<open>AddCPUScaling\<close>; the loop variable is a new struct in every iteration.\<close>

definition addOpts :: "CPUScalingOpts \<Rightarrow> cpuScalingManagerImpl \<Rightarrow> cpuScalingManagerImpl" where
  "addOpts opts m =
     (let a = nextOpts m;
          m1 = m\<lparr>optsStore := (optsStore m)(a := opts), nextOpts := Suc a\<rparr>;
          w = (case getCPUScalingWorker (opt_cpu opts) m1 of
                 None \<Rightarrow> NewCPUScalingWorker (opt_cpu opts) a
               | Some worker \<Rightarrow> UpdateOpts a worker)
      in m1\<lparr>workers := AList.update (opt_cpu opts) w (workers m1)\<rparr>)"

definition AddCPUScaling :: "CPUScalingOpts list \<Rightarrow> cpuScalingManagerImpl \<Rightarrow> cpuScalingManagerImpl" where
  "AddCPUScaling optsList m = foldl (\<lambda>m opts. addOpts opts m) m optsList"

text \<open>
  Taking a worker out of the map and stopping it: the goroutine may still run a few steps, with
  the telemetry of that time, until it sees the cancelled context; \<^verbatim>\<open>Stop\<close> returns after that.
\<close>

definition stopWorker ::
  "bool \<Rightarrow> (float64 \<Rightarrow> int) \<Rightarrow> dpdkTelemetryClientImpl list \<Rightarrow> nat \<Rightarrow> cpuScalingManagerImpl \<Rightarrow> cpuScalingManagerImpl" where
  "stopWorker fused conv pending cpuID m =
     (let m1 = foldl (\<lambda>m client. workerStep fused conv client cpuID m) m pending
      in m1\<lparr>workers := AList.delete cpuID (workers m1)\<rparr>)"

definition RemoveCPUScaling ::
  "bool \<Rightarrow> (float64 \<Rightarrow> int) \<Rightarrow> (nat \<Rightarrow> dpdkTelemetryClientImpl list) \<Rightarrow> nat list \<Rightarrow> cpuScalingManagerImpl \<Rightarrow> cpuScalingManagerImpl" where
  "RemoveCPUScaling fused conv pending cpuIDs m =
     foldl (\<lambda>m cpuID. stopWorker fused conv (pending cpuID) cpuID m) m cpuIDs"

definition manager_stop ::
  "bool \<Rightarrow> (float64 \<Rightarrow> int) \<Rightarrow> (nat \<Rightarrow> dpdkTelemetryClientImpl list) \<Rightarrow> cpuScalingManagerImpl \<Rightarrow> cpuScalingManagerImpl" where
  "manager_stop fused conv pending m =
     (let managedCPUs = getManagedCPUIDs m
      in foldl (\<lambda>m cpuID. stopWorker fused conv (pending cpuID) cpuID m) m managedCPUs)"

section \<open>What an update does\<close>

abbreviation speedFile :: "nat \<Rightarrow> path" where "speedFile c \<equiv> CPUFile c scalingSetSpeedFile"

lemma SetCPUFrequency_effect:
  assumes "SetCPUFrequency c f s = (r, s')"
  shows "knowledge s' = knowledge s"
    "r = Ret () \<Longrightarrow> contents (sys s') = (contents (sys s))(speedFile c \<mapsto> Itoa f)"
    "r \<noteq> Ret () \<Longrightarrow> contents (sys s') = contents (sys s)"
proof -
  have "s' = snd (WriteFile (speedFile c) (Itoa f) s)" using assms unfolding SetCPUFrequency_def by (metis snd_conv snd_wrapErr)
  then show "knowledge s' = knowledge s" by simp
  show "r = Ret () \<Longrightarrow> contents (sys s') = (contents (sys s))(speedFile c \<mapsto> Itoa f)"
    "r \<noteq> Ret () \<Longrightarrow> contents (sys s') = contents (sys s)"
    using assms by (auto simp: SetCPUFrequency_def WriteFile_def split: if_splits)
qed

lemma clampFrequency_range:
  "HWMinFrequency opts \<le> HWMaxFrequency opts \<Longrightarrow> HWMinFrequency opts \<le> clampFrequency opts f \<and> clampFrequency opts f \<le> HWMaxFrequency opts"
  by (simp add: clampFrequency_def Let_def)

lemma clampFrequency_mono: "f \<le> g \<Longrightarrow> clampFrequency opts f \<le> clampFrequency opts g"
  by (simp add: clampFrequency_def Let_def)

text \<open>
  The three ways an update can end: nothing written, the fallback frequency written because a
  reading is missing, or the scaled frequency written.
\<close>

definition writes_speed :: "CPUScalingOpts \<Rightarrow> int \<Rightarrow> hw \<Rightarrow> CPUScalingOpts \<Rightarrow> hw \<Rightarrow> bool" where
  "writes_speed opts f s opts' s' \<longleftrightarrow> opts' = opts\<lparr>CurrentTargetFrequency := f\<rparr>
     \<and> contents (sys s') = (contents (sys s))(speedFile (opt_cpu opts) \<mapsto> Itoa (to_uint64 f))"

definition writes_nothing :: "CPUScalingOpts \<Rightarrow> hw \<Rightarrow> CPUScalingOpts \<Rightarrow> hw \<Rightarrow> bool" where
  "writes_nothing opts s opts' s' \<longleftrightarrow> opts' = opts \<and> contents (sys s') = contents (sys s)"

lemma setFallback_cases:
  assumes "setFallback opts s = (t, opts', s')"
  shows "t = SamplePeriod opts"
    "writes_nothing opts s opts' s' \<or> writes_speed opts (FallbackFreq opts) s opts' s' \<and> \<not> frequencyInAllowedDifference (FallbackFreq opts) opts"
proof -
  obtain r s1 where w: "SetCPUFrequency (opt_cpu opts) (to_uint64 (FallbackFreq opts)) s = (r, s1)" by fastforce
  note e = SetCPUFrequency_effect [OF w]
  show "t = SamplePeriod opts"
    "writes_nothing opts s opts' s' \<or> writes_speed opts (FallbackFreq opts) s opts' s' \<and> \<not> frequencyInAllowedDifference (FallbackFreq opts) opts"
    using assms e(2,3) by (auto simp: setFallback_def w writes_nothing_def writes_speed_def split: if_splits gores.splits)
qed

definition usageInTolerance :: "CPUScalingOpts \<Rightarrow> int \<Rightarrow> bool" where
  "usageInTolerance opts u \<longleftrightarrow> to_int64 (TargetUsage opts - AllowedUsageDifference opts) \<le> u
     \<and> u \<le> to_int64 (TargetUsage opts + AllowedUsageDifference opts)"

definition scaledFrequency :: "bool \<Rightarrow> (float64 \<Rightarrow> int) \<Rightarrow> CPUScalingOpts \<Rightarrow> int \<Rightarrow> int \<Rightarrow> int" where
  "scaledFrequency fused conv opts cur u = clampFrequency opts (int_of_float64 conv (nextFrequencyFloat fused cur u opts))"

lemma Update_cases:
  assumes "Update fused conv client opts s = (t, opts', s')"
  obtains (silent) "writes_nothing opts s opts' s'" "t = SamplePeriod opts"
    | (fallback) "writes_speed opts (FallbackFreq opts) s opts' s'" "t = SamplePeriod opts"
        "\<not> frequencyInAllowedDifference (FallbackFreq opts) opts"
        "\<not> isRet (GetUsagePercent (opt_cpu opts) client) \<or> \<not> isRet (GetCurrentCPUFrequency (opt_cpu opts) s)"
    | (scaled) u f where "GetUsagePercent (opt_cpu opts) client = Ret u" "\<not> usageInTolerance opts u"
        "GetCurrentCPUFrequency (opt_cpu opts) s = Ret f"
        "\<not> frequencyInAllowedDifference (scaledFrequency fused conv opts (to_int64 f) u) opts"
        "writes_speed opts (scaledFrequency fused conv opts (to_int64 f) u) s opts' s'" "t = CooldownPeriod opts"
proof -
  have fb: thesis
    if "setFallback opts s = (t, opts', s')" "\<not> isRet (GetUsagePercent (opt_cpu opts) client) \<or> \<not> isRet (GetCurrentCPUFrequency (opt_cpu opts) s)"
    using setFallback_cases [OF that(1)] that(2) silent fallback by blast
  show thesis
  proof (cases "GetUsagePercent (opt_cpu opts) client")
    case (Ret u)
    note usage = Ret
    show ?thesis
    proof (cases "usageInTolerance opts u")
      case True
      then show ?thesis using assms usage silent by (auto simp: Update_def usageInTolerance_def writes_nothing_def)
    next
      case False
      show ?thesis
      proof (cases "GetCurrentCPUFrequency (opt_cpu opts) s")
        case (Ret f)
        let ?n = "scaledFrequency fused conv opts (to_int64 f) u"
        obtain r s1 where w: "SetCPUFrequency (opt_cpu opts) (to_uint64 ?n) s = (r, s1)" by fastforce
        note e = SetCPUFrequency_effect [OF w]
        have u: "(t, opts', s') = (if frequencyInAllowedDifference ?n opts then (SamplePeriod opts, opts, s)
            else (case r of Ret _ \<Rightarrow> (CooldownPeriod opts, opts\<lparr>CurrentTargetFrequency := ?n\<rparr>, s1) | _ \<Rightarrow> (SamplePeriod opts, opts, s1)))"
          using assms [symmetric] False
          unfolding Update_def usage gores.case Ret Let_def usageInTolerance_def scaledFrequency_def [symmetric] w prod.case
          by (simp only: if_False)
        show ?thesis
        proof (cases "frequencyInAllowedDifference ?n opts \<or> r \<noteq> Ret ()")
          case True
          then show ?thesis using u e(3) silent by (auto simp: writes_nothing_def split: if_splits gores.splits)
        next
          case allowed: False
          then have "t = CooldownPeriod opts" "writes_speed opts ?n s opts' s'"
            using u e(2) by (auto simp: writes_speed_def split: if_splits gores.splits)
          then show ?thesis using allowed usage False Ret scaled by blast
        qed
      next
        case (Fail e)
        have "setFallback opts s = (t, opts', s')"
          using assms False unfolding Update_def usage gores.case Fail usageInTolerance_def by (simp only: if_False)
        then show ?thesis by (rule fb) (simp add: Fail)
      next
        case (Panic m)
        have "setFallback opts s = (t, opts', s')"
          using assms False unfolding Update_def usage gores.case Panic usageInTolerance_def by (simp only: if_False)
        then show ?thesis by (rule fb) (simp add: Panic)
      qed
    qed
  qed (use assms fb in \<open>simp_all add: Update_def\<close>)
qed


section \<open>The direction of scaling\<close>

text \<open>Rounded arithmetic on values between small integers.\<close>

lemma product_range:
  assumes "of_int a \<le> x" "x \<le> of_int b" "0 \<le> y" "y \<le> of_int n" "a \<le> 0" "0 \<le> b"
  shows "of_int (a * n) \<le> x * (y :: rat)" "x * y \<le> of_int (b * n)"
proof -
  have "of_int a * of_int n \<le> of_int a * y" using assms by (intro mult_left_mono_neg) simp_all
  also have "\<dots> \<le> x * y" using assms by (intro mult_right_mono)
  finally show "of_int (a * n) \<le> x * y" by simp
  have "x * y \<le> of_int b * y" using assms by (intro mult_right_mono)
  also have "\<dots> \<le> of_int b * of_int n" using assms by (intro mult_left_mono) simp_all
  finally show "x * y \<le> of_int (b * n)" by simp
qed

lemma mulAdd_between:
  assumes "of_int a \<le> x" "x \<le> of_int b" "0 \<le> y" "y \<le> 100" "-1 \<le> a" "a \<le> 0" "0 \<le> b" "b \<le> 99"
  shows "\<exists>v. mulAddF fused (Fin x) (Fin y) (Fin 1) = Fin v \<and> of_int (a * 100 + 1) \<le> v \<and> v \<le> of_int (b * 100 + 1)"
proof -
  note p = product_range [OF assms(1-3), of 100]
  have p: "of_int (a * 100) \<le> x * y" "x * y \<le> of_int (b * 100)" using p assms by simp_all
  have f: "\<exists>v. roundF (w + 1) = Fin v \<and> of_int (a * 100 + 1) \<le> v \<and> v \<le> of_int (b * 100 + 1)"
    if "of_int (a * 100) \<le> w" "w \<le> of_int (b * 100)" for w
    by (rule roundF_between) (use that assms in simp_all)
  obtain w where w: "roundF (x * y) = Fin w" "of_int (a * 100) \<le> w" "w \<le> of_int (b * 100)"
    using roundF_between [OF p] assms by auto
  show ?thesis by (cases fused) (use f [OF p] f [OF w(2,3)] w(1) in simp_all)
qed

lemma truncR_between: "of_int a \<le> r \<Longrightarrow> r \<le> of_int b \<Longrightarrow> a \<le> truncR r \<and> truncR r \<le> b"
  by (auto simp: truncR_def le_floor_iff ceiling_le_iff) (simp_all add: floor_le_iff less_ceiling_iff le_ceiling_iff; linarith)+

lemma int64_between: "a \<le> x \<and> x \<le> b \<Longrightarrow> \<bar>a\<bar> < 2 ^ 53 \<Longrightarrow> \<bar>b\<bar> < 2 ^ 53 \<Longrightarrow> - (2 ^ 63) \<le> x \<and> x < (2 ^ 63 :: int)"
  by auto

lemma nextFrequency_direction:
  assumes "0 \<le> u" "u \<le> 100" "0 < TargetUsage opts" "TargetUsage opts \<le> 100" "0 \<le> cur" "cur \<le> 10 ^ 8"
    "ScaleFactor opts = Fin y" "0 \<le> y" "y \<le> 100"
  shows "(TargetUsage opts \<le> u \<longrightarrow> cur \<le> int_of_float64 conv (nextFrequencyFloat fused cur u opts))
    \<and> (u \<le> TargetUsage opts \<longrightarrow> int_of_float64 conv (nextFrequencyFloat fused cur u opts) \<le> cur)"
proof -
  have *: "cur * (a * 100 + 1) \<le> int_of_float64 conv (nextFrequencyFloat fused cur u opts)
      \<and> int_of_float64 conv (nextFrequencyFloat fused cur u opts) \<le> cur * (b * 100 + 1)"
    if ab: "of_int (a + 1) \<le> (of_int u / of_int (TargetUsage opts) :: rat)" "of_int u / of_int (TargetUsage opts) \<le> (of_int (b + 1) :: rat)"
      "-1 \<le> a" "a \<le> 0" "0 \<le> b" "b \<le> 99" for a b
  proof -
    obtain q where q: "roundF (of_int u / of_int (TargetUsage opts)) = Fin q" "of_int (a + 1) \<le> q" "q \<le> of_int (b + 1)"
      using roundF_between [OF ab(1,2)] ab by auto
    obtain d where d: "roundF (q - 1) = Fin d" "of_int a \<le> d" "d \<le> of_int b"
      using roundF_between [of a "q - 1" b] q ab by auto
    obtain v where v: "mulAddF fused (Fin d) (Fin y) (Fin 1) = Fin v" "of_int (a * 100 + 1) \<le> v" "v \<le> of_int (b * 100 + 1)"
      using mulAdd_between [OF d(2,3) assms(8,9)] ab by blast
    have m: "of_int (cur * (a * 100 + 1)) \<le> of_int cur * v" "of_int cur * v \<le> of_int (cur * (b * 100 + 1))"
      using v(2,3) assms(5) by (simp_all add: mult_left_mono)
    have "\<bar>cur * (a * 100 + 1)\<bar> \<le> 10 ^ 8 * 10 ^ 4" "\<bar>cur * (b * 100 + 1)\<bar> \<le> 10 ^ 8 * 10 ^ 4"
      unfolding abs_mult using assms(5,6) ab by (intro mult_mono; simp)+
    then have s: "\<bar>cur * (a * 100 + 1)\<bar> < 2 ^ 53" "\<bar>cur * (b * 100 + 1)\<bar> < 2 ^ 53" by simp_all
    obtain r where r: "roundF (of_int cur * v) = Fin r" "of_int (cur * (a * 100 + 1)) \<le> r" "r \<le> of_int (cur * (b * 100 + 1))"
      using roundF_between [OF m s] by blast
    have "nextFrequencyFloat fused cur u opts = Fin r"
      using assms ab q(1) d(1) v(1) r(1)
      by (simp add: nextFrequencyFloat_def float64_of_int_small subF_def)
    moreover have t: "cur * (a * 100 + 1) \<le> truncR r \<and> truncR r \<le> cur * (b * 100 + 1)"
      by (rule truncR_between [OF r(2,3)])
    moreover have "- (2 ^ 63) \<le> truncR r \<and> truncR r < 2 ^ 63" using int64_between t s by blast
    ultimately show ?thesis by (simp add: int_of_float64_def)
  qed
  have T: "0 < (of_int (TargetUsage opts) :: rat)" using assms(3) by simp
  have "(of_int u / of_int (TargetUsage opts) :: rat) \<le> of_int 100 / of_int 1"
    using assms by (intro frac_le) simp_all
  then have up: "TargetUsage opts \<le> u \<Longrightarrow> ?thesis" if "u \<noteq> TargetUsage opts"
    using *[of 0 99] that T assms by (simp add: pos_le_divide_eq)
  have down: "u \<le> TargetUsage opts \<Longrightarrow> int_of_float64 conv (nextFrequencyFloat fused cur u opts) \<le> cur"
    using *[of "-1" 0] T assms by (simp add: pos_divide_le_eq)
  have same: "u = TargetUsage opts \<Longrightarrow> int_of_float64 conv (nextFrequencyFloat fused cur u opts) = cur"
    using *[of 0 0] T assms by simp
  show ?thesis using up down same by (cases "u = TargetUsage opts") auto
qed
text \<open>
  Scaling never goes the wrong way.  For percentages and factors in the range of the API and
  frequencies up to 100 GHz, with or without fused operations: an update that sets a frequency
  computed from the usage sets one that is not below the current frequency when the usage is above
  the target, and not above it when the usage is below the target, where the current frequency is
  taken as limited to the hardware range.
\<close>

theorem Update_direction:
  assumes "Update fused conv client opts s = (t, opts', s')"
    "GetUsagePercent (opt_cpu opts) client = Ret u" "GetCurrentCPUFrequency (opt_cpu opts) s = Ret cur"
    "CurrentTargetFrequency opts' \<noteq> CurrentTargetFrequency opts"
    "0 \<le> u" "u \<le> 100" "0 < TargetUsage opts" "TargetUsage opts \<le> 100" "0 \<le> cur" "cur \<le> 10 ^ 8"
    "ScaleFactor opts = Fin y" "0 \<le> y" "y \<le> 100"
  shows "(TargetUsage opts \<le> u \<longrightarrow> clampFrequency opts cur \<le> CurrentTargetFrequency opts')
    \<and> (u \<le> TargetUsage opts \<longrightarrow> CurrentTargetFrequency opts' \<le> clampFrequency opts cur)"
  using assms(1)
proof (cases rule: Update_cases)
  case silent
  then show ?thesis using assms(4) by (simp add: writes_nothing_def)
next
  case fallback
  then show ?thesis using assms(2,3) by simp
next
  case (scaled v f)
  have "to_int64 cur = cur" using assms(9,10) by simp
  moreover have "CurrentTargetFrequency opts' = scaledFrequency fused conv opts (to_int64 f) v"
    using scaled(5) by (simp add: writes_speed_def)
  ultimately have "CurrentTargetFrequency opts' = scaledFrequency fused conv opts cur u"
    using scaled(1,3) assms(2,3) by simp
  then show ?thesis
    using nextFrequency_direction [OF assms(5-13), of conv fused]
    by (auto simp: scaledFrequency_def intro: clampFrequency_mono)
qed

section \<open>The workers and the manager\<close>

text \<open>The frequencies an option struct allows, and what an update never changes of it.\<close>

definition admissible :: "CPUScalingOpts \<Rightarrow> int \<Rightarrow> bool" where
  "admissible opts f \<longleftrightarrow> f = FallbackFreq opts \<or> (HWMinFrequency opts \<le> f \<and> f \<le> HWMaxFrequency opts)"

lemma Update_effect:
  assumes "Update fused conv client opts s = (t, opts', s')" "HWMinFrequency opts \<le> HWMaxFrequency opts"
  shows "\<exists>f. opts' = opts\<lparr>CurrentTargetFrequency := f\<rparr>"
    "contents (sys s') = contents (sys s)
      \<or> (\<exists>f. admissible opts f \<and> contents (sys s') = (contents (sys s))(speedFile (opt_cpu opts) \<mapsto> Itoa (to_uint64 f)))"
proof -
  show "\<exists>f. opts' = opts\<lparr>CurrentTargetFrequency := f\<rparr>"
    using assms(1)
  proof (cases rule: Update_cases)
    case silent
    then show ?thesis by (intro exI [of _ "CurrentTargetFrequency opts"]) (simp add: writes_nothing_def)
  qed (auto simp: writes_speed_def)
  show "contents (sys s') = contents (sys s)
      \<or> (\<exists>f. admissible opts f \<and> contents (sys s') = (contents (sys s))(speedFile (opt_cpu opts) \<mapsto> Itoa (to_uint64 f)))"
    using assms(1)
  proof (cases rule: Update_cases)
    case (scaled u f)
    have "admissible opts (scaledFrequency fused conv opts (to_int64 f) u)"
      using clampFrequency_range [OF assms(2)] by (simp add: admissible_def scaledFrequency_def)
    with scaled(5) show ?thesis unfolding writes_speed_def by blast
  qed (auto simp: writes_nothing_def writes_speed_def admissible_def)
qed

text \<open>An address of the store that holds well-formed options for a CPU.\<close>

definition optsFor :: "cpuScalingManagerImpl \<Rightarrow> nat \<Rightarrow> nat \<Rightarrow> bool" where
  "optsFor m c a \<longleftrightarrow> a < nextOpts m \<and> opt_cpu (optsStore m a) = c
     \<and> HWMinFrequency (optsStore m a) \<le> HWMaxFrequency (optsStore m a)"

definition worker_ok :: "cpuScalingManagerImpl \<Rightarrow> nat \<Rightarrow> cpuScalingWorkerImpl \<Rightarrow> bool" where
  "worker_ok m c w \<longleftrightarrow> worker_cpuID w = c \<and> optsFor m c (worker_opts w)
     \<and> (case worker_loop w of Waiting a _ \<Rightarrow> optsFor m c a | _ \<Rightarrow> True)"

definition speed :: "nat \<Rightarrow> cpuScalingManagerImpl \<Rightarrow> string option" where
  "speed c m = contents (sys (scalingMachine m)) (speedFile c)"

text \<open>
  The invariant of the manager, relative to the speeds before it started: one worker per CPU with
  options for that CPU, and every speed is the old one or was admissible for options of its CPU.
\<close>

definition manager_inv :: "(nat \<Rightarrow> string option) \<Rightarrow> cpuScalingManagerImpl \<Rightarrow> bool" where
  "manager_inv before m \<longleftrightarrow> distinct (map fst (workers m))
     \<and> (\<forall>(c, w) \<in> set (workers m). worker_ok m c w)
     \<and> (\<forall>c. speed c m = before c \<or> (\<exists>a f. optsFor m c a \<and> admissible (optsStore m a) f \<and> speed c m = Some (Itoa (to_uint64 f))))"

lemma manager_invI:
  assumes "distinct (map fst (workers m))" "\<And>c w. (c, w) \<in> set (workers m) \<Longrightarrow> worker_ok m c w"
    "\<And>c. speed c m = before c \<or> (\<exists>a f. optsFor m c a \<and> admissible (optsStore m a) f \<and> speed c m = Some (Itoa (to_uint64 f)))"
  shows "manager_inv before m"
  using assms unfolding manager_inv_def by blast

lemma manager_invD:
  assumes "manager_inv before m"
  shows "distinct (map fst (workers m))" "(c, w) \<in> set (workers m) \<Longrightarrow> worker_ok m c w"
    "speed c m = before c \<or> (\<exists>a f. optsFor m c a \<and> admissible (optsStore m a) f \<and> speed c m = Some (Itoa (to_uint64 f)))"
  using assms unfolding manager_inv_def by blast+

text \<open>A change of the store that keeps all options in force.\<close>

definition storeGrows :: "cpuScalingManagerImpl \<Rightarrow> cpuScalingManagerImpl \<Rightarrow> bool" where
  "storeGrows m m' \<longleftrightarrow> nextOpts m \<le> nextOpts m'
     \<and> (\<forall>a < nextOpts m. \<exists>f. optsStore m' a = (optsStore m a)\<lparr>CurrentTargetFrequency := f\<rparr>)"

lemma own_target: "\<exists>f. opts = (opts :: CPUScalingOpts)\<lparr>CurrentTargetFrequency := f\<rparr>"
  by (intro exI [of _ "CurrentTargetFrequency opts"]) simp

lemma storeGrows_refl [simp]: "storeGrows m m"
  unfolding storeGrows_def by (simp add: own_target)

lemma storeGrows_optsFor: "storeGrows m m' \<Longrightarrow> optsFor m c a \<Longrightarrow> optsFor m' c a"
  by (fastforce simp: storeGrows_def optsFor_def)

lemma storeGrows_admissible:
  "storeGrows m m' \<Longrightarrow> optsFor m c a \<Longrightarrow> admissible (optsStore m a) f \<Longrightarrow> admissible (optsStore m' a) f"
  by (fastforce simp: storeGrows_def optsFor_def admissible_def)

lemma storeGrows_worker_ok: "storeGrows m m' \<Longrightarrow> worker_ok m c w \<Longrightarrow> worker_ok m' c w"
  by (auto simp: worker_ok_def storeGrows_optsFor split: loopPhase.splits)

lemma storeGrows_speed:
  assumes "storeGrows m m'" "speed c m = before c \<or> (\<exists>a f. optsFor m c a \<and> admissible (optsStore m a) f \<and> speed c m = Some (Itoa (to_uint64 f)))"
    "speed c m' = speed c m"
  shows "speed c m' = before c \<or> (\<exists>a f. optsFor m' c a \<and> admissible (optsStore m' a) f \<and> speed c m' = Some (Itoa (to_uint64 f)))"
  using assms storeGrows_optsFor storeGrows_admissible by metis

lemma worker_ok_cong: "optsFor m' = optsFor m \<Longrightarrow> worker_ok m' c w = worker_ok m c w"
  by (simp only: worker_ok_def)

lemma runLoop_effect:
  assumes "runLoop fused conv client w m = (w', m')" "worker_ok m c w"
  shows "storeGrows m m'" "worker_ok m' c w'" "workers m' = workers m"
    "d \<noteq> c \<Longrightarrow> speed d m' = speed d m"
    "speed c m' = speed c m \<or> (\<exists>a f. optsFor m' c a \<and> admissible (optsStore m' a) f \<and> speed c m' = Some (Itoa (to_uint64 f)))"
proof -
  have "storeGrows m m' \<and> worker_ok m' c w' \<and> workers m' = workers m \<and> (d \<noteq> c \<longrightarrow> speed d m' = speed d m)
    \<and> (speed c m' = speed c m \<or> (\<exists>a f. optsFor m' c a \<and> admissible (optsStore m' a) f \<and> speed c m' = Some (Itoa (to_uint64 f))))"
  proof (cases "worker_loop w")
    case (Waiting a wait)
    obtain t opts s1 where u: "Update fused conv client (optsStore m a) (scalingMachine m) = (t, opts, s1)"
      by (metis prod.collapse)
    have a: "optsFor m c a" using assms(2) Waiting by (simp add: worker_ok_def)
    then have le: "HWMinFrequency (optsStore m a) \<le> HWMaxFrequency (optsStore m a)" by (simp add: optsFor_def)
    note e = Update_effect [OF u le]
    have m': "m' = m\<lparr>optsStore := (optsStore m)(a := opts), scalingMachine := s1\<rparr>" "w' = w\<lparr>worker_loop := Loading t\<rparr>"
      using assms(1) Waiting u by (auto simp: runLoop_def)
    have g: "storeGrows m m'"
      using e(1) unfolding storeGrows_def m' by (auto intro: own_target)
    have "worker_ok m' c w'"
      using storeGrows_worker_ok [OF g assms(2)] m'(2) by (simp add: worker_ok_def)
    moreover have "speed d m' = speed d m" if "d \<noteq> c"
      using e(2) a that by (auto simp: speed_def m' optsFor_def)
    moreover have "speed c m' = speed c m \<or> (\<exists>a f. optsFor m' c a \<and> admissible (optsStore m' a) f \<and> speed c m' = Some (Itoa (to_uint64 f)))"
    proof -
      consider "contents (sys s1) = contents (sys (scalingMachine m))"
        | f where "admissible (optsStore m a) f" "contents (sys s1) = (contents (sys (scalingMachine m)))(speedFile c \<mapsto> Itoa (to_uint64 f))"
        using e(2) a by (auto simp: optsFor_def)
      then show ?thesis
      proof cases
        case 2
        then show ?thesis
          using storeGrows_optsFor [OF g a] storeGrows_admissible [OF g a] by (fastforce simp: speed_def m')
      qed (simp add: speed_def m')
    qed
    ultimately show ?thesis using g m' by simp
  qed (use assms in \<open>auto simp: runLoop_def worker_ok_def\<close>)
  then show "storeGrows m m'" "worker_ok m' c w'" "workers m' = workers m" "d \<noteq> c \<Longrightarrow> speed d m' = speed d m"
    "speed c m' = speed c m \<or> (\<exists>a f. optsFor m' c a \<and> admissible (optsStore m' a) f \<and> speed c m' = Some (Itoa (to_uint64 f)))"
    by blast+
qed
lemma workerStep_keeps:
  assumes "manager_inv before m"
  shows "manager_inv before (workerStep fused conv client c m)"
    "fst ` set (workers (workerStep fused conv client c m)) = fst ` set (workers m)"
    "d \<noteq> c \<or> d \<notin> fst ` set (workers m) \<Longrightarrow> speed d (workerStep fused conv client c m) = speed d m"
proof -
  let ?m = "workerStep fused conv client c m"
  note i = manager_invD [OF assms]
  have "manager_inv before ?m \<and> fst ` set (workers ?m) = fst ` set (workers m)
    \<and> (d \<noteq> c \<or> d \<notin> fst ` set (workers m) \<longrightarrow> speed d ?m = speed d m)"
  proof (cases "map_of (workers m) c")
    case None
    then show ?thesis using assms by (simp add: workerStep_def)
  next
    case (Some w)
    then have w: "(c, w) \<in> set (workers m)" by (rule map_of_SomeD)
    obtain w1 m1 where r: "runLoop fused conv client w m = (w1, m1)" by fastforce
    note e = runLoop_effect [OF r i(2) [OF w]]
    have m: "?m = m1\<lparr>workers := AList.update c w1 (workers m)\<rparr>" using Some r e(3) by (simp add: workerStep_def)
    have g: "storeGrows m ?m" using e(1) unfolding m by (simp add: storeGrows_def)
    have s: "speed x ?m = speed x m1" for x unfolding m by (simp add: speed_def)
    have o: "optsFor ?m = optsFor m1" "optsStore ?m = optsStore m1" unfolding m by (auto simp: optsFor_def fun_eq_iff)
    have ws: "set (workers ?m) = insert (c, w1) {p \<in> set (workers m). fst p \<noteq> c}"
      using set_AList_update [OF i(1)] unfolding m by simp
    have "manager_inv before ?m"
    proof (rule manager_invI)
      show "distinct (map fst (workers ?m))" using i(1) unfolding m by (simp add: distinct_update)
      show "worker_ok ?m x v" if "(x, v) \<in> set (workers ?m)" for x v
        using that e(2) storeGrows_worker_ok [OF g i(2)] unfolding ws by (auto simp: worker_ok_cong [OF o(1)])
      show "speed x ?m = before x \<or> (\<exists>a f. optsFor ?m x a \<and> admissible (optsStore ?m a) f \<and> speed x ?m = Some (Itoa (to_uint64 f)))" for x
      proof (cases "speed x ?m = speed x m")
        case True
        then show ?thesis by (rule storeGrows_speed [where before = before, OF g i(3)])
      next
        case False
        then have "x = c" using e(4) s by metis
        then show ?thesis using e(5) False unfolding s o by auto
      qed
    qed
    moreover have "fst ` set (workers ?m) = fst ` set (workers m)" using w unfolding ws by force
    moreover have "d = c \<Longrightarrow> d \<in> fst ` set (workers m)" using w by force
    ultimately show ?thesis using e(4) [of d] s [of d] by auto
  qed
  then show "manager_inv before ?m" "fst ` set (workers ?m) = fst ` set (workers m)"
    "d \<noteq> c \<or> d \<notin> fst ` set (workers m) \<Longrightarrow> speed d ?m = speed d m" by blast+
qed

lemma workerSteps_keep:
  assumes "manager_inv before m"
  shows "manager_inv before (foldl (\<lambda>m client. workerStep fused conv client c m) m pending)
    \<and> fst ` set (workers (foldl (\<lambda>m client. workerStep fused conv client c m) m pending)) = fst ` set (workers m)
    \<and> (d \<noteq> c \<or> d \<notin> fst ` set (workers m) \<longrightarrow> speed d (foldl (\<lambda>m client. workerStep fused conv client c m) m pending) = speed d m)"
  using assms
proof (induction pending arbitrary: m)
  case (Cons p pending)
  note k = workerStep_keeps [OF Cons.prems, where fused = fused and conv = conv and client = p and c = c]
  show ?case using Cons.IH [OF k(1)] k(2) k(3) [where d = d] by auto
qed simp

lemma stopWorker_keeps:
  assumes "manager_inv before m"
  shows "manager_inv before (stopWorker fused conv pending c m)"
    "fst ` set (workers (stopWorker fused conv pending c m)) = fst ` set (workers m) - {c}"
    "d \<noteq> c \<or> d \<notin> fst ` set (workers m) \<Longrightarrow> speed d (stopWorker fused conv pending c m) = speed d m"
proof -
  let ?m1 = "foldl (\<lambda>m client. workerStep fused conv client c m) m pending"
  have m: "stopWorker fused conv pending c m = ?m1\<lparr>workers := AList.delete c (workers ?m1)\<rparr>"
    by (simp add: stopWorker_def Let_def)
  note k = workerSteps_keep [OF assms, where fused = fused and conv = conv and c = c and pending = pending and d = d]
  note i = manager_invD [OF conjunct1 [OF k]]
  have s: "speed x (stopWorker fused conv pending c m) = speed x ?m1" for x unfolding m by (simp add: speed_def)
  have o: "optsFor (stopWorker fused conv pending c m) = optsFor ?m1" "optsStore (stopWorker fused conv pending c m) = optsStore ?m1"
    unfolding m by (auto simp: optsFor_def fun_eq_iff)
  have ws: "set (workers (stopWorker fused conv pending c m)) = {p \<in> set (workers ?m1). fst p \<noteq> c}"
    unfolding m by (auto simp: AList.delete_eq)
  show "manager_inv before (stopWorker fused conv pending c m)"
  proof (rule manager_invI)
    show "distinct (map fst (workers (stopWorker fused conv pending c m)))"
      using i(1) unfolding m by (simp add: distinct_delete)
    show "worker_ok (stopWorker fused conv pending c m) x w" if "(x, w) \<in> set (workers (stopWorker fused conv pending c m))" for x w
      using that i(2) [of x w] unfolding ws by (simp add: worker_ok_cong [OF o(1)])
    show "speed x (stopWorker fused conv pending c m) = before x \<or> (\<exists>a f. optsFor (stopWorker fused conv pending c m) x a
        \<and> admissible (optsStore (stopWorker fused conv pending c m) a) f
        \<and> speed x (stopWorker fused conv pending c m) = Some (Itoa (to_uint64 f)))" for x
      unfolding s o by (rule i(3))
  qed
  show "fst ` set (workers (stopWorker fused conv pending c m)) = fst ` set (workers m) - {c}"
  proof -
    have "fst ` {p \<in> A. fst p \<noteq> c} = fst ` A - {c}" for A :: "(nat \<times> cpuScalingWorkerImpl) set" by auto
    with k show ?thesis unfolding ws by simp
  qed
  show "speed d (stopWorker fused conv pending c m) = speed d m" if "d \<noteq> c \<or> d \<notin> fst ` set (workers m)"
    using k that s by simp
qed

lemma stopWorkers_keep:
  assumes "manager_inv before m"
  shows "manager_inv before (foldl (\<lambda>m c. stopWorker fused conv (pending c) c m) m cs)
    \<and> fst ` set (workers (foldl (\<lambda>m c. stopWorker fused conv (pending c) c m) m cs)) = fst ` set (workers m) - set cs
    \<and> (d \<notin> set cs \<or> d \<notin> fst ` set (workers m) \<longrightarrow> speed d (foldl (\<lambda>m c. stopWorker fused conv (pending c) c m) m cs) = speed d m)"
  using assms
proof (induction cs arbitrary: m)
  case (Cons c cs)
  note k = stopWorker_keeps [OF Cons.prems, where fused = fused and conv = conv and pending = "pending c" and c = c]
  let ?m = "stopWorker fused conv (pending c) c m"
  let ?n = "foldl (\<lambda>m c. stopWorker fused conv (pending c) c m) ?m cs"
  have ih: "manager_inv before ?n" "fst ` set (workers ?n) = fst ` set (workers ?m) - set cs"
    "d \<notin> set cs \<or> d \<notin> fst ` set (workers ?m) \<Longrightarrow> speed d ?n = speed d ?m"
    using Cons.IH [OF k(1)] by blast+
  have "fst ` set (workers ?n) = fst ` set (workers m) - set (c # cs)" unfolding ih(2) k(2) by auto
  moreover have "speed d ?n = speed d m" if "d \<notin> set (c # cs) \<or> d \<notin> fst ` set (workers m)"
  proof -
    have "d \<notin> set cs \<or> d \<notin> fst ` set (workers ?m)" "d \<noteq> c \<or> d \<notin> fst ` set (workers m)"
      using that unfolding k(2) by auto
    then show ?thesis using ih(3) k(3) by simp
  qed
  ultimately show ?case using ih(1) by simp
qed simp

lemma addOpts_keeps:
  assumes "manager_inv before m" "HWMinFrequency opts \<le> HWMaxFrequency opts"
  shows "manager_inv before (addOpts opts m)"
    "fst ` set (workers (addOpts opts m)) = insert (opt_cpu opts) (fst ` set (workers m))"
    "speed d (addOpts opts m) = speed d m"
    "map_of (workers (addOpts opts m)) (opt_cpu opts) = Some w \<Longrightarrow> optsStore (addOpts opts m) (worker_opts w) = opts"
    "d \<noteq> opt_cpu opts \<Longrightarrow> map_of (workers (addOpts opts m)) d = map_of (workers m) d"
    "a < nextOpts m \<Longrightarrow> optsStore (addOpts opts m) a = optsStore m a" "storeGrows m (addOpts opts m)"
proof -
  note i = manager_invD [OF assms(1)]
  define w0 where "w0 = (case map_of (workers m) (opt_cpu opts) of
      None \<Rightarrow> NewCPUScalingWorker (opt_cpu opts) (nextOpts m) | Some v \<Rightarrow> UpdateOpts (nextOpts m) v)"
  have m: "addOpts opts m = m\<lparr>optsStore := (optsStore m)(nextOpts m := opts), nextOpts := Suc (nextOpts m),
      workers := AList.update (opt_cpu opts) w0 (workers m)\<rparr>"
    by (simp add: addOpts_def Let_def getCPUScalingWorker_def w0_def)
  show g: "storeGrows m (addOpts opts m)" unfolding m by (auto simp: storeGrows_def intro: own_target)
  have ws: "set (workers (addOpts opts m)) = insert (opt_cpu opts, w0) {p \<in> set (workers m). fst p \<noteq> opt_cpu opts}"
    using set_AList_update [OF i(1)] unfolding m by simp
  have f: "optsFor (addOpts opts m) (opt_cpu opts) (nextOpts m)" using assms(2) unfolding m by (simp add: optsFor_def)
  have w0: "worker_opts w0 = nextOpts m" by (simp add: w0_def NewCPUScalingWorker_def UpdateOpts_def split: option.split)
  have ok: "worker_ok (addOpts opts m) (opt_cpu opts) w0"
  proof (cases "map_of (workers m) (opt_cpu opts)")
    case (Some v)
    then have "worker_ok m (opt_cpu opts) v" using i(2) map_of_SomeD by metis
    from storeGrows_worker_ok [OF g this] f Some show ?thesis by (simp add: w0_def UpdateOpts_def worker_ok_def)
  qed (use f in \<open>simp add: w0_def NewCPUScalingWorker_def worker_ok_def\<close>)
  show s: "speed d (addOpts opts m) = speed d m" for d unfolding m by (simp add: speed_def)
  show "manager_inv before (addOpts opts m)"
  proof (rule manager_invI)
    show "distinct (map fst (workers (addOpts opts m)))" using i(1) unfolding m by (simp add: distinct_update)
    show "worker_ok (addOpts opts m) x v" if "(x, v) \<in> set (workers (addOpts opts m))" for x v
      using that ok storeGrows_worker_ok [OF g i(2)] unfolding ws by auto
    show "speed x (addOpts opts m) = before x \<or> (\<exists>a f. optsFor (addOpts opts m) x a \<and> admissible (optsStore (addOpts opts m) a) f
        \<and> speed x (addOpts opts m) = Some (Itoa (to_uint64 f)))" for x
      by (rule storeGrows_speed [where before = before, OF g i(3) s])
  qed
  show "fst ` set (workers (addOpts opts m)) = insert (opt_cpu opts) (fst ` set (workers m))" unfolding ws by force
  show "optsStore (addOpts opts m) (worker_opts w) = opts" if "map_of (workers (addOpts opts m)) (opt_cpu opts) = Some w"
    using that w0 unfolding m by (simp add: update_conv')
  show "map_of (workers (addOpts opts m)) d = map_of (workers m) d" if "d \<noteq> opt_cpu opts"
    using that unfolding m by (simp add: update_conv')
  show "optsStore (addOpts opts m) a = optsStore m a" if "a < nextOpts m" using that unfolding m by simp
qed

lemma AddCPUScaling_keeps:
  assumes "manager_inv before m" "\<forall>opts \<in> set l. HWMinFrequency opts \<le> HWMaxFrequency opts"
  shows "manager_inv before (AddCPUScaling l m) \<and> fst ` set (workers (AddCPUScaling l m)) = opt_cpu ` set l \<union> fst ` set (workers m)
    \<and> speed d (AddCPUScaling l m) = speed d m"
  using assms
proof (induction l arbitrary: m)
  case Nil
  then show ?case by (simp add: AddCPUScaling_def)
next
  case (Cons opts l)
  have c: "AddCPUScaling (opts # l) m = AddCPUScaling l (addOpts opts m)" by (simp add: AddCPUScaling_def)
  note k = addOpts_keeps [OF Cons.prems(1), of opts]
  show ?case using Cons.IH [of "addOpts opts m"] k(1-3) Cons.prems(2) unfolding c by auto
qed
lemma AddCPUScaling_options:
  assumes "manager_inv before m" "\<forall>opts \<in> set l. HWMinFrequency opts \<le> HWMaxFrequency opts" "distinct (map opt_cpu l)"
  shows "(\<forall>opts \<in> set l. \<exists>w. getCPUScalingWorker (opt_cpu opts) (AddCPUScaling l m) = Some w
        \<and> optsStore (AddCPUScaling l m) (worker_opts w) = opts)
    \<and> (\<forall>d. d \<notin> opt_cpu ` set l \<longrightarrow> getCPUScalingWorker d (AddCPUScaling l m) = getCPUScalingWorker d m)
    \<and> (\<forall>a < nextOpts m. optsStore (AddCPUScaling l m) a = optsStore m a) \<and> nextOpts m \<le> nextOpts (AddCPUScaling l m)"
  using assms
proof (induction l arbitrary: m)
  case Nil
  then show ?case by (simp add: AddCPUScaling_def)
next
  case (Cons opts l)
  let ?m = "addOpts opts m"
  let ?n = "AddCPUScaling l ?m"
  have c: "AddCPUScaling (opts # l) m = ?n" by (simp add: AddCPUScaling_def)
  note k = addOpts_keeps [OF Cons.prems(1), of opts]
  have ok: "HWMinFrequency opts \<le> HWMaxFrequency opts" using Cons.prems(2) by simp
  have ih: "\<forall>o' \<in> set l. \<exists>w. getCPUScalingWorker (opt_cpu o') ?n = Some w \<and> optsStore ?n (worker_opts w) = o'"
    "\<forall>d. d \<notin> opt_cpu ` set l \<longrightarrow> getCPUScalingWorker d ?n = getCPUScalingWorker d ?m"
    "\<forall>a < nextOpts ?m. optsStore ?n a = optsStore ?m a" "nextOpts ?m \<le> nextOpts ?n"
    using Cons.IH [OF k(1) [OF ok]] Cons.prems(2,3) by auto
  have "opt_cpu opts \<in> fst ` set (workers ?m)" using k(2) [OF ok] by simp
  then obtain w where w: "map_of (workers ?m) (opt_cpu opts) = Some w"
    by (metis map_of_eq_None_iff not_None_eq)
  have wo: "worker_opts w < nextOpts ?m"
    using manager_invD(2) [OF k(1) [OF ok] map_of_SomeD [OF w]] by (simp add: worker_ok_def optsFor_def)
  have "opt_cpu opts \<notin> opt_cpu ` set l" using Cons.prems(3) by auto
  then have "getCPUScalingWorker (opt_cpu opts) ?n = Some w \<and> optsStore ?n (worker_opts w) = opts"
    using ih(2,3) w wo k(4) [OF ok w] by (simp add: getCPUScalingWorker_def)
  moreover have "getCPUScalingWorker d ?n = getCPUScalingWorker d m" if "d \<notin> opt_cpu ` set (opts # l)" for d
    using that ih(2) k(5) [OF ok, of d] by (simp add: getCPUScalingWorker_def)
  moreover have "optsStore ?n a = optsStore m a \<and> nextOpts m \<le> nextOpts ?n" if "a < nextOpts m" for a
    using that ih(3,4) k(6,7) [OF ok] by (auto simp: storeGrows_def)
  moreover have "nextOpts m \<le> nextOpts ?n" using ih(4) k(7) [OF ok] by (simp add: storeGrows_def)
  ultimately show ?case using ih(1) unfolding c by auto
qed

section \<open>Every interleaving\<close>

text \<open>
  The steps of the system: calls of the manager, steps of the goroutines in any order, and changes
  by the rest of the machine, which never writes the set-speed files.  The label is the set of
  CPUs handed to the manager.
\<close>

inductive manager_step :: "nat set \<Rightarrow> cpuScalingManagerImpl \<Rightarrow> cpuScalingManagerImpl \<Rightarrow> bool" where
  add: "\<forall>opts \<in> set l. HWMinFrequency opts \<le> HWMaxFrequency opts \<Longrightarrow> manager_step (opt_cpu ` set l) m (AddCPUScaling l m)"
| remove: "manager_step {} m (RemoveCPUScaling fused conv pending cpuIDs m)"
| stop: "manager_step {} m (manager_stop fused conv pending m)"
| work: "manager_step {} m (workerStep fused conv client c m)"
| environ: "\<forall>c. contents (sys s) (speedFile c) = speed c m \<Longrightarrow> manager_step {} m (m\<lparr>scalingMachine := s\<rparr>)"

lemma manager_step_keeps:
  assumes "manager_step A m m'" "manager_inv before m"
  shows "manager_inv before m' \<and> fst ` set (workers m') \<subseteq> A \<union> fst ` set (workers m)
    \<and> (d \<notin> fst ` set (workers m) \<longrightarrow> speed d m' = speed d m)"
  using assms
proof (induction rule: manager_step.induct)
  case (add l m)
  then show ?case using AddCPUScaling_keeps [OF add.prems add.hyps] by auto
next
  case (remove m fused conv pending cpuIDs)
  then show ?case
    using stopWorkers_keep [OF remove.prems, where cs = cpuIDs and fused = fused and conv = conv and pending = pending]
    unfolding RemoveCPUScaling_def by blast
next
  case (stop m fused conv pending)
  then show ?case
    using stopWorkers_keep [OF stop.prems, where cs = "getManagedCPUIDs m" and fused = fused and conv = conv and pending = pending]
    unfolding manager_stop_def Let_def by blast
next
  case (work m fused conv client c)
  then show ?case using workerStep_keeps [OF work.prems] by blast
next
  case (environ s m)
  note i = manager_invD [OF environ.prems]
  have s: "speed c (m\<lparr>scalingMachine := s\<rparr>) = speed c m" for c using environ.hyps by (simp add: speed_def)
  have o: "optsFor (m\<lparr>scalingMachine := s\<rparr>) = optsFor m" by (auto simp: optsFor_def fun_eq_iff)
  have "manager_inv before (m\<lparr>scalingMachine := s\<rparr>)"
    by (rule manager_invI) (use i in \<open>simp_all add: s o worker_ok_cong [OF o]\<close>)
  then show ?case by (simp add: s)
qed

definition manager_runs :: "(nat set \<Rightarrow> bool) \<Rightarrow> cpuScalingManagerImpl \<Rightarrow> cpuScalingManagerImpl \<Rightarrow> bool" where
  "manager_runs allowed = (\<lambda>m m'. \<exists>A. allowed A \<and> manager_step A m m')\<^sup>*\<^sup>*"

lemma manager_runs_keep: "manager_runs allowed m m' \<Longrightarrow> manager_inv before m \<Longrightarrow> manager_inv before m'"
  unfolding manager_runs_def by (induction rule: rtranclp_induct) (use manager_step_keeps in blast)+

lemma NewCPUScalingManager_inv: "manager_inv (\<lambda>c. contents (sys s) (speedFile c)) (NewCPUScalingManager s)"
  by (simp add: manager_inv_def NewCPUScalingManager_def speed_def)

lemma runs_without:
  assumes "manager_runs (\<lambda>A. c \<notin> A) m m'" "manager_inv before m" "c \<notin> fst ` set (workers m)"
  shows "speed c m' = speed c m \<and> c \<notin> fst ` set (workers m')"
  using assms(1) unfolding manager_runs_def
proof (induction rule: rtranclp_induct)
  case base
  then show ?case using assms(3) by simp
next
  case (step n n')
  then obtain A where A: "c \<notin> A" "manager_step A n n'" by blast
  have "manager_inv before n"
    using manager_runs_keep [OF _ assms(2)] step.hyps(1) by (simp add: manager_runs_def)
  from manager_step_keeps [OF A(2) this, of c] step.IH A(1) show ?case by auto
qed

text \<open>
  C17. In every interleaving of the manager's calls and the workers' steps, with stale option
  structs, changing telemetry and failing writes: the set-speed file of a CPU holds what it held at
  the start or a frequency that options given for exactly that CPU allow (their fallback frequency
  or a value within their hardware limits); and every CPU has at most one worker, whose options
  are for that CPU.
\<close>

theorem scaling_writes_admissible:
  assumes "manager_runs (\<lambda>_. True) (NewCPUScalingManager s) m"
  shows "(\<forall>c. speed c m = contents (sys s) (speedFile c)
      \<or> (\<exists>a f. a < nextOpts m \<and> opt_cpu (optsStore m a) = c \<and> speed c m = Some (Itoa (to_uint64 f))
           \<and> (f = FallbackFreq (optsStore m a) \<or> HWMinFrequency (optsStore m a) \<le> f \<and> f \<le> HWMaxFrequency (optsStore m a))))
    \<and> distinct (getManagedCPUIDs m)
    \<and> (\<forall>c w. getCPUScalingWorker c m = Some w \<longrightarrow> worker_cpuID w = c \<and> opt_cpu (optsStore m (worker_opts w)) = c)"
proof -
  note i = manager_invD [OF manager_runs_keep [OF assms NewCPUScalingManager_inv]]
  have "speed c m = contents (sys s) (speedFile c)
      \<or> (\<exists>a f. a < nextOpts m \<and> opt_cpu (optsStore m a) = c \<and> speed c m = Some (Itoa (to_uint64 f))
           \<and> (f = FallbackFreq (optsStore m a) \<or> HWMinFrequency (optsStore m a) \<le> f \<and> f \<le> HWMaxFrequency (optsStore m a)))" for c
    using i(3) [of c] unfolding optsFor_def admissible_def by blast
  moreover have "worker_cpuID w = c \<and> opt_cpu (optsStore m (worker_opts w)) = c" if "getCPUScalingWorker c m = Some w" for c w
    using i(2) [of c w] map_of_SomeD [OF that [unfolded getCPUScalingWorker_def]] by (simp add: worker_ok_def optsFor_def)
  ultimately show ?thesis using i(1) by (simp add: getManagedCPUIDs_def)
qed

text \<open>
  C24. The manager's calls do what they say: adding options makes exactly their CPUs managed in
  addition, puts the new options in force for them and leaves the workers and the options of all
  other CPUs alone; removing makes exactly the named CPUs unmanaged, and after it has returned
  nothing changes the set-speed file of such a CPU until the CPU is added again; stopping the manager
  leaves no worker.
\<close>

theorem manager_lifecycle:
  assumes "manager_runs (\<lambda>_. True) (NewCPUScalingManager s) m"
    "\<forall>opts \<in> set l. HWMinFrequency opts \<le> HWMaxFrequency opts" "distinct (map opt_cpu l)"
  shows "set (getManagedCPUIDs (AddCPUScaling l m)) = opt_cpu ` set l \<union> set (getManagedCPUIDs m)
    \<and> (\<forall>opts \<in> set l. \<exists>w. getCPUScalingWorker (opt_cpu opts) (AddCPUScaling l m) = Some w
         \<and> optsStore (AddCPUScaling l m) (worker_opts w) = opts)
    \<and> (\<forall>d. d \<notin> opt_cpu ` set l \<longrightarrow> getCPUScalingWorker d (AddCPUScaling l m) = getCPUScalingWorker d m)
    \<and> set (getManagedCPUIDs (RemoveCPUScaling fused conv pending ids m)) = set (getManagedCPUIDs m) - set ids
    \<and> (\<forall>c \<in> set ids. \<forall>m'. manager_runs (\<lambda>A. c \<notin> A) (RemoveCPUScaling fused conv pending ids m) m' \<longrightarrow>
         speed c m' = speed c (RemoveCPUScaling fused conv pending ids m))
    \<and> getManagedCPUIDs (manager_stop fused conv pending m) = []"
proof -
  note inv = manager_runs_keep [OF assms(1) NewCPUScalingManager_inv]
  have k: "manager_inv (\<lambda>c. contents (sys s) (speedFile c)) (foldl (\<lambda>m c. stopWorker fused conv (pending c) c m) m cs)"
    "fst ` set (workers (foldl (\<lambda>m c. stopWorker fused conv (pending c) c m) m cs)) = fst ` set (workers m) - set cs" for cs
    using stopWorkers_keep [OF inv, where fused = fused and conv = conv and pending = pending and cs = cs] by blast+
  have "speed c m' = speed c (RemoveCPUScaling fused conv pending ids m)"
    if "c \<in> set ids" "manager_runs (\<lambda>A. c \<notin> A) (RemoveCPUScaling fused conv pending ids m) m'" for c m'
    using runs_without [OF that(2) [unfolded RemoveCPUScaling_def] k(1)] that(1) k(2) [of ids] by (simp add: RemoveCPUScaling_def)
  moreover have "fst ` set (workers (manager_stop fused conv pending m)) = {}"
    using k(2) [of "getManagedCPUIDs m"] by (simp add: manager_stop_def Let_def getManagedCPUIDs_def)
  moreover note AddCPUScaling_keeps [OF inv assms(2)] AddCPUScaling_options [OF inv assms(2,3)] k(2) [of ids]
  ultimately show ?thesis by (auto simp: getManagedCPUIDs_def RemoveCPUScaling_def)
qed

section \<open>The properties at a concrete CPU\<close>

definition sampleOpts :: CPUScalingOpts where
  "sampleOpts = \<lparr>opt_cpu = 2, SamplePeriod = 10, CooldownPeriod = 30, TargetUsage = 50, AllowedUsageDifference = 5,
     AllowedFrequencyDifference = 1, HWMaxFrequency = 30, HWMinFrequency = 8, CurrentTargetFrequency = -1,
     ScaleFactor = Fin 1, FallbackFreq = 10\<rparr>"

definition busyClient :: dpdkTelemetryClientImpl where
  "busyClient = \<lparr>connections = [], deltaUsage = [2 \<mapsto> \<lparr>tr_percent = 100, tr_err = None\<rparr>]\<rparr>"

definition scalingHw :: hw where
  "scalingHw = machine [(8, 30)] [pstatesFromTo 8 30] [(CPUFile 2 scalingCurFreqFile, ''10'')]"

lemma sample_readings:
  "GetUsagePercent 2 busyClient = Ret 100" "GetCurrentCPUFrequency 2 scalingHw = Ret 10"
  by (simp add: GetUsagePercent_def busyClient_def) code_simp

lemma sample_writes: "\<exists>s1. SetCPUFrequency 2 f scalingHw = (Ret (), s1)"
  by (simp add: SetCPUFrequency_def WriteFile_def scalingHw_def machine_def)

lemma sample_update:
  "\<exists>opts' s'. Update False (\<lambda>_. 0) busyClient sampleOpts scalingHw = (30, opts', s') \<and> CurrentTargetFrequency opts' = 20"
proof -
  have r: "roundF 2 = Fin 2" "roundF 1 = Fin 1" "roundF 20 = Fin 20"
    using float64_of_int_small [of 2] float64_of_int_small [of 1] float64_of_int_small [of 20]
    by (simp_all add: float64_of_int_def)
  then have "nextFrequencyFloat False 10 100 sampleOpts = Fin 20"
    by (simp add: nextFrequencyFloat_def float64_of_int_small subF_def sampleOpts_def)
  then have "scaledFrequency False (\<lambda>_. 0) sampleOpts 10 100 = 20"
    by (simp add: scaledFrequency_def int_of_float64_def truncR_def clampFrequency_def sampleOpts_def)
  moreover obtain s1 where "SetCPUFrequency 2 20 scalingHw = (Ret (), s1)" using sample_writes by blast
  ultimately show ?thesis
    using sample_readings
    by (auto simp: Update_def sampleOpts_def scaledFrequency_def frequencyInAllowedDifference_def Let_def)
qed


theorem Update_direction_witness:
  "\<exists>t opts' s'. Update False (\<lambda>_. 0) busyClient sampleOpts scalingHw = (t, opts', s') \<and> 10 \<le> CurrentTargetFrequency opts'"
proof -
  obtain opts' s' where u: "Update False (\<lambda>_. 0) busyClient sampleOpts scalingHw = (30, opts', s')" "CurrentTargetFrequency opts' = 20"
    using sample_update by blast
  have "GetUsagePercent (opt_cpu sampleOpts) busyClient = Ret 100" "GetCurrentCPUFrequency (opt_cpu sampleOpts) scalingHw = Ret 10"
    using sample_readings by (simp_all add: sampleOpts_def)
  from Update_direction [OF u(1) this, of 1] u show ?thesis by (auto simp: sampleOpts_def clampFrequency_def)
qed

lemma sample_run: "manager_runs (\<lambda>_. True) (NewCPUScalingManager scalingHw) (AddCPUScaling [sampleOpts] (NewCPUScalingManager scalingHw))"
proof -
  have "manager_step (opt_cpu ` set [sampleOpts]) (NewCPUScalingManager scalingHw) (AddCPUScaling [sampleOpts] (NewCPUScalingManager scalingHw))"
    by (rule manager_step.add) (simp add: sampleOpts_def)
  then show ?thesis unfolding manager_runs_def by blast
qed

theorem scaling_writes_admissible_witness:
  "distinct (getManagedCPUIDs (AddCPUScaling [sampleOpts] (NewCPUScalingManager scalingHw)))
     \<and> (\<exists>w. getCPUScalingWorker 2 (AddCPUScaling [sampleOpts] (NewCPUScalingManager scalingHw)) = Some w \<and> worker_cpuID w = 2)"
proof -
  let ?m = "AddCPUScaling [sampleOpts] (NewCPUScalingManager scalingHw)"
  obtain w where "getCPUScalingWorker 2 ?m = Some w"
    by (simp add: AddCPUScaling_def addOpts_def Let_def getCPUScalingWorker_def NewCPUScalingManager_def sampleOpts_def)
  with scaling_writes_admissible [OF sample_run] show ?thesis by blast
qed

theorem manager_lifecycle_witness:
  "set (getManagedCPUIDs (AddCPUScaling [sampleOpts] (NewCPUScalingManager scalingHw))) = {2}"
proof -
  have r: "manager_runs (\<lambda>_. True) (NewCPUScalingManager scalingHw) (NewCPUScalingManager scalingHw)"
    by (simp add: manager_runs_def)
  have "\<forall>opts \<in> set [sampleOpts]. HWMinFrequency opts \<le> HWMaxFrequency opts" "distinct (map opt_cpu [sampleOpts])"
    by (simp_all add: sampleOpts_def)
  from manager_lifecycle [OF r this] show ?thesis by (simp add: sampleOpts_def getManagedCPUIDs_def NewCPUScalingManager_def)
qed

end
