(* ===== verification/PodRequests.thy ===== *)
theory PodRequests
  imports Library_Calls Scaling
begin

text \<open>
  The reading half of the pod controller (\<^verbatim>\<open>controllers/powerpod_controller.go\<close>): which containers of a pod ask for
  exclusive CPUs, which profile each of them asks for, which CPUs the kubelet has given them, and the
  options by which the CPUs of a profile with a scaling policy are scaled.  Nothing here changes the power library.
\<close>

section \<open>Requests of a container\<close>

abbreviation "ResourcePrefix \<equiv> ''power.cluster-power-manager.github.io/''"
abbreviation "CPUResource \<equiv> ''cpu''"
abbreviation "WorkloadTypePollingDPDK \<equiv> ''polling-dpdk''"

text \<open>The loop over the requested resources, a map whose order is that of the list.\<close>

fun profileInRequests :: "string list \<Rightarrow> string \<Rightarrow> gerr + string" where
  "profileInRequests [] profileName = Inr profileName"
| "profileInRequests (resource # rest) profileName =
     (if HasPrefix resource ResourcePrefix
      then (if profileName = '''' then profileInRequests rest (drop (length ResourcePrefix) resource)
            else Inl (Unavailable ''cannot have more than one power profile per container''))
      else profileInRequests rest profileName)"

definition checkResource :: "kubeContainer \<Rightarrow> string \<Rightarrow> int \<Rightarrow> int \<Rightarrow> int \<times> int" where
  "checkResource container resource numRequestsCPU numLimitsCPU =
     (to_int64 (numRequestsCPU + quantityValue (quantity (ctr_Requests container) resource)),
      to_int64 (numLimitsCPU + quantityValue (quantity (ctr_Limits container) resource)))"

definition getContainerProfileFromRequests :: "kubeContainer \<Rightarrow> gerr + string \<times> int" where
  "getContainerProfileFromRequests container = (case profileInRequests (map fst (ctr_Requests container)) '''' of
      Inl err \<Rightarrow> Inl err
    | Inr profileName \<Rightarrow>
       (if profileName = '''' then Inr (profileName, 0)
        else (let powerProfileResourceName = ResourcePrefix @ profileName;
                  intProfileRequests = quantityValue (quantity (ctr_Requests container) powerProfileResourceName);
                  intProfileLimits = quantityValue (quantity (ctr_Limits container) powerProfileResourceName);
                  (numRequestsCPU, numLimitsCPU) = checkResource container CPUResource 0 0 in
          if numRequestsCPU = 0 \<and> length (ctr_Claims container) > 0 then Inr (profileName, intProfileRequests)
          else if numRequestsCPU \<noteq> intProfileRequests \<or> numLimitsCPU \<noteq> intProfileLimits
          then Inl (Unavailable ''mismatch between CPU requests and the power profile requests'')
          else Inr (profileName, intProfileRequests))))"

section \<open>Containers of a pod\<close>

definition allPodContainers :: "Pod \<Rightarrow> kubeContainer list" where
  "allPodContainers pod = pod_InitContainers pod @ pod_Containers pod"

definition doesContainerRequireExclusiveCPUs :: "Pod \<Rightarrow> kubeContainer \<Rightarrow> bool" where
  "doesContainerRequireExclusiveCPUs pod container =
     (if pod_QOSClass pod \<noteq> ''Guaranteed'' then False
      else (let cpuQuantity = quantity (ctr_Requests container) CPUResource in quantityValue cpuQuantity * 1000 = cpuQuantity))"

definition pingControlPlane :: "'k PodResourcesClient \<Rightarrow> (bool, 'k) action" where
  "pingControlPlane p k = (case CPUControlPlaneClient p of
      None \<Rightarrow> (Panic nilDereference, k)
    | Some list \<Rightarrow> andThen (attempt (list k)) (\<lambda>r k1. (Ret (case r of Inl _ \<Rightarrow> False | Inr _ \<Rightarrow> True), k1)))"

definition getAdmissibleContainers :: "Pod \<Rightarrow> 'k PodResourcesClient \<Rightarrow> (kubeContainer list, 'k) action" where
  "getAdmissibleContainers pod resourceClient k = andThen (pingControlPlane resourceClient k) (\<lambda>controlPlaneAvailable k1.
     (Ret (filter (\<lambda>container. doesContainerRequireExclusiveCPUs pod container \<or> controlPlaneAvailable) (allPodContainers pod)), k1))"

definition getContainerID :: "Pod \<Rightarrow> string \<Rightarrow> string" where
  "getContainerID pod containerName =
     (case find (\<lambda>s. fst s = containerName) (pod_InitContainerStatuses pod @ pod_ContainerStatuses pod) of
        Some s \<Rightarrow> snd s | None \<Rightarrow> '''')"

text \<open>
  The body of the loop: the power container it appends and the recoverable error it notes, if any.  A
  list of CPUs that the reader appends to without end exhausts the memory of the process.
\<close>

definition powerContainerOf ::
    "selectors \<Rightarrow> 'k client \<Rightarrow> 'k PodResourcesClient \<Rightarrow> hostImpl \<Rightarrow> Pod \<Rightarrow> kubeContainer \<Rightarrow> (PowerContainer option \<times> gerr option, 'k) action" where
  "powerContainerOf sel c p h pod container k =
     (let powerContainer = (\<lambda>profileName cpus errs. \<lparr>pc_Name = ctr_Name container,
            pc_ID = TrimPrefix (getContainerID pod (ctr_Name container)) ''docker://'',
            pc_PowerProfile = profileName, pc_CPUIDs = cpus, pc_Errors = errs\<rparr>) in
      (case getContainerProfileFromRequests container of
        Inl err \<Rightarrow> (Ret (Some (powerContainer '''' [] [ErrorText err]), None), k)
      | Inr (profileName, requestNum) \<Rightarrow>
         (if profileName = '''' then (Ret (None, None), k)
          else andThen (attempt (validateProfileAvailabilityOnNode sel c profileName (pod_NodeName pod) (Some h) k)) (\<lambda>r k1. (case r of
              Inl _ \<Rightarrow> (Ret (None, None), k1)
            | Inr profileAvailable \<Rightarrow>
               (if \<not> profileAvailable
                then (let errMsg = ''power profile '' @ ticked profileName @ '' is not available on node '' @ pod_NodeName pod in
                      (Ret (Some (powerContainer profileName [] [errMsg]), Some (Unavailable errMsg)), k1))
                else andThen (attempt (GetContainerCPUs p (meta_Name (pod_meta pod)) (ctr_Name container) k1)) (\<lambda>r k2. (case r of
                    Inl err \<Rightarrow> (Ret (None, Some err), k2)
                  | Inr coreIDs \<Rightarrow> (case getCleanCoreList coreIDs of
                      None \<Rightarrow> (Panic ''runtime: out of memory'', k2)
                    | Some cleanCoreList \<Rightarrow>
                       (if int (length cleanCoreList) \<noteq> requestNum
                        then (Ret (None, Some (Msg (''assigned cores did not match requested profiles. cores:''
                               @ Itoa (int (length cleanCoreList)) @ '', profiles '' @ Itoa requestNum))), k2)
                        else (Ret (Some (powerContainer profileName cleanCoreList []), None), k2)))))))))))"

primrec getPowerProfileRequestsFromContainers ::
    "selectors \<Rightarrow> 'k client \<Rightarrow> 'k PodResourcesClient \<Rightarrow> hostImpl \<Rightarrow> Pod \<Rightarrow> kubeContainer list
      \<Rightarrow> (PowerContainer list \<times> gerr list, 'k) action" where
  "getPowerProfileRequestsFromContainers sel c p h pod [] k = (Ret ([], []), k)"
| "getPowerProfileRequestsFromContainers sel c p h pod (container # rest) k =
     andThen (powerContainerOf sel c p h pod container k) (\<lambda>(pc, err) k1.
       andThen (getPowerProfileRequestsFromContainers sel c p h pod rest k1) (\<lambda>(pcs, errs) k2.
         (Ret (case_option id (#) pc pcs, case_option id (#) err errs), k2)))"

section \<open>Where CPUs are\<close>

definition detectCoresAdded :: "nat list \<Rightarrow> nat list \<Rightarrow> nat list" where
  "detectCoresAdded originalCoreList updatedCoreList = filter (\<lambda>core. \<not> List.member originalCoreList core) updatedCoreList"

definition areCPUsInSharedPool :: "nat list \<Rightarrow> hostImpl \<Rightarrow> bool" where
  "areCPUsInSharedPool cpuIDs h =
     (let sharedCPUIDs = CPUList_IDs (Cpus GetSharedPool h) in list_all (\<lambda>cpuID. List.member sharedCPUIDs cpuID) cpuIDs)"

section \<open>Scaling options\<close>

text \<open>The options of one CPU.  The fields of the policy are pointers, which are all read.\<close>

definition scalingOptsOf :: "CPUScalingPolicy \<Rightarrow> nat \<Rightarrow> hostImpl \<Rightarrow> CPUScalingOpts gores" where
  "scalingOptsOf scalingPolicy cpu h = (case GetAbsMinMax cpu (machineOf h) of
      Panic m \<Rightarrow> Panic m
    | Fail err \<Rightarrow> Fail err
    | Ret (mn, mx) \<Rightarrow>
       (case (sp_FallbackFreqPercent scalingPolicy, sp_SamplePeriod scalingPolicy, sp_CooldownPeriod scalingPolicy, sp_TargetUsage scalingPolicy,
              sp_AllowedUsageDifference scalingPolicy, sp_AllowedFrequencyDifference scalingPolicy, sp_ScalePercentage scalingPolicy) of
          (Some fallbackFreqPct, Some samplePeriod, Some cooldownPeriod, Some targetUsage, Some usageDifference, Some freqDifference, Some scale) \<Rightarrow>
            (let fallbackFreq = to_uint64 (mn + to_uint64 (to_uint64 (mx - mn) * to_uint64 fallbackFreqPct) div 100) in
             Ret \<lparr>opt_cpu = cpu, SamplePeriod = samplePeriod, CooldownPeriod = cooldownPeriod, TargetUsage = targetUsage,
               AllowedUsageDifference = usageDifference, AllowedFrequencyDifference = to_int64 (freqDifference * 1000),
               HWMaxFrequency = to_int64 mx, HWMinFrequency = to_int64 mn, CurrentTargetFrequency = FrequencyNotYetSet,
               ScaleFactor = divF (float64_of_int scale) (float64_of_int 100), FallbackFreq = to_int64 fallbackFreq\<rparr>)
        | _ \<Rightarrow> Panic nilDereference))"

text \<open>The loop: the options of the CPUs of the library, and the CPUs it does not have.\<close>

fun scalingOptsLoop :: "CPUScalingPolicy \<Rightarrow> nat list \<Rightarrow> hostImpl \<Rightarrow> (CPUScalingOpts list \<times> nat list) gores" where
  "scalingOptsLoop scalingPolicy [] h = Ret ([], [])"
| "scalingOptsLoop scalingPolicy (cpuID # rest) h = (case CPUList_ByID cpuID (allCpus h) of
      None \<Rightarrow> (case scalingOptsLoop scalingPolicy rest h of
          Ret (optsList, missing) \<Rightarrow> Ret (optsList, cpuID # missing) | r \<Rightarrow> r)
    | Some cpu \<Rightarrow> (case scalingOptsOf scalingPolicy cpu h of
          Ret opts \<Rightarrow> (case scalingOptsLoop scalingPolicy rest h of
              Ret (optsList, missing) \<Rightarrow> Ret (opts # optsList, missing) | r \<Rightarrow> r)
        | Fail err \<Rightarrow> Fail err
        | Panic m \<Rightarrow> Panic m))"

definition generateCPUScalingOpts :: "CPUScalingPolicy \<Rightarrow> nat list \<Rightarrow> hostImpl \<Rightarrow> (CPUScalingOpts list \<times> gerr option) gores" where
  "generateCPUScalingOpts scalingPolicy cpuIDs h = (case scalingOptsLoop scalingPolicy cpuIDs h of
      Ret (optsList, missingCPUs) \<Rightarrow> Ret (optsList,
        (if length missingCPUs > 0 then Some (Msg (''CPUs '' @ uintsText missingCPUs @ '' not found in power library'')) else None))
    | Fail err \<Rightarrow> Fail err
    | Panic m \<Rightarrow> Panic m)"

section \<open>Events\<close>

definition PowerReleventPodPredicate :: "string \<Rightarrow> Pod \<Rightarrow> bool" where
  "PowerReleventPodPredicate nodeName pod =
     (if pod_NodeName pod \<noteq> nodeName then False
      else list_ex (\<lambda>c. list_ex (\<lambda>rn. HasPrefix rn ResourcePrefix) (map fst (ctr_Requests c))) (allPodContainers pod))"

definition scalingPolicyChanged :: "PowerProfile \<Rightarrow> PowerProfile \<Rightarrow> bool" where
  "scalingPolicyChanged oldProfile newProfile =
     (if pps_Shared (pp_Spec newProfile) then False
      else pps_CPUScalingPolicy (pp_Spec oldProfile) \<noteq> pps_CPUScalingPolicy (pp_Spec newProfile))"

definition powerProfileToPodRequests :: "'k client \<Rightarrow> string \<Rightarrow> PowerProfile \<Rightarrow> (Request list, 'k) action" where
  "powerProfileToPodRequests c nodeName profile k =
     (if nodeName = '''' then (Ret [], k)
      else andThen (attempt (List_Pods c ''spec.nodeName'' nodeName k)) (\<lambda>r k1. (Ret (case r of
          Inl _ \<Rightarrow> []
        | Inr items \<Rightarrow> concat (map (\<lambda>pod. concat (map (\<lambda>ctr.
            map (\<lambda>_. \<lparr>req_Namespace = meta_Namespace (pod_meta pod), req_Name = meta_Name (pod_meta pod)\<rparr>)
              (filter (\<lambda>rn. rn = ResourcePrefix @ meta_Name (pp_meta profile)) (map fst (ctr_Requests ctr))))
            (allPodContainers pod))) items)), k1)))"

section \<open>Bounds of scaling options\<close>

text \<open>A policy as the API server stores it: every field has a value (they have defaults), the fallback is a percentage.\<close>

definition completePolicy :: "CPUScalingPolicy \<Rightarrow> bool" where
  "completePolicy p \<longleftrightarrow> sp_SamplePeriod p \<noteq> None \<and> sp_CooldownPeriod p \<noteq> None \<and> sp_TargetUsage p \<noteq> None
     \<and> sp_AllowedUsageDifference p \<noteq> None \<and> sp_AllowedFrequencyDifference p \<noteq> None \<and> sp_ScalePercentage p \<noteq> None
     \<and> (\<exists>pct. sp_FallbackFreqPercent p = Some pct \<and> 0 \<le> pct \<and> pct \<le> 100)"

text \<open>The frequency ranges recorded at start-up: 32-bit numbers in order.\<close>

definition sensibleRanges :: "hostImpl \<Rightarrow> bool" where
  "sensibleRanges h \<longleftrightarrow> (\<forall>c \<in> set (allCpus h). let info = allCPUDefaultPStatesInfo (machineOf h) ! c in
     0 \<le> IntVal (minFreq info) \<and> IntVal (minFreq info) \<le> IntVal (maxFreq info) \<and> IntVal (maxFreq info) < 2 ^ 31)"

definition boundedOpts :: "hostImpl \<Rightarrow> CPUScalingOpts \<Rightarrow> bool" where
  "boundedOpts h opts \<longleftrightarrow> GetAbsMinMax (opt_cpu opts) (machineOf h) = Ret (HWMinFrequency opts, HWMaxFrequency opts)
     \<and> HWMinFrequency opts \<le> FallbackFreq opts \<and> FallbackFreq opts \<le> HWMaxFrequency opts"

lemma ranges_small:
  assumes "host_inv h" "sensibleRanges h" "c \<in> set (allCpus h)"
  obtains mn mx where "GetAbsMinMax c (machineOf h) = Ret (mn, mx)" "0 \<le> mn" "mn \<le> mx" "mx < 2 ^ 31"
proof (cases "isFeatureIDSupported (featureList (machineOf h)) FrequencyScalingFeature")
  case True
  have "c < length (allCPUDefaultPStatesInfo (machineOf h))" using assms(1,3) True by (auto simp: host_inv_def machine_ready_def)
  then show ?thesis
    using True assms(2,3) by (intro that) (auto simp: GetAbsMinMax_def sensibleRanges_def Let_def to_uint64_def)
qed (auto simp: GetAbsMinMax_def intro: that)

lemma fallback_between:
  assumes "0 \<le> mn" "mn \<le> mx" "mx < 2 ^ 31" "0 \<le> (pct::int)" "pct \<le> 100"
  shows "to_int64 (to_uint64 (mn + to_uint64 (to_uint64 (mx - mn) * to_uint64 pct) div 100)) \<in> {mn .. mx}"
proof -
  have "(mx - mn) * pct \<le> (mx - mn) * 100" using assms by (intro mult_left_mono) auto
  then have d: "(mx - mn) * pct div 100 \<le> mx - mn" "(mx - mn) * pct < 2 ^ 64" using assms by (simp_all add: zdiv_mono1)
  have "0 \<le> (mx - mn) * pct" using assms by simp
  moreover from this have "0 \<le> (mx - mn) * pct div 100" by simp
  ultimately show ?thesis using d assms by (simp add: to_uint64_def to_int64_def)
qed

lemma scalingOptsOf_bounded:
  assumes "host_inv h" "sensibleRanges h" "completePolicy policy" "c \<in> set (allCpus h)"
  shows "\<exists>opts. scalingOptsOf policy c h = Ret opts \<and> opt_cpu opts = c \<and> boundedOpts h opts"
proof -
  obtain mn mx where r: "GetAbsMinMax c (machineOf h) = Ret (mn, mx)" "0 \<le> mn" "mn \<le> mx" "mx < 2 ^ 31"
    using ranges_small [OF assms(1,2,4)] .
  obtain pct where p: "sp_FallbackFreqPercent policy = Some pct" "0 \<le> pct" "pct \<le> 100"
    using assms(3) by (auto simp: completePolicy_def)
  have small: "to_int64 mn = mn" "to_int64 mx = mx" using r by (simp_all add: to_int64_def)
  show ?thesis
    using assms(3) fallback_between [OF r(2-4) p(2,3)]
    by (auto simp: completePolicy_def scalingOptsOf_def boundedOpts_def r(1) p(1) small Let_def)
qed

lemma scalingOptsLoop_bounded:
  assumes "host_inv h" "sensibleRanges h" "completePolicy policy"
  shows "\<exists>opts. scalingOptsLoop policy ids h = Ret (opts, filter (\<lambda>c. c \<notin> set (allCpus h)) ids)
     \<and> map opt_cpu opts = filter (\<lambda>c. c \<in> set (allCpus h)) ids \<and> (\<forall>x \<in> set opts. boundedOpts h x)"
proof (induction ids)
  case (Cons c ids)
  then show ?case using scalingOptsOf_bounded [OF assms, of c] by (auto simp: CPUList_ByID_iff)
qed simp

section \<open>What a container gets is what it asks for\<close>

lemma HasPrefix_drop: "HasPrefix s p \<longleftrightarrow> s = p @ drop (length p) s"
  by (metis HasPrefix_append HasPrefix_def append_take_drop_id)

lemma profileInRequests_found:
  assumes "profileInRequests rs p0 = Inr p"
  shows "p0 \<noteq> '''' \<Longrightarrow> p = p0 \<and> (\<forall>r \<in> set rs. \<not> HasPrefix r ResourcePrefix)"
    and "p0 = '''' \<Longrightarrow> p \<noteq> '''' \<Longrightarrow> ResourcePrefix @ p \<in> set rs
       \<and> (\<forall>r \<in> set rs. HasPrefix r ResourcePrefix \<longrightarrow> r = ResourcePrefix @ p \<or> r = ResourcePrefix)"
proof -
  have named: "p0 \<noteq> '''' \<longrightarrow> p = p0 \<and> (\<forall>r \<in> set rs. \<not> HasPrefix r ResourcePrefix)" if "profileInRequests rs p0 = Inr p" for rs p0
    using that by (induction rs arbitrary: p0) (auto split: if_splits)
  then show "p0 \<noteq> '''' \<Longrightarrow> p = p0 \<and> (\<forall>r \<in> set rs. \<not> HasPrefix r ResourcePrefix)" using assms by blast
  assume "p0 = ''''" "p \<noteq> ''''"
  with assms have "profileInRequests rs '''' = Inr p" by simp
  then show "ResourcePrefix @ p \<in> set rs \<and> (\<forall>r \<in> set rs. HasPrefix r ResourcePrefix \<longrightarrow> r = ResourcePrefix @ p \<or> r = ResourcePrefix)"
  proof (induction rs)
    case (Cons r rs)
    show ?case
    proof (cases "HasPrefix r ResourcePrefix \<and> drop (length ResourcePrefix) r \<noteq> ''''")
      case True
      then have "p = drop (length ResourcePrefix) r" "\<forall>r \<in> set rs. \<not> HasPrefix r ResourcePrefix"
        using Cons.prems named [of rs "drop (length ResourcePrefix) r"] by auto
      then show ?thesis using True by (metis HasPrefix_drop list.set_intros(1) set_ConsD)
    next
      case False
      then have "profileInRequests rs '''' = Inr p" using Cons.prems by (auto split: if_splits)
      moreover have "HasPrefix r ResourcePrefix \<Longrightarrow> r = ResourcePrefix" using False HasPrefix_drop by (metis append_Nil2)
      ultimately show ?thesis using Cons.IH by auto
    qed
  qed (use \<open>p \<noteq> ''''\<close> in simp)
qed

text \<open>A container asks for \<open>n\<close> CPUs of a profile, and of no other.\<close>

definition asksFor :: "kubeContainer \<Rightarrow> string \<Rightarrow> int \<Rightarrow> bool" where
  "asksFor ctr profile n \<longleftrightarrow> ResourcePrefix @ profile \<in> fst ` set (ctr_Requests ctr)
     \<and> (\<forall>r \<in> fst ` set (ctr_Requests ctr). HasPrefix r ResourcePrefix \<longrightarrow> r = ResourcePrefix @ profile \<or> r = ResourcePrefix)
     \<and> quantityValue (quantity (ctr_Requests ctr) (ResourcePrefix @ profile)) = n
     \<and> (to_int64 (quantityValue (quantity (ctr_Requests ctr) CPUResource)) = n
        \<or> to_int64 (quantityValue (quantity (ctr_Requests ctr) CPUResource)) = 0 \<and> ctr_Claims ctr \<noteq> [])"

lemma getContainerProfile_asks:
  assumes "getContainerProfileFromRequests ctr = Inr (p, n)" "p \<noteq> ''''"
  shows "asksFor ctr p n"
proof -
  have "profileInRequests (map fst (ctr_Requests ctr)) '''' = Inr p"
    using assms by (auto simp: getContainerProfileFromRequests_def Let_def split: sum.splits if_splits prod.splits)
  from profileInRequests_found(2) [OF this refl assms(2)] this assms show ?thesis
    by (auto simp: asksFor_def getContainerProfileFromRequests_def checkResource_def Let_def split: if_splits)
qed

lemma available_has_pool:
  assumes "validateProfileAvailabilityOnNode sel c profile n (Some h) k = (Ret True, k')" "profile \<noteq> ''''"
  shows "GetExclusivePool profile h \<noteq> None"
  using assms by (auto simp: validateProfileAvailabilityOnNode_def run_simps split: option.splits if_splits)

text \<open>
  A power container without errors: a container of the pod asks for its profile, which is available, and has as many
  CPUs as it asks for.  With an error it has no CPUs.
\<close>

definition asRequested :: "hostImpl \<Rightarrow> kubeContainer list \<Rightarrow> PowerContainer \<Rightarrow> bool" where
  "asRequested h ctrs pc \<longleftrightarrow> (if pc_Errors pc = []
     then GetExclusivePool (pc_PowerProfile pc) h \<noteq> None
        \<and> (\<exists>ctr \<in> set ctrs. ctr_Name ctr = pc_Name pc \<and> asksFor ctr (pc_PowerProfile pc) (int (length (pc_CPUIDs pc))))
     else pc_CPUIDs pc = [])"

lemma powerContainerOf_requested:
  assumes "powerContainerOf sel c p h pod ctr k = (Ret (Some pc, err), k')"
  shows "asRequested h [ctr] pc"
proof (cases "getContainerProfileFromRequests ctr")
  case (Inl e)
  then show ?thesis using assms by (auto simp: powerContainerOf_def Let_def asRequested_def)
next
  case (Inr x)
  obtain profile n where x: "x = (profile, n)" by (cases x)
  have ne: "profile \<noteq> ''''" using assms Inr x by (auto simp: powerContainerOf_def Let_def)
  note asks = getContainerProfile_asks [OF Inr [unfolded x] ne]
  show ?thesis
    using assms ne asks available_has_pool
    by (auto simp: powerContainerOf_def Inr x Let_def run_simps asRequested_def split: option.splits if_splits)
qed

lemma asRequested_mono: "asRequested h ctrs pc \<Longrightarrow> set ctrs \<subseteq> set ctrs' \<Longrightarrow> asRequested h ctrs' pc"
  by (auto simp: asRequested_def split: if_splits)

lemma requests_requested:
  assumes "getPowerProfileRequestsFromContainers sel c p h pod ctrs k = (Ret (pcs, errs), k')"
  shows "\<forall>pc \<in> set pcs. asRequested h ctrs pc"
  using assms
proof (induction ctrs arbitrary: pcs errs k)
  case (Cons ctr ctrs)
  then obtain o1 e1 k1 pcs1 errs1 where s: "powerContainerOf sel c p h pod ctr k = (Ret (o1, e1), k1)"
    "getPowerProfileRequestsFromContainers sel c p h pod ctrs k1 = (Ret (pcs1, errs1), k')" "pcs = case_option id (#) o1 pcs1"
    by (auto simp: andThen_Ret_iff)
  have "\<forall>pc \<in> set pcs1. asRequested h (ctr # ctrs) pc" using Cons.IH [OF s(2)] by (auto intro: asRequested_mono)
  moreover have "o1 = Some pc \<Longrightarrow> asRequested h (ctr # ctrs) pc" for pc
    using powerContainerOf_requested s(1) by (fastforce intro: asRequested_mono)
  ultimately show ?case using s(3) by (auto split: option.splits)
qed simp

section \<open>Property\<close>

text \<open>
  C37. For a complete scaling policy, with the frequency ranges recorded at start-up in order: the options are generated
  without a panic, one for each requested CPU that the library has, in the order of the request; an error is noted
  exactly if a CPU is unknown; and each option carries the hardware limits of its CPU, with the fallback frequency between
  them, whatever the percentage.
\<close>

theorem scalingOpts_within_limits:
  assumes "host_inv h" "sensibleRanges h" "completePolicy policy"
  shows "\<exists>opts err. generateCPUScalingOpts policy ids h = Ret (opts, err)
     \<and> map opt_cpu opts = filter (\<lambda>c. c \<in> set (allCpus h)) ids
     \<and> (err = None \<longleftrightarrow> set ids \<subseteq> set (allCpus h))
     \<and> (\<forall>x \<in> set opts. GetAbsMinMax (opt_cpu x) (machineOf h) = Ret (HWMinFrequency x, HWMaxFrequency x)
          \<and> HWMinFrequency x \<le> FallbackFreq x \<and> FallbackFreq x \<le> HWMaxFrequency x)"
proof -
  obtain opts where "scalingOptsLoop policy ids h = Ret (opts, filter (\<lambda>c. c \<notin> set (allCpus h)) ids)"
    "map opt_cpu opts = filter (\<lambda>c. c \<in> set (allCpus h)) ids" "\<forall>x \<in> set opts. boundedOpts h x"
    using scalingOptsLoop_bounded [OF assms] by blast
  then show ?thesis by (auto simp: generateCPUScalingOpts_def boundedOpts_def filter_empty_conv)
qed

definition samplePolicy :: CPUScalingPolicy where
  "samplePolicy = \<lparr>sp_WorkloadType = WorkloadTypePollingDPDK, sp_SamplePeriod = Some 10, sp_CooldownPeriod = Some 30, sp_TargetUsage = Some 80,
     sp_AllowedUsageDifference = Some 5, sp_AllowedFrequencyDifference = Some 25, sp_ScalePercentage = Some 50, sp_FallbackFreqPercent = Some 0\<rparr>"

theorem scalingOpts_within_limits_witness:
  "\<exists>opts. generateCPUScalingOpts samplePolicy [0, 1] (sampleHost twoCPUMachine) = Ret (opts, None) \<and> map opt_cpu opts = [0, 1]"
proof -
  have "host_inv (sampleHost twoCPUMachine)" by (simp add: sampleHost_inv)
  moreover have "sensibleRanges (sampleHost twoCPUMachine)"
    by (simp add: sensibleRanges_def sampleHost_def topology_CPUs_def twoCPUMachine_def machine_def pstatesFromTo_def FromInt_def to_int32_def Let_def)
  moreover have "completePolicy samplePolicy" by (simp add: completePolicy_def samplePolicy_def)
  ultimately show ?thesis
    using scalingOpts_within_limits [of "sampleHost twoCPUMachine" samplePolicy "[0, 1]"] by (auto simp: sampleHost_def topology_CPUs_def)
qed

end
