(* ===== verification/PodController.thy ===== *)
theory PodController
  imports PodRequests
begin

text \<open>
  The pod controller (\<^verbatim>\<open>controllers/powerpod_controller.go\<close>): it moves the CPUs of a container from the shared pool to the
  exclusive pool of the profile the container asks for, sets up telemetry and scaling, records the pod in
  the status of the node and in its own store, and undoes all that when the pod ends.
\<close>

section \<open>State and surroundings\<close>

text \<open>
  The fields of the reconciler that the other controllers do not have.  The telemetry client and the
  scaling manager may be missing.
\<close>

record 'k podAgent = "'k agent" +
  podStore :: podState
  telemetry :: "dpdkTelemetryClientImpl option"
  scaler :: "cpuScalingManagerImpl option"

text \<open>
  What the controller does not control: the selectors of apimachinery, the clients of the API server and the kubelet, the
  decoding of telemetry, the machine's float arithmetic, and what the goroutines of a connection
  and of workers still do while they are being stopped.
\<close>

record 'k podEnv =
  env_selectors :: selectors
  env_client :: "'k client"
  env_resources :: "'k PodResourcesClient"
  env_decodeInitial :: "string \<Rightarrow> initialMessage gores"
  env_decodeUsage :: "string \<Rightarrow> usageData gores"
  env_fused :: bool
  env_convert :: "float64 \<Rightarrow> int"
  env_connectionEvents :: "event list"
  env_workerRuns :: "nat \<Rightarrow> dpdkTelemetryClientImpl list"

definition onPods :: "('a, podState) action \<Rightarrow> ('a, 'k podAgent) action" where
  "onPods f a = (case f (podStore a) of (r, s) \<Rightarrow> (r, a\<lparr>podStore := s\<rparr>))"

section \<open>The status of the node\<close>

definition applyPowerNodeStateExclusiveStatus ::
    "'k client \<Rightarrow> string \<Rightarrow> ExclusiveCPUPoolStatus list \<Rightarrow> string \<Rightarrow> (unit, 'k) action" where
  "applyPowerNodeStateExclusiveStatus c stateName exclusive fieldManager k =
     Patch_Status c PowerNamespace stateName
       (emptyStatus\<lparr>pns_CPUPools := Some \<lparr>cps_Shared = None, cps_Reserved = None, cps_Exclusive = Some exclusive\<rparr>\<rparr>) fieldManager k"

definition podFieldManager :: "string \<Rightarrow> string" where
  "podFieldManager podUID = ''powerpod-controller.'' @ podUID"

definition addPowerNodeStatusExclusiveEntry ::
    "'k client \<Rightarrow> string \<Rightarrow> string \<Rightarrow> string \<Rightarrow> PowerContainer list \<Rightarrow> (unit, 'k) action" where
  "addPowerNodeStatusExclusiveEntry c nodeName podUID podName powerContainers k =
     applyPowerNodeStateExclusiveStatus c (powerNodeStateName nodeName)
       [\<lparr>ecp_PodUID = podUID, ecp_Pod = podName, ecp_PowerContainers = powerContainers\<rparr>] (podFieldManager podUID) k"

definition removePowerNodeStatusExclusiveEntry :: "'k client \<Rightarrow> string \<Rightarrow> string \<Rightarrow> (unit, 'k) action" where
  "removePowerNodeStatusExclusiveEntry c nodeName podUID k =
     andThen (attempt (applyPowerNodeStateExclusiveStatus c (powerNodeStateName nodeName) [] (podFieldManager podUID) k)) (\<lambda>r k1. (case r of
         Inl err \<Rightarrow> (if isNotFoundErr err then (Ret (), k1) else (Fail err, k1))
       | Inr _ \<Rightarrow> (Ret (), k1)))"

section \<open>One container\<close>

definition addError :: "string \<Rightarrow> PowerContainer \<Rightarrow> PowerContainer" where
  "addError m container = container\<lparr>pc_Errors := pc_Errors container @ [m]\<rparr>"

text \<open>
  What one turn of the loop over the containers does: it ends the reconciliation with a result, or it leaves the
  container, the recoverable errors it has added, and whether a container of the pod is being scaled.
\<close>

type_synonym turn = "ctrlResult + PowerContainer \<times> gerr list \<times> bool"

definition startScaling :: "string \<Rightarrow> CPUScalingPolicy \<Rightarrow> PowerContainer \<Rightarrow> (turn, 'k podAgent) action" where
  "startScaling podUID policy container a =
     (let a1 = a\<lparr>telemetry := map_option (EnsureConnection \<lparr>PodUID = podUID, WatchedCPUs = pc_CPUIDs container\<rparr>) (telemetry a)\<rparr> in
      (case generateCPUScalingOpts policy (pc_CPUIDs container) (lib a1) of
        Ret (scalingOpts, err) \<Rightarrow>
          (Ret (Inr (case err of
              None \<Rightarrow> container
            | Some e \<Rightarrow> addError (''some CPUs could not be configured for DPDK scaling: '' @ ErrorText e) container, [], True)),
           if length scalingOpts > 0 then a1\<lparr>scaler := map_option (AddCPUScaling scalingOpts) (scaler a1)\<rparr> else a1)
      | Fail e \<Rightarrow> (Fail e, a1)
      | Panic m \<Rightarrow> (Panic m, a1)))"

definition setUpScaling :: "'k podEnv \<Rightarrow> string \<Rightarrow> PowerContainer \<Rightarrow> bool \<Rightarrow> (turn, 'k podAgent) action" where
  "setUpScaling e podUID container dpdkContainerAssigned a =
     (if telemetry a = None \<or> scaler a = None then (Ret (Inr (container, [], dpdkContainerAssigned)), a)
      else andThen (attempt (onKube (Get_PowerProfile (env_client e) PowerNamespace (pc_PowerProfile container)) a)) (\<lambda>r a1. (case r of
          Inl err \<Rightarrow>
            (if isNotFoundErr err
             then (let errMsg = ''PowerProfile '' @ ticked (pc_PowerProfile container) @ '' not found'' in
                   (Ret (Inr (addError errMsg container, [Unavailable errMsg], dpdkContainerAssigned)), a1))
             else (Fail (Wrap ''failed to get PowerProfile'' err), a1))
        | Inr profile \<Rightarrow> (case pps_CPUScalingPolicy (pp_Spec profile) of
            None \<Rightarrow> (Ret (Inr (container, [], dpdkContainerAssigned)), a1)
          | Some policy \<Rightarrow>
             (if sp_WorkloadType policy \<noteq> WorkloadTypePollingDPDK then (Ret (Inr (container, [], dpdkContainerAssigned)), a1)
              else if dpdkContainerAssigned
              then (Ret (Inr (addError ''DPDK dynamic frequency scaling is only supported for a single container per pod; this container is skipped''
                      container, [], True)), a1)
              else startScaling podUID policy container a1)))))"

definition reconcileContainer :: "'k podEnv \<Rightarrow> string \<Rightarrow> PowerContainer \<Rightarrow> bool \<Rightarrow> (turn, 'k podAgent) action" where
  "reconcileContainer e podUID container dpdkContainerAssigned a =
     (if length (pc_Errors container) > 0 then (Ret (Inr (container, [], dpdkContainerAssigned)), a)
      else (case GetExclusivePool (pc_PowerProfile container) (lib a) of
        None \<Rightarrow>
          (let err = Msg (''exclusive pool for profile '' @ pc_PowerProfile container @ '' not found'') in
           (Ret (Inr (addError (ErrorText err) container, [err], dpdkContainerAssigned)), a))
      | Some exclusivePool \<Rightarrow>
         (let actualCPUs = CPUList_IDs (Cpus exclusivePool (lib a));
              coresToAdd = detectCoresAdded actualCPUs (pc_CPUIDs container) in
          if length coresToAdd > 0 \<and> \<not> areCPUsInSharedPool coresToAdd (lib a) then (Ret (Inl RequeueAfter), a)
          else andThen (attempt (if length coresToAdd > 0 then onLib (MoveCPUIDs exclusivePool coresToAdd) a else (Ret (), a))) (\<lambda>r a1.
            (case r of
               Inl err \<Rightarrow> (Ret (Inr (addError (ErrorText err) container, [err], dpdkContainerAssigned)), a1)
             | Inr _ \<Rightarrow> setUpScaling e podUID container dpdkContainerAssigned a1)))))"

primrec reconcileContainers ::
    "'k podEnv \<Rightarrow> string \<Rightarrow> PowerContainer list \<Rightarrow> bool \<Rightarrow> (ctrlResult + PowerContainer list \<times> gerr list, 'k podAgent) action" where
  "reconcileContainers e podUID [] dpdkContainerAssigned a = (Ret (Inr ([], [])), a)"
| "reconcileContainers e podUID (container # rest) dpdkContainerAssigned a =
     andThen (reconcileContainer e podUID container dpdkContainerAssigned a) (\<lambda>t a1. (case t of
        Inl res \<Rightarrow> (Ret (Inl res), a1)
      | Inr (container', errs, assigned) \<Rightarrow> andThen (reconcileContainers e podUID rest assigned a1) (\<lambda>r a2. (case r of
            Inl res \<Rightarrow> (Ret (Inl res), a2)
          | Inr (containers', errs') \<Rightarrow> (Ret (Inr (container' # containers', errs @ errs')), a2)))))"

section \<open>Deletion\<close>

text \<open>Telemetry and scaling of the pod end; workers that are being stopped may still write to the machine of the library.\<close>

definition tearDownScaling :: "'k podEnv \<Rightarrow> string \<Rightarrow> nat list \<Rightarrow> (unit, 'k podAgent) action" where
  "tearDownScaling e podUID deletedCPUIDs a = (case (telemetry a, scaler a) of
      (Some cl, Some m) \<Rightarrow>
        (case CloseConnection (env_decodeInitial e) (env_decodeUsage e) (env_connectionEvents e) podUID cl of
          (Ret _, cl1) \<Rightarrow>
            (let m1 = RemoveCPUScaling (env_fused e) (env_convert e) (env_workerRuns e) deletedCPUIDs
                   (m\<lparr>scalingMachine := machineOf (lib a)\<rparr>) in
             (Ret (), a\<lparr>telemetry := Some cl1, scaler := Some m1, lib := (lib a)\<lparr>machineOf := scalingMachine m1\<rparr>\<rparr>))
        | (Fail err, cl1) \<Rightarrow> (Fail err, a\<lparr>telemetry := Some cl1\<rparr>)
        | (Panic msg, cl1) \<Rightarrow> (Panic msg, a\<lparr>telemetry := Some cl1\<rparr>))
    | _ \<Rightarrow> (Ret (), a))"

definition releaseContainers :: "PowerContainer list \<Rightarrow> (unit, hostImpl) action" where
  "releaseContainers containers = forEach (\<lambda>container. MoveCPUIDs GetSharedPool (pc_CPUIDs container)) containers"

text \<open>The entry of a pod in the status: the first one with its UID.\<close>

definition exclusiveContainersOf :: "string \<Rightarrow> CPUPoolsStatus \<Rightarrow> PowerContainer list" where
  "exclusiveContainersOf podUID cpuPools =
     (case find (\<lambda>exclusive. ecp_PodUID exclusive = podUID) (case cps_Exclusive cpuPools of None \<Rightarrow> [] | Some l \<Rightarrow> l) of
        None \<Rightarrow> [] | Some exclusive \<Rightarrow> ecp_PowerContainers exclusive)"

definition handlePodDeletion :: "'k podEnv \<Rightarrow> Pod \<Rightarrow> string \<Rightarrow> (ctrlResult, 'k podAgent) action" where
  "handlePodDeletion e pod nodeName a =
     (let podUID = meta_UID (pod_meta pod);
          removeEntry = (\<lambda>a. andThen (onKube (removePowerNodeStatusExclusiveEntry (env_client e) nodeName podUID) a) (\<lambda>_ a1. (Ret Done, a1))) in
      andThen (attempt (onPods (DeletePodFromState (meta_Name (pod_meta pod)) (meta_Namespace (pod_meta pod))) a)) (\<lambda>_ a1.
      andThen (attempt (onKube (Get_PowerNodeState (env_client e) PowerNamespace (powerNodeStateName nodeName)) a1)) (\<lambda>r a2. (case r of
          Inl err \<Rightarrow> (if isNotFoundErr err then removeEntry a2 else (Fail err, a2))
        | Inr status \<Rightarrow> (case pns_CPUPools status of
            None \<Rightarrow> removeEntry a2
          | Some cpuPools \<Rightarrow>
             (let containers = exclusiveContainersOf podUID cpuPools in
              andThen (onLib (releaseContainers containers) a2) (\<lambda>_ a3.
              andThen (tearDownScaling e podUID (concat (map pc_CPUIDs containers)) a3) (\<lambda>_ a4. removeEntry a4)))))))) "

section \<open>Reconcile\<close>

definition guaranteedPodOf :: "Pod \<Rightarrow> PowerContainer list \<Rightarrow> GuaranteedPod" where
  "guaranteedPodOf pod powerContainers =
     \<lparr>gp_Node = pod_NodeName pod, gp_Name = meta_Name (pod_meta pod), gp_Namespace = meta_Namespace (pod_meta pod),
      gp_UID = meta_UID (pod_meta pod), gp_Containers = map (\<lambda>pc. \<lparr>c_Name = pc_Name pc, c_ID = pc_ID pc, c_Pod = '''', c_PodUID = '''',
        c_ExclusiveCPUs = pc_CPUIDs pc, c_PowerProfile = pc_PowerProfile pc\<rparr>) powerContainers\<rparr>"

definition recordPod :: "'k podEnv \<Rightarrow> string \<Rightarrow> Pod \<Rightarrow> PowerContainer list \<Rightarrow> gerr list \<Rightarrow> (ctrlResult, 'k podAgent) action" where
  "recordPod e nodeName pod powerContainers recoveryErrs a =
     andThen (onKube (addPowerNodeStatusExclusiveEntry (env_client e) nodeName (meta_UID (pod_meta pod)) (meta_Name (pod_meta pod)) powerContainers) a)
       (\<lambda>_ a1. (if recoveryErrs = [] then Ret Done else Fail (Wrap ''recoverable errors encountered'' (Joined recoveryErrs)),
          a1\<lparr>podStore := UpdateStateGuaranteedPods (guaranteedPodOf pod powerContainers) (podStore a1)\<rparr>))"

text \<open>From the loop over the power containers on.\<close>

definition placeContainers :: "'k podEnv \<Rightarrow> string \<Rightarrow> Pod \<Rightarrow> PowerContainer list \<times> gerr list \<Rightarrow> (ctrlResult, 'k podAgent) action" where
  "placeContainers e nodeName pod requests a = (case requests of (powerContainers, recoveryErrs) \<Rightarrow>
     andThen (reconcileContainers e (meta_UID (pod_meta pod)) powerContainers False a) (\<lambda>r a1. (case r of
         Inl res \<Rightarrow> (Ret res, a1)
       | Inr (powerContainers', errs) \<Rightarrow> recordPod e nodeName pod powerContainers' (recoveryErrs @ errs) a1)))"

text \<open>From the choice of the containers on, for a running pod.\<close>

definition reconcileRunning :: "'k podEnv \<Rightarrow> string \<Rightarrow> Pod \<Rightarrow> (ctrlResult, 'k podAgent) action" where
  "reconcileRunning e nodeName pod a =
     andThen (onKube (getAdmissibleContainers pod (env_resources e)) a) (\<lambda>admissibleContainers a1.
       if length admissibleContainers = 0 then (Ret Done, a1)
       else if meta_UID (pod_meta pod) = '''' then (Fail (Unavailable ''pod UID not found''), a1)
       else andThen (onKube (getPowerProfileRequestsFromContainers (env_selectors e) (env_client e) (env_resources e) (lib a1) pod admissibleContainers) a1)
         (placeContainers e nodeName pod))"

definition powerPod_Reconcile :: "'k podEnv \<Rightarrow> string \<Rightarrow> Request \<Rightarrow> (ctrlResult, 'k podAgent) action" where
  "powerPod_Reconcile e nodeName req a =
     andThen (attempt (onKube (Get_Pod (env_client e) (req_Namespace req) (req_Name req)) a)) (\<lambda>r a1. (case r of
         Inl err \<Rightarrow>
           (if isNotFoundErr err
            then andThen (attempt (onPods (DeletePodFromState (req_Name req) (req_Namespace req)) a1)) (\<lambda>_ a2. (Ret Done, a2))
            else (Fail err, a1))
       | Inr pod \<Rightarrow>
          (if meta_Deleted (pod_meta pod) \<or> pod_Phase pod = ''Succeeded'' then handlePodDeletion e pod nodeName a1
           else if pod_Phase pod \<noteq> ''Running'' then (Fail (Unavailable ''the pod is not in the running phase''), a1)
           else reconcileRunning e nodeName pod a1)))"

section \<open>CPUs are taken from the shared pool only\<close>

text \<open>
  What reconciling a running pod may do to the host: calls of the library after which every CPU is where it was or
  has gone from the shared pool to the exclusive pool of a profile.
\<close>

definition claimed :: "hostImpl \<Rightarrow> hostImpl \<Rightarrow> bool" where
  "claimed h h' \<longleftrightarrow> reached h h' \<and> (\<forall>n. GetExclusivePool n h' = GetExclusivePool n h)
     \<and> (\<forall>c. cpuPool h' c = cpuPool h c \<or> cpuPool h c = RShared \<and> (\<exists>n. GetExclusivePool n h = Some (cpuPool h' c)))"

lemma claimed_refl: "host_inv h \<Longrightarrow> claimed h h"
  by (simp add: claimed_def reached_refl)

lemma claimed_trans: "claimed h h1 \<Longrightarrow> claimed h1 h2 \<Longrightarrow> claimed h h2"
  unfolding claimed_def by (metis reached_trans)

lemma claimed_inv: "claimed h h' \<Longrightarrow> host_inv h'"
  by (auto simp: claimed_def intro: reached_inv)

interpretation podProgress: progress "\<lambda>a a'. claimed (lib a) (lib a')"
  by unfold_locales (rule claimed_trans)

abbreviation podSafe :: "('k, 'z) agent_scheme \<Rightarrow> 'a gores \<times> ('k, 'z) agent_scheme \<Rightarrow> bool" where
  "podSafe \<equiv> guarded (\<lambda>a a'. claimed (lib a) (lib a')) False"

lemma podSafe_andThen:
  assumes "podSafe a r" and "\<And>x a'. r = (Ret x, a') \<Longrightarrow> claimed (lib a) (lib a') \<Longrightarrow> host_inv (lib a') \<Longrightarrow> podSafe a' (f x a')"
  shows "podSafe a (andThen r f)"
  using assms(1) by (rule podProgress.andThen) (use assms(2) in \<open>auto intro: claimed_inv\<close>)

lemma podSafe_same: "host_inv (lib a) \<Longrightarrow> lib (snd r) = lib a \<Longrightarrow> podSafe a r"
  by (simp add: guarded_def claimed_refl)

lemma podSafeD: "podSafe a (r, a') \<Longrightarrow> claimed (lib a) (lib a')"
  by (simp add: guarded_def)

lemma lookup_frame: "host_frame h h' \<Longrightarrow> GetExclusivePool n h' = GetExclusivePool n h"
  by (simp add: GetExclusivePool_def PoolList_ByName_def PoolList_IndexOfName_def host_frame_def Let_def)

lemma MoveCPUIDs_claimed:
  assumes "host_inv h" "GetExclusivePool n h = Some p" "areCPUsInSharedPool cs h" "MoveCPUIDs p cs h = (r, h')"
  shows "claimed h h'"
proof -
  have al: "allocated h p" using found_allocated assms(1,2) .
  obtain i where i: "cpuPool h' = (\<lambda>c. if c \<in> set (take i cs) then p else cpuPool h c)"
    using MoveCPUIDs_exact [OF assms(1) al assms(4)] by blast
  have "\<forall>c \<in> set cs. cpuPool h c = RShared"
    using assms(1,3) by (auto simp: areCPUsInSharedPool_def Let_def list_all_iff CPUList_IDs_def host_inv_def membership_ok_def)
  then have "cpuPool h' c = cpuPool h c \<or> cpuPool h c = RShared \<and> (\<exists>n. GetExclusivePool n h = Some (cpuPool h' c))" for c
    using assms(2) by (auto simp: i dest: in_set_takeD)
  moreover have "reached h h'" using reached_calls(3) [OF reached_refl [OF assms(1)] al, of cs] assms(4) by simp
  moreover note lookup_frame [OF MoveCPUIDs_effect(1) [OF assms(1) al assms(4)]]
  ultimately show ?thesis by (simp add: claimed_def)
qed

lemma lib_scaling [simp]:
  "lib (snd (startScaling uid policy pc a)) = lib a" "lib (snd (setUpScaling e uid pc assigned a)) = lib a"
proof -
  show s: "lib (snd (startScaling uid policy pc a)) = lib a" for a policy
    by (simp add: startScaling_def Let_def split: gores.splits prod.splits)
  show "lib (snd (setUpScaling e uid pc assigned a)) = lib a"
  proof (cases "telemetry a = None \<or> scaler a = None")
    case False
    obtain r a1 where r: "attempt (onKube (Get_PowerProfile (env_client e) PowerNamespace (pc_PowerProfile pc)) a) = (r, a1)" by fastforce
    moreover from this have "lib a1 = lib a" by (metis lib_onKube snd_attempt snd_conv)
    ultimately show ?thesis
      using False by (cases r) (auto simp: setUpScaling_def s Let_def split: sum.splits option.splits)
  qed (auto simp: setUpScaling_def)
qed

text \<open>The CPUs of a container are in the pool of its profile.\<close>

definition assigned :: "PowerContainer \<Rightarrow> hostImpl \<Rightarrow> bool" where
  "assigned pc h \<longleftrightarrow> (\<exists>p. GetExclusivePool (pc_PowerProfile pc) h = Some p \<and> set (pc_CPUIDs pc) \<subseteq> set (Cpus p h))"

lemma assigned_claimed:
  assumes "assigned pc h" "claimed h h'" "host_inv h"
  shows "assigned pc h'"
proof -
  obtain p where p: "GetExclusivePool (pc_PowerProfile pc) h = Some p" "set (pc_CPUIDs pc) \<subseteq> set (Cpus p h)"
    using assms(1) by (auto simp: assigned_def)
  have ne: "p \<noteq> RShared" using p(1) assms(3) by (auto simp: lookup_iff host_inv_def registry_ok_def isExclusive_def)
  have i: "membership_ok h" "membership_ok h'" "allCpus h' = allCpus h"
    using assms(2,3) claimed_inv reached_allCpus by (auto simp: host_inv_def claimed_def)
  have "set (Cpus p h) \<subseteq> set (Cpus p h')"
    unfolding set_Cpus [OF i(1)] set_Cpus [OF i(2)] i(3) using assms(2) ne by (auto simp: claimed_def)
  then show ?thesis using p assms(2) by (auto simp: assigned_def claimed_def)
qed

definition sameContainer :: "PowerContainer \<Rightarrow> PowerContainer \<Rightarrow> bool" where
  "sameContainer pc pc' \<longleftrightarrow> pc_Name pc' = pc_Name pc \<and> pc_PowerProfile pc' = pc_PowerProfile pc \<and> pc_CPUIDs pc' = pc_CPUIDs pc
     \<and> (pc_Errors pc \<noteq> [] \<longrightarrow> pc_Errors pc' \<noteq> [])"

lemma sameContainer_simps [simp]: "sameContainer pc pc" "sameContainer pc (addError m pc)"
  by (simp_all add: sameContainer_def addError_def)

text \<open>A sequence that stops when its first part ends the reconciliation.\<close>

lemma andThen_turn:
  "andThen r (\<lambda>t a1. case t of Inl x \<Rightarrow> (Ret (Inl x), a1) | Inr y \<Rightarrow> f y a1) = (Ret (Inr z), a')
     \<longleftrightarrow> (\<exists>y a1. r = (Ret (Inr y), a1) \<and> f y a1 = (Ret (Inr z), a'))"
proof (cases r)
  case (Pair g a1)
  then show ?thesis by (cases g) (auto split: sum.splits)
qed

lemma startScaling_result:
  "startScaling uid policy pc a = (Ret t, a') \<Longrightarrow> \<exists>pc'. t = Inr (pc', [], True) \<and> sameContainer pc pc'"
  by (auto simp: startScaling_def Let_def split: gores.splits prod.splits option.splits)

lemma setUpScaling_result:
  assumes "setUpScaling e uid pc b a = (Ret t, a')"
  shows "case t of Inl _ \<Rightarrow> False | Inr x \<Rightarrow> sameContainer pc (fst x)"
proof (cases "telemetry a = None \<or> scaler a = None")
  case False
  then have tm: "(telemetry a = None \<or> scaler a = None) = False" by simp
  from assms show ?thesis
    unfolding setUpScaling_def tm if_False run_simps
    by (auto simp: Let_def split: option.split_asm if_split_asm dest!: startScaling_result)
qed (use assms in \<open>auto simp: setUpScaling_def\<close>)

lemma assigned_after_move:
  assumes "host_inv h" "GetExclusivePool (pc_PowerProfile pc) h = Some p"
    and "coresToAdd = detectCoresAdded (CPUList_IDs (Cpus p h)) (pc_CPUIDs pc)"
    and "if coresToAdd = [] then h' = h else MoveCPUIDs p coresToAdd h = (Ret (), h')"
  shows "assigned pc h'"
proof -
  have there: "set (pc_CPUIDs pc) \<subseteq> set coresToAdd \<union> set (Cpus p h)"
    using assms(3) by (auto simp: detectCoresAdded_def CPUList_IDs_def)
  show ?thesis
  proof (cases "coresToAdd = []")
    case True
    then show ?thesis using assms(2,4) there by (auto simp: assigned_def)
  next
    case False
    then have m: "MoveCPUIDs p coresToAdd h = (Ret (), h')" using assms(4) by simp
    note al = found_allocated [OF assms(1,2)]
    show ?thesis
      using there MoveCPUIDs_exact [OF assms(1) al m] assms(2) lookup_frame [OF MoveCPUIDs_effect(1) [OF assms(1) al m]]
      by (auto simp: assigned_def)
  qed
qed

lemma reconcileContainer_step:
  assumes "host_inv (lib a)"
  shows "podSafe a (reconcileContainer e uid pc b a)"
    and "reconcileContainer e uid pc b a = (Ret (Inr (pc', errs, b')), a') \<Longrightarrow>
           sameContainer pc pc' \<and> (errs = [] \<longrightarrow> pc_Errors pc \<noteq> [] \<or> assigned pc' (lib a'))"
proof -
  have "podSafe a (reconcileContainer e uid pc b a) \<and> (\<forall>pc' errs b' a'. reconcileContainer e uid pc b a = (Ret (Inr (pc', errs, b')), a') \<longrightarrow>
      sameContainer pc pc' \<and> (errs = [] \<longrightarrow> pc_Errors pc \<noteq> [] \<or> assigned pc' (lib a')))"
  proof (cases "pc_Errors pc \<noteq> [] \<or> GetExclusivePool (pc_PowerProfile pc) (lib a) = None")
    case True
    then show ?thesis
      using assms by (auto simp: reconcileContainer_def Let_def claimed_refl podSafe_same)
  next
    case False
    then obtain p where p: "GetExclusivePool (pc_PowerProfile pc) (lib a) = Some p" and ne: "pc_Errors pc = []" by auto
    define cs where "cs = detectCoresAdded (CPUList_IDs (Cpus p (lib a))) (pc_CPUIDs pc)"
    show ?thesis
    proof (cases "cs \<noteq> [] \<and> \<not> areCPUsInSharedPool cs (lib a)")
      case True
      then show ?thesis using assms p ne by (auto simp: reconcileContainer_def Let_def claimed_refl simp flip: cs_def)
    next
      case shared: False
      define r where "r = (if cs \<noteq> [] then onLib (MoveCPUIDs p cs) a else (Ret (), a))"
      have eq: "reconcileContainer e uid pc b a = andThen (attempt r) (\<lambda>r a1. case r of
             Inl err \<Rightarrow> (Ret (Inr (addError (ErrorText err) pc, [err], b)), a1) | Inr _ \<Rightarrow> setUpScaling e uid pc b a1)"
        using shared p ne by (auto simp: reconcileContainer_def Let_def r_def simp flip: cs_def)
      have safe: "podSafe a r"
        using assms shared MoveCPUIDs_claimed [OF assms p, of cs]
        by (auto simp: r_def guarded_def onLib_def claimed_refl split: prod.splits)
      have placed: "assigned pc (lib a1)" if "r = (Ret x, a1)" for x a1
        using that assms p by (intro assigned_after_move [OF assms p cs_def]) (auto simp: r_def onLib_def split: prod.splits if_splits)
      have "podSafe a (reconcileContainer e uid pc b a)"
        unfolding eq by (rule podSafe_andThen) (use safe in \<open>auto simp: claimed_refl intro!: podSafe_same split: sum.splits\<close>)
      moreover have "sameContainer pc pc' \<and> (errs = [] \<longrightarrow> assigned pc' (lib a'))"
        if "reconcileContainer e uid pc b a = (Ret (Inr (pc', errs, b')), a')" for pc' errs b' a'
      proof -
        from that consider err where "pc' = addError (ErrorText err) pc" "errs = [err]"
          | a1 where "r = (Ret (), a1)" "setUpScaling e uid pc b a1 = (Ret (Inr (pc', errs, b')), a')"
          by (auto simp: eq run_simps)
        then show ?thesis
        proof cases
          case 2
          have "sameContainer pc pc'" using setUpScaling_result [OF 2(2)] by auto
          moreover have "lib a' = lib a1" using 2(2) lib_scaling(2) by (metis snd_conv)
          ultimately show ?thesis using placed [OF 2(1)] by (simp add: assigned_def sameContainer_def)
        qed simp
      qed
      ultimately show ?thesis by blast
    qed
  qed
  then show "podSafe a (reconcileContainer e uid pc b a)"
    "reconcileContainer e uid pc b a = (Ret (Inr (pc', errs, b')), a') \<Longrightarrow>
           sameContainer pc pc' \<and> (errs = [] \<longrightarrow> pc_Errors pc \<noteq> [] \<or> assigned pc' (lib a'))" by blast+
qed

lemma reconcileContainers_safe: "host_inv (lib a) \<Longrightarrow> podSafe a (reconcileContainers e uid pcs b a)"
  by (induction pcs arbitrary: b a) (auto simp: claimed_refl reconcileContainer_step(1) split: sum.splits intro!: podSafe_andThen)

lemma reconcileContainers_result:
  assumes "host_inv (lib a)" "reconcileContainers e uid pcs b a = (Ret (Inr (pcs', errs)), a')"
  shows "list_all2 (\<lambda>pc pc'. sameContainer pc pc' \<and> (errs = [] \<longrightarrow> pc_Errors pc \<noteq> [] \<or> assigned pc' (lib a'))) pcs pcs'"
  using assms
proof (induction pcs arbitrary: b a pcs' errs)
  case (Cons pc pcs)
  from Cons.prems(2) obtain pc1 errs1 b1 a1 pcs1 errs2 where
    1: "reconcileContainer e uid pc b a = (Ret (Inr (pc1, errs1, b1)), a1)"
    and 2: "reconcileContainers e uid pcs b1 a1 = (Ret (Inr (pcs1, errs2)), a')" "pcs' = pc1 # pcs1" "errs = errs1 @ errs2"
    by (auto simp: andThen_turn)
  have i: "host_inv (lib a1)" using reconcileContainer_step(1) [OF Cons.prems(1), of e uid pc b] claimed_inv podSafeD unfolding 1 by blast
  have "claimed (lib a1) (lib a')" using podSafeD reconcileContainers_safe [OF i, of e uid pcs b1] unfolding 2(1) by blast
  then show ?case
    using reconcileContainer_step(2) [OF Cons.prems(1) 1] Cons.IH [OF i 2(1)] assigned_claimed [OF _ _ i]
    unfolding 2(2,3) by (auto elim!: list_all2_mono)
qed simp

lemma andThen_early:
  "andThen r (\<lambda>t a1. case t of Inl x \<Rightarrow> (Ret (Inl x), a1) | Inr y \<Rightarrow> f y a1) = (Ret (Inl z), a')
     \<longleftrightarrow> r = (Ret (Inl z), a') \<or> (\<exists>y a1. r = (Ret (Inr y), a1) \<and> f y a1 = (Ret (Inl z), a'))"
proof (cases r)
  case (Pair g a1)
  then show ?thesis by (cases g) (auto split: sum.splits)
qed

lemma reconcileContainers_early: "reconcileContainers e uid pcs b a = (Ret (Inl res), a') \<Longrightarrow> res = RequeueAfter"
proof (induction pcs arbitrary: b a)
  case (Cons pc pcs)
  have never: "setUpScaling e uid pc b a2 \<noteq> (Ret (Inl res), a1)" for a2 a1
    using setUpScaling_result [of e uid pc b a2 "Inl res" a1] by auto
  have "res = RequeueAfter" if "reconcileContainer e uid pc b a = (Ret (Inl res), a1)" for a1
    using that by (auto simp: reconcileContainer_def Let_def run_simps never split: if_splits option.splits)
  with Cons show ?case by (auto simp: andThen_early)
qed simp

lemma podSafe_onKube: "host_inv (lib a) \<Longrightarrow> podSafe a (onKube f a)"
  by (simp add: podSafe_same)

text \<open>What is recorded of a pod.\<close>

definition placed :: "Pod \<Rightarrow> hostImpl \<Rightarrow> PowerContainer \<Rightarrow> bool" where
  "placed pod h pc \<longleftrightarrow> pc_CPUIDs pc \<noteq> [] \<longrightarrow>
     (\<exists>ctr \<in> set (allPodContainers pod). ctr_Name ctr = pc_Name pc \<and> asksFor ctr (pc_PowerProfile pc) (int (length (pc_CPUIDs pc))))
     \<and> (\<exists>p. GetExclusivePool (pc_PowerProfile pc) h = Some p \<and> set (pc_CPUIDs pc) \<subseteq> set (Cpus p h))"

lemma containers_placed:
  assumes "\<forall>pc \<in> set pcs. asRequested h ctrs pc" "set ctrs \<subseteq> set (allPodContainers pod)"
    and "list_all2 (\<lambda>pc pc'. sameContainer pc pc' \<and> (pc_Errors pc \<noteq> [] \<or> assigned pc' h')) pcs pcs'"
  shows "\<forall>pc \<in> set pcs'. placed pod h' pc"
proof
  fix pc' assume "pc' \<in> set pcs'"
  then obtain i where i: "i < length pcs'" "pc' = pcs' ! i" by (metis in_set_conv_nth)
  define pc where "pc = pcs ! i"
  have pc: "pc \<in> set pcs" "sameContainer pc pc'" "pc_Errors pc \<noteq> [] \<or> assigned pc' h'"
    using assms(3) i by (auto simp: list_all2_conv_all_nth pc_def)
  have r: "asRequested h ctrs pc" using assms(1) pc(1) by blast
  show "placed pod h' pc'"
  proof (cases "pc_Errors pc = []")
    case True
    then show ?thesis using r pc(2,3) assms(2) by (auto simp: placed_def asRequested_def sameContainer_def assigned_def)
  qed (use r pc(2) in \<open>simp add: placed_def asRequested_def sameContainer_def\<close>)
qed

lemma placeContainers_safe: "host_inv (lib a) \<Longrightarrow> podSafe a (placeContainers e n pod x a)"
  unfolding placeContainers_def recordPod_def
  by (auto simp: claimed_refl reconcileContainers_safe podSafe_onKube split: sum.splits prod.splits intro!: podSafe_andThen)

lemma reconcileRunning_safe: "host_inv (lib a) \<Longrightarrow> podSafe a (reconcileRunning e n pod a)"
  unfolding reconcileRunning_def
  by (auto simp: claimed_refl podSafe_onKube placeContainers_safe intro!: podSafe_andThen)

lemma placeContainers_done:
  assumes "host_inv (lib a)" "placeContainers e n pod (pcs, errs) a = (Ret Done, a')"
    and "\<forall>pc \<in> set pcs. asRequested h ctrs pc" "set ctrs \<subseteq> set (allPodContainers pod)"
  shows "\<exists>k pcs'. addPowerNodeStatusExclusiveEntry (env_client e) n (meta_UID (pod_meta pod)) (meta_Name (pod_meta pod)) pcs' k = (Ret (), kube a')
       \<and> GetPodFromState (meta_Name (pod_meta pod)) (meta_Namespace (pod_meta pod)) (podStore a') = guaranteedPodOf pod pcs'
       \<and> (\<forall>pc \<in> set pcs'. placed pod (lib a') pc)"
proof -
  from assms(2) obtain t a1 where t: "reconcileContainers e (meta_UID (pod_meta pod)) pcs False a = (Ret t, a1)"
    and fin: "(case t of Inl res \<Rightarrow> (Ret res, a1) | Inr (pcs', errs') \<Rightarrow> recordPod e n pod pcs' (errs @ errs') a1) = (Ret Done, a')"
    unfolding placeContainers_def prod.case andThen_Ret_iff by blast
  obtain pcs' errs' where t': "t = Inr (pcs', errs')" using t fin reconcileContainers_early by (cases t) fastforce+
  from fin have rec: "recordPod e n pod pcs' (errs @ errs') a1 = (Ret Done, a')" by (simp add: t')
  then have e: "errs' = []" and l: "lib a' = lib a1"
    and k: "\<exists>k. addPowerNodeStatusExclusiveEntry (env_client e) n (meta_UID (pod_meta pod)) (meta_Name (pod_meta pod)) pcs' k = (Ret (), kube a')"
    and s: "GetPodFromState (meta_Name (pod_meta pod)) (meta_Namespace (pod_meta pod)) (podStore a') = guaranteedPodOf pod pcs'"
    by (auto simp: recordPod_def andThen_Ret_iff onKube_def podState_update guaranteedPodOf_def split: if_splits prod.splits)
  from containers_placed [OF assms(3,4)] reconcileContainers_result [OF assms(1) t [unfolded t']]
  have "\<forall>pc \<in> set pcs'. placed pod (lib a') pc" by (simp add: e l)
  with k s show ?thesis by blast
qed

lemma reconcileRunning_done:
  assumes "host_inv (lib a)" "reconcileRunning e n pod a = (Ret Done, a')"
  shows "(lib a' = lib a \<and> podStore a' = podStore a)
    \<or> (\<exists>k pcs. addPowerNodeStatusExclusiveEntry (env_client e) n (meta_UID (pod_meta pod)) (meta_Name (pod_meta pod)) pcs k = (Ret (), kube a')
       \<and> GetPodFromState (meta_Name (pod_meta pod)) (meta_Namespace (pod_meta pod)) (podStore a') = guaranteedPodOf pod pcs
       \<and> (\<forall>pc \<in> set pcs. placed pod (lib a') pc))"
proof -
  from assms(2) obtain ctrs a1 where adm: "onKube (getAdmissibleContainers pod (env_resources e)) a = (Ret ctrs, a1)"
    and rest: "ctrs = [] \<and> a' = a1 \<or> (\<exists>x a2. onKube (getPowerProfileRequestsFromContainers (env_selectors e) (env_client e) (env_resources e)
          (lib a1) pod ctrs) a1 = (Ret x, a2) \<and> placeContainers e n pod x a2 = (Ret Done, a'))"
    unfolding reconcileRunning_def by (auto simp: andThen_Ret_iff split: if_splits)
  have a1: "lib a1 = lib a" "podStore a1 = podStore a" using adm by (auto simp: onKube_def split: prod.splits)
  from rest show ?thesis
  proof
    assume "\<exists>x a2. onKube (getPowerProfileRequestsFromContainers (env_selectors e) (env_client e) (env_resources e)
          (lib a1) pod ctrs) a1 = (Ret x, a2) \<and> placeContainers e n pod x a2 = (Ret Done, a')"
    then obtain pcs errs a2 where
      req: "onKube (getPowerProfileRequestsFromContainers (env_selectors e) (env_client e) (env_resources e) (lib a1) pod ctrs) a1 = (Ret (pcs, errs), a2)"
      and place: "placeContainers e n pod (pcs, errs) a2 = (Ret Done, a')" by auto
    have "host_inv (lib a2)" using assms(1) req a1 by (auto simp: onKube_def split: prod.splits)
    moreover have "\<forall>pc \<in> set pcs. asRequested (lib a1) ctrs pc" using req by (auto simp: onKube_Ret dest!: requests_requested)
    moreover have "set ctrs \<subseteq> set (allPodContainers pod)" using adm by (auto simp: onKube_Ret getAdmissibleContainers_def andThen_Ret_iff)
    ultimately show ?thesis using placeContainers_done [OF _ place] by blast
  qed (use a1 in simp)
qed

section \<open>Deletion\<close>

lemma knowledge_Update: "Update fused conv client opts s = (t, opts', s') \<Longrightarrow> knowledge s' = knowledge s"
proof -
  have k: "knowledge (snd (SetCPUFrequency c f s)) = knowledge s" for c f
    using SetCPUFrequency_effect(1) by (metis prod.collapse)
  have f: "knowledge (snd (snd (setFallback opts s))) = knowledge s"
    using k [of "opt_cpu opts" "to_uint64 (FallbackFreq opts)"] by (auto simp: setFallback_def split: prod.splits gores.splits)
  have "knowledge (snd (snd (Update fused conv client opts s))) = knowledge s"
    using f k [of "opt_cpu opts"] by (auto simp: Update_def Let_def split: gores.splits prod.splits) (metis snd_conv)+
  then show "Update fused conv client opts s = (t, opts', s') \<Longrightarrow> knowledge s' = knowledge s" by simp
qed

text \<open>Stopping workers: the files of the machine may change, and the workers are gone.\<close>

lemma workerStep_frame:
  "knowledge (scalingMachine (workerStep fused conv cl c m)) = knowledge (scalingMachine m)"
  "fst ` set (workers (workerStep fused conv cl c m)) = fst ` set (workers m)"
proof -
  have "knowledge (scalingMachine (workerStep fused conv cl c m)) = knowledge (scalingMachine m)
      \<and> fst ` set (workers (workerStep fused conv cl c m)) = fst ` set (workers m)"
  proof (cases "map_of (workers m) c")
    case (Some w)
    then have "c \<in> fst ` set (workers m)" by (metis map_of_eq_None_iff option.distinct(1))
    then show ?thesis
      using Some by (auto simp: workerStep_def runLoop_def dom_update knowledge_Update split: loopPhase.splits prod.splits)
  qed (simp add: workerStep_def)
  then show "knowledge (scalingMachine (workerStep fused conv cl c m)) = knowledge (scalingMachine m)"
    "fst ` set (workers (workerStep fused conv cl c m)) = fst ` set (workers m)" by auto
qed

lemma deleted_keys: "fst ` set (AList.delete k al) = fst ` set al - {k}"
  by (force simp: AList.delete_eq)

lemma stopWorker_frame:
  "knowledge (scalingMachine (stopWorker fused conv pending c m)) = knowledge (scalingMachine m)
   \<and> fst ` set (workers (stopWorker fused conv pending c m)) = fst ` set (workers m) - {c}"
proof -
  have "knowledge (scalingMachine (foldl (\<lambda>m cl. workerStep fused conv cl c m) m pending)) = knowledge (scalingMachine m)
      \<and> fst ` set (workers (foldl (\<lambda>m cl. workerStep fused conv cl c m) m pending)) = fst ` set (workers m)"
    by (induction pending arbitrary: m) (simp_all add: workerStep_frame)
  then show ?thesis by (simp add: stopWorker_def Let_def deleted_keys)
qed

lemma RemoveCPUScaling_frame:
  "knowledge (scalingMachine (RemoveCPUScaling fused conv pending ids m)) = knowledge (scalingMachine m)"
  "fst ` set (workers (RemoveCPUScaling fused conv pending ids m)) = fst ` set (workers m) - set ids"
  unfolding RemoveCPUScaling_def by (induction ids arbitrary: m) (use stopWorker_frame in auto)

lemma CloseConnection_gone:
  assumes "CloseConnection decI decU pending uid cl = (Ret (), cl')"
  shows "uid \<notin> fst ` set (connections cl')"
proof (cases "map_of (connections cl) uid")
  case None
  then have "cl' = cl" using assms by (simp add: CloseConnection_def)
  then show ?thesis using None by (simp add: map_of_eq_None_iff)
next
  case (Some c)
  obtain c1 d1 where "cl' = cl\<lparr>connections := AList.delete uid (connections cl), deltaUsage := d1\<rparr>"
    using CloseConnection_Ret [OF assms Some] by metis
  then show ?thesis by (simp add: deleted_keys)
qed

lemma new_machine:
  assumes "host_inv h" "knowledge s = knowledge (machineOf h)"
  shows "host_inv (h\<lparr>machineOf := s\<rparr>)" "host_frame h (h\<lparr>machineOf := s\<rparr>)"
proof -
  show f: "host_frame h (h\<lparr>machineOf := s\<rparr>)" using assms(2) by (simp add: host_frame_def)
  have "membership_ok (h\<lparr>machineOf := s\<rparr>)"
    using assms(1) allocated_cong [of "h\<lparr>machineOf := s\<rparr>" h] by (simp add: host_inv_def membership_ok_def Cpus_def)
  then show "host_inv (h\<lparr>machineOf := s\<rparr>)" by (rule host_frame_inv [OF f assms(1)])
qed

lemma releaseContainers_effect:
  assumes "host_inv h" "releaseContainers pcs h = (r, h')"
  shows "host_inv h'" "host_frame h h'"
    "r = Ret () \<Longrightarrow> cpuPool h' = (\<lambda>c. if c \<in> set (concat (map pc_CPUIDs pcs)) then RShared else cpuPool h c)"
proof -
  have "host_inv h' \<and> host_frame h h'
      \<and> (r = Ret () \<longrightarrow> cpuPool h' = (\<lambda>c. if c \<in> set (concat (map pc_CPUIDs pcs)) then RShared else cpuPool h c))"
    using assms
  proof (induction pcs arbitrary: h)
    case Nil
    then show ?case by (simp add: releaseContainers_def host_frame_refl)
  next
    case (Cons pc pcs)
    obtain r1 h1 where m: "MoveCPUIDs RShared (pc_CPUIDs pc) h = (r1, h1)" by fastforce
    note e = MoveCPUIDs_effect [OF Cons.prems(1) allocated_predefined(1) m]
    have i: "host_inv h1" using MoveCPUIDs_exact [OF Cons.prems(1) allocated_predefined(1) m] by blast
    show ?case
    proof (cases r1)
      case (Ret u)
      then have "releaseContainers pcs h1 = (r, h')" using Cons.prems(2) m by (simp add: releaseContainers_def)
      with Cons.IH [OF i this] e Ret show ?thesis by (auto intro: host_frame_trans)
    qed (use Cons.prems(2) m e(1) i in \<open>auto simp: releaseContainers_def\<close>)
  qed
  then show "host_inv h'" "host_frame h h'"
    "r = Ret () \<Longrightarrow> cpuPool h' = (\<lambda>c. if c \<in> set (concat (map pc_CPUIDs pcs)) then RShared else cpuPool h c)" by blast+
qed

lemma tearDown_effect:
  assumes "host_inv (lib a)" "tearDownScaling e uid ids a = (r, a')"
  shows "host_inv (lib a') \<and> host_frame (lib a) (lib a') \<and> cpuPool (lib a') = cpuPool (lib a) \<and> podStore a' = podStore a
    \<and> (r = Ret () \<longrightarrow> (\<forall>cl m. telemetry a = Some cl \<longrightarrow> scaler a = Some m \<longrightarrow> (\<exists>cl' m'. telemetry a' = Some cl' \<and> scaler a' = Some m'
         \<and> uid \<notin> fst ` set (connections cl') \<and> set (getManagedCPUIDs m') = set (getManagedCPUIDs m) - set ids)))"
proof (cases "\<exists>cl m. telemetry a = Some cl \<and> scaler a = Some m")
  case True
  then obtain cl m where t: "telemetry a = Some cl" "scaler a = Some m" by blast
  obtain r1 cl1 where c: "CloseConnection (env_decodeInitial e) (env_decodeUsage e) (env_connectionEvents e) uid cl = (r1, cl1)" by fastforce
  show ?thesis
  proof (cases r1)
    case (Ret u)
    define m1 where "m1 = RemoveCPUScaling (env_fused e) (env_convert e) (env_workerRuns e) ids (m\<lparr>scalingMachine := machineOf (lib a)\<rparr>)"
    have "r = Ret ()" "a' = a\<lparr>telemetry := Some cl1, scaler := Some m1, lib := (lib a)\<lparr>machineOf := scalingMachine m1\<rparr>\<rparr>"
      using assms(2) t c Ret by (auto simp: tearDownScaling_def Let_def m1_def)
    moreover have "knowledge (scalingMachine m1) = knowledge (machineOf (lib a))" by (simp add: m1_def RemoveCPUScaling_frame)
    moreover have "set (getManagedCPUIDs m1) = set (getManagedCPUIDs m) - set ids"
      by (simp add: m1_def getManagedCPUIDs_def RemoveCPUScaling_frame)
    moreover have "uid \<notin> fst ` set (connections cl1)" using CloseConnection_gone c Ret by simp
    ultimately show ?thesis using new_machine [OF assms(1)] t by simp
  qed (use assms t c in \<open>auto simp: tearDownScaling_def\<close>)
next
  case False
  then have "tearDownScaling e uid ids a = (Ret (), a)" by (auto simp: tearDownScaling_def split: option.splits)
  then show ?thesis using assms False by auto
qed

text \<open>Whatever its outcome, a deletion keeps the pools with their names and profiles, and the topology.\<close>

interpretation releasesTopology: keeping "\<lambda>container. MoveCPUIDs GetSharedPool (pc_CPUIDs container)" "\<lambda>h. topology h = tp" for tp
  by unfold_locales (simp add: topology_MoveCPUIDs)

lemma releaseContainers_topology: "topology (snd (releaseContainers pcs h)) = topology h"
  unfolding releaseContainers_def by (rule releasesTopology.forEach_keep) simp

lemma tearDownScaling_topology: "topology (lib (snd (tearDownScaling e uid ids a))) = topology (lib a)"
  by (simp add: tearDownScaling_def Let_def split: option.splits prod.splits gores.splits)

definition framed :: "hostImpl \<Rightarrow> hostImpl \<Rightarrow> bool" where
  "framed h h' \<longleftrightarrow> host_inv h' \<and> host_frame h h' \<and> topology h' = topology h"

interpretation deletionProgress: progress "\<lambda>a a'. framed (lib a) (lib a')"
  by unfold_locales (auto simp: framed_def intro: host_frame_trans)

abbreviation deletionSafe :: "('k, 'z) agent_scheme \<Rightarrow> 'a gores \<times> ('k, 'z) agent_scheme \<Rightarrow> bool" where
  "deletionSafe \<equiv> guarded (\<lambda>a a'. framed (lib a) (lib a')) False"

lemma deletionSafe_andThen:
  assumes "deletionSafe a r" and "\<And>x a'. r = (Ret x, a') \<Longrightarrow> host_inv (lib a') \<Longrightarrow> deletionSafe a' (f x a')"
  shows "deletionSafe a (andThen r f)"
  using assms(1) by (rule deletionProgress.andThen) (use assms(2) in \<open>auto simp: framed_def\<close>)

lemma lib_onPods [simp]: "lib (snd (onPods f a)) = lib a"
  by (simp add: onPods_def split: prod.splits)

lemma deletionSafe_parts:
  assumes "host_inv (lib a)"
  shows "deletionSafe a (onKube f a)" "deletionSafe a (onPods g a)" "deletionSafe a (Ret x, a)" "deletionSafe a (Fail err, a)"
    "deletionSafe a (onLib (releaseContainers pcs) a)" "deletionSafe a (tearDownScaling e uid ids a)"
  using assms releaseContainers_effect(1,2) [OF assms, of pcs] tearDown_effect [OF assms, of e uid ids]
    releaseContainers_topology [of pcs "lib a"] tearDownScaling_topology [of e uid ids a]
  by (auto simp: guarded_def framed_def onLib_def split: prod.splits) (metis prod.collapse)+

lemma handlePodDeletion_safe:
  "host_inv (lib a) \<Longrightarrow> deletionSafe a (handlePodDeletion e pod n a)"
  unfolding handlePodDeletion_def Let_def
  by (auto simp del: guarded_simps(3,4) simp: deletionSafe_parts split: sum.splits option.splits intro!: deletionSafe_andThen)

text \<open>What every reconciliation keeps of the host, and what the other controllers need of it.\<close>

definition same_cpus :: "hostImpl \<Rightarrow> hostImpl \<Rightarrow> bool" where
  "same_cpus h h' \<longleftrightarrow> host_inv h' \<and> topology h' = topology h"

lemma same_cpus_refl: "host_inv h \<Longrightarrow> same_cpus h h"
  by (simp add: same_cpus_def)

lemma same_cpus_inv: "same_cpus h h' \<Longrightarrow> host_inv h'"
  by (simp add: same_cpus_def)

interpretation keepingCpus: progress "\<lambda>a a'. same_cpus (lib a) (lib a')"
  by unfold_locales (auto simp: same_cpus_def)

lemma powerPod_Reconcile_keeps:
  assumes "host_inv (lib a)"
  shows "guarded (\<lambda>a a'. same_cpus (lib a) (lib a')) False a (powerPod_Reconcile e n req a)"
proof -
  let ?keeps = "\<lambda>a. guarded (\<lambda>a a'. same_cpus (lib a) (lib a')) False a"
  have del: "?keeps a1 (handlePodDeletion e pod n a1)" if "host_inv (lib a1)" for a1 :: "'a podAgent" and pod
    using handlePodDeletion_safe [OF that, of e pod n] by (auto simp: guarded_def framed_def host_frame_def same_cpus_def)
  have run: "?keeps a1 (reconcileRunning e n pod a1)" if "host_inv (lib a1)" for a1 :: "'a podAgent" and pod
    using reconcileRunning_safe [OF that, of e n pod] claimed_inv by (auto simp: guarded_def claimed_def reached_allCpus reached_topology same_cpus_def)
  have k: "?keeps a1 (onKube f a1)" if "host_inv (lib a1)" for a1 :: "'a podAgent" and f :: "(Pod, 'a) action"
    using that by (simp add: guarded_def same_cpus_def)
  have p: "?keeps a1 (andThen (attempt (onPods f a1)) (\<lambda>_ a2. (Ret Done, a2)))" if "host_inv (lib a1)" for a1 :: "'a podAgent" and f :: "(unit, podState) action"
    by (rule keepingCpus.andThen) (use that in \<open>auto simp: guarded_def same_cpus_def\<close>)
  show ?thesis
    unfolding powerPod_Reconcile_def
    by (rule keepingCpus.andThen) (use assms in \<open>auto simp: k p del run same_cpus_refl split: sum.splits dest: same_cpus_inv\<close>)
qed

lemma handlePodDeletion_done:
  assumes "host_inv (lib a)" "distinct (map (\<lambda>g. (gp_Name g, gp_Namespace g)) (GuaranteedPods (podStore a)))"
    and "Get_PowerNodeState (env_client e) PowerNamespace (powerNodeStateName n) (kube a) = (Ret status, k)" "pns_CPUPools status = Some cpuPools"
    and "handlePodDeletion e pod n a = (Ret Done, a')" and "ids = concat (map pc_CPUIDs (exclusiveContainersOf (meta_UID (pod_meta pod)) cpuPools))"
  shows "cpuPool (lib a') = (\<lambda>c. if c \<in> set ids then RShared else cpuPool (lib a) c)"
    "GetPodFromState (meta_Name (pod_meta pod)) (meta_Namespace (pod_meta pod)) (podStore a') = noPod"
    "\<exists>k. removePowerNodeStatusExclusiveEntry (env_client e) n (meta_UID (pod_meta pod)) k = (Ret (), kube a')"
    "telemetry a = Some cl \<Longrightarrow> scaler a = Some m \<Longrightarrow> \<exists>cl' m'. telemetry a' = Some cl' \<and> scaler a' = Some m'
       \<and> meta_UID (pod_meta pod) \<notin> fst ` set (connections cl') \<and> set (getManagedCPUIDs m') = set (getManagedCPUIDs m) - set ids"
proof -
  let ?uid = "meta_UID (pod_meta pod)"
  obtain s where s: "DeletePodFromState (meta_Name (pod_meta pod)) (meta_Namespace (pod_meta pod)) (podStore a) = (Ret (), s)"
    "GuaranteedPods s = filter (\<lambda>g. \<not> isPod (meta_Name (pod_meta pod)) (meta_Namespace (pod_meta pod)) g) (GuaranteedPods (podStore a))"
    using podState_delete [OF assms(2)] by blast
  define a2 where "a2 = a\<lparr>podStore := s, kube := k\<rparr>"
  from assms(3-5) obtain a3 a4 where
    r: "onLib (releaseContainers (exclusiveContainersOf ?uid cpuPools)) a2 = (Ret (), a3)" and
    t: "tearDownScaling e ?uid ids a3 = (Ret (), a4)" and
    w: "onKube (removePowerNodeStatusExclusiveEntry (env_client e) n ?uid) a4 = (Ret (), a')"
    by (auto simp: handlePodDeletion_def Let_def onPods_def s onKube_def [of "Get_PowerNodeState _ _ _"] a2_def assms(6) andThen_Ret_iff
        split: prod.splits)
  obtain h3 where r': "releaseContainers (exclusiveContainersOf ?uid cpuPools) (lib a) = (Ret (), h3)" "a3 = a2\<lparr>lib := h3\<rparr>"
    using r by (auto simp: onLib_def a2_def split: prod.splits)
  obtain k' where w': "removePowerNodeStatusExclusiveEntry (env_client e) n ?uid (kube a4) = (Ret (), k')" "a' = a4\<lparr>kube := k'\<rparr>"
    using w by (auto simp: onKube_Ret)
  note e = releaseContainers_effect [OF assms(1) r'(1)]
  have "host_inv (lib a3)" using e(1) r'(2) by simp
  note td = tearDown_effect [OF this t]
  have fields: "lib a3 = h3" "telemetry a3 = telemetry a" "scaler a3 = scaler a" "podStore a3 = s" "lib a' = lib a4" "telemetry a' = telemetry a4"
    "scaler a' = scaler a4" "podStore a' = podStore a4"
    by (simp_all add: r'(2) w'(2) a2_def)
  show "cpuPool (lib a') = (\<lambda>c. if c \<in> set ids then RShared else cpuPool (lib a) c)" using e(3) td by (simp add: fields assms(6))
  show "GetPodFromState (meta_Name (pod_meta pod)) (meta_Namespace (pod_meta pod)) (podStore a') = noPod"
    using td s(2) by (simp add: fields GetPodFromState_def find_delete)
  show "\<exists>k. removePowerNodeStatusExclusiveEntry (env_client e) n (meta_UID (pod_meta pod)) k = (Ret (), kube a')" using w' by auto
  show "telemetry a = Some cl \<Longrightarrow> scaler a = Some m \<Longrightarrow> \<exists>cl' m'. telemetry a' = Some cl' \<and> scaler a' = Some m'
       \<and> meta_UID (pod_meta pod) \<notin> fst ` set (connections cl') \<and> set (getManagedCPUIDs m') = set (getManagedCPUIDs m) - set ids"
    using td by (simp add: fields)
qed

section \<open>Properties\<close>


text \<open>
  C7. The end of a pod: once its deletion has been reconciled, all CPUs that the status of the node lists for it are in the
  shared pool, every other CPU is where it was, no pool has another name or profile, the pod's entry is removed from the
  status and from the store, its telemetry connection is gone, and none of its CPUs is scaled any more.
\<close>

theorem powerPod_deletion_releases:
  assumes "host_inv (lib a)" "distinct (map (\<lambda>g. (gp_Name g, gp_Namespace g)) (GuaranteedPods (podStore a)))"
    and "Get_Pod (env_client e) (req_Namespace req) (req_Name req) (kube a) = (Ret pod, k)"
    and "meta_Deleted (pod_meta pod) \<or> pod_Phase pod = ''Succeeded''"
    and "Get_PowerNodeState (env_client e) PowerNamespace (powerNodeStateName n) k = (Ret status, k1)" "pns_CPUPools status = Some cpuPools"
    and "powerPod_Reconcile e n req a = (Ret Done, a')" and "ids = concat (map pc_CPUIDs (exclusiveContainersOf (meta_UID (pod_meta pod)) cpuPools))"
  shows "host_inv (lib a') \<and> cpuPool (lib a') = (\<lambda>c. if c \<in> set ids then RShared else cpuPool (lib a) c)
    \<and> (\<forall>q. pool_name (pools (lib a') q) = pool_name (pools (lib a) q) \<and> pool_profile (pools (lib a') q) = pool_profile (pools (lib a) q))
    \<and> GetPodFromState (meta_Name (pod_meta pod)) (meta_Namespace (pod_meta pod)) (podStore a') = noPod
    \<and> (\<exists>k2. removePowerNodeStatusExclusiveEntry (env_client e) n (meta_UID (pod_meta pod)) k2 = (Ret (), kube a'))
    \<and> (\<forall>cl m. telemetry a = Some cl \<longrightarrow> scaler a = Some m \<longrightarrow> (\<exists>cl' m'. telemetry a' = Some cl' \<and> scaler a' = Some m'
         \<and> meta_UID (pod_meta pod) \<notin> fst ` set (connections cl') \<and> set (getManagedCPUIDs m') = set (getManagedCPUIDs m) - set ids))"
proof -
  define a1 where "a1 = a\<lparr>kube := k\<rparr>"
  have inv: "host_inv (lib a1)" and run: "handlePodDeletion e pod n a1 = (Ret Done, a')"
    using assms(1,3,4,7) by (simp_all add: a1_def powerPod_Reconcile_def onKube_def)
  have d: "distinct (map (\<lambda>g. (gp_Name g, gp_Namespace g)) (GuaranteedPods (podStore a1)))"
    and g: "Get_PowerNodeState (env_client e) PowerNamespace (powerNodeStateName n) (kube a1) = (Ret status, k1)"
    using assms(2,5) by (simp_all add: a1_def)
  have l: "lib a1 = lib a" "telemetry a1 = telemetry a" "scaler a1 = scaler a" by (simp_all add: a1_def)
  have "framed (lib a) (lib a')" using handlePodDeletion_safe [OF inv, of e pod n] run by (simp add: guarded_def l)
  moreover note handlePodDeletion_done [OF inv d g assms(6) run assms(8), unfolded l]
  ultimately show ?thesis by (simp add: framed_def host_frame_def)
qed

section \<open>The properties at a concrete pod\<close>

text \<open>A pod whose container asks for one CPU of the sample profile and has been given CPU 0 by the kubelet.\<close>

definition sampleContainer :: kubeContainer where
  "sampleContainer = \<lparr>ctr_Name = ''c'', ctr_Requests = [(''cpu'', 1000), (ResourcePrefix @ ''performance'', 1000)],
     ctr_Limits = [(''cpu'', 1000), (ResourcePrefix @ ''performance'', 1000)], ctr_Claims = []\<rparr>"

definition runningPod :: "bool \<Rightarrow> Pod" where
  "runningPod deleted = \<lparr>pod_meta = (aged ''pod'' 1)\<lparr>meta_UID := ''uid'', meta_Deleted := deleted\<rparr>, pod_NodeName = ''node'', pod_InitContainers = [],
     pod_Containers = [sampleContainer], pod_Phase = ''Running'', pod_QOSClass = ''Guaranteed'',
     pod_InitContainerStatuses = [], pod_ContainerStatuses = [(''c'', ''docker://7'')]\<rparr>"

definition sampleEntry :: PowerNodeStateStatus where
  "sampleEntry = emptyStatus\<lparr>pns_CPUPools := Some \<lparr>cps_Shared = None, cps_Reserved = None, cps_Exclusive = Some
     [\<lparr>ecp_PodUID = ''uid'', ecp_Pod = ''pod'', ecp_PowerContainers =
       [\<lparr>pc_Name = ''c'', pc_ID = ''7'', pc_PowerProfile = ''performance'', pc_CPUIDs = [0], pc_Errors = []\<rparr>]\<rparr>]\<rparr>\<rparr>"

definition sampleEnv :: "bool \<Rightarrow> unit podEnv" where
  "sampleEnv deleted = \<lparr>env_selectors = (\<lambda>_. Inr (\<lambda>_. True)), env_client = sampleClient\<lparr>Get_Pod := (\<lambda>_ _ k. (Ret (runningPod deleted), k)),
       Get_PowerNodeState := (\<lambda>_ _ k. (Ret sampleEntry, k))\<rparr>,
     env_resources = kubelet [(''c'', [0])], env_decodeInitial = (\<lambda>_. Fail (Msg '''')), env_decodeUsage = (\<lambda>_. Fail (Msg '''')),
     env_fused = False, env_convert = (\<lambda>_. 0), env_connectionEvents = [], env_workerRuns = (\<lambda>_. [])\<rparr>"

definition podAgentSample :: "unit podAgent" where
  "podAgentSample = \<lparr>kube = (), lib = lib sampleAgent, podStore = NewState, telemetry = Some NewDPDKTelemetryClient,
     scaler = Some (NewCPUScalingManager plainMachine)\<rparr>"

definition podRequest :: Request where
  "podRequest = \<lparr>req_Namespace = PowerNamespace, req_Name = ''pod''\<rparr>"

definition sampleRequest :: PowerContainer where
  "sampleRequest = \<lparr>pc_Name = ''c'', pc_ID = ''7'', pc_PowerProfile = ''performance'', pc_CPUIDs = [0], pc_Errors = []\<rparr>"

lemma sampleKubelet: "GetContainerCPUs (kubelet [(''c'', [0])]) ''pod'' ''c'' () = (Ret ''0'', ())" "getCleanCoreList ''0'' = Some [0]"
proof -
  have t: "cpuIDsToString [0] = ''0''" by code_simp
  then show "GetContainerCPUs (kubelet [(''c'', [0])]) ''pod'' ''c'' () = (Ret ''0'', ())"
    by (simp add: GetContainerCPUs_def listResources_def kubelet_def)
  show "getCleanCoreList ''0'' = Some [0]" using getCleanCoreList_ids [of "[0]"] t by simp
qed

lemma sampleRequests:
  assumes "validateProfileAvailabilityOnNode (env_selectors (sampleEnv d)) (env_client (sampleEnv d)) ''performance'' ''node'' (Some h) () = (Ret True, ())"
  shows "getPowerProfileRequestsFromContainers (env_selectors (sampleEnv d)) (env_client (sampleEnv d)) (env_resources (sampleEnv d)) h
     (runningPod d) [sampleContainer] () = (Ret ([sampleRequest], []), ())"
proof -
  have "getContainerProfileFromRequests sampleContainer = Inr (''performance'', 1)" by code_simp
  with assms show ?thesis
    using sampleKubelet
    by (simp add: powerContainerOf_def sampleEnv_def sampleContainer_def runningPod_def aged_def sampleRequest_def getContainerID_def TrimPrefix_def HasPrefix_def)
qed

lemma sampleAvailable:
  "validateProfileAvailabilityOnNode (env_selectors (sampleEnv False)) (env_client (sampleEnv False)) ''performance'' ''node'' (Some (lib podAgentSample)) ()
     = (Ret True, ())"
  by code_simp

lemma samplePlaced:
  "fst (placeContainers (sampleEnv False) ''node'' (runningPod False) ([sampleRequest], []) podAgentSample) = Ret Done"
  "cpuPool (lib (snd (placeContainers (sampleEnv False) ''node'' (runningPod False) ([sampleRequest], []) podAgentSample))) 0 = RExcl 0"
  by code_simp+

lemma sampleReconcile:
  fixes a :: "unit podAgent"
  assumes "validateProfileAvailabilityOnNode (env_selectors (sampleEnv False)) (env_client (sampleEnv False)) ''performance'' ''node'' (Some (lib a)) ()
     = (Ret True, ())"
  shows "powerPod_Reconcile (sampleEnv False) ''node'' podRequest a
     = placeContainers (sampleEnv False) ''node'' (runningPod False) ([sampleRequest], []) a"
proof -
  have "getAdmissibleContainers (runningPod False) (env_resources (sampleEnv False)) () = (Ret [sampleContainer], ())" by code_simp
  moreover have "Get_Pod (env_client (sampleEnv False)) ns name k = (Ret (runningPod False), k)" for ns name k by (simp add: sampleEnv_def)
  moreover have "\<not> meta_Deleted (pod_meta (runningPod False))" "pod_Phase (runningPod False) = ''Running''" "meta_UID (pod_meta (runningPod False)) = ''uid''"
    by (simp_all add: runningPod_def)
  moreover have k: "a\<lparr>kube := ()\<rparr> = a" by simp
  ultimately show ?thesis
    by (simp add: powerPod_Reconcile_def reconcileRunning_def onKube_def sampleRequests [OF assms] k del: getPowerProfileRequestsFromContainers.simps)
qed

lemma podAgentSample_inv: "host_inv (lib podAgentSample)"
  using sampleAgent_inv by (simp add: podAgentSample_def)


theorem powerPod_deletion_releases_witness:
  "\<exists>a' cl'. powerPod_Reconcile (sampleEnv True) ''node'' podRequest podAgentSample = (Ret Done, a') \<and> cpuPool (lib a') 0 = RShared
     \<and> cpuPool (lib a') 1 = RReserved \<and> telemetry a' = Some cl' \<and> ''uid'' \<notin> fst ` set (connections cl')"
proof -
  define a' where "a' = snd (powerPod_Reconcile (sampleEnv True) ''node'' podRequest podAgentSample)"
  have "fst (powerPod_Reconcile (sampleEnv True) ''node'' podRequest podAgentSample) = Ret Done" by code_simp
  then have run: "powerPod_Reconcile (sampleEnv True) ''node'' podRequest podAgentSample = (Ret Done, a')" by (metis a'_def prod.collapse)
  have g: "Get_Pod (env_client (sampleEnv True)) (req_Namespace podRequest) (req_Name podRequest) (kube podAgentSample) = (Ret (runningPod True), ())"
    "Get_PowerNodeState (env_client (sampleEnv True)) PowerNamespace (powerNodeStateName ''node'') () = (Ret sampleEntry, ())"
    by (simp_all add: sampleEnv_def)
  have d: "distinct (map (\<lambda>g. (gp_Name g, gp_Namespace g)) (GuaranteedPods (podStore podAgentSample)))"
    "meta_Deleted (pod_meta (runningPod True)) \<or> pod_Phase (runningPod True) = ''Succeeded''"
    by (simp_all add: podAgentSample_def NewState_def runningPod_def)
  have s: "pns_CPUPools sampleEntry = Some (the (pns_CPUPools sampleEntry))" "meta_UID (pod_meta (runningPod True)) = ''uid''"
    "concat (map pc_CPUIDs (exclusiveContainersOf ''uid'' (the (pns_CPUPools sampleEntry)))) = [0]"
    by (simp_all add: sampleEntry_def runningPod_def exclusiveContainersOf_def)
  note rel = powerPod_deletion_releases [OF podAgentSample_inv d(1) g(1) d(2) g(2) s(1) run refl, unfolded s(2,3)]
  have "cpuPool (lib podAgentSample) 1 = RReserved" by (simp add: podAgentSample_def sampleAgent_def withProfile_def sampleHost_def)
  with rel run show ?thesis by (auto simp: podAgentSample_def)
qed

end
