(* ===== verification/Agent.thy ===== *)
theory Agent
  imports Host NodeConfig UncoreController ProfileController PodController
begin

text \<open>
  The node agent as a whole: the four controllers that run in it, the goroutines of telemetry and scaling, and a cluster
  that changes between any two of their steps.  All of them share one power library (and its machine), which is what the
  invariant is about.
\<close>

section \<open>The node agent\<close>

text \<open>
  Start-up (\<^verbatim>\<open>build/nodeagent/main.go\<close>): the library is created, then the store of pods, the clients of the kubelet and of telemetry, and the
  manager of the scaling workers; the agent exits when the library or the kubelet's client is missing.  What \<^verbatim>\<open>uname\<close> and gRPC return are parameters.
\<close>

definition startAgent ::
    "string gores \<Rightarrow> (string \<Rightarrow> gerr + 'k lister) \<Rightarrow> string \<Rightarrow> 'k \<Rightarrow> hw \<Rightarrow> ('k podAgent \<times> 'k PodResourcesClient) gores" where
  "startAgent uname dial nodeName k s = (case CreateInstance uname nodeName s of
      (Panic m, _) \<Rightarrow> Panic m
    | (Fail err, _) \<Rightarrow> Fail err
    | (Ret (None, _), _) \<Rightarrow> Fail (Msg ''unable to create Power Library instance'')
    | (Ret (Some powerLibrary, _), s') \<Rightarrow> (case NewDualSocketPodClient dial of
        Panic m \<Rightarrow> Panic m
      | Fail err \<Rightarrow> Fail (Wrap ''unable to create internal client'' err)
      | Ret podResourcesClient \<Rightarrow>
          Ret (\<lparr>kube = k, lib = powerLibrary, podStore = NewState, telemetry = Some NewDPDKTelemetryClient,
            scaler = Some (NewCPUScalingManager s')\<rparr>, podResourcesClient)))"

text \<open>A controller that only has the client and the library, run in the agent.\<close>

definition onAgent :: "('a, 'k agent) action \<Rightarrow> ('a, 'k podAgent) action" where
  "onAgent f a = (case f (agent.truncate a) of (r, b) \<Rightarrow> (r, a\<lparr>kube := kube b, lib := lib b\<rparr>))"

text \<open>
  A step of the agent: one reconciliation, by any of the controllers, of any request, with any client and any of its
  outcomes; a change of the cluster by others; a step of the goroutine of a worker, on the machine of the library; and what the goroutines
  of the telemetry connections do.  Controllers run concurrently, and one may be interrupted by another between any two of its calls
  of the library, each of which is one step because it holds the host's mutex (theory \<open>Locking\<close>): a single call, of any pool, with any
  arguments, or a single change of an uncore setting, is a step as well.
\<close>

inductive agent_step :: "'k podAgent \<Rightarrow> 'k podAgent \<Rightarrow> bool" where
  node_config: "onAgent (powerNodeConfig_Reconcile sel order c nodeName req) a = (r, a') \<Longrightarrow> agent_step a a'"
| profile: "onAgent (powerProfile_Reconcile sel durationJSON c nodeName req) a = (r, a') \<Longrightarrow> agent_step a a'"
| uncore: "onAgent (uncore_Reconcile sel hasTopology c nodeName req) a = (r, a') \<Longrightarrow> agent_step a a'"
| pod: "powerPod_Reconcile e nodeName req a = (r, a') \<Longrightarrow> agent_step a a'"
| pool_call: "host_step (lib a) h \<Longrightarrow> agent_step a (a\<lparr>lib := h\<rparr>)"
| uncore_call: "present (topology (lib a)) target \<Longrightarrow> onTopology (setUncore target u) (lib a) = (r, h) \<Longrightarrow> agent_step a (a\<lparr>lib := h\<rparr>)"
| cluster: "agent_step a (a\<lparr>kube := k\<rparr>)"
| worker: "scaler a = Some m \<Longrightarrow> m' = workerStep fused conv cl c (m\<lparr>scalingMachine := machineOf (lib a)\<rparr>) \<Longrightarrow>
     agent_step a (a\<lparr>scaler := Some m', lib := (lib a)\<lparr>machineOf := scalingMachine m'\<rparr>\<rparr>)"
| connection: "telemetry a = Some cl \<Longrightarrow> connectionEvent decI decU podUID ev cl = (r', cl') \<Longrightarrow> agent_step a (a\<lparr>telemetry := Some cl'\<rparr>)"

definition agent_inv :: "nat list \<Rightarrow> 'k podAgent \<Rightarrow> bool" where
  "agent_inv cpus a \<longleftrightarrow> host_inv (lib a) \<and> topology_ok (topology (lib a)) \<and> allCpus (lib a) = cpus"

lemma agent_inv_reached: "agent_inv cpus a \<Longrightarrow> reached (lib a) (lib a') \<Longrightarrow> agent_inv cpus a'"
  by (simp add: agent_inv_def reached_inv reached_topology)

lemma onAgent_lib: "onAgent f a = (r, a') \<Longrightarrow> \<exists>b. f (agent.truncate a) = (r, b) \<and> lib a' = lib b" "lib (agent.truncate a) = lib a"
  by (auto simp: onAgent_def agent.truncate_def split: prod.splits)

lemma apart_agent:
  assumes "apart (lib a) (lib a')" "agent_inv cpus a"
  shows "agent_inv cpus a'"
  using assms apart_inv [OF assms(1)] by (auto simp: agent_inv_def apart_def topology_CPUs_def)

lemma agent_step_keeps:
  assumes "agent_step a a'" "agent_inv cpus a" "cpus \<noteq> []"
  shows "agent_inv cpus a'"
  using assms(1,2)
proof cases
  case (node_config sel order c nodeName req r)
  then obtain b where b: "powerNodeConfig_Reconcile sel order c nodeName req (agent.truncate a) = (r, b)" "lib a' = lib b" using onAgent_lib(1) by blast
  have "host_inv (lib (agent.truncate a))" using assms(2) by (simp add: onAgent_lib(2) agent_inv_def)
  from powerNodeConfig_Reconcile_safe [OF this, of c sel order nodeName req] have "reached (lib a) (lib a')"
    by (simp add: b guarded_def onAgent_lib(2))
  with assms(2) show ?thesis by (rule agent_inv_reached)
next
  case (profile sel d c nodeName req r)
  then obtain b where b: "powerProfile_Reconcile sel d c nodeName req (agent.truncate a) = (r, b)" "lib a' = lib b" using onAgent_lib(1) by blast
  have "host_inv (lib (agent.truncate a))" "allCpus (lib (agent.truncate a)) \<noteq> []" using assms(2,3) by (simp_all add: onAgent_lib(2) agent_inv_def)
  from powerProfile_Reconcile_safe [OF this, of c sel d nodeName req] have "reached (lib a) (lib a')"
    by (simp add: b guarded_def onAgent_lib(2))
  with assms(2) show ?thesis by (rule agent_inv_reached)
next
  case (uncore sel t c nodeName req r)
  then obtain b where b: "uncore_Reconcile sel t c nodeName req (agent.truncate a) = (r, b)" "lib a' = lib b" using onAgent_lib(1) by blast
  have "topology_ok (topology (lib (agent.truncate a)))" using assms(2) by (simp add: onAgent_lib(2) agent_inv_def)
  from uncore_Reconcile_safe [OF this, of c sel t nodeName req] have "apart (lib a) (lib a')"
    by (simp add: b guarded_def onAgent_lib(2))
  then show ?thesis using assms(2) by (rule apart_agent)
next
  case (pod e nodeName req r)
  have "host_inv (lib a)" using assms(2) by (simp add: agent_inv_def)
  from powerPod_Reconcile_keeps [OF this, of e nodeName req] pod show ?thesis using assms(2) by (simp add: guarded_def same_cpus_def agent_inv_def)
next
  case (pool_call h)
  then show ?thesis using assms(2) host_step_keeps [of "lib a" h] host_step_topology [of "lib a" h] by (simp add: agent_inv_def)
next
  case (uncore_call target u r h)
  have "topology_ok (topology (lib a))" using assms(2) by (simp add: agent_inv_def)
  from setUncore_safe [OF this uncore_call(2), of u] have "apart (lib a) (lib a')" by (simp add: guarded_def uncore_call(1,3))
  then show ?thesis using assms(2) by (rule apart_agent)
next
  case (worker m m' fused conv cl c)
  then show ?thesis
    using assms(2) new_machine(1) [of "lib a" "scalingMachine m'"] workerStep_frame(1) [of fused conv cl c "m\<lparr>scalingMachine := machineOf (lib a)\<rparr>"]
    by (simp add: agent_inv_def)
qed (simp_all add: agent_inv_def)

lemma agent_steps_keep:
  assumes "agent_step\<^sup>*\<^sup>* a a'" "agent_inv cpus a" "cpus \<noteq> []"
  shows "agent_inv cpus a'"
  using assms(1,2) by (induction rule: rtranclp_induct) (auto intro: agent_step_keeps [OF _ _ assms(3)])

lemma startAgent_inv:
  assumes "startAgent (Ret ''x86_64'') dial nodeName k s = Ret (a, rc)" "distinct (map fst (featureList s))"
  shows "agent_inv [0..<getNumberOfCpus s] a"
proof -
  obtain h e s' where c: "CreateInstance (Ret ''x86_64'') nodeName s = (Ret (Some h, e), s')" and l: "lib a = h"
    using assms(1) by (auto simp: startAgent_def split: prod.splits gores.splits option.splits)
  obtain s1 where s1: "initHost (Ret ''x86_64'') nodeName s1 = (Ret h, s')" "host_inv h" "Cpus RReserved h = [0..<getNumberOfCpus s]"
    using CreateInstance_start [OF c assms(2)] by metis
  note h = initHost_Ret [OF s1(1)]
  have "host_architecture h = ''x86_64''" using h(8) by (simp add: setArchitecture_def getHostArchitecture_def machineName_def)
  then have "topology_ok (topology h)" using h(1) discoverTopology_ok by metis
  with s1 h(7) [of RReserved] show ?thesis by (simp add: agent_inv_def l)
qed

section \<open>Property\<close>


text \<open>A one-CPU machine, and a first reconciliation of a profile.\<close>

definition sampleDial :: "string \<Rightarrow> gerr + unit lister" where
  "sampleDial sock = Inr (\<lambda>k. (Ret [], k))"

definition profileRequest :: Request where
  "profileRequest = \<lparr>req_Namespace = PowerNamespace, req_Name = ''performance''\<rparr>"


end
