(* ===== verification/ConfigController.thy ===== *)
theory ConfigController
  imports Library_Calls
begin

text \<open>
  The controller of \<^verbatim>\<open>PowerConfig\<close> objects (\<^verbatim>\<open>controllers/powerconfig_controller.go\<close>), the only one that runs in the manager and not on the nodes: it
  creates and updates the DaemonSet of the node agents, creates the \<^verbatim>\<open>PowerNodeState\<close> of every node that the configuration
  selects, lists the nodes in the status of the configuration, and deletes everything when the configuration is deleted.
\<close>

section \<open>Objects and requests\<close>

record PowerConfig =
  pcfg_meta :: ObjectMeta
  pcfg_PowerNodeSelector :: "labels option"
  pcfg_Nodes :: "string list"

text \<open>A DaemonSet, as far as the controller reads and changes it.\<close>

record dsContainer =
  dsc_Name :: string
  dsc_Image :: string

record DaemonSet =
  ds_NodeSelector :: "labels option"
  ds_Containers :: "dsContainer list"

record 'k managerClient = "'k client" +
  List_PowerConfigs :: "(PowerConfig list, 'k) action"
  Get_PowerConfig :: "string \<Rightarrow> string \<Rightarrow> (PowerConfig, 'k) action"
  Delete_PowerConfig :: "PowerConfig \<Rightarrow> (unit, 'k) action"
  Delete_PowerProfile :: "PowerProfile \<Rightarrow> (unit, 'k) action"
  List_PowerNodeStates :: "(ObjectMeta list, 'k) action"
  Create_PowerNodeState :: "string \<Rightarrow> string \<Rightarrow> (unit, 'k) action"
  Delete_PowerNodeState :: "ObjectMeta \<Rightarrow> (unit, 'k) action"
  Get_DaemonSet :: "string \<Rightarrow> string \<Rightarrow> (DaemonSet, 'k) action"
  Create_DaemonSet :: "DaemonSet \<Rightarrow> (unit, 'k) action"
  Update_DaemonSet :: "DaemonSet \<Rightarrow> (unit, 'k) action"
  Delete_DaemonSet :: "DaemonSet \<Rightarrow> (unit, 'k) action"
  Patch_ConfigStatus :: "PowerConfig \<Rightarrow> PowerConfig \<Rightarrow> (unit, 'k) action"

abbreviation "NodeAgentDSName \<equiv> ''power-node-agent''"
abbreviation "FieldOwnerPowerConfigController \<equiv> ''powerconfig-controller''"
abbreviation "LabelArchStable \<equiv> ''kubernetes.io/arch''"

text \<open>
  What the process is given: the image in \<^verbatim>\<open>RELATED_IMAGE_NODE_AGENT\<close>, and the object that the decoder makes of the manifest file
  (with the errors of both).
\<close>

record deployment =
  relatedImage :: string
  manifest :: "DaemonSet gores"

record 'k manager =
  mgr_kube :: 'k
  nodeData :: PowerNodeData

definition onCluster :: "('a, 'k) action \<Rightarrow> ('a, 'k manager) action" where
  "onCluster f a = (case f (mgr_kube a) of (r, k) \<Rightarrow> (r, a\<lparr>mgr_kube := k\<rparr>))"

section \<open>The DaemonSet\<close>

fun findNodeAgentContainer :: "dsContainer list \<Rightarrow> nat option" where
  "findNodeAgentContainer [] = None"
| "findNodeAgentContainer (container # rest) =
     (if dsc_Name container = NodeAgentDSName then Some 0 else map_option Suc (findNodeAgentContainer rest))"

text \<open>The pointer into the slice is an index; the container is changed in place.\<close>

definition applyNodeAgentImage :: "DaemonSet \<Rightarrow> string \<Rightarrow> gerr + bool \<times> DaemonSet" where
  "applyNodeAgentImage ds img =
     (if img = '''' then Inr (False, ds)
      else (case findNodeAgentContainer (ds_Containers ds) of
          None \<Rightarrow> Inl (Msg (''container '' @ [CHR 0x22] @ NodeAgentDSName @ [CHR 0x22] @ '' not found in node-agent DaemonSet''))
        | Some i \<Rightarrow>
           (if dsc_Image (ds_Containers ds ! i) = img then Inr (False, ds)
            else Inr (True, ds\<lparr>ds_Containers := (ds_Containers ds)[i := (ds_Containers ds ! i)\<lparr>dsc_Image := img\<rparr>]\<rparr>))))"

text \<open>\<^verbatim>\<open>reflect.DeepEqual\<close> on maps: a nil map differs from an empty one.\<close>

definition mapDeepEqual :: "labels option \<Rightarrow> labels option \<Rightarrow> bool" where
  "mapDeepEqual a b = (case (a, b) of (None, None) \<Rightarrow> True | (Some x, Some y) \<Rightarrow> set x = set y | _ \<Rightarrow> False)"

definition createDaemonSetFromManifest :: "deployment \<Rightarrow> DaemonSet gores" where
  "createDaemonSetFromManifest d = manifest d"

definition createDaemonSet :: "deployment \<Rightarrow> 'k managerClient \<Rightarrow> PowerConfig \<Rightarrow> (unit, 'k) action" where
  "createDaemonSet d c config k = andThen (createDaemonSetFromManifest d, k) (\<lambda>daemonSet k1.
     (case applyNodeAgentImage daemonSet (relatedImage d) of
        Inl err \<Rightarrow> (Fail err, k1)
      | Inr (_, daemonSet1) \<Rightarrow>
         Create_DaemonSet c (if pcfg_PowerNodeSelector config \<notin> {None, Some []}
           then daemonSet1\<lparr>ds_NodeSelector := pcfg_PowerNodeSelector config\<rparr> else daemonSet1) k1))"

definition updateDaemonSet :: "deployment \<Rightarrow> 'k managerClient \<Rightarrow> PowerConfig \<Rightarrow> DaemonSet \<Rightarrow> (unit, 'k) action" where
  "updateDaemonSet d c config daemonSet k = (case applyNodeAgentImage daemonSet (relatedImage d) of
      Inl err \<Rightarrow> (Fail err, k)
    | Inr (imageChanged, daemonSet1) \<Rightarrow>
       (let selectorChanged = (\<not> mapDeepEqual (ds_NodeSelector daemonSet1) (pcfg_PowerNodeSelector config));
            daemonSet2 = (if selectorChanged then daemonSet1\<lparr>ds_NodeSelector := pcfg_PowerNodeSelector config\<rparr> else daemonSet1) in
        if imageChanged \<or> selectorChanged then Update_DaemonSet c daemonSet2 k else (Ret (), k)))"

definition createDaemonSetIfNotPresent :: "deployment \<Rightarrow> 'k managerClient \<Rightarrow> PowerConfig \<Rightarrow> (unit, 'k) action" where
  "createDaemonSetIfNotPresent d c config k = andThen (attempt (Get_DaemonSet c PowerNamespace NodeAgentDSName k)) (\<lambda>r k1. (case r of
      Inl err \<Rightarrow> (if isNotFoundErr err then createDaemonSet d c config k1 else (Fail err, k1))
    | Inr daemonSet \<Rightarrow> updateDaemonSet d c config daemonSet k1))"

section \<open>The nodes\<close>

definition applyNodeInfo :: "'k managerClient \<Rightarrow> Node \<Rightarrow> string \<Rightarrow> (unit, 'k) action" where
  "applyNodeInfo c node stateName k =
     Patch_Status c PowerNamespace stateName
       (emptyStatus\<lparr>pns_NodeInfo := Some \<lparr>ni_CPUCapacity = quantityValue (quantity (node_Capacity node) ''cpu''),
          ni_Architecture = (case map_of (meta_Labels (node_meta node)) LabelArchStable of Some v \<Rightarrow> v | None \<Rightarrow> '''')\<rparr>\<rparr>)
       FieldOwnerPowerConfigController k"

definition ensureNodeState :: "'k managerClient \<Rightarrow> Node \<Rightarrow> (unit, 'k) action" where
  "ensureNodeState c node k =
     (let stateName = powerNodeStateName (meta_Name (node_meta node)) in
      andThen (attempt (Get_PowerNodeState c PowerNamespace stateName k)) (\<lambda>r k1. (case r of
          Inl err \<Rightarrow>
            (if isNotFoundErr err
             then andThen (Create_PowerNodeState c PowerNamespace stateName k1) (\<lambda>_ k2. applyNodeInfo c node stateName k2)
             else (Fail err, k1))
        | Inr _ \<Rightarrow> (Ret (), k1))))"

definition prepareNode :: "'k managerClient \<Rightarrow> Node \<Rightarrow> (unit, 'k manager) action" where
  "prepareNode c node a =
     onCluster (ensureNodeState c node) (a\<lparr>nodeData := UpdatePowerNodeData (meta_Name (node_meta node)) (nodeData a)\<rparr>)"

text \<open>\<^verbatim>\<open>client.MatchingLabels\<close>: every label of the selector, with its value.\<close>

definition matchingLabels :: "labels option \<Rightarrow> labels \<Rightarrow> bool" where
  "matchingLabels selector ls = list_all (\<lambda>(name, v). map_of ls name = Some v) (case selector of None \<Rightarrow> [] | Some l \<Rightarrow> l)"

section \<open>Reconcile\<close>

definition deleteEverything :: "'k managerClient \<Rightarrow> (unit, 'k) action" where
  "deleteEverything c k =
     andThen (List_PowerProfiles c k) (\<lambda>powerProfiles k1.
     andThen (forEach (Delete_PowerProfile c) powerProfiles k1) (\<lambda>_ k2.
     andThen (List_PowerNodeStates c k2) (\<lambda>powerNodeStates k3.
     andThen (forEach (Delete_PowerNodeState c) powerNodeStates k3) (\<lambda>_ k4.
     andThen (attempt (Get_DaemonSet c PowerNamespace NodeAgentDSName k4)) (\<lambda>r k5. (case r of
         Inl err \<Rightarrow> (if \<not> isNotFoundErr err then (Fail err, k5) else (Ret (), k5))
       | Inr daemonSet \<Rightarrow> Delete_DaemonSet c daemonSet k5))))))"

definition recordNodes :: "'k managerClient \<Rightarrow> PowerConfig \<Rightarrow> (unit, 'k manager) action" where
  "recordNodes c config a = onCluster (Patch_ConfigStatus c config (config\<lparr>pcfg_Nodes := PowerNodeList (nodeData a)\<rparr>)) a"

definition reconcileConfig :: "deployment \<Rightarrow> 'k managerClient \<Rightarrow> PowerConfig \<Rightarrow> (ctrlResult, 'k manager) action" where
  "reconcileConfig d c config a =
     andThen (onCluster (createDaemonSetIfNotPresent d c config) a) (\<lambda>_ a1.
     andThen (onCluster (List_Nodes c (matchingLabels (pcfg_PowerNodeSelector config))) a1) (\<lambda>labelledNodeList a2.
     andThen (forEach (prepareNode c) labelledNodeList a2) (\<lambda>_ a3.
     andThen (recordNodes c config a3) (\<lambda>_ a4. (Ret RequeueAfter, a4)))))"

definition powerConfig_Reconcile :: "deployment \<Rightarrow> 'k managerClient \<Rightarrow> Request \<Rightarrow> (ctrlResult, 'k manager) action" where
  "powerConfig_Reconcile d c req a =
     (if req_Namespace req \<noteq> PowerNamespace then (Fail (Msg ''incorrect namespace''), a)
      else andThen (onCluster (List_PowerConfigs c) a) (\<lambda>configs a1.
        andThen (attempt (onCluster (Get_PowerConfig c (req_Namespace req) (req_Name req)) a1)) (\<lambda>r a2. (case r of
            Inl err \<Rightarrow>
              (if isNotFoundErr err
               then andThen (if length configs = 0 then onCluster (deleteEverything c) a2 else (Ret (), a2)) (\<lambda>_ a3. (Ret Done, a3))
               else (Fail err, a2))
          | Inr config \<Rightarrow>
             (if length configs > 1
              then andThen (onCluster (Delete_PowerConfig c config) a2) (\<lambda>_ a3. (Ret Done, a3))
              else reconcileConfig d c config a2)))))"

section \<open>The DaemonSet has the image and the selector\<close>

definition runsImage :: "string \<Rightarrow> DaemonSet \<Rightarrow> bool" where
  "runsImage img ds \<longleftrightarrow> img = ''''
     \<or> (\<exists>i. findNodeAgentContainer (ds_Containers ds) = Some i \<and> i < length (ds_Containers ds)
          \<and> dsc_Name (ds_Containers ds ! i) = NodeAgentDSName \<and> dsc_Image (ds_Containers ds ! i) = img)"

lemma findNodeAgentContainer_Some:
  assumes "findNodeAgentContainer cs = Some i"
  shows "i < length cs \<and> dsc_Name (cs ! i) = NodeAgentDSName"
    and "dsc_Name ct = NodeAgentDSName \<Longrightarrow> findNodeAgentContainer (cs[i := ct]) = Some i"
  using assms by (induction cs arbitrary: i) (auto split: if_splits)

lemma applyNodeAgentImage_runs:
  assumes "applyNodeAgentImage ds img = Inr (changed, ds')"
  shows "runsImage img ds' \<and> ds_NodeSelector ds' = ds_NodeSelector ds \<and> (\<not> changed \<longrightarrow> ds' = ds)"
proof (cases "findNodeAgentContainer (ds_Containers ds)")
  case (Some i)
  note f = findNodeAgentContainer_Some [OF Some]
  have "findNodeAgentContainer ((ds_Containers ds)[i := (ds_Containers ds ! i)\<lparr>dsc_Image := img\<rparr>]) = Some i" using f(1) by (intro f(2)) simp
  with assms f(1) Some show ?thesis by (auto simp: applyNodeAgentImage_def runsImage_def split: if_splits)
qed (use assms in \<open>auto simp: applyNodeAgentImage_def runsImage_def split: if_splits\<close>)

text \<open>
  The DaemonSet after a successful call, as the cluster has confirmed it (created, updated, or read).
\<close>

definition confirmed :: "'k managerClient \<Rightarrow> DaemonSet \<Rightarrow> 'k \<Rightarrow> bool" where
  "confirmed c ds k' \<longleftrightarrow> (\<exists>k. Create_DaemonSet c ds k = (Ret (), k') \<or> Update_DaemonSet c ds k = (Ret (), k')
     \<or> Get_DaemonSet c PowerNamespace NodeAgentDSName k = (Ret ds, k'))"

lemma createDaemonSetIfNotPresent_confirmed:
  assumes "createDaemonSetIfNotPresent d c config k = (Ret (), k')"
  shows "\<exists>ds. confirmed c ds k' \<and> runsImage (relatedImage d) ds
     \<and> (pcfg_PowerNodeSelector config \<notin> {None, Some []} \<longrightarrow> mapDeepEqual (ds_NodeSelector ds) (pcfg_PowerNodeSelector config))"
proof -
  have eq: "mapDeepEqual m m" for m by (auto simp: mapDeepEqual_def split: option.splits)
  have same: "runsImage img (ds\<lparr>ds_NodeSelector := s\<rparr>) = runsImage img ds" for img ds s by (simp add: runsImage_def)
  from assms consider
      (new) k1 where "createDaemonSet d c config k1 = (Ret (), k')"
    | (old) ds k1 where "Get_DaemonSet c PowerNamespace NodeAgentDSName k = (Ret ds, k1)" "updateDaemonSet d c config ds k1 = (Ret (), k')"
    by (auto simp: createDaemonSetIfNotPresent_def run_simps split: if_splits)
  then show ?thesis
  proof cases
    case new
    then obtain ds where m: "createDaemonSetFromManifest d = Ret ds" by (auto simp: createDaemonSet_def andThen_Ret_iff)
    with new obtain b ds1 where a: "applyNodeAgentImage ds (relatedImage d) = Inr (b, ds1)" and
      cr: "Create_DaemonSet c (if pcfg_PowerNodeSelector config \<notin> {None, Some []}
           then ds1\<lparr>ds_NodeSelector := pcfg_PowerNodeSelector config\<rparr> else ds1) k1 = (Ret (), k')"
      by (cases "applyNodeAgentImage ds (relatedImage d)") (auto simp: createDaemonSet_def)
    with applyNodeAgentImage_runs [OF a] show ?thesis
      by (intro exI [of _ "if pcfg_PowerNodeSelector config \<notin> {None, Some []} then ds1\<lparr>ds_NodeSelector := pcfg_PowerNodeSelector config\<rparr> else ds1"])
        (auto simp: confirmed_def eq same)
  next
    case old
    then obtain b ds1 where a: "applyNodeAgentImage ds (relatedImage d) = Inr (b, ds1)"
      by (auto simp: updateDaemonSet_def split: sum.splits)
    note r = applyNodeAgentImage_runs [OF a]
    let ?ds2 = "if \<not> mapDeepEqual (ds_NodeSelector ds1) (pcfg_PowerNodeSelector config) then ds1\<lparr>ds_NodeSelector := pcfg_PowerNodeSelector config\<rparr> else ds1"
    have "confirmed c ?ds2 k'"
      using old r by (auto simp: updateDaemonSet_def a Let_def confirmed_def split: if_splits)
    then show ?thesis using r by (intro exI [of _ ?ds2]) (auto simp: eq same)
  qed
qed

section \<open>The nodes have their states\<close>

text \<open>
  What is assumed of the API server: it knows the states it has returned and those whose creation it has confirmed, and none of
  the requests below removes one.
\<close>

definition servesStates :: "'k managerClient \<Rightarrow> ('k \<Rightarrow> string set) \<Rightarrow> bool" where
  "servesStates c present \<longleftrightarrow> (\<forall>k n. present k \<subseteq> present (snd (Get_PowerNodeState c PowerNamespace n k))
     \<and> present k \<subseteq> present (snd (Create_PowerNodeState c PowerNamespace n k))
     \<and> (\<forall>s f. present k \<subseteq> present (snd (Patch_Status c PowerNamespace n s f k)))
     \<and> (\<forall>old new. present k \<subseteq> present (snd (Patch_ConfigStatus c old new k)))
     \<and> (isRet (fst (Get_PowerNodeState c PowerNamespace n k)) \<longrightarrow> n \<in> present (snd (Get_PowerNodeState c PowerNamespace n k)))
     \<and> (isRet (fst (Create_PowerNodeState c PowerNamespace n k)) \<longrightarrow> n \<in> present (snd (Create_PowerNodeState c PowerNamespace n k))))"

lemma servesStatesD:
  assumes "servesStates c present"
  shows "Get_PowerNodeState c PowerNamespace n k = (r, k') \<Longrightarrow> present k \<subseteq> present k' \<and> (isRet r \<longrightarrow> n \<in> present k')"
    "Create_PowerNodeState c PowerNamespace n k = (r2, k') \<Longrightarrow> present k \<subseteq> present k' \<and> (isRet r2 \<longrightarrow> n \<in> present k')"
    "Patch_Status c PowerNamespace n s f k = (r3, k') \<Longrightarrow> present k \<subseteq> present k'"
    "Patch_ConfigStatus c old new k = (r4, k') \<Longrightarrow> present k \<subseteq> present k'"
  using assms unfolding servesStates_def by (metis fst_conv snd_conv)+

lemma ensureNodeState_present:
  assumes "servesStates c present" "ensureNodeState c node k = (Ret (), k')"
  shows "insert (powerNodeStateName (meta_Name (node_meta node))) (present k) \<subseteq> present k'"
proof -
  let ?n = "powerNodeStateName (meta_Name (node_meta node))"
  from assms(2) consider s where "Get_PowerNodeState c PowerNamespace ?n k = (Ret s, k')"
    | e k1 k2 where "Get_PowerNodeState c PowerNamespace ?n k = (Fail e, k1)" "Create_PowerNodeState c PowerNamespace ?n k1 = (Ret (), k2)"
        "applyNodeInfo c node ?n k2 = (Ret (), k')"
    by (auto simp: ensureNodeState_def Let_def run_simps split: if_splits)
  then show ?thesis
  proof cases
    case 1
    then show ?thesis using servesStatesD(1) [OF assms(1) 1] by simp
  next
    case 2
    from servesStatesD(1) [OF assms(1) 2(1)] servesStatesD(2) [OF assms(1) 2(2)] servesStatesD(3) [OF assms(1) 2(3) [unfolded applyNodeInfo_def]]
    show ?thesis by auto
  qed
qed

lemma prepareNodes_present:
  assumes "servesStates c present" "forEach (prepareNode c) nodes a = (Ret (), a')" "distinct (PowerNodeList (nodeData a))"
  shows "present (mgr_kube a) \<union> (powerNodeStateName \<circ> meta_Name \<circ> node_meta) ` set nodes \<subseteq> present (mgr_kube a')
     \<and> set (PowerNodeList (nodeData a')) = set (PowerNodeList (nodeData a)) \<union> (meta_Name \<circ> node_meta) ` set nodes
     \<and> distinct (PowerNodeList (nodeData a'))"
  using assms(2,3)
proof (induction nodes arbitrary: a)
  case (Cons node nodes)
  let ?n = "meta_Name (node_meta node)"
  from Cons.prems(1) obtain a1 where 1: "prepareNode c node a = (Ret (), a1)" and 2: "forEach (prepareNode c) nodes a1 = (Ret (), a')"
    by (auto simp: andThen_Ret_iff)
  have e: "ensureNodeState c node (mgr_kube a) = (Ret (), mgr_kube a1)" "nodeData a1 = UpdatePowerNodeData ?n (nodeData a)"
    using 1 by (auto simp: prepareNode_def onCluster_def split: prod.splits)
  note l = powerNodeData_laws [OF Cons.prems(2), of ?n]
  have "distinct (PowerNodeList (nodeData a1))" using l by (simp add: e(2))
  from Cons.IH [OF 2 this] ensureNodeState_present [OF assms(1) e(1)] l show ?case by (auto simp: e(2))
qed simp

text \<open>
  The information on a node is written once, after its state has been created.  When that write fails, the next reconciliation finds
  the state, and never writes the information.
\<close>

lemma node_info_not_retried:
  assumes "Get_PowerNodeState c PowerNamespace (powerNodeStateName (meta_Name (node_meta node))) k = (Fail e, k1)" "isNotFoundErr e"
    and "Create_PowerNodeState c PowerNamespace (powerNodeStateName (meta_Name (node_meta node))) k1 = (Ret (), k2)"
    and "applyNodeInfo c node (powerNodeStateName (meta_Name (node_meta node))) k2 = (Fail e', k3)"
    and "Get_PowerNodeState c PowerNamespace (powerNodeStateName (meta_Name (node_meta node))) k3 = (Ret status, k4)"
  shows "ensureNodeState c node k = (Fail e', k3)" "ensureNodeState c node k3 = (Ret (), k4)"
  using assms by (simp_all add: ensureNodeState_def Let_def)

section \<open>Property\<close>

text \<open>
  C20. A reconciliation of the one configuration that ends without an error has set the node agents up: the cluster has confirmed a DaemonSet whose node agent
  runs the image the manager was given, on the nodes that the configuration selects; every node that the cluster lists for the
  selector has a \<^verbatim>\<open>PowerNodeState\<close>; and the status of the configuration lists these nodes, each once, together with all nodes ever
  listed before.  It is repeated after five seconds.
\<close>

theorem powerConfig_sets_up:
  assumes "powerConfig_Reconcile d c req a = (Ret RequeueAfter, a')"
    and "servesStates c present" "distinct (PowerNodeList (nodeData a))"
  shows "\<exists>config k1. fst (Get_PowerConfig c (req_Namespace req) (req_Name req) k1) = Ret config
    \<and> (\<exists>ds k2. confirmed c ds k2 \<and> runsImage (relatedImage d) ds
         \<and> (pcfg_PowerNodeSelector config \<notin> {None, Some []} \<longrightarrow> mapDeepEqual (ds_NodeSelector ds) (pcfg_PowerNodeSelector config)))
    \<and> (\<exists>nodes k3. fst (List_Nodes c (matchingLabels (pcfg_PowerNodeSelector config)) k3) = Ret nodes
         \<and> (\<forall>node \<in> set nodes. powerNodeStateName (meta_Name (node_meta node)) \<in> present (mgr_kube a'))
         \<and> set (PowerNodeList (nodeData a')) = set (PowerNodeList (nodeData a)) \<union> (meta_Name \<circ> node_meta) ` set nodes)
    \<and> distinct (PowerNodeList (nodeData a'))
    \<and> (\<exists>k4. Patch_ConfigStatus c config (config\<lparr>pcfg_Nodes := PowerNodeList (nodeData a')\<rparr>) k4 = (Ret (), mgr_kube a'))"
proof -
  have frame: "nodeData b' = nodeData b \<and> f (mgr_kube b) = (r, mgr_kube b')" if "onCluster f b = (r, b')"
    for f :: "('x, 'a) action" and r b b'
    using that by (auto simp: onCluster_def split: prod.splits)
  from assms(1) obtain config a1 a2 where g: "onCluster (Get_PowerConfig c (req_Namespace req) (req_Name req)) a1 = (Ret config, a2)"
    and a1: "nodeData a1 = nodeData a" and run: "reconcileConfig d c config a2 = (Ret RequeueAfter, a')"
    by (auto simp: powerConfig_Reconcile_def run_simps dest: frame split: if_splits)
  from run obtain a3 nodes a4 a5 where ds: "onCluster (createDaemonSetIfNotPresent d c config) a2 = (Ret (), a3)"
    and nodes: "onCluster (List_Nodes c (matchingLabels (pcfg_PowerNodeSelector config))) a3 = (Ret nodes, a4)"
    and prep: "forEach (prepareNode c) nodes a4 = (Ret (), a5)" and rec: "recordNodes c config a5 = (Ret (), a')"
    by (auto simp: reconcileConfig_def andThen_Ret_iff)
  have same: "nodeData a4 = nodeData a" using frame [OF g] frame [OF ds] frame [OF nodes] a1 by simp
  have p: "present (mgr_kube a4) \<union> (powerNodeStateName \<circ> meta_Name \<circ> node_meta) ` set nodes \<subseteq> present (mgr_kube a5)"
    "set (PowerNodeList (nodeData a5)) = set (PowerNodeList (nodeData a)) \<union> (meta_Name \<circ> node_meta) ` set nodes" "distinct (PowerNodeList (nodeData a5))"
    using prepareNodes_present [OF assms(2) prep] assms(3) by (simp_all add: same)
  note r = frame [OF rec [unfolded recordNodes_def]]
  have up: "present (mgr_kube a5) \<subseteq> present (mgr_kube a')" using servesStatesD(4) [OF assms(2)] r by blast
  show ?thesis
  proof (rule exI [of _ config], rule exI [of _ "mgr_kube a1"], intro conjI)
    show "fst (Get_PowerConfig c (req_Namespace req) (req_Name req) (mgr_kube a1)) = Ret config"
      using frame [OF g] by simp
    show "\<exists>ds k2. confirmed c ds k2 \<and> runsImage (relatedImage d) ds
         \<and> (pcfg_PowerNodeSelector config \<notin> {None, Some []} \<longrightarrow> mapDeepEqual (ds_NodeSelector ds) (pcfg_PowerNodeSelector config))"
      using createDaemonSetIfNotPresent_confirmed [OF conjunct2 [OF frame [OF ds]]] by blast
    show "\<exists>nodes k3. fst (List_Nodes c (matchingLabels (pcfg_PowerNodeSelector config)) k3) = Ret nodes
         \<and> (\<forall>node \<in> set nodes. powerNodeStateName (meta_Name (node_meta node)) \<in> present (mgr_kube a'))
         \<and> set (PowerNodeList (nodeData a')) = set (PowerNodeList (nodeData a)) \<union> (meta_Name \<circ> node_meta) ` set nodes"
      using frame [OF nodes] p(1,2) up r by (intro exI [of _ nodes] exI [of _ "mgr_kube a3"]) (auto simp: subset_iff)
    show "distinct (PowerNodeList (nodeData a'))" using p(3) r by simp
    show "\<exists>k4. Patch_ConfigStatus c config (config\<lparr>pcfg_Nodes := PowerNodeList (nodeData a')\<rparr>) k4 = (Ret (), mgr_kube a')" using r by auto
  qed
qed

section \<open>The property at a concrete cluster\<close>

text \<open>A cluster that knows a list of states and has one node, and a client that creates states in it.\<close>

definition managerClientSample :: "string list managerClient" where
  "managerClientSample = \<lparr>
     Get_Pod = (\<lambda>_ n k. (Fail (NotFound n), k)), Get_PowerProfile = (\<lambda>_ n k. (Fail (NotFound n), k)), Get_Node = (\<lambda>n k. (Fail (NotFound n), k)),
     Get_PowerNodeState = (\<lambda>_ n k. (if n \<in> set k then Ret emptyStatus else Fail (NotFound n), k)),
     List_PowerProfiles = (\<lambda>k. (Ret [], k)), List_PowerNodeConfigs = (\<lambda>_ k. (Ret [], k)), List_Uncores = (\<lambda>_ k. (Ret [], k)),
     List_Nodes = (\<lambda>_ k. (Ret [\<lparr>node_meta = aged ''node'' 1, node_Capacity = [(''cpu'', 8000)]\<rparr>], k)), List_Pods = (\<lambda>_ _ k. (Ret [], k)),
     Update_NodeStatus = (\<lambda>_ k. (Ret (), k)), Patch_Status = (\<lambda>_ _ _ _ k. (Ret (), k)),
     List_PowerConfigs = (\<lambda>k. (Ret [], k)),
     Get_PowerConfig = (\<lambda>_ n k. (Ret \<lparr>pcfg_meta = aged n 1, pcfg_PowerNodeSelector = None, pcfg_Nodes = []\<rparr>, k)),
     Delete_PowerConfig = (\<lambda>_ k. (Ret (), k)), Delete_PowerProfile = (\<lambda>_ k. (Ret (), k)), List_PowerNodeStates = (\<lambda>k. (Ret [], k)),
     Create_PowerNodeState = (\<lambda>_ n k. (Ret (), n # k)), Delete_PowerNodeState = (\<lambda>_ k. (Ret (), k)),
     Get_DaemonSet = (\<lambda>_ n k. (Fail (NotFound n), k)), Create_DaemonSet = (\<lambda>_ k. (Ret (), k)), Update_DaemonSet = (\<lambda>_ k. (Ret (), k)),
     Delete_DaemonSet = (\<lambda>_ k. (Ret (), k)), Patch_ConfigStatus = (\<lambda>_ _ k. (Ret (), k))\<rparr>"

definition sampleDeployment :: deployment where
  "sampleDeployment = \<lparr>relatedImage = ''image:2'', manifest = Ret \<lparr>ds_NodeSelector = None,
     ds_Containers = [\<lparr>dsc_Name = NodeAgentDSName, dsc_Image = ''image:1''\<rparr>]\<rparr>\<rparr>"

theorem powerConfig_sets_up_witness:
  "\<exists>a'. powerConfig_Reconcile sampleDeployment managerClientSample \<lparr>req_Namespace = PowerNamespace, req_Name = ''config''\<rparr>
       \<lparr>mgr_kube = [], nodeData = NewPowerNodeData\<rparr> = (Ret RequeueAfter, a')
     \<and> mgr_kube a' = [''node-power-state''] \<and> distinct (PowerNodeList (nodeData a')) \<and> (\<exists>ds k. confirmed managerClientSample ds k \<and> runsImage ''image:2'' ds)"
proof -
  let ?run = "powerConfig_Reconcile sampleDeployment managerClientSample \<lparr>req_Namespace = PowerNamespace, req_Name = ''config''\<rparr>
       \<lparr>mgr_kube = [], nodeData = NewPowerNodeData\<rparr>"
  have "fst ?run = Ret RequeueAfter" "mgr_kube (snd ?run) = [''node-power-state'']" by code_simp+
  then have run: "?run = (Ret RequeueAfter, snd ?run)" "mgr_kube (snd ?run) = [''node-power-state'']" by (metis prod.collapse)+
  have "servesStates managerClientSample set" by (auto simp: servesStates_def managerClientSample_def)
  moreover have "distinct (PowerNodeList (nodeData \<lparr>mgr_kube = [] :: string list, nodeData = NewPowerNodeData\<rparr>))" by (simp add: NewPowerNodeData_def)
  moreover have "relatedImage sampleDeployment = ''image:2''" by (simp add: sampleDeployment_def)
  ultimately have "distinct (PowerNodeList (nodeData (snd ?run))) \<and> (\<exists>ds k. confirmed managerClientSample ds k \<and> runsImage ''image:2'' ds)"
    using powerConfig_sets_up [OF run(1), of set] by auto
  with run show ?thesis by blast
qed

end
