(* ===== verification/Webhooks.thy ===== *)
theory Webhooks
  imports API "HOL-Library.AList"
begin

text \<open>
  The validating admission webhooks (\<^verbatim>\<open>api/v1alpha1/*_webhook.go\<close>, \<^verbatim>\<open>webhook_helpers.go\<close>).  A validator
  reads the cluster through its client and answers with a denial or with none.  The order in which Go visits
  a map is an argument; the label selectors of apimachinery are a parameter.  The type switches on
  \<^verbatim>\<open>runtime.Object\<close> have no counterpart: the arguments are typed.
\<close>

section \<open>Field errors\<close>

datatype badValue = BadString string | BadUint nat | BadLabelSelector LabelSelector | BadNodeSelector NodeSelector

datatype fieldErr =
    field_Invalid string badValue string
  | field_NotFound string string
  | field_Duplicate string string
  | field_InternalError string gerr

text \<open>\<^verbatim>\<open>apierrors.NewInvalid\<close> with kind and name, \<^verbatim>\<open>apierrors.NewForbidden\<close> with name and reason.\<close>

datatype denial = NewInvalid string string "fieldErr list" | NewForbidden string string

text \<open>\<^verbatim>\<open>%q\<close> of an object name, which holds no character that needs escaping.\<close>

definition quoted :: "string \<Rightarrow> string" where
  "quoted n = CHR 0x22 # n @ [CHR 0x22]"

definition indexPath :: "string \<Rightarrow> nat \<Rightarrow> string" where
  "indexPath p i = p @ ''['' @ Itoa (int i) @ '']''"

section \<open>Helpers\<close>

abbreviation "defaultCPMNamespace \<equiv> ''power-manager''"

definition GetCPMNamespace :: "string \<Rightarrow> string" where
  "GetCPMNamespace env = (if env \<noteq> [] then env else defaultCPMNamespace)"

definition validateNamespace :: "string \<Rightarrow> string \<Rightarrow> string \<Rightarrow> fieldErr option" where
  "validateNamespace resourceNamespace expectedNamespace kind =
     (if resourceNamespace \<noteq> expectedNamespace
      then Some (field_Invalid ''metadata.namespace'' (BadString resourceNamespace)
        (kind @ '' must be created in namespace '' @ quoted expectedNamespace))
      else None)"

definition joinQuoted :: "string list \<Rightarrow> string" where
  "joinQuoted names = Join '', '' (map quoted names)"

text \<open>\<^verbatim>\<open>reflect.DeepEqual\<close>: maps by their entries, nil apart from empty.\<close>

definition labelsDeepEqual :: "labels option \<Rightarrow> labels option \<Rightarrow> bool" where
  "labelsDeepEqual a b = (case (a, b) of
      (None, None) \<Rightarrow> True
    | (Some x, Some y) \<Rightarrow> length x = length y \<and> list_all (\<lambda>(k, v). map_of y k = Some v) x
    | _ \<Rightarrow> False)"

definition selectorDeepEqual :: "NodeSelector \<Rightarrow> NodeSelector \<Rightarrow> bool" where
  "selectorDeepEqual a b \<longleftrightarrow>
     labelsDeepEqual (MatchLabels (nodeLabelSelector a)) (MatchLabels (nodeLabelSelector b))
     \<and> MatchExpressions (nodeLabelSelector a) = MatchExpressions (nodeLabelSelector b)"

definition identicalConflict :: "string \<Rightarrow> string" where
  "identicalConflict peerName = ''conflicts with '' @ quoted peerName @ '': identical nodeSelector''"

definition overlapConflict :: "string \<Rightarrow> Node list \<Rightarrow> string" where
  "overlapConflict peerName matching = ''conflicts with '' @ quoted peerName @ '': both select node(s) ''
     @ joinQuoted (map (meta_Name \<circ> node_meta) matching)"

text \<open>The second loop: peers whose selector differs, on the nodes the own selector selects.\<close>

fun checkPeers :: "selectors \<Rightarrow> Node list \<Rightarrow> (string \<times> NodeSelector) list \<Rightarrow> fieldErr + string list" where
  "checkPeers sel nodes [] = Inr []"
| "checkPeers sel nodes ((peerName, peerSelector) # rest) = (case sel (nodeLabelSelector peerSelector) of
      Inr matches \<Rightarrow>
        (let matching = filter (\<lambda>n. matches (meta_Labels (node_meta n))) nodes in
         case checkPeers sel nodes rest of
           Inl e \<Rightarrow> Inl e
         | Inr cs \<Rightarrow> Inr (if matching \<noteq> [] then overlapConflict peerName matching # cs else cs))
    | Inl e \<Rightarrow> Inl (field_InternalError ''spec.nodeSelector'' (Wrap (''parsing nodeSelector for '' @ peerName) e)))"

definition conflictErrors :: "NodeSelector \<Rightarrow> string list \<Rightarrow> fieldErr list" where
  "conflictErrors self conflicts = (if conflicts \<noteq> []
     then [field_Invalid ''spec.nodeSelector'' (BadNodeSelector self) (Join ''; '' conflicts)] else [])"

text \<open>The peers come in the order in which the first loop visits the map.\<close>

definition findNodeSelectorConflicts ::
    "selectors \<Rightarrow> 'k client \<Rightarrow> NodeSelector \<Rightarrow> (string \<times> NodeSelector) list \<Rightarrow> (fieldErr list, 'k) action" where
  "findNodeSelectorConflicts sel c self peers k = (case sel (nodeLabelSelector self) of
      Inl e \<Rightarrow> (Ret [field_Invalid ''spec.nodeSelector.labelSelector'' (BadLabelSelector (nodeLabelSelector self))
                    (''invalid label selector: '' @ ErrorText e)], k)
    | Inr selfLabelSelector \<Rightarrow>
        (let conflicts = map (\<lambda>(n, s). identicalConflict n) (filter (\<lambda>(n, s). selectorDeepEqual self s) peers);
             needNodeCheck = filter (\<lambda>(n, s). \<not> selectorDeepEqual self s) peers in
         if needNodeCheck = [] then (Ret (conflictErrors self conflicts), k)
         else andThen (attempt (List_Nodes c selfLabelSelector k)) (\<lambda>r k1. (case r of
             Inl e \<Rightarrow> (Ret [field_InternalError ''spec.nodeSelector'' (Wrap ''listing nodes'' e)], k1)
           | Inr nodes \<Rightarrow> (case checkPeers sel nodes needNodeCheck of
               Inl e \<Rightarrow> (Ret [e], k1)
             | Inr overlaps \<Rightarrow> (Ret (conflictErrors self (conflicts @ overlaps)), k1))))))"

text \<open>The map of the peers' selectors: all listed objects but the one of the own name.\<close>

definition peerSelectors :: "('o \<Rightarrow> ObjectMeta) \<Rightarrow> ('o \<Rightarrow> NodeSelector) \<Rightarrow> string \<Rightarrow> 'o list \<Rightarrow> (string \<times> NodeSelector) list" where
  "peerSelectors meta selector self items =
     foldl (\<lambda>m item. if meta_Name (meta item) = self then m
                     else AList.update (meta_Name (meta item)) (selector item) m) [] items"

type_synonym mapOrder = "(string \<times> NodeSelector) list \<Rightarrow> (string \<times> NodeSelector) list"

section \<open>PowerNodeConfig\<close>

text \<open>\<open>seen\<close> maps a core to the index of the group it was first seen in.\<close>

fun disjointGroup :: "nat \<Rightarrow> nat list \<Rightarrow> (nat \<times> nat) list \<Rightarrow> fieldErr list \<times> (nat \<times> nat) list" where
  "disjointGroup i [] seen = ([], seen)"
| "disjointGroup i (core # cores) seen = (case map_of seen core of
      Some prevIdx \<Rightarrow> (case disjointGroup i cores seen of
        (errs, seen') \<Rightarrow> (field_Invalid (indexPath ''spec.reservedCPUs'' i @ ''.cores'') (BadUint core)
          (''CPU '' @ Itoa (int core) @ '' already appears in '' @ indexPath ''reservedCPUs'' prevIdx) # errs, seen'))
    | None \<Rightarrow> disjointGroup i cores (AList.update core i seen))"

fun disjointFrom :: "nat \<Rightarrow> ReservedSpec list \<Rightarrow> (nat \<times> nat) list \<Rightarrow> fieldErr list" where
  "disjointFrom i [] seen = []"
| "disjointFrom i (rc # rcs) seen = (case disjointGroup i (rs_Cores rc) seen of
      (errs, seen') \<Rightarrow> errs @ disjointFrom (Suc i) rcs seen')"

definition validateReservedCPUDisjoint :: "ReservedSpec list \<Rightarrow> fieldErr list" where
  "validateReservedCPUDisjoint reserved = disjointFrom 0 reserved []"

definition profileLookupError :: "string \<Rightarrow> string \<Rightarrow> gerr \<Rightarrow> fieldErr" where
  "profileLookupError path name e =
     (if isNotFoundErr e then field_NotFound path name else field_InternalError path e)"

fun validateReservedProfiles :: "'k client \<Rightarrow> string \<Rightarrow> nat \<Rightarrow> ReservedSpec list \<Rightarrow> (fieldErr list, 'k) action" where
  "validateReservedProfiles c ns i [] k = (Ret [], k)"
| "validateReservedProfiles c ns i (rc # rcs) k =
     andThen (attempt (Get_PowerProfile c ns (rs_PowerProfile rc) k)) (\<lambda>r k1.
     andThen (validateReservedProfiles c ns (Suc i) rcs k1) (\<lambda>errs k2. (case r of
        Inl e \<Rightarrow> (Ret (profileLookupError (indexPath ''spec.reservedCPUs'' i @ ''.powerProfile'') (rs_PowerProfile rc) e # errs), k2)
      | Inr _ \<Rightarrow> (Ret errs, k2))))"

definition validatePowerProfiles :: "'k client \<Rightarrow> string \<Rightarrow> PowerNodeConfig \<Rightarrow> (fieldErr list, 'k) action" where
  "validatePowerProfiles c ns config k =
     (let shared = pncs_SharedPowerProfile (pnc_Spec config) in
      andThen (attempt (Get_PowerProfile c ns shared k)) (\<lambda>r k1.
      andThen (validateReservedProfiles c ns 0 (pncs_ReservedCPUs (pnc_Spec config)) k1) (\<lambda>errs k2.
        (Ret ((case r of
            Inl e \<Rightarrow> [profileLookupError ''spec.sharedPowerProfile'' shared e]
          | Inr sharedProfile \<Rightarrow>
              (if \<not> pps_Shared (pp_Spec sharedProfile)
               then [field_Invalid ''spec.sharedPowerProfile'' (BadString shared)
                       ''referenced PowerProfile must have spec.shared set to true'']
               else [])) @ errs), k2))))"

definition powerNodeConfig_validateNodeSelectorConflicts ::
    "selectors \<Rightarrow> mapOrder \<Rightarrow> 'k client \<Rightarrow> string \<Rightarrow> PowerNodeConfig \<Rightarrow> (fieldErr list, 'k) action" where
  "powerNodeConfig_validateNodeSelectorConflicts sel order c ns config k =
     andThen (attempt (List_PowerNodeConfigs c ns k)) (\<lambda>r k1. (case r of
        Inl e \<Rightarrow> (Ret [field_InternalError ''spec.nodeSelector'' e], k1)
      | Inr items \<Rightarrow> findNodeSelectorConflicts sel c (pncs_NodeSelector (pnc_Spec config))
          (order (peerSelectors pnc_meta (pncs_NodeSelector \<circ> pnc_Spec) (meta_Name (pnc_meta config)) items)) k1))"

definition powerNodeConfig_validateCreateOrUpdate ::
    "selectors \<Rightarrow> mapOrder \<Rightarrow> 'k client \<Rightarrow> string \<Rightarrow> PowerNodeConfig \<Rightarrow> (denial option, 'k) action" where
  "powerNodeConfig_validateCreateOrUpdate sel order c ns config k =
     andThen (validatePowerProfiles c ns config k) (\<lambda>profileErrs k1.
     andThen (powerNodeConfig_validateNodeSelectorConflicts sel order c ns config k1) (\<lambda>selectorErrs k2.
       (let allErrs = validateReservedCPUDisjoint (pncs_ReservedCPUs (pnc_Spec config)) @ profileErrs @ selectorErrs in
        (Ret (if allErrs \<noteq> [] then Some (NewInvalid ''PowerNodeConfig'' (meta_Name (pnc_meta config)) allErrs) else None), k2))))"

definition powerNodeConfig_ValidateCreate ::
    "selectors \<Rightarrow> mapOrder \<Rightarrow> 'k client \<Rightarrow> string \<Rightarrow> PowerNodeConfig \<Rightarrow> (denial option, 'k) action" where
  "powerNodeConfig_ValidateCreate sel order c ns config k =
     (case validateNamespace (meta_Namespace (pnc_meta config)) ns ''PowerNodeConfig'' of
        Some err \<Rightarrow> (Ret (Some (NewInvalid ''PowerNodeConfig'' (meta_Name (pnc_meta config)) [err])), k)
      | None \<Rightarrow> powerNodeConfig_validateCreateOrUpdate sel order c ns config k)"

definition powerNodeConfig_ValidateUpdate ::
    "selectors \<Rightarrow> mapOrder \<Rightarrow> 'k client \<Rightarrow> string \<Rightarrow> PowerNodeConfig \<Rightarrow> PowerNodeConfig \<Rightarrow> (denial option, 'k) action" where
  "powerNodeConfig_ValidateUpdate sel order c ns oldConfig config k =
     powerNodeConfig_validateCreateOrUpdate sel order c ns config k"

definition powerNodeConfig_ValidateDelete :: "PowerNodeConfig \<Rightarrow> (denial option, 'k) action" where
  "powerNodeConfig_ValidateDelete config k = (Ret None, k)"

section \<open>Uncore\<close>

text \<open>Selectors of a whole package and of one die are recorded apart.\<close>

fun validateDieSelectorsFrom ::
    "nat \<Rightarrow> DieSelector list \<Rightarrow> (nat \<times> nat) list \<Rightarrow> ((nat \<times> nat) \<times> nat) list \<Rightarrow> fieldErr list" where
  "validateDieSelectorsFrom i [] seenPkgLevel seenDieLevel = []"
| "validateDieSelectorsFrom i (ds # rest) seenPkgLevel seenDieLevel =
     (let idxPath = indexPath ''spec.dieSelector'' i;
          order = (case (ds_Min ds, ds_Max ds) of
             (Some mn, Some mx) \<Rightarrow> (if mn > mx then [field_Invalid (idxPath @ ''.min'') (BadUint mn)
                (''min ('' @ Itoa (int mn) @ '') must be <= max ('' @ Itoa (int mx) @ '')'')] else [])
           | _ \<Rightarrow> []) in
      order @ (case ds_Package ds of
         None \<Rightarrow> validateDieSelectorsFrom (Suc i) rest seenPkgLevel seenDieLevel
       | Some pkg \<Rightarrow> (case ds_Die ds of
           None \<Rightarrow> (case map_of seenPkgLevel pkg of
               Some prevIdx \<Rightarrow> field_Duplicate idxPath (''duplicate: package '' @ Itoa (int pkg) @ '' already specified in ''
                   @ indexPath ''dieSelector'' prevIdx)
                 # validateDieSelectorsFrom (Suc i) rest seenPkgLevel seenDieLevel
             | None \<Rightarrow> validateDieSelectorsFrom (Suc i) rest (AList.update pkg i seenPkgLevel) seenDieLevel)
         | Some die \<Rightarrow> (case map_of seenDieLevel (pkg, die) of
               Some prevIdx \<Rightarrow> field_Duplicate idxPath (''duplicate: package '' @ Itoa (int pkg) @ '', die '' @ Itoa (int die)
                   @ '' already specified in '' @ indexPath ''dieSelector'' prevIdx)
                 # validateDieSelectorsFrom (Suc i) rest seenPkgLevel seenDieLevel
             | None \<Rightarrow> validateDieSelectorsFrom (Suc i) rest seenPkgLevel (AList.update (pkg, die) i seenDieLevel)))))"

definition validateDieSelectors :: "DieSelector list \<Rightarrow> fieldErr list" where
  "validateDieSelectors selectors = validateDieSelectorsFrom 0 selectors [] []"

definition uncore_validateNodeSelectorConflicts ::
    "selectors \<Rightarrow> mapOrder \<Rightarrow> 'k client \<Rightarrow> string \<Rightarrow> Uncore \<Rightarrow> (fieldErr list, 'k) action" where
  "uncore_validateNodeSelectorConflicts sel order c ns uncore k =
     andThen (attempt (List_Uncores c ns k)) (\<lambda>r k1. (case r of
        Inl e \<Rightarrow> (Ret [field_InternalError ''spec.nodeSelector'' e], k1)
      | Inr items \<Rightarrow> findNodeSelectorConflicts sel c (us_NodeSelector (uncore_Spec uncore))
          (order (peerSelectors uncore_meta (us_NodeSelector \<circ> uncore_Spec) (meta_Name (uncore_meta uncore)) items)) k1))"

definition sysFreqErrors :: "UncoreSpec \<Rightarrow> fieldErr list" where
  "sysFreqErrors spec = (case (us_SysMin spec, us_SysMax spec) of
      (Some mn, Some mx) \<Rightarrow> (if mn > mx then [field_Invalid ''spec.sysMin'' (BadUint mn)
         (''sysMin ('' @ Itoa (int mn) @ '') must be <= sysMax ('' @ Itoa (int mx) @ '')'')] else [])
    | _ \<Rightarrow> [])"

definition uncore_validateCreateOrUpdate ::
    "selectors \<Rightarrow> mapOrder \<Rightarrow> 'k client \<Rightarrow> string \<Rightarrow> Uncore \<Rightarrow> (denial option, 'k) action" where
  "uncore_validateCreateOrUpdate sel order c ns uncore k =
     (let spec = uncore_Spec uncore;
          dieErrs = (case us_DieSelectors spec of Some ds \<Rightarrow> validateDieSelectors ds | None \<Rightarrow> []) in
      andThen (uncore_validateNodeSelectorConflicts sel order c ns uncore k) (\<lambda>selectorErrs k1.
        (let allErrs = sysFreqErrors spec @ dieErrs @ selectorErrs in
         (Ret (if allErrs \<noteq> [] then Some (NewInvalid ''Uncore'' (meta_Name (uncore_meta uncore)) allErrs) else None), k1))))"

definition uncore_ValidateCreate ::
    "selectors \<Rightarrow> mapOrder \<Rightarrow> 'k client \<Rightarrow> string \<Rightarrow> Uncore \<Rightarrow> (denial option, 'k) action" where
  "uncore_ValidateCreate sel order c ns uncore k =
     (case validateNamespace (meta_Namespace (uncore_meta uncore)) ns ''Uncore'' of
        Some err \<Rightarrow> (Ret (Some (NewInvalid ''Uncore'' (meta_Name (uncore_meta uncore)) [err])), k)
      | None \<Rightarrow> uncore_validateCreateOrUpdate sel order c ns uncore k)"

definition uncore_ValidateUpdate ::
    "selectors \<Rightarrow> mapOrder \<Rightarrow> 'k client \<Rightarrow> string \<Rightarrow> Uncore \<Rightarrow> Uncore \<Rightarrow> (denial option, 'k) action" where
  "uncore_ValidateUpdate sel order c ns oldUncore uncore k = uncore_validateCreateOrUpdate sel order c ns uncore k"

definition uncore_ValidateDelete :: "Uncore \<Rightarrow> (denial option, 'k) action" where
  "uncore_ValidateDelete uncore k = (Ret None, k)"

section \<open>PowerProfile\<close>

abbreviation "extendedResourcePrefix \<equiv> ''power.cluster-power-manager.github.io/''"
abbreviation "podPowerProfileIndex \<equiv> ''.spec.containers.resources.powerProfile''"

definition extractPowerProfiles :: "Pod \<Rightarrow> string list" where
  "extractPowerProfiles pod =
     (if pod_Phase pod = ''Succeeded'' \<or> pod_Phase pod = ''Failed'' then []
      else concat (map (\<lambda>c. map (\<lambda>rName. TrimPrefix rName extendedResourcePrefix)
             (filter (\<lambda>rName. HasPrefix rName extendedResourcePrefix) (map fst (ctr_Requests c))))
           (pod_InitContainers pod @ pod_Containers pod)))"

text \<open>The first reserved group that names the profile.\<close>

fun reservedReference :: "string \<Rightarrow> nat \<Rightarrow> ReservedSpec list \<Rightarrow> nat option" where
  "reservedReference name i [] = None"
| "reservedReference name i (rc # rcs) = (if rs_PowerProfile rc = name then Some i else reservedReference name (Suc i) rcs)"

definition configReference :: "string \<Rightarrow> bool \<Rightarrow> PowerNodeConfig \<Rightarrow> string list" where
  "configReference name sharedOnly pnc =
     (if pncs_SharedPowerProfile (pnc_Spec pnc) = name then [meta_Name (pnc_meta pnc) @ '' (sharedPowerProfile)'']
      else if sharedOnly then []
      else (case reservedReference name 0 (pncs_ReservedCPUs (pnc_Spec pnc)) of
          Some i \<Rightarrow> [meta_Name (pnc_meta pnc) @ '' ('' @ indexPath ''reservedCPUs'' i @ '')'']
        | None \<Rightarrow> []))"

definition validatePowerNodeConfigReferences ::
    "'k client \<Rightarrow> string \<Rightarrow> PowerProfile \<Rightarrow> bool \<Rightarrow> (unit, 'k) action" where
  "validatePowerNodeConfigReferences c ns profile sharedOnly k =
     andThen (wrapErr ''listing PowerNodeConfigs'' (List_PowerNodeConfigs c ns k)) (\<lambda>items k1.
       (let refs = concat (map (configReference (meta_Name (pp_meta profile)) sharedOnly) items) in
        if refs \<noteq> [] then (Fail (Msg (''referenced by PowerNodeConfig(s): '' @ Join '', '' refs)), k1) else (Ret (), k1)))"

definition validatePodReferences :: "'k client \<Rightarrow> PowerProfile \<Rightarrow> (unit, 'k) action" where
  "validatePodReferences c profile k =
     andThen (wrapErr ''listing Pods'' (List_Pods c podPowerProfileIndex (meta_Name (pp_meta profile)) k)) (\<lambda>pods k1.
       (let refs = map (\<lambda>pod. meta_Namespace (pod_meta pod) @ ''/'' @ meta_Name (pod_meta pod)) pods in
        if refs \<noteq> [] then (Fail (Msg (''referenced by Pod(s): '' @ Join '', '' refs)), k1) else (Ret (), k1)))"

definition powerProfile_ValidateCreate :: "string \<Rightarrow> PowerProfile \<Rightarrow> (denial option, 'k) action" where
  "powerProfile_ValidateCreate ns profile k =
     (Ret (case validateNamespace (meta_Namespace (pp_meta profile)) ns ''PowerProfile'' of
        Some err \<Rightarrow> Some (NewInvalid ''PowerProfile'' (meta_Name (pp_meta profile)) [err])
      | None \<Rightarrow> None), k)"

definition powerProfile_ValidateUpdate ::
    "'k client \<Rightarrow> string \<Rightarrow> PowerProfile \<Rightarrow> PowerProfile \<Rightarrow> (denial option, 'k) action" where
  "powerProfile_ValidateUpdate c ns oldProfile newProfile k =
     (if pps_Shared (pp_Spec oldProfile) \<and> \<not> pps_Shared (pp_Spec newProfile)
      then andThen (attempt (validatePowerNodeConfigReferences c ns newProfile True k)) (\<lambda>r k1. (case r of
             Inl err \<Rightarrow> (Ret (Some (NewForbidden (meta_Name (pp_meta newProfile))
                 (''cannot change spec.shared from true to false, '' @ ErrorText err))), k1)
           | Inr _ \<Rightarrow> (Ret None, k1)))
      else (Ret None, k))"

definition reasonOf :: "gerr + unit \<Rightarrow> string list" where
  "reasonOf r = (case r of Inl err \<Rightarrow> [ErrorText err] | Inr _ \<Rightarrow> [])"

definition powerProfile_ValidateDelete :: "'k client \<Rightarrow> string \<Rightarrow> PowerProfile \<Rightarrow> (denial option, 'k) action" where
  "powerProfile_ValidateDelete c ns profile k =
     andThen (attempt (validatePowerNodeConfigReferences c ns profile False k)) (\<lambda>r1 k1.
     andThen (attempt (validatePodReferences c profile k1)) (\<lambda>r2 k2.
       (let reasons = reasonOf r1 @ reasonOf r2 in
        (Ret (if reasons \<noteq> [] then Some (NewForbidden (meta_Name (pp_meta profile))
            (''cannot delete PowerProfile, '' @ Join ''; '' reasons)) else None), k2))))"

section \<open>Selectors\<close>

text \<open>Two selectors that are apart: not identical, well formed, and no node has labels that match both.\<close>

definition separate :: "selectors \<Rightarrow> Node list \<Rightarrow> NodeSelector \<Rightarrow> NodeSelector \<Rightarrow> bool" where
  "separate sel nodes a b \<longleftrightarrow> \<not> selectorDeepEqual a b \<and>
     (case (sel (nodeLabelSelector a), sel (nodeLabelSelector b)) of
        (Inr p, Inr q) \<Rightarrow> list_all (\<lambda>n. \<not> (p (meta_Labels (node_meta n)) \<and> q (meta_Labels (node_meta n)))) nodes
      | _ \<Rightarrow> False)"

lemma checkPeers_clear:
  "checkPeers sel nodes peers = Inr [] \<longleftrightarrow>
     (\<forall>(n, s) \<in> set peers. \<exists>q. sel (nodeLabelSelector s) = Inr q \<and> (\<forall>x \<in> set nodes. \<not> q (meta_Labels (node_meta x))))"
proof (induction peers)
  case (Cons p peers)
  obtain n s where p: "p = (n, s)" by (cases p)
  show ?case
  proof (cases "sel (nodeLabelSelector s)")
    case (Inr q)
    then have "checkPeers sel nodes (p # peers) = Inr [] \<longleftrightarrow>
        checkPeers sel nodes peers = Inr [] \<and> (\<forall>x \<in> set nodes. \<not> q (meta_Labels (node_meta x)))"
      by (auto simp: p Let_def filter_empty_conv split: sum.splits)
    then show ?thesis by (simp only: Cons.IH) (auto simp: p Inr)
  qed (simp add: p)
qed simp

lemma conflictErrors_Nil [simp]: "conflictErrors s cs = [] \<longleftrightarrow> cs = []"
  by (simp add: conflictErrors_def)

lemma separate_Inr:
  assumes "sel (nodeLabelSelector a) = Inr p"
  shows "separate sel nodes a b \<longleftrightarrow> \<not> selectorDeepEqual a b \<and> (\<exists>q. sel (nodeLabelSelector b) = Inr q
     \<and> (\<forall>x \<in> set (filter (p \<circ> meta_Labels \<circ> node_meta) nodes). \<not> q (meta_Labels (node_meta x))))"
  using assms by (cases "sel (nodeLabelSelector b)") (auto simp: separate_def list_all_iff)

lemma findNodeSelectorConflicts_clear:
  assumes "\<And>p. List_Nodes c p k = (Ret (filter (p \<circ> meta_Labels \<circ> node_meta) nodes), k)"
  shows "findNodeSelectorConflicts sel c self peers k = (Ret [], k) \<longleftrightarrow>
     (\<exists>p. sel (nodeLabelSelector self) = Inr p) \<and> (\<forall>(n, s) \<in> set peers. separate sel nodes self s)"
proof (cases "sel (nodeLabelSelector self)")
  case (Inr p)
  let ?need = "filter (\<lambda>(n, s). \<not> selectorDeepEqual self s) peers"
  have "findNodeSelectorConflicts sel c self peers k = (Ret [], k) \<longleftrightarrow>
      (\<forall>(n, s) \<in> set peers. \<not> selectorDeepEqual self s)
      \<and> checkPeers sel (filter (p \<circ> meta_Labels \<circ> node_meta) nodes) ?need = Inr []"
  proof (cases "?need = []")
    case True
    then show ?thesis using Inr by (auto simp: findNodeSelectorConflicts_def Let_def filter_empty_conv)
  next
    case False
    then show ?thesis using Inr
      by (simp add: findNodeSelectorConflicts_def Let_def assms filter_empty_conv case_prod_unfold split: sum.splits)
        auto
  qed
  also have "\<dots> \<longleftrightarrow> (\<forall>(n, s) \<in> set peers. separate sel nodes self s)"
    unfolding checkPeers_clear separate_Inr [of sel self p, OF Inr] by auto
  finally show ?thesis using Inr by simp
qed (simp add: findNodeSelectorConflicts_def)

lemma findNodeSelectorConflicts_Ret:
  assumes "\<And>p. List_Nodes c p k = (Ret (filter (p \<circ> meta_Labels \<circ> node_meta) nodes), k)"
  obtains errs where "findNodeSelectorConflicts sel c self peers k = (Ret errs, k)"
  by (cases "findNodeSelectorConflicts sel c self peers k")
    (auto simp: findNodeSelectorConflicts_def Let_def assms split: sum.splits if_splits)

lemma update_new_key: "k \<notin> fst ` set m \<Longrightarrow> AList.update k v m = m @ [(k, v)]"
  by (induction m) auto

lemma peerSelectors_foldl:
  assumes "distinct (map f items)" "f ` set items \<inter> fst ` set m = {}"
  shows "foldl (\<lambda>m item. if f item = self then m else AList.update (f item) (g item) m) m items
    = m @ map (\<lambda>i. (f i, g i)) (filter (\<lambda>i. f i \<noteq> self) items)"
  using assms by (induction items arbitrary: m) (auto simp: update_new_key)

lemma peerSelectors_eq:
  assumes "distinct (map (meta_Name \<circ> meta) items)"
  shows "peerSelectors meta selector self items
    = map (\<lambda>i. (meta_Name (meta i), selector i)) (filter (\<lambda>i. meta_Name (meta i) \<noteq> self) items)"
  using peerSelectors_foldl [of "\<lambda>i. meta_Name (meta i)" items "[]" self selector] assms
  by (simp add: peerSelectors_def comp_def)

section \<open>Reserved cores\<close>

lemma disjointGroup_clear:
  "fst (disjointGroup i cores seen) = [] \<longleftrightarrow> distinct cores \<and> set cores \<inter> fst ` set seen = {}"
proof (induction i cores seen rule: disjointGroup.induct)
  case (2 i core cores seen)
  show ?case
  proof (cases "map_of seen core")
    case None
    then have "core \<notin> fst ` set seen" by (simp add: map_of_eq_None_iff)
    then show ?thesis using 2(1) [OF None] None by (auto simp: dom_update)
  next
    case (Some a)
    then have "core \<in> fst ` set seen" by (metis map_of_eq_None_iff option.distinct(1))
    with Some show ?thesis by (auto split: prod.splits)
  qed
qed simp

lemma disjointGroup_seen:
  "fst ` set (snd (disjointGroup i cores seen)) = fst ` set seen \<union> set cores"
proof (induction i cores seen rule: disjointGroup.induct)
  case (2 i core cores seen)
  show ?case
  proof (cases "map_of seen core")
    case None
    then show ?thesis using 2(1) [OF None] by (auto simp: dom_update)
  next
    case (Some a)
    then have "core \<in> fst ` set seen" by (metis map_of_eq_None_iff option.distinct(1))
    moreover have "fst ` set (snd (disjointGroup i (core # cores) seen)) = fst ` set (snd (disjointGroup i cores seen))"
      using Some by (simp split: prod.splits)
    ultimately show ?thesis using 2(2) [OF Some] by auto
  qed
qed simp

lemma disjointFrom_clear:
  "disjointFrom i rcs seen = [] \<longleftrightarrow>
     distinct (concat (map rs_Cores rcs)) \<and> set (concat (map rs_Cores rcs)) \<inter> fst ` set seen = {}"
proof (induction rcs arbitrary: i seen)
  case (Cons rc rcs)
  obtain errs seen' where d: "disjointGroup i (rs_Cores rc) seen = (errs, seen')" by (cases "disjointGroup i (rs_Cores rc) seen")
  show ?case
    using disjointGroup_clear [of i "rs_Cores rc" seen] disjointGroup_seen [of i "rs_Cores rc" seen] d
      Cons.IH [of "Suc i" seen'] by auto
qed simp

lemma validateReservedCPUDisjoint_clear:
  "validateReservedCPUDisjoint rcs = [] \<longleftrightarrow> distinct (concat (map rs_Cores rcs))"
  by (simp add: validateReservedCPUDisjoint_def disjointFrom_clear)


section \<open>Die selectors\<close>

definition freqOrdered :: "nat option \<Rightarrow> nat option \<Rightarrow> bool" where
  "freqOrdered mn mx = (case (mn, mx) of (Some a, Some b) \<Rightarrow> a \<le> b | _ \<Rightarrow> True)"

text \<open>What a die selector names: a package, or a package and a die.\<close>

definition dieTargets :: "DieSelector list \<Rightarrow> (nat \<times> nat option) list" where
  "dieTargets dss = map (\<lambda>d. (the (ds_Package d), ds_Die d)) (filter (\<lambda>d. ds_Package d \<noteq> None) dss)"

definition seenTargets :: "(nat \<times> nat) list \<Rightarrow> ((nat \<times> nat) \<times> nat) list \<Rightarrow> (nat \<times> nat option) set" where
  "seenTargets sp sd = (\<lambda>(p, i). (p, None)) ` set sp \<union> (\<lambda>((p, d), i). (p, Some d)) ` set sd"

lemma seenTargets_iff:
  "(p, None) \<in> seenTargets sp sd \<longleftrightarrow> p \<in> fst ` set sp"
  "(p, Some d) \<in> seenTargets sp sd \<longleftrightarrow> (p, d) \<in> fst ` set sd"
  by (force simp: seenTargets_def)+

lemma seenTargets_update:
  "x \<in> seenTargets (AList.update p i sp) sd \<longleftrightarrow> x = (p, None) \<or> x \<in> seenTargets sp sd"
  "x \<in> seenTargets sp (AList.update (p, d) i sd) \<longleftrightarrow> x = (p, Some d) \<or> x \<in> seenTargets sp sd"
  by (cases x; cases "snd x"; auto simp: seenTargets_iff dom_update)+

lemma dieTargets_Cons [simp]:
  "dieTargets (d # ds) = (case ds_Package d of None \<Rightarrow> dieTargets ds | Some p \<Rightarrow> (p, ds_Die d) # dieTargets ds)"
  by (auto simp: dieTargets_def split: option.splits)

lemma map_of_seen: "map_of m x = None \<longleftrightarrow> x \<notin> fst ` set m"
  by (rule map_of_eq_None_iff)

lemma validateDieSelectorsFrom_clear:
  "validateDieSelectorsFrom i dss sp sd = [] \<longleftrightarrow>
     list_all (\<lambda>d. freqOrdered (ds_Min d) (ds_Max d)) dss
     \<and> distinct (dieTargets dss) \<and> set (dieTargets dss) \<inter> seenTargets sp sd = {}"
proof (induction dss arbitrary: i sp sd)
  case (Cons d dss)
  have o: "(case ds_Min d of None \<Rightarrow> [] | Some mn \<Rightarrow> (case ds_Max d of None \<Rightarrow> []
      | Some mx \<Rightarrow> if mx < mn then [g mn mx] else [])) = [] \<longleftrightarrow> freqOrdered (ds_Min d) (ds_Max d)" for g :: "nat \<Rightarrow> nat \<Rightarrow> fieldErr"
    by (auto simp: freqOrdered_def split: option.splits)
  show ?case
  proof (cases "ds_Package d")
    case None
    then show ?thesis using Cons.IH [of "Suc i" sp sd] by (simp add: Let_def o)
  next
    case p: (Some p)
    show ?thesis
    proof (cases "ds_Die d")
      case None
      show ?thesis
      proof (cases "map_of sp p")
        case n: None
        then have "(p, None) \<notin> seenTargets sp sd" by (simp add: seenTargets_iff map_of_seen)
        then show ?thesis using p None n Cons.IH [of "Suc i" "AList.update p i sp" sd]
          by (auto simp: Let_def o seenTargets_update disjoint_iff)
      next
        case (Some j)
        then have "(p, None) \<in> seenTargets sp sd" by (metis map_of_seen option.distinct(1) seenTargets_iff(1))
        then show ?thesis using p None Some by (auto simp: Let_def)
      qed
    next
      case (Some e)
      show ?thesis
      proof (cases "map_of sd (p, e)")
        case n: None
        then have "(p, Some e) \<notin> seenTargets sp sd" by (simp add: seenTargets_iff map_of_seen)
        then show ?thesis using p Some n Cons.IH [of "Suc i" sp "AList.update (p, e) i sd"]
          by (auto simp: Let_def o seenTargets_update disjoint_iff)
      next
        case j: (Some j)
        then have "(p, Some e) \<in> seenTargets sp sd" by (metis map_of_seen option.distinct(1) seenTargets_iff(2))
        then show ?thesis using p Some j by (auto simp: Let_def)
      qed
    qed
  qed
qed (simp add: dieTargets_def)

lemma validateDieSelectors_clear:
  "validateDieSelectors dss = [] \<longleftrightarrow>
     list_all (\<lambda>d. freqOrdered (ds_Min d) (ds_Max d)) dss \<and> distinct (dieTargets dss)"
  by (simp add: validateDieSelectors_def validateDieSelectorsFrom_clear seenTargets_def)

end
