(* ===== verification/Admission.thy ===== *)
theory Admission
  imports Webhooks
begin

text \<open>
  What the webhooks admit, on a cluster their client reports truthfully, and what this keeps of the cluster: references
  from node configurations to profiles never dangle.
\<close>

section \<open>A cluster and its objects\<close>

text \<open>
  The objects the webhooks read, those of the operator's namespace, and all nodes and pods.  A client
  \<^emph>\<open>serves\<close> a cluster if its reads report the objects and change nothing: names that are not there are not
  found, nodes are listed by their labels, pods by the index of the profiles they request.
\<close>

record cluster =
  cl_Profiles :: "PowerProfile list"
  cl_Configs :: "PowerNodeConfig list"
  cl_Uncores :: "Uncore list"
  cl_Nodes :: "Node list"
  cl_Pods :: "Pod list"

definition profileNamed :: "cluster \<Rightarrow> string \<Rightarrow> PowerProfile option" where
  "profileNamed k n = find (\<lambda>p. meta_Name (pp_meta p) = n) (cl_Profiles k)"

definition serves :: "cluster client \<Rightarrow> string \<Rightarrow> bool" where
  "serves c ns \<longleftrightarrow> (\<forall>k.
     (\<forall>n. Get_PowerProfile c ns n k = ((case profileNamed k n of Some p \<Rightarrow> Ret p | None \<Rightarrow> Fail (NotFound n)), k))
     \<and> List_PowerNodeConfigs c ns k = (Ret (cl_Configs k), k)
     \<and> List_Uncores c ns k = (Ret (cl_Uncores k), k)
     \<and> (\<forall>p. List_Nodes c p k = (Ret (filter (p \<circ> meta_Labels \<circ> node_meta) (cl_Nodes k)), k))
     \<and> (\<forall>n. List_Pods c podPowerProfileIndex n k = (Ret (filter (\<lambda>pod. n \<in> set (extractPowerProfiles pod)) (cl_Pods k)), k)))"

lemma servesD:
  assumes "serves c ns"
  shows "Get_PowerProfile c ns n k = ((case profileNamed k n of Some p \<Rightarrow> Ret p | None \<Rightarrow> Fail (NotFound n)), k)"
    and "List_PowerNodeConfigs c ns k = (Ret (cl_Configs k), k)"
    and "List_Uncores c ns k = (Ret (cl_Uncores k), k)"
    and "List_Nodes c p k = (Ret (filter (p \<circ> meta_Labels \<circ> node_meta) (cl_Nodes k)), k)"
    and "List_Pods c podPowerProfileIndex n k = (Ret (filter (\<lambda>pod. n \<in> set (extractPowerProfiles pod)) (cl_Pods k)), k)"
  using assms by (simp_all add: serves_def)

text \<open>What a configuration needs of the profiles.\<close>

definition profilesOk :: "cluster \<Rightarrow> PowerNodeConfigSpec \<Rightarrow> bool" where
  "profilesOk k spec \<longleftrightarrow>
     (case profileNamed k (pncs_SharedPowerProfile spec) of Some p \<Rightarrow> pps_Shared (pp_Spec p) | None \<Rightarrow> False)
     \<and> list_all (\<lambda>rc. profileNamed k (rs_PowerProfile rc) \<noteq> None) (pncs_ReservedCPUs spec)"

definition coresOk :: "PowerNodeConfigSpec \<Rightarrow> bool" where
  "coresOk spec \<longleftrightarrow> distinct (concat (map rs_Cores (pncs_ReservedCPUs spec)))"

lemma validateReservedProfiles_result:
  assumes "serves c ns"
  shows "\<exists>errs. validateReservedProfiles c ns i rcs k = (Ret errs, k)
     \<and> (errs = [] \<longleftrightarrow> list_all (\<lambda>rc. profileNamed k (rs_PowerProfile rc) \<noteq> None) rcs)"
proof (induction rcs arbitrary: i)
  case (Cons rc rcs)
  from Cons.IH [of "Suc i"] obtain errs where "validateReservedProfiles c ns (Suc i) rcs k = (Ret errs, k)"
    "errs = [] \<longleftrightarrow> list_all (\<lambda>rc. profileNamed k (rs_PowerProfile rc) \<noteq> None) rcs" by auto
  then show ?case by (cases "profileNamed k (rs_PowerProfile rc)") (simp_all add: servesD [OF assms])
qed simp

lemma validatePowerProfiles_result:
  assumes "serves c ns"
  shows "\<exists>errs. validatePowerProfiles c ns config k = (Ret errs, k) \<and> (errs = [] \<longleftrightarrow> profilesOk k (pnc_Spec config))"
  using validateReservedProfiles_result [OF assms, of 0 "pncs_ReservedCPUs (pnc_Spec config)" k]
  by (auto simp: validatePowerProfiles_def profilesOk_def servesD [OF assms] Let_def split: option.splits)

lemma selectorConflicts_result:
  assumes "serves c ns"
  shows "\<exists>errs. findNodeSelectorConflicts sel c self peers k = (Ret errs, k) \<and> (errs = [] \<longleftrightarrow>
     (\<exists>p. sel (nodeLabelSelector self) = Inr p) \<and> (\<forall>(n, s) \<in> set peers. separate sel (cl_Nodes k) self s))"
  using findNodeSelectorConflicts_clear [of c k "cl_Nodes k" sel self peers, OF servesD(4) [OF assms]]
    findNodeSelectorConflicts_Ret [of c k "cl_Nodes k" sel self peers, OF servesD(4) [OF assms]]
  by (metis gores.inject(1) prod.inject)

text \<open>A selector that is well formed and apart from the selectors of the objects of another name.\<close>

definition selectorOk :: "selectors \<Rightarrow> Node list \<Rightarrow> ('o \<Rightarrow> ObjectMeta) \<Rightarrow> ('o \<Rightarrow> NodeSelector) \<Rightarrow> 'o list \<Rightarrow> 'o \<Rightarrow> bool" where
  "selectorOk sel nodes meta selector items x \<longleftrightarrow> (\<exists>p. sel (nodeLabelSelector (selector x)) = Inr p)
     \<and> (\<forall>y \<in> set items. meta_Name (meta y) \<noteq> meta_Name (meta x) \<longrightarrow> separate sel nodes (selector x) (selector y))"

lemma selectorConflicts_peers:
  assumes "serves c ns" and "\<And>m. set (order m) = set m" and "distinct (map (meta_Name \<circ> meta) items)"
  shows "\<exists>errs. findNodeSelectorConflicts sel c (selector x) (order (peerSelectors meta selector (meta_Name (meta x)) items)) k = (Ret errs, k)
     \<and> (errs = [] \<longleftrightarrow> selectorOk sel (cl_Nodes k) meta selector items x)"
proof -
  have "(\<forall>(n, s) \<in> set (order (peerSelectors meta selector (meta_Name (meta x)) items)). separate sel (cl_Nodes k) (selector x) s)
      \<longleftrightarrow> (\<forall>y \<in> set items. meta_Name (meta y) \<noteq> meta_Name (meta x) \<longrightarrow> separate sel (cl_Nodes k) (selector x) (selector y))"
    by (auto simp: assms(2) peerSelectors_eq [OF assms(3)])
  then show ?thesis
    using selectorConflicts_result [OF assms(1), of sel "selector x" "order (peerSelectors meta selector (meta_Name (meta x)) items)" k]
    by (simp add: selectorOk_def)
qed

abbreviation "configSelectorOk sel k config \<equiv>
  selectorOk sel (cl_Nodes k) pnc_meta (pncs_NodeSelector \<circ> pnc_Spec) (cl_Configs k) config"

abbreviation "uncoreSelectorOk sel k uncore \<equiv>
  selectorOk sel (cl_Nodes k) uncore_meta (us_NodeSelector \<circ> uncore_Spec) (cl_Uncores k) uncore"

lemma powerNodeConfig_validate_result:
  assumes "serves c ns" and "\<And>m. set (order m) = set m" and "distinct (map (meta_Name \<circ> pnc_meta) (cl_Configs k))"
  shows "\<exists>d. powerNodeConfig_validateCreateOrUpdate sel order c ns config k = (Ret d, k)
     \<and> (d = None \<longleftrightarrow> coresOk (pnc_Spec config) \<and> profilesOk k (pnc_Spec config) \<and> configSelectorOk sel k config)"
proof -
  from validatePowerProfiles_result [OF assms(1), of config k] obtain e1 where e1:
    "validatePowerProfiles c ns config k = (Ret e1, k)" "e1 = [] \<longleftrightarrow> profilesOk k (pnc_Spec config)" by auto
  from selectorConflicts_peers [OF assms, of sel "pncs_NodeSelector \<circ> pnc_Spec" config k] obtain e2 where e2:
    "powerNodeConfig_validateNodeSelectorConflicts sel order c ns config k = (Ret e2, k)"
    "e2 = [] \<longleftrightarrow> configSelectorOk sel k config"
    by (auto simp: powerNodeConfig_validateNodeSelectorConflicts_def servesD [OF assms(1)])
  from e1 e2 show ?thesis
    by (simp add: powerNodeConfig_validateCreateOrUpdate_def coresOk_def validateReservedCPUDisjoint_clear)
qed

lemma uncore_validate_result:
  assumes "serves c ns" and "\<And>m. set (order m) = set m" and "distinct (map (meta_Name \<circ> uncore_meta) (cl_Uncores k))"
  shows "\<exists>d. uncore_validateCreateOrUpdate sel order c ns uncore k = (Ret d, k)
     \<and> (d = None \<longleftrightarrow> freqOrdered (us_SysMin (uncore_Spec uncore)) (us_SysMax (uncore_Spec uncore))
       \<and> (case us_DieSelectors (uncore_Spec uncore) of None \<Rightarrow> True
          | Some dss \<Rightarrow> list_all (\<lambda>d. freqOrdered (ds_Min d) (ds_Max d)) dss \<and> distinct (dieTargets dss))
       \<and> uncoreSelectorOk sel k uncore)"
proof -
  from selectorConflicts_peers [OF assms, of sel "us_NodeSelector \<circ> uncore_Spec" uncore k] obtain e2 where e2:
    "uncore_validateNodeSelectorConflicts sel order c ns uncore k = (Ret e2, k)"
    "e2 = [] \<longleftrightarrow> uncoreSelectorOk sel k uncore"
    by (auto simp: uncore_validateNodeSelectorConflicts_def servesD [OF assms(1)])
  have e1: "sysFreqErrors spec = [] \<longleftrightarrow> freqOrdered (us_SysMin spec) (us_SysMax spec)" for spec
    by (auto simp: sysFreqErrors_def freqOrdered_def split: option.splits)
  from e2 e1 show ?thesis
    by (cases "us_DieSelectors (uncore_Spec uncore)")
      (simp_all add: uncore_validateCreateOrUpdate_def validateDieSelectors_clear Let_def)
qed

section \<open>References to profiles\<close>

lemma reservedReference_None: "reservedReference n i rcs = None \<longleftrightarrow> (\<forall>rc \<in> set rcs. rs_PowerProfile rc \<noteq> n)"
  by (induction rcs arbitrary: i) auto

lemma configReference_Nil:
  "configReference n so pnc = [] \<longleftrightarrow> pncs_SharedPowerProfile (pnc_Spec pnc) \<noteq> n
     \<and> (\<not> so \<longrightarrow> (\<forall>rc \<in> set (pncs_ReservedCPUs (pnc_Spec pnc)). rs_PowerProfile rc \<noteq> n))"
  by (auto simp: configReference_def reservedReference_None split: option.splits)
    (metis option.distinct(1) reservedReference_None)+

lemma validatePowerNodeConfigReferences_clear:
  assumes "serves c ns"
  shows "validatePowerNodeConfigReferences c ns profile so k =
     (if \<forall>pnc \<in> set (cl_Configs k). configReference (meta_Name (pp_meta profile)) so pnc = [] then (Ret (), k)
      else (Fail (Msg (''referenced by PowerNodeConfig(s): ''
        @ Join '', '' (concat (map (configReference (meta_Name (pp_meta profile)) so) (cl_Configs k))))), k))"
  by (auto simp: validatePowerNodeConfigReferences_def servesD [OF assms] Let_def)

lemma powerProfile_ValidateDelete_result:
  assumes "serves c ns"
  shows "\<exists>d. powerProfile_ValidateDelete c ns profile k = (Ret d, k)
     \<and> (d = None \<longleftrightarrow> (\<forall>pnc \<in> set (cl_Configs k). configReference (meta_Name (pp_meta profile)) False pnc = [])
        \<and> (\<forall>pod \<in> set (cl_Pods k). meta_Name (pp_meta profile) \<notin> set (extractPowerProfiles pod)))"
  by (auto simp: powerProfile_ValidateDelete_def validatePowerNodeConfigReferences_clear [OF assms]
      validatePodReferences_def servesD [OF assms] reasonOf_def filter_empty_conv Let_def)

section \<open>Every reference names a profile\<close>

text \<open>
  Requests of users as the API server handles them: an object is created, replaced or deleted if the
  webhook answers without a denial.  Pods, nodes and uncores change freely.
\<close>

inductive api_step :: "selectors \<Rightarrow> cluster client \<Rightarrow> string \<Rightarrow> cluster \<Rightarrow> cluster \<Rightarrow> bool"
  for sel :: selectors and c :: "cluster client" and ns :: string where
  create_profile:
    "powerProfile_ValidateCreate ns p k = (Ret None, k1) \<Longrightarrow> profileNamed k (meta_Name (pp_meta p)) = None
     \<Longrightarrow> api_step sel c ns k (k1\<lparr>cl_Profiles := p # cl_Profiles k1\<rparr>)"
| update_profile:
    "profileNamed k (meta_Name (pp_meta new)) = Some old \<Longrightarrow> powerProfile_ValidateUpdate c ns old new k = (Ret None, k1)
     \<Longrightarrow> api_step sel c ns k (k1\<lparr>cl_Profiles :=
           map (\<lambda>q. if meta_Name (pp_meta q) = meta_Name (pp_meta new) then new else q) (cl_Profiles k1)\<rparr>)"
| delete_profile:
    "powerProfile_ValidateDelete c ns p k = (Ret None, k1)
     \<Longrightarrow> api_step sel c ns k (k1\<lparr>cl_Profiles :=
           filter (\<lambda>q. meta_Name (pp_meta q) \<noteq> meta_Name (pp_meta p)) (cl_Profiles k1)\<rparr>)"
| create_config:
    "(\<And>m. set (order m) = set m) \<Longrightarrow> powerNodeConfig_ValidateCreate sel order c ns config k = (Ret None, k1)
     \<Longrightarrow> meta_Name (pnc_meta config) \<notin> (meta_Name \<circ> pnc_meta) ` set (cl_Configs k)
     \<Longrightarrow> api_step sel c ns k (k1\<lparr>cl_Configs := config # cl_Configs k1\<rparr>)"
| update_config:
    "(\<And>m. set (order m) = set m) \<Longrightarrow> powerNodeConfig_ValidateUpdate sel order c ns old config k = (Ret None, k1)
     \<Longrightarrow> api_step sel c ns k (k1\<lparr>cl_Configs :=
           map (\<lambda>q. if meta_Name (pnc_meta q) = meta_Name (pnc_meta config) then config else q) (cl_Configs k1)\<rparr>)"
| delete_config:
    "powerNodeConfig_ValidateDelete config k = (Ret None, k1)
     \<Longrightarrow> api_step sel c ns k (k1\<lparr>cl_Configs :=
           filter (\<lambda>q. meta_Name (pnc_meta q) \<noteq> meta_Name (pnc_meta config)) (cl_Configs k1)\<rparr>)"
| others:
    "api_step sel c ns k (k\<lparr>cl_Nodes := nodes, cl_Pods := pods, cl_Uncores := uncores\<rparr>)"

definition references_ok :: "cluster \<Rightarrow> bool" where
  "references_ok k \<longleftrightarrow> distinct (map (meta_Name \<circ> pnc_meta) (cl_Configs k))
     \<and> (\<forall>config \<in> set (cl_Configs k). coresOk (pnc_Spec config) \<and> profilesOk k (pnc_Spec config))"

lemma references_okI:
  assumes "references_ok k" and "cl_Configs k' = cl_Configs k"
    and "\<And>config. config \<in> set (cl_Configs k) \<Longrightarrow> profilesOk k (pnc_Spec config) \<Longrightarrow> profilesOk k' (pnc_Spec config)"
  shows "references_ok k'"
  using assms by (simp add: references_ok_def)

lemma profilesOk_cong:
  assumes "profilesOk k spec"
    and "\<And>n p. n \<in> insert (pncs_SharedPowerProfile spec) (rs_PowerProfile ` set (pncs_ReservedCPUs spec)) \<Longrightarrow>
           profileNamed k n = Some p \<Longrightarrow> \<exists>q. profileNamed k' n = Some q \<and>
             (n = pncs_SharedPowerProfile spec \<longrightarrow> pps_Shared (pp_Spec p) \<longrightarrow> pps_Shared (pp_Spec q))"
  shows "profilesOk k' spec"
proof -
  from assms(1) obtain p where p: "profileNamed k (pncs_SharedPowerProfile spec) = Some p" "pps_Shared (pp_Spec p)"
    by (auto simp: profilesOk_def split: option.splits)
  with assms(2) [of "pncs_SharedPowerProfile spec" p]
  obtain q where "profileNamed k' (pncs_SharedPowerProfile spec) = Some q" "pps_Shared (pp_Spec q)" by auto
  moreover have "profileNamed k' (rs_PowerProfile rc) \<noteq> None" if "rc \<in> set (pncs_ReservedCPUs spec)" for rc
  proof -
    from that assms(1) obtain p where "profileNamed k (rs_PowerProfile rc) = Some p"
      by (auto simp: profilesOk_def list_all_iff)
    with assms(2) [of "rs_PowerProfile rc" p] that show ?thesis by auto
  qed
  ultimately show ?thesis by (simp add: profilesOk_def list_all_iff)
qed

lemma find_map_replace:
  "find (\<lambda>p. f p = n) (map (\<lambda>q. if f q = f new then new else q) ps)
    = (case find (\<lambda>p. f p = n) ps of None \<Rightarrow> None | Some p \<Rightarrow> Some (if n = f new then new else p))"
  by (induction ps) auto

lemma find_filter_other: "n \<noteq> m \<Longrightarrow> find (\<lambda>p. f p = n) (filter (\<lambda>q. f q \<noteq> m) ps) = find (\<lambda>p. f p = n) ps"
  by (induction ps) auto

lemma profilesOk_update_spec:
  "profilesOk (k\<lparr>cl_Configs := cs\<rparr>) spec = profilesOk k spec"
  "profilesOk (k\<lparr>cl_Nodes := nodes, cl_Pods := pods, cl_Uncores := uncores\<rparr>) spec = profilesOk k spec"
  by (simp_all add: profilesOk_def profileNamed_def)

lemma api_step_keeps_references:
  assumes "serves c ns" and "api_step sel c ns k k'" and "references_ok k"
  shows "references_ok k'"
  using assms(2)
proof cases
  case (create_profile p k1)
  then have [simp]: "k1 = k" by (simp add: powerProfile_ValidateCreate_def split: option.splits)
  show ?thesis
    by (rule references_okI [OF assms(3)], simp add: create_profile(1), erule profilesOk_cong)
      (use create_profile in \<open>auto simp: profileNamed_def\<close>)
next
  case (update_profile new old k1)
  have k1: "k1 = k" and refs: "pps_Shared (pp_Spec old) \<Longrightarrow> \<not> pps_Shared (pp_Spec new) \<Longrightarrow>
      \<forall>pnc \<in> set (cl_Configs k). pncs_SharedPowerProfile (pnc_Spec pnc) \<noteq> meta_Name (pp_meta new)"
    using update_profile(3)
    by (auto simp: powerProfile_ValidateUpdate_def validatePowerNodeConfigReferences_clear [OF assms(1)] configReference_Nil
        split: if_splits)
  have n: "profileNamed k' n = (case profileNamed k n of None \<Rightarrow> None
      | Some p \<Rightarrow> Some (if n = meta_Name (pp_meta new) then new else p))" for n
    unfolding update_profile(1) k1 profileNamed_def using find_map_replace [of "\<lambda>q. meta_Name (pp_meta q)" n new "cl_Profiles k"] by simp
  show ?thesis
  proof (rule references_okI [OF assms(3)])
    show "cl_Configs k' = cl_Configs k" by (simp add: update_profile(1) k1)
    fix config assume c: "config \<in> set (cl_Configs k)" and ok: "profilesOk k (pnc_Spec config)"
    show "profilesOk k' (pnc_Spec config)"
    proof (rule profilesOk_cong [OF ok])
      fix m p assume p: "profileNamed k m = Some p"
      have "m = meta_Name (pp_meta new) \<Longrightarrow> p = old" using p update_profile(2) by simp
      with refs c p show "\<exists>q. profileNamed k' m = Some q \<and> (m = pncs_SharedPowerProfile (pnc_Spec config) \<longrightarrow>
          pps_Shared (pp_Spec p) \<longrightarrow> pps_Shared (pp_Spec q))" by (auto simp: n)
    qed
  qed
next
  case (delete_profile p k1)
  have k1: "k1 = k" and refs: "\<forall>pnc \<in> set (cl_Configs k). configReference (meta_Name (pp_meta p)) False pnc = []"
    using delete_profile(2) powerProfile_ValidateDelete_result [OF assms(1), of p k] by auto
  have n: "n \<noteq> meta_Name (pp_meta p) \<Longrightarrow> profileNamed k' n = profileNamed k n" for n
    unfolding delete_profile(1) k1 profileNamed_def
    using find_filter_other [of n "meta_Name (pp_meta p)" "\<lambda>q. meta_Name (pp_meta q)" "cl_Profiles k"] by simp
  show ?thesis
  proof (rule references_okI [OF assms(3)])
    show "cl_Configs k' = cl_Configs k" by (simp add: delete_profile(1) k1)
    fix config assume c: "config \<in> set (cl_Configs k)" and ok: "profilesOk k (pnc_Spec config)"
    show "profilesOk k' (pnc_Spec config)"
      by (rule profilesOk_cong [OF ok]) (use refs c in \<open>auto simp: n configReference_Nil\<close>)
  qed
next
  case (create_config order config k1)
  have d: "distinct (map (meta_Name \<circ> pnc_meta) (cl_Configs k))" using assms(3) by (simp add: references_ok_def)
  from powerNodeConfig_validate_result [OF assms(1) create_config(2) d, of sel config] create_config(3)
  have "k1 = k" "coresOk (pnc_Spec config)" "profilesOk k (pnc_Spec config)"
    by (auto simp: powerNodeConfig_ValidateCreate_def split: option.splits)
  with create_config(4) assms(3) show ?thesis
    unfolding create_config(1) by (auto simp: references_ok_def profilesOk_update_spec)
next
  case (update_config order old config k1)
  have d: "distinct (map (meta_Name \<circ> pnc_meta) (cl_Configs k))" using assms(3) by (simp add: references_ok_def)
  from powerNodeConfig_validate_result [OF assms(1) update_config(2) d, of sel config] update_config(3)
  have k: "k1 = k" "coresOk (pnc_Spec config)" "profilesOk k (pnc_Spec config)"
    by (auto simp: powerNodeConfig_ValidateUpdate_def)
  have "map (meta_Name \<circ> pnc_meta) (cl_Configs k') = map (meta_Name \<circ> pnc_meta) (cl_Configs k)"
    by (simp add: update_config(1) k(1))
  then show ?thesis
    unfolding references_ok_def using assms(3) k
    by (simp only:) (auto simp: references_ok_def update_config(1) profilesOk_update_spec)
next
  case (delete_config config k1)
  then show ?thesis using assms(3)
    by (auto simp: references_ok_def profilesOk_update_spec powerNodeConfig_ValidateDelete_def distinct_map_filter)
next
  case others
  then show ?thesis using assms(3) by (simp add: references_ok_def profilesOk_update_spec)
qed


section \<open>Properties\<close>

text \<open>
  C32.  If the client reports the cluster truthfully and objects of one kind have different names, creating a PowerNodeConfig
  is admitted exactly if it is in the operator's namespace, no core is listed twice, the shared profile
  exists and is marked as shared, every reserved profile exists, and the node selector is well formed and neither equals
  the selector of another PowerNodeConfig nor matches a node that one matches.  An update is
  admitted under the same conditions except the namespace.  Otherwise both answer with a denial, never with an error.
\<close>

theorem powerNodeConfig_admission:
  assumes "serves c ns" and "\<And>m. set (order m) = set m" and "distinct (map (meta_Name \<circ> pnc_meta) (cl_Configs k))"
  shows "\<exists>d u. powerNodeConfig_ValidateCreate sel order c ns config k = (Ret d, k)
     \<and> powerNodeConfig_ValidateUpdate sel order c ns old config k = (Ret u, k)
     \<and> (d = None \<longleftrightarrow> meta_Namespace (pnc_meta config) = ns \<and> u = None)
     \<and> (u = None \<longleftrightarrow> distinct (concat (map rs_Cores (pncs_ReservedCPUs (pnc_Spec config))))
        \<and> (\<exists>p. profileNamed k (pncs_SharedPowerProfile (pnc_Spec config)) = Some p \<and> pps_Shared (pp_Spec p))
        \<and> (\<forall>rc \<in> set (pncs_ReservedCPUs (pnc_Spec config)). profileNamed k (rs_PowerProfile rc) \<noteq> None)
        \<and> (\<exists>p. sel (nodeLabelSelector (pncs_NodeSelector (pnc_Spec config))) = Inr p)
        \<and> (\<forall>peer \<in> set (cl_Configs k). meta_Name (pnc_meta peer) \<noteq> meta_Name (pnc_meta config) \<longrightarrow>
             separate sel (cl_Nodes k) (pncs_NodeSelector (pnc_Spec config)) (pncs_NodeSelector (pnc_Spec peer))))"
proof -
  from powerNodeConfig_validate_result [OF assms, of sel config] obtain u where u:
    "powerNodeConfig_validateCreateOrUpdate sel order c ns config k = (Ret u, k)"
    "u = None \<longleftrightarrow> coresOk (pnc_Spec config) \<and> profilesOk k (pnc_Spec config) \<and> configSelectorOk sel k config" by auto
  then show ?thesis
    by (auto simp: powerNodeConfig_ValidateCreate_def powerNodeConfig_ValidateUpdate_def validateNamespace_def
        coresOk_def profilesOk_def selectorOk_def list_all_iff split: option.splits)
qed

text \<open>
  C33.  Under the same conditions, creating an Uncore is admitted exactly if it is in the operator's
  namespace, minimum frequencies do not exceed maximum frequencies, no package and no die of a package is
  selected twice, and the node selector is well formed and apart from the other Uncores' selectors; an update is admitted under the same
  conditions except the namespace.
\<close>

theorem uncore_admission:
  assumes "serves c ns" and "\<And>m. set (order m) = set m" and "distinct (map (meta_Name \<circ> uncore_meta) (cl_Uncores k))"
  shows "\<exists>d u. uncore_ValidateCreate sel order c ns uncore k = (Ret d, k)
     \<and> uncore_ValidateUpdate sel order c ns old uncore k = (Ret u, k)
     \<and> (d = None \<longleftrightarrow> meta_Namespace (uncore_meta uncore) = ns \<and> u = None)
     \<and> (u = None \<longleftrightarrow> freqOrdered (us_SysMin (uncore_Spec uncore)) (us_SysMax (uncore_Spec uncore))
        \<and> (\<forall>dss. us_DieSelectors (uncore_Spec uncore) = Some dss \<longrightarrow>
             (\<forall>d \<in> set dss. freqOrdered (ds_Min d) (ds_Max d)) \<and> distinct (dieTargets dss))
        \<and> (\<exists>p. sel (nodeLabelSelector (us_NodeSelector (uncore_Spec uncore))) = Inr p)
        \<and> (\<forall>peer \<in> set (cl_Uncores k). meta_Name (uncore_meta peer) \<noteq> meta_Name (uncore_meta uncore) \<longrightarrow>
             separate sel (cl_Nodes k) (us_NodeSelector (uncore_Spec uncore)) (us_NodeSelector (uncore_Spec peer))))"
proof -
  from uncore_validate_result [OF assms, of sel uncore] obtain u where
    "uncore_validateCreateOrUpdate sel order c ns uncore k = (Ret u, k)"
    "u = None \<longleftrightarrow> freqOrdered (us_SysMin (uncore_Spec uncore)) (us_SysMax (uncore_Spec uncore))
       \<and> (case us_DieSelectors (uncore_Spec uncore) of None \<Rightarrow> True
          | Some dss \<Rightarrow> list_all (\<lambda>d. freqOrdered (ds_Min d) (ds_Max d)) dss \<and> distinct (dieTargets dss))
       \<and> uncoreSelectorOk sel k uncore" by auto
  then show ?thesis
    by (auto simp: uncore_ValidateCreate_def uncore_ValidateUpdate_def validateNamespace_def
        selectorOk_def list_all_iff split: option.splits)
qed

text \<open>
  C10.  In every sequence of requests the webhooks admit, from a cluster where it holds: every PowerNodeConfig
  names a shared profile that exists and is marked as shared, the profiles of its reserved groups
  exist, and no core is in two groups.  So no profile in use is deleted or loses its shared mark.
\<close>

theorem webhooks_keep_references:
  assumes "serves c ns" and "(api_step sel c ns)\<^sup>*\<^sup>* k k'" and "references_ok k" and "config \<in> set (cl_Configs k')"
  shows "(\<exists>p. profileNamed k' (pncs_SharedPowerProfile (pnc_Spec config)) = Some p \<and> pps_Shared (pp_Spec p))
     \<and> (\<forall>rc \<in> set (pncs_ReservedCPUs (pnc_Spec config)). \<exists>p. profileNamed k' (rs_PowerProfile rc) = Some p)
     \<and> distinct (concat (map rs_Cores (pncs_ReservedCPUs (pnc_Spec config))))"
proof -
  from assms(2,3) have "references_ok k'"
    by (induction rule: rtranclp_induct) (auto intro: api_step_keeps_references [OF assms(1)])
  with assms(4) show ?thesis
    by (auto simp: references_ok_def coresOk_def profilesOk_def list_all_iff split: option.splits)
qed

section \<open>Witnesses\<close>

definition clusterClient :: "cluster client" where
  "clusterClient = \<lparr>
     Get_Pod = \<lambda>_ n k. (Fail (NotFound n), k),
     Get_PowerProfile = \<lambda>_ n k. ((case profileNamed k n of Some p \<Rightarrow> Ret p | None \<Rightarrow> Fail (NotFound n)), k),
     Get_Node = \<lambda>n k. (Fail (NotFound n), k),
     Get_PowerNodeState = \<lambda>_ n k. (Fail (NotFound n), k),
     List_PowerProfiles = \<lambda>k. (Ret (cl_Profiles k), k),
     List_PowerNodeConfigs = \<lambda>_ k. (Ret (cl_Configs k), k),
     List_Uncores = \<lambda>_ k. (Ret (cl_Uncores k), k),
     List_Nodes = \<lambda>p k. (Ret (filter (p \<circ> meta_Labels \<circ> node_meta) (cl_Nodes k)), k),
     List_Pods = \<lambda>_ n k. (Ret (filter (\<lambda>pod. n \<in> set (extractPowerProfiles pod)) (cl_Pods k)), k),
     Update_NodeStatus = \<lambda>_ k. (Ret (), k),
     Patch_Status = \<lambda>_ _ _ _ k. (Ret (), k)\<rparr>"

lemma clusterClient_serves: "serves clusterClient ns"
  by (simp add: serves_def clusterClient_def)

definition sampleMeta :: "string \<Rightarrow> ObjectMeta" where
  "sampleMeta n = \<lparr>meta_Name = n, meta_Namespace = PowerNamespace, meta_UID = n, meta_Generation = 1, meta_CreationTimestamp = 0,
     meta_Labels = [], meta_Deleted = False\<rparr>"

definition anySelector :: NodeSelector where
  "anySelector = \<lparr>nodeLabelSelector = \<lparr>MatchLabels = None, MatchExpressions = None\<rparr>\<rparr>"

definition labelledSelector :: "string \<Rightarrow> NodeSelector" where
  "labelledSelector v = \<lparr>nodeLabelSelector = \<lparr>MatchLabels = Some [(''zone'', v)], MatchExpressions = None\<rparr>\<rparr>"

definition samplePowerProfile :: "string \<Rightarrow> bool \<Rightarrow> PowerProfile" where
  "samplePowerProfile n shared = \<lparr>pp_meta = sampleMeta n, pp_Spec = \<lparr>pps_Shared = shared, pps_NodeSelector = anySelector,
     pps_PStates = \<lparr>ps_Max = None, ps_Min = None, ps_Epp = [], ps_Governor = ''powersave''\<rparr>,
     pps_CStates = \<lparr>cs_Names = [], cs_MaxLatencyUs = None\<rparr>, pps_CPUCapacity = FromString ''100%'',
     pps_CPUScalingPolicy = None\<rparr>\<rparr>"

definition sampleConfig :: "string \<Rightarrow> NodeSelector \<Rightarrow> PowerNodeConfig" where
  "sampleConfig n s = \<lparr>pnc_meta = sampleMeta n, pnc_Spec = \<lparr>pncs_SharedPowerProfile = ''shared'', pncs_NodeSelector = s,
     pncs_ReservedCPUs = [\<lparr>rs_Cores = [0, 1], rs_PowerProfile = ''performance''\<rparr>]\<rparr>\<rparr>"

definition sampleCluster :: cluster where
  "sampleCluster = \<lparr>cl_Profiles = [samplePowerProfile ''shared'' True, samplePowerProfile ''performance'' False],
     cl_Configs = [sampleConfig ''east'' (labelledSelector ''east'')], cl_Uncores = [],
     cl_Nodes = [\<lparr>node_meta = (sampleMeta ''n1'')\<lparr>meta_Labels := [(''zone'', ''east'')]\<rparr>, node_Capacity = []\<rparr>],
     cl_Pods = []\<rparr>"

text \<open>Selectors made of required labels only.\<close>

definition labelSelectors :: selectors where
  "labelSelectors ls = Inr (\<lambda>l. list_all (\<lambda>(k, v). map_of l k = Some v) (case MatchLabels ls of None \<Rightarrow> [] | Some m \<Rightarrow> m))"

lemmas sample_defs = sampleMeta_def anySelector_def labelledSelector_def samplePowerProfile_def sampleConfig_def
  sampleCluster_def labelSelectors_def profileNamed_def

theorem powerNodeConfig_admission_witness:
  "powerNodeConfig_ValidateCreate labelSelectors id clusterClient PowerNamespace
      (sampleConfig ''west'' (labelledSelector ''west'')) sampleCluster = (Ret None, sampleCluster)
   \<and> powerNodeConfig_ValidateCreate labelSelectors id clusterClient PowerNamespace
      (sampleConfig ''all'' anySelector) sampleCluster \<noteq> (Ret None, sampleCluster)"
proof -
  have d: "distinct (map (meta_Name \<circ> pnc_meta) (cl_Configs sampleCluster))" by (simp add: sample_defs)
  note a = powerNodeConfig_admission [where order = id, OF clusterClient_serves _ d, where sel = labelSelectors and ns = PowerNamespace, simplified]
  from a [of "sampleConfig ''west'' (labelledSelector ''west'')"] a [of "sampleConfig ''all'' anySelector"]
  show ?thesis by (auto simp: sample_defs separate_def selectorDeepEqual_def labelsDeepEqual_def)
qed

definition sampleUncore :: "nat \<Rightarrow> nat \<Rightarrow> Uncore" where
  "sampleUncore mn mx = \<lparr>uncore_meta = sampleMeta ''u'', uncore_Spec = \<lparr>us_NodeSelector = anySelector, us_SysMax = Some mx, us_SysMin = Some mn,
     us_DieSelectors = Some [\<lparr>ds_Package = Some 0, ds_Die = None, ds_Min = Some mn, ds_Max = Some mx\<rparr>,
       \<lparr>ds_Package = Some 0, ds_Die = Some 1, ds_Min = Some mn, ds_Max = Some mx\<rparr>]\<rparr>\<rparr>"

theorem uncore_admission_witness:
  "uncore_ValidateCreate labelSelectors id clusterClient PowerNamespace (sampleUncore 1 2) sampleCluster = (Ret None, sampleCluster)
   \<and> uncore_ValidateCreate labelSelectors id clusterClient PowerNamespace (sampleUncore 2 1) sampleCluster \<noteq> (Ret None, sampleCluster)"
proof -
  have d: "distinct (map (meta_Name \<circ> uncore_meta) (cl_Uncores sampleCluster))" by (simp add: sample_defs)
  note a = uncore_admission [where order = id, OF clusterClient_serves _ d, where sel = labelSelectors and ns = PowerNamespace, simplified]
  from a [of "sampleUncore 1 2"] a [of "sampleUncore 2 1"]
  show ?thesis by (auto simp: sample_defs sampleUncore_def freqOrdered_def dieTargets_def)
qed

theorem webhooks_keep_references_witness:
  "\<exists>k'. (api_step labelSelectors clusterClient PowerNamespace)\<^sup>*\<^sup>* sampleCluster k' \<and> cl_Configs k' = cl_Configs sampleCluster
     \<and> cl_Profiles k' = samplePowerProfile ''spare'' False # cl_Profiles sampleCluster
     \<and> (\<exists>p. profileNamed k' ''shared'' = Some p \<and> pps_Shared (pp_Spec p))"
proof -
  let ?k = "sampleCluster\<lparr>cl_Profiles := samplePowerProfile ''spare'' False # cl_Profiles sampleCluster\<rparr>"
  have r: "references_ok sampleCluster"
    by (simp add: references_ok_def coresOk_def profilesOk_def sample_defs)
  have "powerProfile_ValidateCreate PowerNamespace (samplePowerProfile ''spare'' False) sampleCluster = (Ret None, sampleCluster)"
    by (simp add: powerProfile_ValidateCreate_def validateNamespace_def sample_defs)
  then have s: "(api_step labelSelectors clusterClient PowerNamespace)\<^sup>*\<^sup>* sampleCluster ?k"
    by (intro r_into_rtranclp api_step.create_profile) (simp_all add: sample_defs)
  have "sampleConfig ''east'' (labelledSelector ''east'') \<in> set (cl_Configs ?k)" by (simp add: sampleCluster_def)
  from webhooks_keep_references [OF clusterClient_serves s r this] s show ?thesis
    by (intro exI [of _ ?k]) (simp add: sampleConfig_def)
qed

end
