(* ===== verification/Locking.thy ===== *)
theory Locking
  imports Pools
begin

text \<open>
  Goroutines and the mutex of the host (\<^verbatim>\<open>lockHostMutex\<close> of \<^verbatim>\<open>internal/power/host.go\<close>, the rules of
  \<^verbatim>\<open>internal/power/CONCURRENCY.md\<close>).  The entry points of the library are written a second time, as sequences of small steps that
  other goroutines may come between; the mutex is a field of the system.  The main fact is that every interleaving has the
  effect, and gives every caller the answer, of the calls made one after another in the order in which they return, as the
  functions of \<open>Pools\<close> describe them.
\<close>

section \<open>Code of a goroutine\<close>

text \<open>
  \<open>Turn u k\<close> changes the shared state by \<open>u\<close> and goes on with \<open>k s\<close>, where \<open>s\<close> is the state it has
  seen; \<open>Halt r\<close> has come to its end with the result \<open>r\<close>.
\<close>

datatype ('r, 's) script = Halt 'r | Turn "'s \<Rightarrow> 's" "'s \<Rightarrow> ('r, 's) script"

text \<open>What a script does when nothing comes between its turns.\<close>

primrec finish :: "('r, 's) script \<Rightarrow> 's \<Rightarrow> 'r \<times> 's" where
  "finish (Halt r) s = (r, s)"
| "finish (Turn u k) s = finish (k s) (u s)"

primrec bindScript :: "('q, 's) script \<Rightarrow> ('q \<Rightarrow> ('r, 's) script) \<Rightarrow> ('r, 's) script" where
  "bindScript (Halt r) f = f r"
| "bindScript (Turn u k) f = Turn u (\<lambda>s. bindScript (k s) f)"

lemma finish_bind [simp]: "finish (bindScript p f) s = (case finish p s of (r, s') \<Rightarrow> finish (f r) s')"
  by (induction p arbitrary: s) simp_all

lemma bindScript_assoc: "bindScript (bindScript p f) g = bindScript p (\<lambda>r. bindScript (f r) g)"
  by (induction p) simp_all

text \<open>A property of every turn of a script, whatever the others have done before it.\<close>

primrec everyTurn :: "('s \<Rightarrow> 's \<Rightarrow> bool) \<Rightarrow> ('r, 's) script \<Rightarrow> bool" where
  "everyTurn R (Halt r) = True"
| "everyTurn R (Turn u k) = (\<forall>s. R s (u s) \<and> everyTurn R (k s))"

lemma everyTurn_bind [simp]: "(\<And>r. everyTurn R (f r)) \<Longrightarrow> everyTurn R p \<Longrightarrow> everyTurn R (bindScript p f)"
  by (induction p) simp_all

text \<open>Reading the shared state, one step on it, a sequence that an error ends, and a loop of this kind.\<close>

definition look :: "('s \<Rightarrow> ('r, 's) script) \<Rightarrow> ('r, 's) script" where
  "look k = Turn (\<lambda>s. s) k"

definition single :: "(unit, 's) action \<Rightarrow> (unit gores, 's) script" where
  "single f = Turn (\<lambda>s. snd (f s)) (\<lambda>s. Halt (fst (f s)))"

definition followed :: "(unit gores, 's) script \<Rightarrow> (unit gores, 's) script \<Rightarrow> (unit gores, 's) script" where
  "followed p q = bindScript p (\<lambda>r. (case r of Ret _ \<Rightarrow> q | Fail e \<Rightarrow> Halt (Fail e) | Panic m \<Rightarrow> Halt (Panic m)))"

primrec eachOf :: "('x \<Rightarrow> (unit gores, 's) script) \<Rightarrow> 'x list \<Rightarrow> (unit gores, 's) script" where
  "eachOf body [] = Halt (Ret ())"
| "eachOf body (x # xs) = followed (body x) (eachOf body xs)"

lemma finish_simps [simp]:
  "finish (look k) s = finish (k s) s"
  "finish (single f) s = f s"
  "finish (followed p q) s = andThen (finish p s) (\<lambda>_ s'. finish q s')"
  by (auto simp: look_def single_def followed_def andThen_def split: prod.splits gores.splits)

lemma finish_eachOf: "(\<And>x s. finish (body x) s = f x s) \<Longrightarrow> finish (eachOf body xs) s = forEach f xs s"
  by (induction xs arbitrary: s) simp_all

lemma everyTurn_simps [simp]:
  "everyTurn R (look k) \<longleftrightarrow> (\<forall>s. R s s \<and> everyTurn R (k s))"
  "everyTurn R (single f) \<longleftrightarrow> (\<forall>s. R s (snd (f s)))"
  "everyTurn R p \<Longrightarrow> everyTurn R q \<Longrightarrow> everyTurn R (followed p q)"
  by (auto simp: look_def single_def followed_def intro!: everyTurn_bind split: gores.splits)

lemma everyTurn_eachOf [simp]: "(\<And>x. everyTurn R (body x)) \<Longrightarrow> everyTurn R (eachOf body xs)"
  by (induction xs) simp_all

section \<open>The entry points, step by step\<close>

definition consolidateScript :: "nat \<Rightarrow> (unit gores, hostImpl) script" where
  "consolidateScript c =
     followed (single (\<lambda>h. onMachine (updateFrequencies c (map_option prof_pstates (GetPowerProfile (cpuPool h c) h))) h))
       (single (\<lambda>h. onMachine (updateCStates c (map_option prof_cstates (GetPowerProfile (cpuPool h c) h))) h))"

text \<open>The last step of a move: the CPU is added to the list of its pool.\<close>

definition addToPool :: "nat \<Rightarrow> pool_ref \<Rightarrow> (unit, hostImpl) action" where
  "addToPool c p h = (Ret (), setCpusOf p (CPUList_add c (Cpus p h)) h)"

definition doSetPoolScript :: "nat \<Rightarrow> pool_ref \<Rightarrow> (unit gores, hostImpl) script" where
  "doSetPoolScript c p = look (\<lambda>h. (let origPool = cpuPool h c in
     followed (single (\<lambda>h. (Ret (), setPoolField c p h)))
      (look (\<lambda>h1. (case CPUList_remove c (Cpus origPool h1) of
         Ret l \<Rightarrow> followed (single (\<lambda>h1. (Ret (), setCpusOf origPool l h1)))
           (bindScript (consolidateScript c) (\<lambda>r. (case r of
              Ret _ \<Rightarrow> look (\<lambda>h3. single (addToPool c (cpuPool h3 c)))
            | Fail e \<Rightarrow> followed (single (\<lambda>h3. (Ret (), setPoolField c origPool h3)))
                (followed (single (addToPool c origPool)) (Halt (Fail e)))
            | Panic m \<Rightarrow> Halt (Panic m))))
       | Fail e \<Rightarrow> followed (single (\<lambda>h1. (Ret (), setPoolField c origPool h1))) (Halt (Fail e))
       | Panic m \<Rightarrow> Halt (Panic m))))))"

definition setPoolScript :: "nat \<Rightarrow> pool_ref \<Rightarrow> (unit gores, hostImpl) script" where
  "setPoolScript c targetPool = look (\<lambda>h.
     if cpuPool h c = targetPool then Halt (Ret ())
     else if cpuPool h c = GetReservedPool \<and> isExclusive targetPool
     then Halt (Fail (Msg ''cannot move from reserved to exclusive pool''))
     else if isExclusive (cpuPool h c) \<and> isExclusive targetPool
     then Halt (Fail (Msg ''cannot move exclusive to different exclusive pool''))
     else if isExclusive (cpuPool h c) \<and> targetPool = GetReservedPool
     then Halt (Fail (Msg ''cannot move from exclusive to reserved''))
     else if targetPool = GetSharedPool \<or> cpuPool h c = GetSharedPool
     then doSetPoolScript c targetPool
     else Halt (Panic ''we should never get here''))"

definition moveScript :: "pool_ref \<Rightarrow> nat list \<Rightarrow> (unit gores, hostImpl) script" where
  "moveScript target cpus = eachOf (\<lambda>cpu. setPoolScript cpu target) cpus"

text \<open>A turn of the loops of \<^verbatim>\<open>setCpus\<close>, for the three kinds of pool.\<close>

definition setCpuScript :: "pool_ref \<Rightarrow> nat list \<Rightarrow> nat \<Rightarrow> (unit gores, hostImpl) script" where
  "setCpuScript p requestedCores cpu = look (\<lambda>h. (case p of
      RShared \<Rightarrow>
        (if CPUList_Contains cpu requestedCores then setPoolScript cpu RShared
         else if cpuPool h cpu = RShared then setPoolScript cpu GetReservedPool
         else Halt (Ret ()))
    | RReserved \<Rightarrow>
        (if CPUList_Contains cpu requestedCores then
           (if isExclusive (cpuPool h cpu)
            then Halt (Fail (Msg ''cpus cannot be moved directly from exclusive to reserved pool''))
            else setPoolScript cpu RReserved)
         else if cpuPool h cpu = RReserved then setPoolScript cpu GetSharedPool
         else Halt (Ret ()))
    | RExcl r \<Rightarrow>
        (if CPUList_Contains cpu requestedCores then setPoolScript cpu (RExcl r)
         else if cpuPool h cpu \<noteq> RExcl r then Halt (Ret ())
         else setPoolScript cpu GetSharedPool)))"

definition setCpusScript :: "pool_ref \<Rightarrow> nat list \<Rightarrow> (unit gores, hostImpl) script" where
  "setCpusScript p cores = look (\<lambda>h. eachOf (setCpuScript p cores) (allCpus h))"

definition moveIDsScript :: "pool_ref \<Rightarrow> nat list \<Rightarrow> (unit gores, hostImpl) script" where
  "moveIDsScript p cpuIDs = look (\<lambda>h. (case CPUList_ManyByIDs cpuIDs (allCpus h) of
      Ret cpus \<Rightarrow> moveScript p cpus | Fail e \<Rightarrow> Halt (Fail e) | Panic m \<Rightarrow> Halt (Panic m)))"

definition setIDsScript :: "pool_ref \<Rightarrow> nat list \<Rightarrow> (unit gores, hostImpl) script" where
  "setIDsScript p cpuIDs = look (\<lambda>h. (case CPUList_ManyByIDs cpuIDs (allCpus h) of
      Ret cpus \<Rightarrow> setCpusScript p cpus | Fail e \<Rightarrow> Halt (Fail (Wrap ''cpuCore out of range'' e)) | Panic m \<Rightarrow> Halt (Panic m)))"

definition setProfileScript :: "pool_ref \<Rightarrow> Profile option \<Rightarrow> (unit gores, hostImpl) script" where
  "setProfileScript p profile =
     followed (single (\<lambda>h. (Ret (), h\<lparr>pools := (pools h)(p := (pools h p)\<lparr>pool_profile := profile\<rparr>)\<rparr>)))
       (look (\<lambda>h. eachOf consolidateScript (Cpus p h)))"

definition removeScript :: "pool_ref \<Rightarrow> (unit gores, hostImpl) script" where
  "removeScript p = followed (setCpusScript p []) (single (PoolList_remove p))"

subsection \<open>They do what the functions do\<close>

lemma finish_consolidate: "finish (consolidateScript c) h = consolidate c h"
  by (simp add: consolidateScript_def consolidate_def)

lemma finish_doSetPool: "finish (doSetPoolScript c p) h = doSetPool c p h"
  by (auto simp: doSetPoolScript_def doSetPool_def Let_def finish_consolidate addToPool_def split: gores.splits prod.splits)

lemma finish_setPool: "finish (setPoolScript c p) h = setPool c (Some p) h"
  by (simp add: setPoolScript_def setPool_def finish_doSetPool)

lemma finish_move: "finish (moveScript p cs) h = moveCpus p cs h"
  by (simp add: moveScript_def moveCpus_def finish_eachOf [OF finish_setPool])

lemma finish_setCpu: "finish (setCpuScript p cores c) h = setCpuBody p cores c h"
  by (cases p) (simp_all add: setCpuScript_def setCpuBody_def sharedSetCpu_def reservedSetCpu_def exclusiveSetCpu_def finish_setPool)

lemma finish_setCpus: "finish (setCpusScript p cores) h = setCpus p cores h"
  by (simp add: setCpusScript_def setCpus_eq finish_eachOf [OF finish_setCpu])

lemma finish_moveIDs: "finish (moveIDsScript p ids) h = MoveCPUIDs p ids h"
  by (simp add: moveIDsScript_def MoveCPUIDs_eq reading_def finish_move split: gores.split)

lemma finish_setIDs: "finish (setIDsScript p ids) h = SetCPUIDs p ids h"
  by (simp add: setIDsScript_def SetCPUIDs_eq reading_def wrapErr_def finish_setCpus split: gores.split)

lemma finish_setProfile: "p \<noteq> RReserved \<Longrightarrow> finish (setProfileScript p pr) h = SetPowerProfile p pr h"
  by (simp add: setProfileScript_def SetPowerProfile_eq Let_def finish_eachOf [OF finish_consolidate])

lemma finish_remove: "isExclusive p \<Longrightarrow> finish (removeScript p) h = Remove p h"
  by (cases p) (simp_all add: removeScript_def Remove_eq finish_setCpus isExclusive_def)

section \<open>Calls\<close>

datatype libCall =
    CallMoveCpus pool_ref "nat list"
  | CallMoveCPUIDs pool_ref "nat list"
  | CallSetCPUIDs pool_ref "nat list"
  | CallSetPowerProfile pool_ref "Profile option"
  | CallAddExclusivePool string
  | CallRemove pool_ref

datatype answer = Outcome "unit gores" | Added pool_ref "gerr option"

text \<open>The pool whose method is called: a pointer to a pool that exists.\<close>

fun calledPool :: "libCall \<Rightarrow> pool_ref option" where
  "calledPool (CallMoveCpus p _) = Some p"
| "calledPool (CallMoveCPUIDs p _) = Some p"
| "calledPool (CallSetCPUIDs p _) = Some p"
| "calledPool (CallSetPowerProfile p _) = Some p"
| "calledPool (CallAddExclusivePool _) = None"
| "calledPool (CallRemove p) = Some p"

definition callable :: "hostImpl \<Rightarrow> libCall \<Rightarrow> bool" where
  "callable h c = (case calledPool c of None \<Rightarrow> True | Some p \<Rightarrow> allocated h p)"

text \<open>The methods that refuse without taking the mutex.\<close>

fun lockFree :: "libCall \<Rightarrow> bool" where
  "lockFree (CallSetPowerProfile p _) \<longleftrightarrow> p = RReserved"
| "lockFree (CallRemove p) \<longleftrightarrow> \<not> isExclusive p"
| "lockFree _ \<longleftrightarrow> False"

text \<open>The effect of a call as one step, by the functions of \<open>Pools\<close>.\<close>

fun perform :: "libCall \<Rightarrow> hostImpl \<Rightarrow> answer \<times> hostImpl" where
  "perform (CallMoveCpus p cs) h = map_prod Outcome id (MoveCpus p cs h)"
| "perform (CallMoveCPUIDs p ids) h = map_prod Outcome id (MoveCPUIDs p ids h)"
| "perform (CallSetCPUIDs p ids) h = map_prod Outcome id (SetCPUIDs p ids h)"
| "perform (CallSetPowerProfile p pr) h = map_prod Outcome id (SetPowerProfile p pr h)"
| "perform (CallAddExclusivePool n) h = map_prod (case_prod Added) id (AddExclusivePool n h)"
| "perform (CallRemove p) h = map_prod Outcome id (Remove p h)"

text \<open>What the goroutine executes between taking and releasing the mutex.\<close>

definition answering :: "(unit gores, hostImpl) script \<Rightarrow> (answer, hostImpl) script" where
  "answering p = bindScript p (\<lambda>r. Halt (Outcome r))"

fun code :: "libCall \<Rightarrow> (answer, hostImpl) script" where
  "code (CallMoveCpus p cs) = answering (moveScript p cs)"
| "code (CallMoveCPUIDs p ids) = answering (moveIDsScript p ids)"
| "code (CallSetCPUIDs p ids) = answering (setIDsScript p ids)"
| "code (CallSetPowerProfile p pr) = answering (setProfileScript p pr)"
| "code (CallAddExclusivePool n) =
     Turn (\<lambda>h. snd (AddExclusivePool n h)) (\<lambda>h. Halt (case_prod Added (fst (AddExclusivePool n h))))"
| "code (CallRemove p) = answering (removeScript p)"

lemma finish_code:
  assumes "\<not> lockFree c"
  shows "finish (code c) h = perform c h"
  using assms
  by (cases c) (auto simp: answering_def finish_move MoveCpus_eq finish_moveIDs finish_setIDs finish_setProfile finish_remove map_prod_def
      split: prod.splits)

lemma perform_lockFree: "lockFree c \<Longrightarrow> \<exists>r. \<forall>h. perform c h = (r, h)"
  by (cases c) (auto simp: SetPowerProfile_eq Remove_eq isExclusive_def split: pool_ref.splits)

lemma lockFree_callable: "lockFree c \<Longrightarrow> callable h c"
  by (cases c) (auto simp: callable_def allocated_def isExclusive_def split: pool_ref.splits)

lemma perform_step: "callable h c \<Longrightarrow> perform c h = (r, h') \<Longrightarrow> host_step h h'"
  by (cases c) (auto simp: callable_def map_prod_def split: prod.splits intro: host_step.intros)

subsection \<open>No turn frees a pool or loses a CPU of the host\<close>

definition lasting :: "hostImpl \<Rightarrow> hostImpl \<Rightarrow> bool" where
  "lasting h h' \<longleftrightarrow> nextPool h \<le> nextPool h' \<and> topology h' = topology h"

lemma lasting_callable: "lasting h h' \<Longrightarrow> callable h c \<Longrightarrow> callable h' c"
  by (auto simp: lasting_def callable_def allocated_def split: option.splits pool_ref.splits)

lemma lasting_parts [simp]:
  "lasting h h" "lasting h (setPoolField c p h)" "lasting h (setCpusOf p l h)" "lasting h (snd (onMachine f h))"
  "lasting h (snd (addToPool c p h))" "lasting h (h\<lparr>pools := ps\<rparr>)" "lasting h (snd (PoolList_remove p h))" "lasting h (snd (AddExclusivePool n h))"
  by (auto simp: lasting_def setPoolField_def setCpusOf_def onMachine_def addToPool_def PoolList_remove_def AddExclusivePool_def Let_def
      split: prod.splits)

lemma consolidate_turns [simp]: "everyTurn lasting (consolidateScript c)"
  by (simp add: consolidateScript_def)

lemma setPool_turns [simp]: "everyTurn lasting (setPoolScript c p)"
  by (auto simp: setPoolScript_def doSetPoolScript_def Let_def split: gores.splits intro!: everyTurn_bind everyTurn_simps(3))

lemma setCpus_turns [simp]: "everyTurn lasting (setCpusScript p cs)"
  by (auto simp: setCpusScript_def setCpuScript_def split: pool_ref.splits intro!: everyTurn_eachOf)

lemma code_turns: "everyTurn lasting (code c)"
  by (cases c) (auto simp: answering_def moveScript_def moveIDsScript_def setIDsScript_def setProfileScript_def removeScript_def
      split: gores.splits intro!: everyTurn_bind everyTurn_simps(3))

section \<open>The system\<close>

datatype goroutine = Idle | Waiting libCall | Inside libCall "(answer, hostImpl) script"

fun isInside :: "goroutine \<Rightarrow> bool" where
  "isInside (Inside _ _) = True"
| "isInside _ = False"

record system =
  sys_host :: hostImpl
  hostMutex :: "nat option"
  goroutines :: "nat \<Rightarrow> goroutine"
  returned :: "(nat \<times> libCall \<times> answer) list"

definition startSystem :: "hostImpl \<Rightarrow> system" where
  "startSystem h = \<lparr>sys_host = h, hostMutex = None, goroutines = (\<lambda>_. Idle), returned = []\<rparr>"

text \<open>
  \<^verbatim>\<open>lockHostMutex\<close> waits until the mutex is free and takes it; the deferred unlock runs when the body ends, with whatever
  outcome.  \<open>returned\<close> records the calls in the order in which they return.
\<close>

inductive lib_step :: "system \<Rightarrow> system \<Rightarrow> bool" where
  refuse: "goroutines s t = Idle \<Longrightarrow> lockFree c \<Longrightarrow> perform c (sys_host s) = (r, h) \<Longrightarrow>
     lib_step s (s\<lparr>returned := returned s @ [(t, c, r)]\<rparr>)"
| invoke: "goroutines s t = Idle \<Longrightarrow> \<not> lockFree c \<Longrightarrow> callable (sys_host s) c \<Longrightarrow>
     lib_step s (s\<lparr>goroutines := (goroutines s)(t := Waiting c)\<rparr>)"
| lock: "goroutines s t = Waiting c \<Longrightarrow> hostMutex s = None \<Longrightarrow>
     lib_step s (s\<lparr>hostMutex := Some t, goroutines := (goroutines s)(t := Inside c (code c))\<rparr>)"
| turn: "goroutines s t = Inside c (Turn u k) \<Longrightarrow>
     lib_step s (s\<lparr>sys_host := u (sys_host s), goroutines := (goroutines s)(t := Inside c (k (sys_host s)))\<rparr>)"
| unlock: "goroutines s t = Inside c (Halt r) \<Longrightarrow>
     lib_step s (s\<lparr>hostMutex := None, goroutines := (goroutines s)(t := Idle), returned := returned s @ [(t, c, r)]\<rparr>)"

inductive_cases lib_stepE: "lib_step s s'"

text \<open>The calls one after another.\<close>

fun replay :: "hostImpl \<Rightarrow> (nat \<times> libCall \<times> answer) list \<Rightarrow> hostImpl \<Rightarrow> bool" where
  "replay h [] h' \<longleftrightarrow> h' = h"
| "replay h ((t, c, r) # calls) h' \<longleftrightarrow> callable h c \<and> (case perform c h of (r', h1) \<Rightarrow> r' = r \<and> replay h1 calls h')"

lemma replay_append: "replay h (xs @ ys) h' \<longleftrightarrow> (\<exists>h1. replay h xs h1 \<and> replay h1 ys h')"
  by (induction h xs h' rule: replay.induct) (auto split: prod.splits)

text \<open>
  The invariant: \<open>h\<close> is the host after the calls that have returned.  The goroutine that holds the mutex is the only one inside, and
  what is left of its code takes the host where its call takes \<open>h\<close>.
\<close>

definition serial :: "hostImpl \<Rightarrow> system \<Rightarrow> hostImpl \<Rightarrow> bool" where
  "serial h0 s h \<longleftrightarrow> replay h0 (returned s) h \<and> host_step\<^sup>*\<^sup>* h0 h
     \<and> (\<forall>t. isInside (goroutines s t) \<longleftrightarrow> hostMutex s = Some t)
     \<and> (hostMutex s = None \<longrightarrow> sys_host s = h)
     \<and> (\<forall>t c p. goroutines s t = Inside c p \<longrightarrow> finish p (sys_host s) = perform c h \<and> everyTurn lasting p \<and> callable h c)
     \<and> (\<forall>t c. goroutines s t = Waiting c \<longrightarrow> \<not> lockFree c \<and> callable (sys_host s) c)"

lemma serialD:
  assumes "serial h0 s h"
  shows "isInside (goroutines s t) \<longleftrightarrow> hostMutex s = Some t"
    "goroutines s t = Inside c p \<Longrightarrow> finish p (sys_host s) = perform c h \<and> everyTurn lasting p \<and> callable h c \<and> hostMutex s = Some t"
  using assms by (auto simp: serial_def)

lemma serial_start: "serial h (startSystem h) h"
  by (simp add: serial_def startSystem_def)

lemma serial_step:
  assumes "lib_step s s'" "serial h0 s h"
  shows "\<exists>h'. serial h0 s' h'"
  using assms(1)
proof cases
  case (refuse t c r h1)
  obtain r' where "\<forall>h. perform c h = (r', h)" using perform_lockFree refuse(3) by blast
  then have "serial h0 s' h" using assms(2) refuse by (auto simp: serial_def replay_append lockFree_callable)
  then show ?thesis ..
next
  case (invoke t c)
  have "hostMutex s \<noteq> Some t" using serialD(1) [OF assms(2), of t] invoke by simp
  then have "serial h0 s' h" using assms(2) invoke by (auto simp: serial_def)
  then show ?thesis ..
next
  case (lock t c)
  then have "serial h0 s' h" using assms(2) by (auto simp: serial_def finish_code code_turns)
  then show ?thesis ..
next
  case (turn t c u k)
  note here = serialD(2) [OF assms(2) turn(2)]
  then have "lasting (sys_host s) (u (sys_host s))" by simp
  then have "serial h0 s' h" using assms(2) turn here unfolding serial_def by (auto intro: lasting_callable)
  then show ?thesis ..
next
  case (unlock t c r)
  note here = serialD(2) [OF assms(2) unlock(2)]
  then have "perform c h = (r, sys_host s)" "callable h c" by simp_all
  then have "host_step h (sys_host s)" by (intro perform_step)
  then have "serial h0 s' (sys_host s)"
    using assms(2) unlock here unfolding serial_def by (auto simp: replay_append intro: rtranclp.rtrancl_into_rtrancl)
  then show ?thesis ..
qed

lemma serial_reachable: "lib_step\<^sup>*\<^sup>* (startSystem h0) s \<Longrightarrow> \<exists>h. serial h0 s h"
  by (induction rule: rtranclp_induct) (use serial_start serial_step in blast)+

subsection \<open>Calls return\<close>

text \<open>The goroutine inside can always go on to the end of its call, whatever it is.\<close>

lemma inside_returns:
  "goroutines s t = Inside c p \<Longrightarrow> lib_step\<^sup>*\<^sup>* s (s\<lparr>sys_host := snd (finish p (sys_host s)), hostMutex := None,
     goroutines := (goroutines s)(t := Idle), returned := returned s @ [(t, c, fst (finish p (sys_host s)))]\<rparr>)"
proof (induction p arbitrary: s)
  case (Halt r)
  then show ?case using lib_step.unlock [OF Halt] by (simp add: r_into_rtranclp fun_upd_def)
next
  case (Turn u k)
  let ?s = "s\<lparr>sys_host := u (sys_host s), goroutines := (goroutines s)(t := Inside c (k (sys_host s)))\<rparr>"
  have "lib_step s ?s" using Turn.prems by (rule lib_step.turn)
  moreover have "lib_step\<^sup>*\<^sup>* ?s (s\<lparr>sys_host := snd (finish (Turn u k) (sys_host s)), hostMutex := None,
     goroutines := (goroutines s)(t := Idle), returned := returned s @ [(t, c, fst (finish (Turn u k) (sys_host s)))]\<rparr>)"
    using Turn.IH [OF rangeI, of ?s "sys_host s"] by (simp add: fun_upd_def cong: if_cong)
  ultimately show ?case by (rule converse_rtranclp_into_rtranclp)
qed

lemma mutex_released:
  assumes "serial h0 s h"
  shows "\<exists>s'. lib_step\<^sup>*\<^sup>* s s' \<and> hostMutex s' = None \<and> (\<forall>t c. goroutines s t = Waiting c \<longrightarrow> goroutines s' t = Waiting c)
    \<and> (\<exists>others. returned s' = returned s @ others \<and> length others \<le> 1)"
proof (cases "hostMutex s")
  case (Some t)
  then obtain c p where "goroutines s t = Inside c p" using serialD(1) [OF assms, of t] by (auto elim: isInside.elims)
  from inside_returns [OF this] this show ?thesis by (intro exI conjI) auto
qed auto

lemma waiting_returns:
  assumes "goroutines s t = Waiting c" "hostMutex s = None"
  shows "\<exists>s'. lib_step\<^sup>*\<^sup>* s s' \<and> goroutines s' t = Idle \<and> hostMutex s' = None
    \<and> returned s' = returned s @ [(t, c, fst (finish (code c) (sys_host s)))]"
proof -
  let ?s = "s\<lparr>hostMutex := Some t, goroutines := (goroutines s)(t := Inside c (code c))\<rparr>"
  have "lib_step s ?s" using assms by (rule lib_step.lock)
  moreover have "goroutines ?s t = Inside c (code c)" by simp
  note inside_returns [OF this]
  ultimately show ?thesis by (intro exI conjI, elim converse_rtranclp_into_rtranclp) auto
qed

section \<open>Properties\<close>

text \<open>
  C3. The mutex makes the library atomic: in every state that goroutines calling the library concurrently can reach, the calls that have
  returned have, in the order of their return, the effects and the answers that they have when they are made one after
  another; the host is well formed between calls; and at most one goroutine is inside a call, which takes the host, undisturbed, where that call alone takes it.
\<close>

theorem library_calls_linearizable:
  assumes "host_inv h0" "lib_step\<^sup>*\<^sup>* (startSystem h0) s"
  shows "\<exists>h. replay h0 (returned s) h \<and> host_inv h \<and> allCpus h = allCpus h0 \<and> (hostMutex s = None \<longrightarrow> sys_host s = h)
    \<and> (\<forall>t c p. goroutines s t = Inside c p \<longrightarrow> hostMutex s = Some t \<and> finish p (sys_host s) = perform c h)"
proof -
  obtain h where h: "serial h0 s h" using serial_reachable [OF assms(2)] by blast
  have "host_step\<^sup>*\<^sup>* h0 h" using h by (simp add: serial_def)
  then have "host_inv h \<and> allCpus h = allCpus h0" using assms(1) by (induction rule: rtranclp_induct) (auto dest: host_step_keeps)
  moreover have "replay h0 (returned s) h" "hostMutex s = None \<longrightarrow> sys_host s = h" using h by (simp_all add: serial_def)
  moreover have "\<forall>t c p. goroutines s t = Inside c p \<longrightarrow> hostMutex s = Some t \<and> finish p (sys_host s) = perform c h"
    using serialD(2) [OF h] by blast
  ultimately show ?thesis by auto
qed


section \<open>A concrete run\<close>

text \<open>The next step of a goroutine that is not idle.\<close>

definition advance :: "nat \<Rightarrow> system \<Rightarrow> system" where
  "advance t s = (case goroutines s t of
      Idle \<Rightarrow> s
    | Waiting c \<Rightarrow> (if hostMutex s = None then s\<lparr>hostMutex := Some t, goroutines := (goroutines s)(t := Inside c (code c))\<rparr> else s)
    | Inside c p \<Rightarrow> (case p of
        Turn u k \<Rightarrow> s\<lparr>sys_host := u (sys_host s), goroutines := (goroutines s)(t := Inside c (k (sys_host s)))\<rparr>
      | Halt r \<Rightarrow> s\<lparr>hostMutex := None, goroutines := (goroutines s)(t := Idle), returned := returned s @ [(t, c, r)]\<rparr>))"

lemma advance_step: "lib_step\<^sup>*\<^sup>* s (advance t s)"
  by (auto simp: advance_def intro: lib_step.intros r_into_rtranclp split: goroutine.split script.split)

lemma advances: "lib_step\<^sup>*\<^sup>* s ((advance t ^^ n) s)"
  by (induction n) (auto intro: rtranclp_trans advance_step)

text \<open>Two goroutines have called the library, the one to move CPU 0 to the exclusive pool, the other to empty that pool.\<close>

definition twoCalls :: system where
  "twoCalls = (startSystem (sampleHost plainMachine))\<lparr>goroutines := (\<lambda>_. Idle)(0 := Waiting (CallMoveCPUIDs (RExcl 0) [0]),
     1 := Waiting (CallSetCPUIDs (RExcl 0) []))\<rparr>"

lemma twoCalls_reachable: "lib_step\<^sup>*\<^sup>* (startSystem (sampleHost plainMachine)) twoCalls"
proof -
  let ?s = "startSystem (sampleHost plainMachine)"
  let ?s1 = "?s\<lparr>goroutines := (goroutines ?s)(0 := Waiting (CallMoveCPUIDs (RExcl 0) [0]))\<rparr>"
  have "lib_step ?s ?s1"
    by (rule lib_step.invoke) (simp_all add: startSystem_def callable_def sampleHost_allocated)
  moreover have "lib_step ?s1 (?s1\<lparr>goroutines := (goroutines ?s1)(1 := Waiting (CallSetCPUIDs (RExcl 0) []))\<rparr>)"
    by (rule lib_step.invoke) (simp_all add: startSystem_def callable_def sampleHost_allocated)
  moreover have "?s1\<lparr>goroutines := (goroutines ?s1)(1 := Waiting (CallSetCPUIDs (RExcl 0) []))\<rparr> = twoCalls"
    by (simp add: twoCalls_def startSystem_def)
  ultimately show ?thesis by (metis converse_rtranclp_into_rtranclp rtranclp.rtrancl_refl)
qed

theorem library_calls_linearizable_witness:
  "\<exists>s. lib_step\<^sup>*\<^sup>* twoCalls s \<and> map fst (returned s) = [0] \<and> goroutines s 0 = Idle
     \<and> replay (sampleHost plainMachine) (returned s) (sys_host s) \<and> host_inv (sys_host s)"
proof -
  have "goroutines twoCalls 0 = Waiting (CallMoveCPUIDs (RExcl 0) [0])" "hostMutex twoCalls = None" "returned twoCalls = []"
    by (simp_all add: twoCalls_def startSystem_def)
  from waiting_returns [OF this(1,2)] this(3) obtain s r where s: "lib_step\<^sup>*\<^sup>* twoCalls s" "goroutines s 0 = Idle" "hostMutex s = None"
    "returned s = [(0, CallMoveCPUIDs (RExcl 0) [0], r)]" by auto
  from library_calls_linearizable [OF sampleHost_inv [OF insertI1] rtranclp_trans [OF twoCalls_reachable s(1)]] s
  show ?thesis by auto
qed


text \<open>
  Readers do not take the mutex: while a move is under way they may see the CPU in no pool at all.
\<close>

lemma move_under_way:
  assumes "goroutines s t = Inside call (bindScript (setPoolScript c (RExcl k)) f)" "cpuPool (sys_host s) c = RShared"
    and "CPUList_remove c (Cpus RShared (sys_host s)) = Ret l"
  shows "sys_host ((advance t ^^ 5) s) = setCpusOf RShared l (setPoolField c (RExcl k) (sys_host s))"
  using assms
  by (simp add: numeral_eq_Suc advance_def look_def single_def followed_def setPoolScript_def doSetPoolScript_def isExclusive_def Let_def Cpus_setters)

lemma reader_misses_cpu:
  "\<exists>s. lib_step\<^sup>*\<^sup>* (startSystem (sampleHost plainMachine)) s \<and> 0 \<in> set (allCpus (sys_host s))
     \<and> list_all (\<lambda>p. 0 \<notin> set (Cpus p (sys_host s))) (RShared # RReserved # exclusivePools (sys_host s))"
proof -
  let ?h = "sampleHost plainMachine"
  let ?s = "startSystem ?h"
  let ?s1 = "?s\<lparr>goroutines := (goroutines ?s)(0 := Waiting (CallMoveCpus (RExcl 0) [0]))\<rparr>"
  let ?s2 = "advance 0 ?s1"
  have "lib_step ?s ?s1"
    by (rule lib_step.invoke) (simp_all add: startSystem_def callable_def sampleHost_allocated)
  then have r: "lib_step\<^sup>*\<^sup>* ?s ((advance 0 ^^ 5) ?s2)"
    by (meson advances advance_step converse_rtranclp_into_rtranclp rtranclp_trans)
  have s2: "goroutines ?s2 0 = Inside (CallMoveCpus (RExcl 0) [0]) (code (CallMoveCpus (RExcl 0) [0]))" "sys_host ?s2 = ?h"
    by (simp_all add: advance_def startSystem_def)
  have "code (CallMoveCpus (RExcl 0) [0]) = bindScript (setPoolScript 0 (RExcl 0))
      (\<lambda>r. bindScript (case r of Ret _ \<Rightarrow> Halt (Ret ()) | Fail e \<Rightarrow> Halt (Fail e) | Panic m \<Rightarrow> Halt (Panic m)) (\<lambda>r. Halt (Outcome r)))"
    by (simp add: answering_def moveScript_def followed_def bindScript_assoc)
  note c = s2(1) [unfolded this]
  have "cpuPool ?h 0 = RShared" "CPUList_remove 0 (Cpus RShared ?h) = Ret []" by code_simp+
  with move_under_way [OF c] s2(2) have m: "sys_host ((advance 0 ^^ 5) ?s2) = setCpusOf RShared [] (setPoolField 0 (RExcl 0) ?h)" by simp
  have "0 \<in> set (allCpus (sys_host ((advance 0 ^^ 5) ?s2)))"
    "list_all (\<lambda>p. 0 \<notin> set (Cpus p (sys_host ((advance 0 ^^ 5) ?s2)))) (RShared # RReserved # exclusivePools (sys_host ((advance 0 ^^ 5) ?s2)))"
    unfolding m by code_simp+
  with r show ?thesis by blast
qed

end
