(* ===== verification/Tuning.thy ===== *)
theory Tuning
  imports Library_Calls Locking
begin

text \<open>
  What the library is for: the CPUs run under the profiles of their pools.  The facts: every entry point that succeeds leaves all CPUs of the
  host tuned if they were, and CPUs are tuned in every state of concurrent calls of which none has failed.
\<close>

section \<open>Loops that succeed\<close>

locale succeeding =
  fixes op :: "'x \<Rightarrow> (unit, 's) action" and I :: "'s \<Rightarrow> bool"
  assumes succeed: "I s \<Longrightarrow> op x s = (Ret (), s') \<Longrightarrow> I s'"
begin

lemma forEach_succeed: "I s \<Longrightarrow> forEach op xs s = (Ret (), s') \<Longrightarrow> I s'"
  by (induction xs arbitrary: s) (auto simp: andThen_Ret_iff dest: succeed)

end

section \<open>Tuned hosts\<close>

definition tunable :: "hw \<Rightarrow> bool" where
  "tunable s \<longleftrightarrow> isFeatureIDSupported (featureList s) FrequencyScalingFeature \<and> isFeatureIDSupported (featureList s) CStatesFeature \<and> cstates_wf s"

definition tuned :: "hostImpl \<Rightarrow> nat \<Rightarrow> bool" where
  "tuned h c \<longleftrightarrow> (\<forall>prof. GetPowerProfile (cpuPool h c) h = Some prof \<longrightarrow> runsUnder c prof (machineOf h) (machineOf h))"

definition well_tuned :: "hostImpl \<Rightarrow> bool" where
  "well_tuned h \<longleftrightarrow> host_inv h \<and> tunable (machineOf h) \<and> (\<forall>c \<in> set (allCpus h). tuned h c)"

lemma tunable_cong: "knowledge t = knowledge s \<Longrightarrow> tunable t = tunable s"
  using knowledge_fields(1) [of t s] cstates_wf_cong [of t s] by (simp add: tunable_def)

text \<open>A change of the files of other CPUs only, with the profile of the CPU's pool as before.\<close>

lemma tuned_cong:
  assumes "tuned h c" "GetPowerProfile (cpuPool h' c) h' = GetPowerProfile (cpuPool h c) h"
    and "knowledge (machineOf h') = knowledge (machineOf h)"
    and "\<And>f. contents (sys (machineOf h')) (CPUFile c f) = contents (sys (machineOf h)) (CPUFile c f)"
  shows "tuned h' c"
  using assms runsUnder_cong [of c _ "machineOf h" "machineOf h" "machineOf h'" "machineOf h'"] by (auto simp: tuned_def)

lemma consolidate_tunes:
  assumes "consolidate c h = (Ret (), h')" "tunable (machineOf h)"
  shows "tuned h' c"
proof -
  note f = consolidate_frame [OF assms(1)]
  have k: "knowledge (machineOf h') = knowledge (machineOf h)" using f(4) by (rule touches_knowledge)
  show ?thesis
    using consolidate_runsUnder [OF assms(1)] assms(2) f(2,3) runsUnder_cong [OF _ k, of c _ "machineOf h'" "machineOf h'"]
    by (auto simp: tuned_def tunable_def GetPowerProfile_def)
qed

lemma setPool_tunes:
  assumes "well_tuned h" "allocated h p" "setPool c (Some p) h = (Ret (), h')"
  shows "well_tuned h'"
proof -
  have h: "host_inv h" "tunable (machineOf h)" "\<forall>d \<in> set (allCpus h). tuned h d" using assms(1) by (simp_all add: well_tuned_def)
  have m: "host_inv h'" "host_frame h h'" "touches (cpuFiles c) (machineOf h) (machineOf h')" "cpuPool h' = (cpuPool h)(c := p)"
    using setPool_moved [OF h(1) assms(2), of c] assms(3) by (simp_all add: moved_def)
  have k: "knowledge (machineOf h') = knowledge (machineOf h)" using m(3) by (rule touches_knowledge)
  have others: "tuned h' d" if "tuned h d" "d \<noteq> c" for d
    using that m(2,4) touches_file [OF m(3)] by (intro tuned_cong [OF that(1) _ k]) (auto simp: host_frame_def GetPowerProfile_def cpuFiles_def)
  have "tuned h' c" if "c \<in> set (allCpus h)"
  proof (cases "cpuPool h c = p")
    case True
    then show ?thesis using assms(3) h(3) that by (simp add: setPool_def)
  next
    case False
    then have "doSetPool c p h = (Ret (), h')" using assms(3) by (auto simp: setPool_def split: if_splits)
    then obtain l h3 where s: "consolidate c (setCpusOf (cpuPool h c) l (setPoolField c p h)) = (Ret (), h3)"
      and e: "h' = setCpusOf (cpuPool h3 c) (CPUList_add c (Cpus (cpuPool h3 c) h3)) h3"
      by (auto simp: doSetPool_def Let_def split: gores.splits prod.splits)
    from consolidate_tunes [OF s] h(2) have "tuned h3 c" by (simp add: setCpusOf_def setPoolField_def)
    then show ?thesis by (simp add: tuned_def e setCpusOf_def GetPowerProfile_def)
  qed
  then have "\<forall>d \<in> set (allCpus h'). tuned h' d" using others h(3) m(2) by (metis host_frame_def)
  with m(1) h(2) tunable_cong [OF k] show ?thesis by (simp add: well_tuned_def)
qed

section \<open>The entry points\<close>

lemma setPool_keeps_tuned:
  assumes "well_tuned h" "allocated h p" "allocated h q" "setPool c (Some q) h = (Ret (), h')"
  shows "well_tuned h' \<and> allocated h' p"
proof -
  have "host_inv h" using assms(1) by (simp add: well_tuned_def)
  from setPool_moved [OF this assms(3), of c] have "host_frame h h'" by (simp add: moved_def assms(4))
  with setPool_tunes [OF assms(1,3,4)] assms(2) show ?thesis by (simp add: host_frame_allocated)
qed

interpretation moving: succeeding "\<lambda>c. setPool c (Some p)" "\<lambda>h. well_tuned h \<and> allocated h p" for p
  by unfold_locales (metis setPool_keeps_tuned)

lemma setCpuBody_Ret:
  assumes "setCpuBody p cores c h = (Ret (), h')"
  shows "h' = h \<or> (\<exists>q \<in> {p, RShared, RReserved}. setPool c (Some q) h = (Ret (), h'))"
proof (cases p)
  case RShared
  then show ?thesis using assms by (simp add: setCpuBody_def sharedSetCpu_def split: if_splits)
next
  case RReserved
  then show ?thesis using assms by (simp add: setCpuBody_def reservedSetCpu_def split: if_splits)
next
  case (RExcl k)
  then show ?thesis using assms by (simp add: setCpuBody_def exclusiveSetCpu_def split: if_splits)
qed

interpretation setting: succeeding "setCpuBody p cores" "\<lambda>h. well_tuned h \<and> allocated h p" for p cores
proof
  fix h c h' assume i: "well_tuned h \<and> allocated h p" and s: "setCpuBody p cores c h = (Ret (), h')"
  show "well_tuned h' \<and> allocated h' p"
  proof (cases "h' = h")
    case False
    then obtain q where q: "q \<in> {p, RShared, RReserved}" "setPool c (Some q) h = (Ret (), h')" using setCpuBody_Ret [OF s] by blast
    then have "allocated h q" using i allocated_predefined [of h] by blast
    then show ?thesis using setPool_keeps_tuned i q(2) by metis
  qed (use i in simp)
qed

lemma SetPowerProfile_tunes:
  assumes "well_tuned h" "SetPowerProfile p pr h = (Ret (), h')"
  shows "well_tuned h'"
proof -
  have h: "host_inv h" "tunable (machineOf h)" "\<forall>d \<in> set (allCpus h). tuned h d" using assms(1) by (simp_all add: well_tuned_def)
  let ?h = "withProfile p pr h"
  have "p \<noteq> RReserved" using assms(2) by (auto simp: SetPowerProfile_eq)
  then have run: "forEach consolidate (Cpus p h) ?h = (Ret (), h')" using assms(2) by (simp add: SetPowerProfile_unfold)
  note f = forEach_consolidate_frame [OF run]
  have k: "knowledge (machineOf h') = knowledge (machineOf h)" using f by (simp add: host_frame_def)
  have m: "distinct (Cpus p h)" "\<And>c. c \<in> set (Cpus p h) \<longleftrightarrow> c \<in> set (allCpus h) \<and> cpuPool h c = p"
    using h(1) by (auto simp: host_inv_def membership_ok_def)
  have "tuned h' c" if c: "c \<in> set (allCpus h)" for c
  proof (cases "c \<in> set (Cpus p h)")
    case True
    obtain h1 h2 where s: "consolidate c h1 = (Ret (), h2)" "cpuPool h1 = cpuPool ?h" "pools h1 = pools ?h"
      "knowledge (machineOf h1) = knowledge (machineOf ?h)"
      and e: "\<forall>f. contents (sys (machineOf h')) (CPUFile c f) = contents (sys (machineOf h2)) (CPUFile c f)"
      using forEach_consolidate_Ret [OF run m(1) True] by blast
    note f1 = consolidate_frame [OF s(1)]
    have "tuned h2 c" using consolidate_tunes [OF s(1)] tunable_cong [OF s(4)] h(2) by simp
    then show ?thesis
      by (rule tuned_cong) (use e f f1 s k touches_knowledge [OF f1(4)] in \<open>simp_all add: GetPowerProfile_def\<close>)
  next
    case False
    then have "cpuPool h c \<noteq> p" using m(2) c by simp
    moreover have "contents (sys (machineOf h')) (CPUFile c g) = contents (sys (machineOf h)) (CPUFile c g)" for g
      using forEach_consolidate_files [OF run] False by (auto simp: cpuFiles_def)
    ultimately show ?thesis using h(3) c f by (intro tuned_cong [OF _ _ k]) (auto simp: GetPowerProfile_def withProfile_def)
  qed
  moreover have "host_inv h'" "allCpus h' = allCpus h" using SetPowerProfile_keep [OF h(1) assms(2)] by simp_all
  ultimately show ?thesis using h(2) tunable_cong [OF k] by (simp add: well_tuned_def)
qed

lemma setCpus_tunes:
  assumes "well_tuned h" "allocated h p" "setCpus p cores h = (Ret (), h')"
  shows "well_tuned h'"
  using setting.forEach_succeed [of h p cores] assms by (simp add: setCpus_eq)

lemma moveCpus_tunes:
  assumes "well_tuned h" "allocated h p" "moveCpus p cs h = (Ret (), h')"
  shows "well_tuned h'"
  using moving.forEach_succeed [of h p] assms by (simp add: moveCpus_def)

lemma IDs_tune:
  assumes "well_tuned h" "allocated h p"
  shows "MoveCPUIDs p ids h = (Ret (), h') \<Longrightarrow> well_tuned h'" "SetCPUIDs p ids h = (Ret (), h') \<Longrightarrow> well_tuned h'"
  using moveCpus_tunes [OF assms] setCpus_tunes [OF assms]
  by (auto simp: MoveCPUIDs_eq SetCPUIDs_eq reading_def andThen_Ret_iff wrapErr_Ret_iff)

lemma host_fields_tuned:
  assumes "well_tuned h" "host_inv h'" "machineOf h' = machineOf h" "allCpus h' = allCpus h" "cpuPool h' = cpuPool h"
    and "\<And>c. c \<in> set (allCpus h) \<Longrightarrow> GetPowerProfile (cpuPool h c) h' = GetPowerProfile (cpuPool h c) h"
  shows "well_tuned h'"
  using assms by (simp add: well_tuned_def tuned_def)

lemma Remove_tunes:
  assumes "well_tuned h" "allocated h p" "Remove p h = (Ret (), h')"
  shows "well_tuned h'"
proof (cases p)
  case (RExcl k)
  then obtain h1 where h1: "setCpus p [] h = (Ret (), h1)" "PoolList_remove p h1 = (Ret (), h')"
    using assms(3) by (auto simp: Remove_eq andThen_Ret_iff)
  have "host_inv h" using assms(1) by (simp add: well_tuned_def)
  with Remove_keep [OF this assms(2,3)] setCpus_tunes [OF assms(1,2) h1(1)] h1(2) show ?thesis
    by (elim host_fields_tuned) (auto simp: PoolList_remove_def Let_def GetPowerProfile_def split: if_splits)
qed (use assms in \<open>simp_all add: Remove_eq\<close>)

lemma AddExclusivePool_tunes:
  assumes "well_tuned h" "AddExclusivePool n h = (r, h')"
  shows "well_tuned h'"
proof -
  have i: "host_inv h" using assms(1) by (simp add: well_tuned_def)
  have "cpuPool h c \<noteq> RExcl (nextPool h)" if "c \<in> set (allCpus h)" for c
    using i that by (fastforce simp: host_inv_def membership_ok_def allocated_def)
  moreover have "h' = h \<or> (machineOf h' = machineOf h \<and> cpuPool h' = cpuPool h \<and> (\<forall>q. q \<noteq> RExcl (nextPool h) \<longrightarrow> pools h' q = pools h q))"
    using assms(2) by (auto simp: AddExclusivePool_def Let_def split: if_splits)
  ultimately show ?thesis
    using AddExclusivePool_keep [OF i assms(2)] assms(1) by (elim disjE, simp, intro host_fields_tuned [OF assms(1)]) (auto simp: GetPowerProfile_def)
qed

section \<open>Sequences of calls\<close>

fun succeeded :: "answer \<Rightarrow> bool" where
  "succeeded (Outcome r) = isRet r"
| "succeeded (Added _ _) = True"

lemma perform_tunes:
  assumes "well_tuned h" "callable h c" "perform c h = (r, h')" "succeeded r"
  shows "well_tuned h'"
  using assms
  by (cases c) (auto simp: callable_def map_prod_def MoveCpus_eq isRet_iff split: prod.splits
      intro: moveCpus_tunes IDs_tune SetPowerProfile_tunes AddExclusivePool_tunes Remove_tunes)

lemma replay_tunes:
  "replay h calls h' \<Longrightarrow> well_tuned h \<Longrightarrow> \<forall>(t, c, r) \<in> set calls. succeeded r \<Longrightarrow> well_tuned h'"
  by (induction h calls h' rule: replay.induct) (auto split: prod.splits dest: perform_tunes)

text \<open>A new host is tuned: no pool has a profile.\<close>

lemma new_host_tuned: "host_inv h \<Longrightarrow> tunable (machineOf h) \<Longrightarrow> (\<And>p. GetPowerProfile p h = None) \<Longrightarrow> well_tuned h"
  by (simp add: well_tuned_def tuned_def)

section \<open>Property\<close>

text \<open>
  C12. Concurrent calls keep the CPUs tuned: if the CPUs run under the profiles of their pools at the start and none of the calls that have returned
  has failed, then between calls every CPU is in a pool under whose profile it runs, with the governor, the limits and the idle states of that
  profile, in whatever order the calls of the goroutines have been made.
\<close>

theorem concurrent_calls_tune:
  assumes "well_tuned h0" "lib_step\<^sup>*\<^sup>* (startSystem h0) s" "hostMutex s = None" "\<forall>(t, c, r) \<in> set (returned s). succeeded r"
    and "cpu \<in> set (allCpus h0)"
  shows "(\<exists>!p. cpu \<in> set (Cpus p (sys_host s)))
    \<and> (\<forall>p prof. cpu \<in> set (Cpus p (sys_host s)) \<and> GetPowerProfile p (sys_host s) = Some prof \<longrightarrow>
         runsUnder cpu prof (machineOf (sys_host s)) (machineOf (sys_host s)))"
proof -
  obtain h where h: "serial h0 s h" using serial_reachable [OF assms(2)] by blast
  then have r: "replay h0 (returned s) h" "sys_host s = h" "host_step\<^sup>*\<^sup>* h0 h" using assms(3) by (simp_all add: serial_def)
  have w: "well_tuned h" using replay_tunes [OF r(1) assms(1,4)] .
  have "reached h0 h" using assms(1) r(3) by (simp add: reached_def well_tuned_def)
  then have a: "allCpus h = allCpus h0" by (rule reached_allCpus)
  have m: "cpu \<in> set (Cpus p h) \<longleftrightarrow> cpuPool h cpu = p" for p
    using w assms(5) a by (auto simp: well_tuned_def host_inv_def membership_ok_def)
  have "tuned h cpu" using w assms(5) a by (simp add: well_tuned_def)
  then show ?thesis by (auto simp: r(2) m tuned_def)
qed

text \<open>The shared pool of the sample host gets a profile, and its CPU runs under it.\<close>

theorem concurrent_calls_tune_witness:
  "\<exists>s. lib_step\<^sup>*\<^sup>* (startSystem (sampleHost twoCPUMachine)) s \<and> GetPowerProfile RShared (sys_host s) = Some sampleProfile
     \<and> runsUnder 0 sampleProfile (machineOf (sys_host s)) (machineOf (sys_host s))"
proof -
  let ?h = "sampleHost twoCPUMachine" and ?c = "CallSetPowerProfile RShared (Some sampleProfile)"
  let ?s = "(startSystem ?h)\<lparr>goroutines := (goroutines (startSystem ?h))(0 := Waiting ?c)\<rparr>"
  have "lib_step (startSystem ?h) ?s" by (rule lib_step.invoke) (simp_all add: startSystem_def callable_def allocated_predefined)
  moreover obtain s r where s: "lib_step\<^sup>*\<^sup>* ?s s" "hostMutex s = None" "returned s = [(0, ?c, fst (finish (code ?c) ?h))]"
    using waiting_returns [of ?s 0 ?c] by (auto simp: startSystem_def)
  ultimately have run: "lib_step\<^sup>*\<^sup>* (startSystem ?h) s" by (metis converse_rtranclp_into_rtranclp)
  have ok: "fst (SetPowerProfile RShared (Some sampleProfile) ?h) = Ret ()" by code_simp
  then have returned: "returned s = [(0, ?c, Outcome (Ret ()))]" using s(3) finish_code [of ?c ?h] by (simp add: map_prod_def split: prod.splits)
  have t: "tunable twoCPUMachine"
    by (simp add: tunable_def twoCPUMachine_def machine_def isFeatureIDSupported_def isSupported_def cstates_wf_def cstatesInfoOf_def)
  have i: "host_inv ?h" by (rule sampleHost_inv [OF insertI2 [OF insertI1]])
  have "well_tuned ?h" by (rule new_host_tuned [OF i]) (simp_all add: t sampleHost_def GetPowerProfile_def split: pool_ref.split)
  note tune = concurrent_calls_tune [OF this run s(2), of 0]
  obtain h where "serial ?h s h" using serial_reachable [OF run] by blast
  then have "sys_host s = snd (SetPowerProfile RShared (Some sampleProfile) ?h)" using returned s(2) by (auto simp: serial_def map_prod_def split: prod.splits)
  moreover have "GetPowerProfile RShared (snd (SetPowerProfile RShared (Some sampleProfile) ?h)) = Some sampleProfile"
    "0 \<in> set (Cpus RShared (snd (SetPowerProfile RShared (Some sampleProfile) ?h)))" by code_simp+
  moreover have "0 \<in> set (allCpus ?h)" by (simp add: sampleHost_def topology_CPUs_def)
  ultimately show ?thesis using tune returned run by auto
qed

end
