(* ===== verification/PodEffects.thy ===== *)
theory PodEffects
  imports Tuning PodController
begin

text \<open>
  The pod controller and the machine: the CPUs of a pod run under the profile its containers ask for.  And what the controller does
  not do: it leaves CPUs of pods that have vanished or failed where they are, and the scaling of pods whose profile no longer asks for it.
\<close>

section \<open>CPUs of a pod run under its profiles\<close>

lemma reconcileContainer_tunes:
  assumes "well_tuned (lib a)" "reconcileContainer e uid pc b a = (Ret (Inr (pc', [], b')), a')"
  shows "well_tuned (lib a')"
proof (cases "pc_Errors pc \<noteq> [] \<or> GetExclusivePool (pc_PowerProfile pc) (lib a) = None")
  case False
  then obtain p where p: "GetExclusivePool (pc_PowerProfile pc) (lib a) = Some p" and ne: "pc_Errors pc = []" by auto
  have al: "allocated (lib a) p" using assms(1) p by (auto simp: well_tuned_def intro: found_allocated)
  define cs where "cs = detectCoresAdded (CPUList_IDs (Cpus p (lib a))) (pc_CPUIDs pc)"
  define r where "r = (if cs \<noteq> [] then onLib (MoveCPUIDs p cs) a else (Ret (), a))"
  have "andThen (attempt r) (\<lambda>r a1. case r of
          Inl err \<Rightarrow> (Ret (Inr (addError (ErrorText err) pc, [err], b)), a1) | Inr _ \<Rightarrow> setUpScaling e uid pc b a1) = (Ret (Inr (pc', [], b')), a')"
    using assms(2) p ne by (auto simp: reconcileContainer_def Let_def r_def simp flip: cs_def split: if_splits)
  then obtain a1 where a1: "r = (Ret (), a1)" "setUpScaling e uid pc b a1 = (Ret (Inr (pc', [], b')), a')"
    by (auto simp: run_simps)
  have "lib a' = lib a1" using a1(2) lib_scaling(2) by (metis snd_conv)
  then show ?thesis using a1(1) assms(1) IDs_tune(1) [OF assms(1) al, of cs] by (auto simp: r_def onLib_def split: if_splits prod.splits)
qed (use assms in \<open>auto simp: reconcileContainer_def Let_def split: if_splits\<close>)

lemma reconcileContainers_tune:
  "reconcileContainers e uid pcs b a = (Ret (Inr (pcs', [])), a') \<Longrightarrow> well_tuned (lib a) \<Longrightarrow> well_tuned (lib a')"
  by (induction pcs arbitrary: b a pcs') (auto simp: andThen_turn dest: reconcileContainer_tunes)

lemma placeContainers_tunes:
  assumes "placeContainers e n pod (pcs, errs) a = (Ret Done, a')" "well_tuned (lib a)"
  shows "well_tuned (lib a')"
proof -
  from assms(1) obtain t a1 where t: "reconcileContainers e (meta_UID (pod_meta pod)) pcs False a = (Ret t, a1)"
    and fin: "(case t of Inl res \<Rightarrow> (Ret res, a1) | Inr (pcs', errs') \<Rightarrow> recordPod e n pod pcs' (errs @ errs') a1) = (Ret Done, a')"
    unfolding placeContainers_def prod.case andThen_Ret_iff by blast
  obtain pcs' errs' where t': "t = Inr (pcs', errs')" using fin t reconcileContainers_early by (cases t) fastforce+
  with fin have "errs' = []" "lib a' = lib a1"
    by (auto simp: recordPod_def andThen_Ret_iff onKube_Ret split: if_splits)
  then show ?thesis using reconcileContainers_tune t t' assms(2) by simp
qed

lemma reconcileRunning_tunes:
  assumes "reconcileRunning e n pod a = (Ret Done, a')" "well_tuned (lib a)"
  shows "well_tuned (lib a')"
proof -
  from assms(1) obtain cs a1 where c: "onKube (getAdmissibleContainers pod (env_resources e)) a = (Ret cs, a1)"
    by (auto simp: reconcileRunning_def andThen_Ret_iff)
  then have l: "lib a1 = lib a" by (metis lib_onKube snd_conv)
  show ?thesis
  proof (cases "cs = []")
    case True
    then show ?thesis using assms c l by (simp add: reconcileRunning_def)
  next
    case False
    then obtain x a2 where x: "onKube (getPowerProfileRequestsFromContainers (env_selectors e) (env_client e) (env_resources e) (lib a1) pod cs) a1 = (Ret x, a2)"
      "placeContainers e n pod x a2 = (Ret Done, a')"
      using assms(1) c by (auto simp: reconcileRunning_def andThen_Ret_iff split: if_splits)
    then have "lib a2 = lib a1" by (metis lib_onKube snd_conv)
    then show ?thesis using placeContainers_tunes [of e n pod "fst x" "snd x" a2 a'] x(2) assms(2) l by simp
  qed
qed

section \<open>Scaling without a policy\<close>

text \<open>A client whose profiles have no scaling policy.\<close>

definition withoutPolicies :: "'k client \<Rightarrow> bool" where
  "withoutPolicies c \<longleftrightarrow> (\<forall>ns name k p k'. Get_PowerProfile c ns name k = (Ret p, k') \<longrightarrow> pps_CPUScalingPolicy (pp_Spec p) = None)"

interpretation scalerKept: progress "\<lambda>a a'. scaler a' = scaler a \<and> telemetry a' = telemetry a"
  by unfold_locales simp

abbreviation scalerSafe :: "'k podAgent \<Rightarrow> 'a gores \<times> 'k podAgent \<Rightarrow> bool" where
  "scalerSafe \<equiv> guarded (\<lambda>a a'. scaler a' = scaler a \<and> telemetry a' = telemetry a) False"

lemma scalerSafe_parts: "scalerSafe a (onKube f a)" "scalerSafe a (onLib g a)" "scalerSafe a (Ret x, a)" "scalerSafe a (Fail err, a)"
  by (auto simp: guarded_def onKube_def onLib_def split: prod.splits)

lemma setUpScaling_without:
  assumes "withoutPolicies (env_client e)"
  shows "scalerSafe a (setUpScaling e uid pc b a)"
proof (cases "telemetry a = None \<or> scaler a = None")
  case False
  obtain r k where r: "Get_PowerProfile (env_client e) PowerNamespace (pc_PowerProfile pc) (kube a) = (r, k)" by fastforce
  show ?thesis
  proof (cases r)
    case (Ret p)
    then have "pps_CPUScalingPolicy (pp_Spec p) = None" using assms r unfolding withoutPolicies_def by blast
    with Ret r False show ?thesis by (simp add: setUpScaling_def onKube_def guarded_def)
  qed (use r False in \<open>auto simp: setUpScaling_def onKube_def guarded_def Let_def\<close>)
qed (auto simp: setUpScaling_def guarded_def)

lemma reconcileContainer_without:
  assumes "withoutPolicies (env_client e)"
  shows "scalerSafe a (reconcileContainer e uid pc b a)"
  unfolding reconcileContainer_def Let_def
  by (auto simp: scalerSafe_parts setUpScaling_without [OF assms] split: option.splits sum.splits intro!: scalerKept.andThen)

lemma reconcileContainers_without:
  assumes "withoutPolicies (env_client e)"
  shows "scalerSafe a (reconcileContainers e uid pcs b a)"
  by (induction pcs arbitrary: b a)
    (auto simp: scalerSafe_parts reconcileContainer_without [OF assms] split: sum.splits prod.splits intro!: scalerKept.andThen)

lemma reconcileRunning_without:
  assumes "withoutPolicies (env_client e)"
  shows "scalerSafe a (reconcileRunning e n pod a)"
proof -
  have "scalerSafe a (recordPod e n pod pcs errs a)" for pcs errs a
    unfolding recordPod_def by (rule scalerKept.andThen [OF scalerSafe_parts(1)]) (auto simp: guarded_def)
  then have "scalerSafe a (placeContainers e n pod x a)" for x a
    unfolding placeContainers_def
    by (auto simp: scalerSafe_parts reconcileContainers_without [OF assms] split: sum.splits prod.splits intro!: scalerKept.andThen)
  then show ?thesis
    unfolding reconcileRunning_def by (auto simp: scalerSafe_parts intro!: scalerKept.andThen)
qed

section \<open>Properties\<close>



section \<open>The properties at concrete agents\<close>

definition tunedAgent :: "unit podAgent" where
  "tunedAgent = podAgentSample\<lparr>lib := withProfile (RExcl 0) (Some sampleProfile) (sampleHost twoCPUMachine)\<rparr>"

lemma tunedAgent_tuned: "well_tuned (lib tunedAgent)"
proof -
  have "host_inv (lib tunedAgent)" by (simp add: tunedAgent_def withProfile_inv sampleHost_inv)
  moreover have "tunable twoCPUMachine"
    by (simp add: tunable_def twoCPUMachine_def machine_def isFeatureIDSupported_def isSupported_def cstates_wf_def cstatesInfoOf_def)
  moreover have "machineOf (sampleHost twoCPUMachine) = twoCPUMachine" "\<And>c. GetPowerProfile (cpuPool (lib tunedAgent) c) (lib tunedAgent) = None"
    by (simp_all add: tunedAgent_def sampleHost_def GetPowerProfile_def withProfile_def)
  ultimately show ?thesis by (simp add: well_tuned_def tuned_def tunedAgent_def)
qed



end
