(* ===== verification/Watches.thy ===== *)
theory Watches
  imports NodeConfig UncoreController ProfileController PodController ConfigController
begin

text \<open>
  How the controllers hear of changes: the \<^verbatim>\<open>SetupWithManager\<close> of each of them, with the predicates and handlers of controller-runtime that they use.
  A watch turns an event of the cluster into the requests it puts into the controller's queue.  The facts: what a change of labels, of a scaling
  policy or of the status of the node leads to, and that one request is enough where the code enqueues one only.
\<close>

section \<open>Events, predicates and handlers of controller-runtime\<close>

datatype 'o event = CreateEvent 'o | UpdateEvent (ObjectOld: 'o) (ObjectNew: 'o) | DeleteEvent 'o | GenericEvent 'o

text \<open>A struct \<^verbatim>\<open>predicate.Funcs\<close> with all four functions set.\<close>

record 'o Funcs =
  CreateFunc :: "'o \<Rightarrow> bool"
  UpdateFunc :: "'o \<Rightarrow> 'o \<Rightarrow> bool"
  DeleteFunc :: "'o \<Rightarrow> bool"
  GenericFunc :: "'o \<Rightarrow> bool"

fun accepts :: "'o Funcs \<Rightarrow> 'o event \<Rightarrow> bool" where
  "accepts p (CreateEvent x) = CreateFunc p x"
| "accepts p (UpdateEvent old new) = UpdateFunc p old new"
| "accepts p (DeleteEvent x) = DeleteFunc p x"
| "accepts p (GenericEvent x) = GenericFunc p x"

definition GenerationChangedPredicate :: "('o \<Rightarrow> ObjectMeta) \<Rightarrow> 'o Funcs" where
  "GenerationChangedPredicate meta = \<lparr>CreateFunc = (\<lambda>_. True),
     UpdateFunc = (\<lambda>old new. meta_Generation (meta new) \<noteq> meta_Generation (meta old)),
     DeleteFunc = (\<lambda>_. True), GenericFunc = (\<lambda>_. True)\<rparr>"

definition NewPredicateFuncs :: "('o \<Rightarrow> bool) \<Rightarrow> 'o Funcs" where
  "NewPredicateFuncs filt = \<lparr>CreateFunc = filt, UpdateFunc = (\<lambda>_ new. filt new), DeleteFunc = filt, GenericFunc = filt\<rparr>"

text \<open>The request for an object itself.\<close>

definition requestOf :: "ObjectMeta \<Rightarrow> Request" where
  "requestOf m = \<lparr>req_Namespace = meta_Namespace m, req_Name = meta_Name m\<rparr>"

fun EnqueueRequestForObject :: "('o \<Rightarrow> ObjectMeta) \<Rightarrow> 'o event \<Rightarrow> (Request list, 'k) action" where
  "EnqueueRequestForObject meta (CreateEvent x) k = (Ret [requestOf (meta x)], k)"
| "EnqueueRequestForObject meta (UpdateEvent old new) k = (Ret [requestOf (meta new)], k)"
| "EnqueueRequestForObject meta (DeleteEvent x) k = (Ret [requestOf (meta x)], k)"
| "EnqueueRequestForObject meta (GenericEvent x) k = (Ret [requestOf (meta x)], k)"

text \<open>The requests of the map function that are not in \<^verbatim>\<open>reqs\<close> yet are added to the queue, in their order.\<close>

definition addNew :: "Request list \<Rightarrow> Request list \<Rightarrow> Request list" where
  "addNew rs reqs = fold (\<lambda>req reqs. if req \<in> set reqs then reqs else reqs @ [req]) rs reqs"

definition mapAndEnqueue :: "('o \<Rightarrow> (Request list, 'k) action) \<Rightarrow> 'o \<Rightarrow> Request list \<Rightarrow> (Request list, 'k) action" where
  "mapAndEnqueue toRequests x reqs k = andThen (toRequests x k) (\<lambda>rs k1. (Ret (addNew rs reqs), k1))"

text \<open>For an update the map function is run on the old and on the new object.\<close>

fun EnqueueRequestsFromMapFunc :: "('o \<Rightarrow> (Request list, 'k) action) \<Rightarrow> 'o event \<Rightarrow> (Request list, 'k) action" where
  "EnqueueRequestsFromMapFunc f (CreateEvent x) k = mapAndEnqueue f x [] k"
| "EnqueueRequestsFromMapFunc f (UpdateEvent old new) k = andThen (mapAndEnqueue f old [] k) (mapAndEnqueue f new)"
| "EnqueueRequestsFromMapFunc f (DeleteEvent x) k = mapAndEnqueue f x [] k"
| "EnqueueRequestsFromMapFunc f (GenericEvent x) k = mapAndEnqueue f x [] k"

definition watch :: "'o Funcs \<Rightarrow> ('o event \<Rightarrow> (Request list, 'k) action) \<Rightarrow> 'o event \<Rightarrow> (Request list, 'k) action" where
  "watch p handler ev k = (if accepts p ev then handler ev k else (Ret [], k))"

section \<open>The watches of the controllers\<close>

text \<open>A \<^verbatim>\<open>PowerNodeState\<close>: its metadata and its status.\<close>

type_synonym PowerNodeState = "ObjectMeta \<times> PowerNodeStateStatus"

text \<open>
  The node whose labels have changed.  A nil map of labels and an empty one, which only \<^verbatim>\<open>reflect.DeepEqual\<close> tells apart, are one
  map here; the API server stores neither.
\<close>

definition labelsOnly :: "string \<Rightarrow> Node Funcs" where
  "labelsOnly nodeName = \<lparr>CreateFunc = (\<lambda>_. False), UpdateFunc = nodeLabelsChanged nodeName, DeleteFunc = (\<lambda>_. False), GenericFunc = (\<lambda>_. False)\<rparr>"

datatype powerNodeConfig_event = ConfigChanged "PowerNodeConfig event" | ConfigNode "Node event" | ConfigState "PowerNodeState event"

definition exclusiveOnly :: "string \<Rightarrow> PowerNodeState Funcs" where
  "exclusiveOnly nodeName = \<lparr>CreateFunc = (\<lambda>_. False),
     UpdateFunc = (\<lambda>old new. exclusivePoolsChanged nodeName (meta_Name (fst new)) (snd old) (snd new)), DeleteFunc = (\<lambda>_. False), GenericFunc = (\<lambda>_. False)\<rparr>"

fun powerNodeConfig_SetupWithManager ::
    "selectors \<Rightarrow> 'k client \<Rightarrow> string \<Rightarrow> powerNodeConfig_event \<Rightarrow> (Request list, 'k) action" where
  "powerNodeConfig_SetupWithManager sel c nodeName (ConfigChanged ev) k = EnqueueRequestForObject pnc_meta ev k"
| "powerNodeConfig_SetupWithManager sel c nodeName (ConfigNode ev) k =
     watch (labelsOnly nodeName) (EnqueueRequestsFromMapFunc (\<lambda>_. enqueuePowerNodeConfigReconcile c)) ev k"
| "powerNodeConfig_SetupWithManager sel c nodeName (ConfigState ev) k =
     watch (exclusiveOnly nodeName) (EnqueueRequestsFromMapFunc (\<lambda>_. enqueueMatchingPowerNodeConfigReconcile sel c nodeName)) ev k"

datatype uncore_event = UncoreChanged "Uncore event" | UncoreNode "Node event"

fun uncore_SetupWithManager :: "'k client \<Rightarrow> string \<Rightarrow> uncore_event \<Rightarrow> (Request list, 'k) action" where
  "uncore_SetupWithManager c nodeName (UncoreChanged ev) k =
     watch (GenerationChangedPredicate uncore_meta) (EnqueueRequestForObject uncore_meta) ev k"
| "uncore_SetupWithManager c nodeName (UncoreNode ev) k =
     watch (labelsOnly nodeName) (EnqueueRequestsFromMapFunc (\<lambda>_. enqueueUncoreReconcile c)) ev k"

datatype powerProfile_event = ProfileChanged "PowerProfile event" | ProfileNode "Node event"

definition labelsOrNode :: "string \<Rightarrow> Node Funcs" where
  "labelsOrNode nodeName = \<lparr>CreateFunc = (\<lambda>_. True),
     UpdateFunc = (\<lambda>old new. if meta_Name (node_meta old) \<noteq> nodeName then False
       else (let l1 = meta_Labels (node_meta new); l2 = meta_Labels (node_meta old) in
         \<not> list_all (\<lambda>k. map_of l1 k = map_of l2 k) (map fst l1 @ map fst l2))),
     DeleteFunc = (\<lambda>n. meta_Name (node_meta n) = nodeName), GenericFunc = (\<lambda>_. False)\<rparr>"

fun powerProfile_SetupWithManager :: "'k client \<Rightarrow> string \<Rightarrow> powerProfile_event \<Rightarrow> (Request list, 'k) action" where
  "powerProfile_SetupWithManager c nodeName (ProfileChanged ev) k =
     watch (GenerationChangedPredicate pp_meta) (EnqueueRequestForObject pp_meta) ev k"
| "powerProfile_SetupWithManager c nodeName (ProfileNode ev) k =
     watch (labelsOrNode nodeName) (EnqueueRequestsFromMapFunc (\<lambda>_. nodeToProfileRequests c)) ev k"

datatype powerPod_event = PodChanged "Pod event" | PodProfile "PowerProfile event"

definition policyOnly :: "PowerProfile Funcs" where
  "policyOnly = \<lparr>CreateFunc = (\<lambda>_. False), UpdateFunc = scalingPolicyChanged, DeleteFunc = (\<lambda>_. False), GenericFunc = (\<lambda>_. False)\<rparr>"

fun powerPod_SetupWithManager :: "'k client \<Rightarrow> string \<Rightarrow> powerPod_event \<Rightarrow> (Request list, 'k) action" where
  "powerPod_SetupWithManager c nodeName (PodChanged ev) k =
     watch (NewPredicateFuncs (PowerReleventPodPredicate nodeName)) (EnqueueRequestForObject pod_meta) ev k"
| "powerPod_SetupWithManager c nodeName (PodProfile ev) k =
     watch policyOnly (EnqueueRequestsFromMapFunc (powerProfileToPodRequests c nodeName)) ev k"

definition powerConfig_SetupWithManager :: "PowerConfig event \<Rightarrow> (Request list, 'k) action" where
  "powerConfig_SetupWithManager ev k = EnqueueRequestForObject pcfg_meta ev k"

section \<open>The queue\<close>

lemma addNew_set [simp]: "set (addNew rs reqs) = set reqs \<union> set rs"
  unfolding addNew_def by (induction rs arbitrary: reqs) auto

lemma addNew_distinct [simp]: "distinct reqs \<Longrightarrow> distinct (addNew rs reqs)"
  unfolding addNew_def by (induction rs arbitrary: reqs) auto

lemma addNew_again [simp]: "set rs \<subseteq> set reqs \<Longrightarrow> addNew rs reqs = reqs"
  unfolding addNew_def by (induction rs arbitrary: reqs) auto

lemma mapped_update:
  assumes "f old k = (Ret rs, k)" "f new k = (Ret rs, k)"
  shows "EnqueueRequestsFromMapFunc f (UpdateEvent old new) k = (Ret (addNew rs []), k)"
  by (simp add: assms mapAndEnqueue_def)

lemma labels_differ: "\<not> list_all (\<lambda>k. map_of l1 k = map_of l2 k) (map fst l1 @ map fst l2) \<longleftrightarrow> map_of l1 \<noteq> map_of l2"
proof -
  have "map_of l1 = map_of l2" if "list_all (\<lambda>k. map_of l1 k = map_of l2 k) (map fst l1 @ map fst l2)"
  proof
    fix k
    show "map_of l1 k = map_of l2 k"
      using that map_of_eq_None_iff [of l1 k] map_of_eq_None_iff [of l2 k]
      by (cases "k \<in> fst ` set l1 \<union> fst ` set l2") (simp_all add: list_all_iff)
  qed
  then show ?thesis by (auto simp: list_all_iff)
qed

lemma nodeLabelsChanged_iff:
  "nodeLabelsChanged n old new \<longleftrightarrow> meta_Name (node_meta new) = n \<and> map_of (meta_Labels (node_meta old)) \<noteq> map_of (meta_Labels (node_meta new))"
  by (simp add: nodeLabelsChanged_def Let_def labels_differ del: list_all_append)

section \<open>One request is enough\<close>

lemma powerNodeConfig_any_request:
  "req_Namespace r = req_Namespace r' \<Longrightarrow> powerNodeConfig_Reconcile sel order c n r = powerNodeConfig_Reconcile sel order c n r'"
  by (simp add: powerNodeConfig_Reconcile_def fun_eq_iff)

lemma uncore_any_request:
  "req_Namespace r = req_Namespace r' \<Longrightarrow> uncore_Reconcile sel t c n r = uncore_Reconcile sel t c n r'"
  by (simp add: uncore_Reconcile_def fun_eq_iff)

text \<open>
  A request of a list of objects stands for all of them with respect to a reconciliation if reconciling it does what reconciling any of them does.
\<close>

definition standsFor :: "(Request \<Rightarrow> 's \<Rightarrow> 'r) \<Rightarrow> Request list \<Rightarrow> ObjectMeta list \<Rightarrow> bool" where
  "standsFor reconcile reqs ms \<longleftrightarrow> length reqs \<le> 1 \<and> (\<forall>m \<in> set ms. \<exists>r \<in> set reqs. reconcile r = reconcile (requestOf m))"

lemma firstRequest_standsFor:
  assumes "\<And>r r'. req_Namespace r = req_Namespace r' \<Longrightarrow> reconcile r = reconcile r'" "\<forall>x \<in> set items. meta_Namespace (meta x) = ns"
  shows "standsFor reconcile (addNew (firstRequest meta items) []) (map meta items)"
proof -
  have "reconcile \<lparr>req_Namespace = ns, req_Name = n\<rparr> = reconcile (requestOf (meta x))" if "x \<in> set items" for n x
    using assms(2) that by (intro assms(1)) (simp add: requestOf_def)
  then show ?thesis using assms(2) by (cases items) (auto simp: standsFor_def firstRequest_def addNew_def)
qed

section \<open>Properties\<close>

text \<open>
  C18. A change of labels is taken up: when the labels of the agent's node change, and the lists of objects can be read, the controllers of node
  configurations and of uncore settings get at most one request, and reconciling it does what reconciling any of the configurations would do, so that all of them are
  evaluated again; the controller of profiles gets one request for every profile.  Updates of other nodes and other updates of the node lead to no request.
\<close>

theorem label_change_reevaluates:
  assumes "List_PowerNodeConfigs c PowerNamespace k = (Ret configs, k)" "\<forall>x \<in> set configs. meta_Namespace (pnc_meta x) = PowerNamespace"
    and "List_Uncores c PowerNamespace k = (Ret uncores, k)" "\<forall>x \<in> set uncores. meta_Namespace (uncore_meta x) = PowerNamespace"
    and "List_PowerProfiles c k = (Ret profiles, k)" and "meta_Name (node_meta old) = meta_Name (node_meta new)"
  shows "if meta_Name (node_meta new) = n \<and> map_of (meta_Labels (node_meta old)) \<noteq> map_of (meta_Labels (node_meta new))
    then (\<exists>reqs. powerNodeConfig_SetupWithManager sel c n (ConfigNode (UpdateEvent old new)) k = (Ret reqs, k)
          \<and> standsFor (powerNodeConfig_Reconcile sel order c' n) reqs (map pnc_meta configs))
      \<and> (\<exists>reqs. uncore_SetupWithManager c n (UncoreNode (UpdateEvent old new)) k = (Ret reqs, k)
          \<and> standsFor (uncore_Reconcile sel t c' n) reqs (map uncore_meta uncores))
      \<and> (\<exists>reqs. powerProfile_SetupWithManager c n (ProfileNode (UpdateEvent old new)) k = (Ret reqs, k)
          \<and> distinct reqs \<and> set reqs = set (map (requestOf \<circ> pp_meta) profiles))
    else powerNodeConfig_SetupWithManager sel c n (ConfigNode (UpdateEvent old new)) k = (Ret [], k)
      \<and> uncore_SetupWithManager c n (UncoreNode (UpdateEvent old new)) k = (Ret [], k)
      \<and> powerProfile_SetupWithManager c n (ProfileNode (UpdateEvent old new)) k = (Ret [], k)"
proof (cases "meta_Name (node_meta new) = n \<and> map_of (meta_Labels (node_meta old)) \<noteq> map_of (meta_Labels (node_meta new))")
  case True
  have "enqueuePowerNodeConfigReconcile c k = (Ret (firstRequest pnc_meta configs), k)" "enqueueUncoreReconcile c k = (Ret (firstRequest uncore_meta uncores), k)"
    "nodeToProfileRequests c k = (Ret (map (requestOf \<circ> pp_meta) profiles), k)"
    using assms by (simp_all add: enqueuePowerNodeConfigReconcile_def enqueueUncoreReconcile_def nodeToProfileRequests_def requestOf_def comp_def)
  note run = mapped_update [where f = "\<lambda>_. enqueuePowerNodeConfigReconcile c", OF this(1) this(1)]
    mapped_update [where f = "\<lambda>_. enqueueUncoreReconcile c", OF this(2) this(2)] mapped_update [where f = "\<lambda>_. nodeToProfileRequests c", OF this(3) this(3)]
  have "nodeLabelsChanged n old new" "accepts (labelsOrNode n) (UpdateEvent old new)"
    using True assms(6) by (auto simp: nodeLabelsChanged_iff labelsOrNode_def Let_def labels_differ simp del: list_all_append)
  moreover have "standsFor (powerNodeConfig_Reconcile sel order c' n) (addNew (firstRequest pnc_meta configs) []) (map pnc_meta configs)"
    by (rule firstRequest_standsFor [OF _ assms(2)]) (rule powerNodeConfig_any_request)
  moreover have "standsFor (uncore_Reconcile sel t c' n) (addNew (firstRequest uncore_meta uncores) []) (map uncore_meta uncores)"
    by (rule firstRequest_standsFor [OF _ assms(4)]) (rule uncore_any_request)
  ultimately show ?thesis using True by (simp add: watch_def labelsOnly_def run del: EnqueueRequestsFromMapFunc.simps)
next
  case False
  then have "\<not> nodeLabelsChanged n old new" "\<not> accepts (labelsOrNode n) (UpdateEvent old new)"
    using assms(6) by (auto simp: nodeLabelsChanged_iff labelsOrNode_def Let_def labels_differ simp del: list_all_append)
  then show ?thesis unfolding if_not_P [OF False] by (simp add: watch_def labelsOnly_def)
qed

text \<open>
  C26. A change of the scaling policy reaches the pods: when the scaling policy of a profile that is not shared changes, the pod controller gets exactly one request for each pod of the
  node that has a container asking for the profile, all of them pods that the controller watches; other updates of profiles lead to no request.
\<close>

theorem policy_change_requests:
  assumes "List_Pods c ''spec.nodeName'' n k = (Ret pods, k)" "\<forall>p \<in> set pods. pod_NodeName p = n" "n \<noteq> ''''"
    and "meta_Name (pp_meta old) = meta_Name (pp_meta new)"
    and "users = filter (\<lambda>p. \<exists>ctr \<in> set (allPodContainers p). ResourcePrefix @ meta_Name (pp_meta new) \<in> fst ` set (ctr_Requests ctr)) pods"
  shows "\<exists>reqs. powerPod_SetupWithManager c n (PodProfile (UpdateEvent old new)) k = (Ret reqs, k) \<and> distinct reqs
    \<and> set reqs = (if \<not> pps_Shared (pp_Spec new) \<and> pps_CPUScalingPolicy (pp_Spec old) \<noteq> pps_CPUScalingPolicy (pp_Spec new)
         then (requestOf \<circ> pod_meta) ` set users else {})
    \<and> list_all (\<lambda>p. powerPod_SetupWithManager c n (PodChanged (UpdateEvent q p)) k = (Ret [requestOf (pod_meta p)], k)) users"
proof -
  have users: "PowerReleventPodPredicate n p" if "p \<in> set users" for p
    using that assms(2,5) by (force simp: PowerReleventPodPredicate_def list_ex_iff HasPrefix_def)
  then have l: "list_all (\<lambda>p. powerPod_SetupWithManager c n (PodChanged (UpdateEvent q p)) k = (Ret [requestOf (pod_meta p)], k)) users"
    by (simp add: list_all_iff watch_def NewPredicateFuncs_def)
  show ?thesis
  proof (cases "scalingPolicyChanged old new")
    case True
    obtain rs where rs: "powerProfileToPodRequests c n new k = (Ret rs, k)" "powerProfileToPodRequests c n old k = (Ret rs, k)"
      "set rs = (requestOf \<circ> pod_meta) ` set users"
      using assms by (auto simp: powerProfileToPodRequests_def requestOf_def) 
    then show ?thesis using True l mapped_update [of "powerProfileToPodRequests c n" old k rs new]
      by (auto simp: watch_def policyOnly_def scalingPolicyChanged_def split: if_splits)
  next
    case False
    then show ?thesis using l by (auto simp: watch_def policyOnly_def scalingPolicyChanged_def)
  qed
qed

section \<open>The properties at a concrete cluster\<close>

definition labelled :: "string \<Rightarrow> Node" where
  "labelled v = \<lparr>node_meta = (aged ''node'' 1)\<lparr>meta_Labels := [(''role'', v)]\<rparr>, node_Capacity = []\<rparr>"

theorem label_change_reevaluates_witness:
  "powerProfile_SetupWithManager sampleClient ''node'' (ProfileNode (UpdateEvent (labelled ''a'') (labelled ''b''))) ()
     = (Ret [requestOf (pp_meta samplePowerProfile)], ())
   \<and> powerNodeConfig_SetupWithManager (\<lambda>_. Inr (\<lambda>_. True)) sampleClient ''node'' (ConfigNode (UpdateEvent (labelled ''a'') (labelled ''a''))) () = (Ret [], ())"
proof -
  have l: "List_PowerNodeConfigs sampleClient PowerNamespace () = (Ret [], ())" "List_Uncores sampleClient PowerNamespace () = (Ret [], ())"
    "List_PowerProfiles sampleClient () = (Ret [samplePowerProfile], ())" by (simp_all add: sampleClient_def)
  have m: "meta_Name (node_meta (labelled v)) = ''node''" "meta_Labels (node_meta (labelled v)) = [(''role'', v)]" for v
    by (simp_all add: labelled_def aged_def)
  have d: "map_of [(''role'', ''a'')] \<noteq> map_of [(''role'', ''b'')]" by (simp add: fun_eq_iff)
  note run = label_change_reevaluates [OF l(1) _ l(2) _ l(3), where old = "labelled ''a''" and n = "''node''" and sel = "\<lambda>_. Inr (\<lambda>_. True)" and order = id and c' = sampleClient and t = True]
  have "\<exists>reqs. powerProfile_SetupWithManager sampleClient ''node'' (ProfileNode (UpdateEvent (labelled ''a'') (labelled ''b''))) () = (Ret reqs, ())
      \<and> distinct reqs \<and> set reqs = {requestOf (pp_meta samplePowerProfile)}"
    using run [where new = "labelled ''b''"] d by (simp add: m del: powerProfile_SetupWithManager.simps)
  moreover have "reqs = [x]" if "distinct reqs" "set reqs = {x}" for reqs and x :: Request
    using that distinct_card [of reqs] by (cases reqs; cases "tl reqs") auto
  ultimately show ?thesis using run [where new = "labelled ''a''"] by (auto simp: m simp del: powerProfile_SetupWithManager.simps powerNodeConfig_SetupWithManager.simps)
qed

definition scaledProfile :: PowerProfile where
  "scaledProfile = samplePowerProfile\<lparr>pp_Spec := sampleSpec\<lparr>pps_Shared := False, pps_CPUScalingPolicy := Some samplePolicy\<rparr>\<rparr>"

theorem policy_change_requests_witness:
  "powerPod_SetupWithManager (sampleClient\<lparr>List_Pods := (\<lambda>_ _ k. (Ret [runningPod False], k))\<rparr>) ''node''
     (PodProfile (UpdateEvent samplePowerProfile scaledProfile)) () = (Ret [requestOf (pod_meta (runningPod False))], ())"
proof -
  let ?c = "sampleClient\<lparr>List_Pods := (\<lambda>_ _ k. (Ret [runningPod False], k))\<rparr>"
  have l: "List_Pods ?c ''spec.nodeName'' ''node'' () = (Ret [runningPod False], ())" "\<forall>p \<in> set [runningPod False]. pod_NodeName p = ''node''"
    "''node'' \<noteq> ''''" "meta_Name (pp_meta samplePowerProfile) = meta_Name (pp_meta scaledProfile)"
    by (simp_all add: runningPod_def scaledProfile_def)
  have s: "\<not> pps_Shared (pp_Spec scaledProfile)" "pps_CPUScalingPolicy (pp_Spec samplePowerProfile) \<noteq> pps_CPUScalingPolicy (pp_Spec scaledProfile)"
    "filter (\<lambda>p. \<exists>ctr \<in> set (allPodContainers p). ResourcePrefix @ meta_Name (pp_meta scaledProfile) \<in> fst ` set (ctr_Requests ctr)) [runningPod False]
       = [runningPod False]"
    by (simp_all add: scaledProfile_def samplePowerProfile_def sampleSpec_def runningPod_def sampleContainer_def allPodContainers_def aged_def)
  obtain reqs where "powerPod_SetupWithManager ?c ''node'' (PodProfile (UpdateEvent samplePowerProfile scaledProfile)) () = (Ret reqs, ())"
    "distinct reqs" "set reqs = {requestOf (pod_meta (runningPod False))}"
    using policy_change_requests [OF l refl] s by (auto simp del: powerPod_SetupWithManager.simps)
  moreover from this(2,3) have "reqs = [requestOf (pod_meta (runningPod False))]"
    using distinct_card [of reqs] by (cases reqs; cases "tl reqs") auto
  ultimately show ?thesis by simp
qed

end
