(* ===== verification/Status_Owners.thy ===== *)
theory Status_Owners
  imports NodeConfig UncoreController ProfileController PodController
begin

text \<open>
  The controllers of a node share one status, which each patches under field managers of its own.  The facts: every patch a
  controller sends is to the status of its node and has that controller's part only, and controllers never use the same field manager, so that by the rules of
  server-side apply no controller changes or prunes what another has written.
\<close>

section \<open>Parts of the status\<close>

definition configPart :: "PowerNodeStateStatus \<Rightarrow> string \<Rightarrow> bool" where
  "configPart s f \<longleftrightarrow> (\<exists>sh rs. s = emptyStatus\<lparr>pns_CPUPools := Some \<lparr>cps_Shared = sh, cps_Reserved = rs, cps_Exclusive = None\<rparr>\<rparr>)
     \<and> f = FieldOwnerPowerNodeConfigController"

definition uncorePart :: "PowerNodeStateStatus \<Rightarrow> string \<Rightarrow> bool" where
  "uncorePart s f \<longleftrightarrow> (\<exists>u. s = emptyStatus\<lparr>pns_Uncore := u\<rparr>) \<and> f = FieldOwnerUncoreController"

definition profilePart :: "PowerNodeStateStatus \<Rightarrow> string \<Rightarrow> bool" where
  "profilePart s f \<longleftrightarrow> (\<exists>name es. s = emptyStatus\<lparr>pns_PowerProfiles := Some es\<rparr> \<and> f = powerProfileFieldManager name
     \<and> (\<forall>e \<in> set es. pnps_Name e = name))"

definition podPart :: "PowerNodeStateStatus \<Rightarrow> string \<Rightarrow> bool" where
  "podPart s f \<longleftrightarrow> (\<exists>uid es. s = emptyStatus\<lparr>pns_CPUPools := Some \<lparr>cps_Shared = None, cps_Reserved = None, cps_Exclusive = Some es\<rparr>\<rparr>
     \<and> f = podFieldManager uid \<and> (\<forall>e \<in> set es. ecp_PodUID e = uid))"

text \<open>Patches with a different meaning, except for a part of the status of one node.\<close>

definition sameOn :: "(PowerNodeStateStatus \<Rightarrow> string \<Rightarrow> bool) \<Rightarrow> string \<Rightarrow> 'k client
    \<Rightarrow> (string \<Rightarrow> string \<Rightarrow> PowerNodeStateStatus \<Rightarrow> string \<Rightarrow> (unit, 'k) action) \<Rightarrow> bool" where
  "sameOn part n c P \<longleftrightarrow> (\<forall>s f. part s f \<longrightarrow>
     P PowerNamespace (powerNodeStateName n) s f = Patch_Status c PowerNamespace (powerNodeStateName n) s f)"

lemma managers_differ:
  "FieldOwnerPowerNodeConfigController \<noteq> FieldOwnerUncoreController"
  "powerProfileFieldManager name \<noteq> FieldOwnerPowerNodeConfigController" "powerProfileFieldManager name \<noteq> FieldOwnerUncoreController"
  "podFieldManager uid \<noteq> FieldOwnerPowerNodeConfigController" "podFieldManager uid \<noteq> FieldOwnerUncoreController"
  "powerProfileFieldManager name \<noteq> podFieldManager uid"
  "powerProfileFieldManager name = powerProfileFieldManager name' \<longleftrightarrow> name = name'" "podFieldManager uid = podFieldManager uid' \<longleftrightarrow> uid = uid'"
  by (simp_all add: powerProfileFieldManager_def podFieldManager_def)

section \<open>Operations that send no patch\<close>

lemma fields:
  "Get_Pod (c\<lparr>Patch_Status := P\<rparr>) = Get_Pod c" "Get_PowerProfile (c\<lparr>Patch_Status := P\<rparr>) = Get_PowerProfile c"
  "Get_Node (c\<lparr>Patch_Status := P\<rparr>) = Get_Node c" "Get_PowerNodeState (c\<lparr>Patch_Status := P\<rparr>) = Get_PowerNodeState c"
  "List_PowerNodeConfigs (c\<lparr>Patch_Status := P\<rparr>) = List_PowerNodeConfigs c" "List_Uncores (c\<lparr>Patch_Status := P\<rparr>) = List_Uncores c"
  "Update_NodeStatus (c\<lparr>Patch_Status := P\<rparr>) = Update_NodeStatus c" "Patch_Status (c\<lparr>Patch_Status := P\<rparr>) = P"
  by simp_all

lemma readers:
  "getActiveResourceName (c\<lparr>Patch_Status := P\<rparr>) = getActiveResourceName c"
  "nodeMatchesPowerProfile sel (c\<lparr>Patch_Status := P\<rparr>) = nodeMatchesPowerProfile sel c"
  "getMatchingPowerNodeConfigs sel (c\<lparr>Patch_Status := P\<rparr>) = getMatchingPowerNodeConfigs sel c"
  "describeConflictingConfig (c\<lparr>Patch_Status := P\<rparr>) = describeConflictingConfig c"
  "getMatchingUncores sel (c\<lparr>Patch_Status := P\<rparr>) = getMatchingUncores sel c"
  "ensureExtendedResources (c\<lparr>Patch_Status := P\<rparr>) = ensureExtendedResources c"
  "removeExtendedResources (c\<lparr>Patch_Status := P\<rparr>) = removeExtendedResources c"
  unfolding fun_eq_iff getActiveResourceName_def nodeMatchesPowerProfile_def getMatchingPowerNodeConfigs_def describeConflictingConfig_def
    getMatchingUncores_def ensureExtendedResources_def removeExtendedResources_def fields by (rule allI refl)+

lemma availability_readers:
  "validateProfileAvailabilityOnNode sel (c\<lparr>Patch_Status := P\<rparr>) = validateProfileAvailabilityOnNode sel c"
  unfolding validateProfileAvailabilityOnNode_def [abs_def] fields readers ..

lemma loop_readers:
  "describeConflicts (c\<lparr>Patch_Status := P\<rparr>) ms = describeConflicts c ms"
  "validateAvailability sel (c\<lparr>Patch_Status := P\<rparr>) n l names = validateAvailability sel c n l names"
  "getPowerProfileRequestsFromContainers sel (c\<lparr>Patch_Status := P\<rparr>) p h pod ctrs = getPowerProfileRequestsFromContainers sel c p h pod ctrs"
proof -
  show "describeConflicts (c\<lparr>Patch_Status := P\<rparr>) ms = describeConflicts c ms"
    by (induction ms) (auto simp: readers)
  show "validateAvailability sel (c\<lparr>Patch_Status := P\<rparr>) n l names = validateAvailability sel c n l names"
    by (induction names) (simp_all add: availability_readers cong: if_cong)
  have "powerContainerOf sel (c\<lparr>Patch_Status := P\<rparr>) p h pod ctr = powerContainerOf sel c p h pod ctr" for ctr
    unfolding powerContainerOf_def [abs_def] availability_readers ..
  then show "getPowerProfileRequestsFromContainers sel (c\<lparr>Patch_Status := P\<rparr>) p h pod ctrs = getPowerProfileRequestsFromContainers sel c p h pod ctrs"
    by (induction ctrs) auto
qed

lemma profiles_readers:
  "validatePowerNodeConfigProfiles sel (c\<lparr>Patch_Status := P\<rparr>) = validatePowerNodeConfigProfiles sel c"
  unfolding validatePowerNodeConfigProfiles_def [abs_def] fields loop_readers ..

section \<open>Operations that send patches\<close>

lemma powerNodeConfig_writes:
  assumes "sameOn configPart n c P"
  shows "powerNodeConfig_Reconcile sel order (c\<lparr>Patch_Status := P\<rparr>) n req a = powerNodeConfig_Reconcile sel order c n req a"
proof -
  have "P PowerNamespace (powerNodeStateName n) (poolsStatus \<lparr>cps_Shared = sh, cps_Reserved = rs, cps_Exclusive = None\<rparr>) FieldOwnerPowerNodeConfigController
      = Patch_Status c PowerNamespace (powerNodeStateName n) (poolsStatus \<lparr>cps_Shared = sh, cps_Reserved = rs, cps_Exclusive = None\<rparr>) FieldOwnerPowerNodeConfigController"
    for sh rs
    using assms by (auto simp: sameOn_def configPart_def poolsStatus_def)
  then have "updatePowerNodeStatusPools (c\<lparr>Patch_Status := P\<rparr>) n = updatePowerNodeStatusPools c n"
    "removePowerNodeStatusPools (c\<lparr>Patch_Status := P\<rparr>) n = removePowerNodeStatusPools c n"
    by (simp_all add: updatePowerNodeStatusPools_def [abs_def] removePowerNodeStatusPools_def [abs_def] Let_def)
  note w = this
  show ?thesis
    unfolding powerNodeConfig_Reconcile_def applyPowerNodeConfig_def cleanupPowerNodeConfigPools_def readers loop_readers profiles_readers w ..
qed

lemma uncore_writes:
  assumes "sameOn uncorePart n c P"
  shows "uncore_Reconcile sel t (c\<lparr>Patch_Status := P\<rparr>) n req a = uncore_Reconcile sel t c n req a"
proof -
  have u: "P PowerNamespace (powerNodeStateName n) (emptyStatus\<lparr>pns_Uncore := u\<rparr>) FieldOwnerUncoreController
      = Patch_Status c PowerNamespace (powerNodeStateName n) (emptyStatus\<lparr>pns_Uncore := u\<rparr>) FieldOwnerUncoreController" for u
    using assms by (auto simp: sameOn_def uncorePart_def)
  from u [of None] have "P PowerNamespace (powerNodeStateName n) emptyStatus FieldOwnerUncoreController
      = Patch_Status c PowerNamespace (powerNodeStateName n) emptyStatus FieldOwnerUncoreController" by (simp add: emptyStatus_def)
  with u have w: "updateUncoreInPowerNodeState (c\<lparr>Patch_Status := P\<rparr>) n = updateUncoreInPowerNodeState c n"
    "removeUncoreFromPowerNodeState (c\<lparr>Patch_Status := P\<rparr>) n = removeUncoreFromPowerNodeState c n"
    by (simp_all add: updateUncoreInPowerNodeState_def [abs_def] removeUncoreFromPowerNodeState_def [abs_def])
  show ?thesis unfolding uncore_Reconcile_def applyUncoreConfig_def readers w ..
qed

lemma powerProfile_writes:
  assumes "sameOn profilePart n c P"
  shows "powerProfile_Reconcile sel d (c\<lparr>Patch_Status := P\<rparr>) n req a = powerProfile_Reconcile sel d c n req a"
proof -
  have "P PowerNamespace (powerNodeStateName n) (emptyStatus\<lparr>pns_PowerProfiles := Some es\<rparr>) (powerProfileFieldManager name)
      = Patch_Status c PowerNamespace (powerNodeStateName n) (emptyStatus\<lparr>pns_PowerProfiles := Some es\<rparr>) (powerProfileFieldManager name)"
    if "\<forall>e \<in> set es. pnps_Name e = name" for name es
    using assms that unfolding sameOn_def profilePart_def by blast
  then have w: "addPowerNodeStatusProfileEntry d (c\<lparr>Patch_Status := P\<rparr>) n = addPowerNodeStatusProfileEntry d c n"
    "removePowerNodeStatusProfileEntry (c\<lparr>Patch_Status := P\<rparr>) n = removePowerNodeStatusProfileEntry c n"
    by (simp_all add: addPowerNodeStatusProfileEntry_def [abs_def] removePowerNodeStatusProfileEntry_def [abs_def]
        applyPowerNodeStateProfilesStatus_def cong: if_cong)
  show ?thesis
    unfolding powerProfile_Reconcile_def withEntry_def handleProfileDeletion_def removeEntry_def cleanupProfileFromNode_def reconcileMatching_def
      offerResources_def readers fields w ..
qed

lemma powerPod_writes:
  assumes "sameOn podPart n (env_client e) P"
  shows "powerPod_Reconcile (e\<lparr>env_client := (env_client e)\<lparr>Patch_Status := P\<rparr>\<rparr>) n req a = powerPod_Reconcile e n req a"
proof -
  let ?c = "env_client e" and ?e = "e\<lparr>env_client := (env_client e)\<lparr>Patch_Status := P\<rparr>\<rparr>"
  have "P PowerNamespace (powerNodeStateName n) (emptyStatus\<lparr>pns_CPUPools := Some \<lparr>cps_Shared = None, cps_Reserved = None, cps_Exclusive = Some es\<rparr>\<rparr>)
        (podFieldManager uid)
      = Patch_Status ?c PowerNamespace (powerNodeStateName n)
        (emptyStatus\<lparr>pns_CPUPools := Some \<lparr>cps_Shared = None, cps_Reserved = None, cps_Exclusive = Some es\<rparr>\<rparr>) (podFieldManager uid)"
    if "\<forall>x \<in> set es. ecp_PodUID x = uid" for uid es
    using assms that unfolding sameOn_def podPart_def by blast
  then have w: "addPowerNodeStatusExclusiveEntry (?c\<lparr>Patch_Status := P\<rparr>) n = addPowerNodeStatusExclusiveEntry ?c n"
    "removePowerNodeStatusExclusiveEntry (?c\<lparr>Patch_Status := P\<rparr>) n = removePowerNodeStatusExclusiveEntry ?c n"
    by (simp_all add: addPowerNodeStatusExclusiveEntry_def [abs_def] removePowerNodeStatusExclusiveEntry_def [abs_def] applyPowerNodeStateExclusiveStatus_def)
  have f: "env_client ?e = ?c\<lparr>Patch_Status := P\<rparr>" "env_selectors ?e = env_selectors e" "env_resources ?e = env_resources e"
    "env_decodeInitial ?e = env_decodeInitial e" "env_decodeUsage ?e = env_decodeUsage e" "env_connectionEvents ?e = env_connectionEvents e"
    "env_fused ?e = env_fused e" "env_convert ?e = env_convert e" "env_workerRuns ?e = env_workerRuns e" by simp_all
  have u: "setUpScaling ?e = setUpScaling e" unfolding setUpScaling_def [abs_def] f fields ..
  have one: "reconcileContainer ?e = reconcileContainer e" unfolding reconcileContainer_def [abs_def] u ..
  have l: "reconcileContainers ?e uid pcs = reconcileContainers e uid pcs" for uid pcs
  proof (induction pcs)
    case (Cons pc pcs)
    show ?case unfolding fun_eq_iff reconcileContainers.simps one Cons.IH by (rule allI refl)+
  qed (simp add: fun_eq_iff)
  have p: "placeContainers ?e n pod = placeContainers e n pod" for pod
    unfolding placeContainers_def [abs_def] recordPod_def f w l ..
  have r: "reconcileRunning ?e n pod = reconcileRunning e n pod" for pod
    unfolding reconcileRunning_def [abs_def] f loop_readers p ..
  have t: "tearDownScaling ?e = tearDownScaling e" unfolding tearDownScaling_def [abs_def] f ..
  have d: "handlePodDeletion ?e pod n = handlePodDeletion e pod n" for pod
    unfolding handlePodDeletion_def [abs_def] f fields w t ..
  show ?thesis unfolding powerPod_Reconcile_def f fields r d ..
qed

section \<open>Property\<close>

text \<open>
  C11. Controllers write their own parts of the status only: reconciling a node configuration does not depend on what patches do other than patches of
  the shared and reserved pools of the node's status under the manager of that controller; reconciling uncore settings on none but those of the uncore part; reconciling a profile on none but those of
  entries of one profile under that profile's manager; and reconciling a pod on none but those of exclusive entries of one pod under that pod's manager.  And these managers are all different.
\<close>

theorem status_parts_owned:
  shows "(sameOn configPart n c P \<longrightarrow> powerNodeConfig_Reconcile sel order (c\<lparr>Patch_Status := P\<rparr>) n req a = powerNodeConfig_Reconcile sel order c n req a)
    \<and> (sameOn uncorePart n c P \<longrightarrow> uncore_Reconcile sel t (c\<lparr>Patch_Status := P\<rparr>) n req a = uncore_Reconcile sel t c n req a)
    \<and> (sameOn profilePart n c P \<longrightarrow> powerProfile_Reconcile sel d (c\<lparr>Patch_Status := P\<rparr>) n req a = powerProfile_Reconcile sel d c n req a)
    \<and> (sameOn podPart n c P \<longrightarrow> powerPod_Reconcile (e\<lparr>env_client := c\<lparr>Patch_Status := P\<rparr>\<rparr>) n req b = powerPod_Reconcile (e\<lparr>env_client := c\<rparr>) n req b)
    \<and> (\<forall>s f s' f'. (configPart s f \<and> (uncorePart s' f' \<or> profilePart s' f' \<or> podPart s' f') \<or> uncorePart s f \<and> (profilePart s' f' \<or> podPart s' f')
         \<or> profilePart s f \<and> podPart s' f') \<longrightarrow> f \<noteq> f')"
proof -
  have "f \<noteq> f'" if "configPart s f \<and> (uncorePart s' f' \<or> profilePart s' f' \<or> podPart s' f') \<or> uncorePart s f \<and> (profilePart s' f' \<or> podPart s' f')
      \<or> profilePart s f \<and> podPart s' f'" for s f s' f'
    using that managers_differ unfolding configPart_def uncorePart_def profilePart_def podPart_def by metis
  moreover have "sameOn podPart n c P \<longrightarrow> powerPod_Reconcile (e\<lparr>env_client := c\<lparr>Patch_Status := P\<rparr>\<rparr>) n req b = powerPod_Reconcile (e\<lparr>env_client := c\<rparr>) n req b"
    using powerPod_writes [of n "e\<lparr>env_client := c\<rparr>" P] by simp
  ultimately show ?thesis by (blast intro: powerNodeConfig_writes uncore_writes powerProfile_writes)
qed

text \<open>Patches that crash unless their manager is the given one.\<close>

definition guardedPatches :: "string \<Rightarrow> string \<Rightarrow> string \<Rightarrow> PowerNodeStateStatus \<Rightarrow> string \<Rightarrow> (unit, unit) action" where
  "guardedPatches m ns name s f k = (if f = m then Ret () else Panic ''patch of another controller'', k)"

theorem status_parts_owned_witness:
  "powerNodeConfig_Reconcile (\<lambda>_. Inr (\<lambda>_. True)) id (sampleClient\<lparr>Patch_Status := guardedPatches FieldOwnerPowerNodeConfigController\<rparr>) ''node'' podRequest sampleAgent
     = powerNodeConfig_Reconcile (\<lambda>_. Inr (\<lambda>_. True)) id sampleClient ''node'' podRequest sampleAgent
   \<and> uncore_Reconcile (\<lambda>_. Inr (\<lambda>_. True)) True (sampleClient\<lparr>Patch_Status := guardedPatches FieldOwnerUncoreController\<rparr>) ''node'' podRequest sampleAgent
     = uncore_Reconcile (\<lambda>_. Inr (\<lambda>_. True)) True sampleClient ''node'' podRequest sampleAgent"
proof -
  have "sameOn configPart ''node'' sampleClient (guardedPatches FieldOwnerPowerNodeConfigController)"
    "sameOn uncorePart ''node'' sampleClient (guardedPatches FieldOwnerUncoreController)"
    by (auto simp: sameOn_def configPart_def uncorePart_def sampleClient_def guardedPatches_def fun_eq_iff)
  then show ?thesis using status_parts_owned by blast
qed

end
