(* ===== verification/Spec2Isabelle.thy ===== *)
theory Spec2Isabelle
  imports Cpuset Agent ConfigController Admission PodEffects Watches Status_Owners
begin

text \<open>
  \<^bold>\<open>Verification of the cluster power manager.\<close>

  The cluster power manager tunes the frequencies and idle states of the CPUs of Kubernetes nodes.  An operator (one per cluster)
  admits and stores the configuration objects and deploys a node agent; the node agent (one per node) runs four controllers
  on top of a power library, which keeps every CPU of the machine in one pool and writes the pool's
  profile to the files of the kernel; a scaler adapts the frequencies of polling workloads to their measured load.  The theories follow this structure,
  bottom up.  A definition has the name of the function or type it translates; a prefix (\<open>powerPod_\<close>, \<open>package_\<close>, ...) tells methods of
  different receivers apart.

  \<^bold>\<open>Go and the machine.\<close>
  \<^item> \<open>Prelude\<close>: the outcomes of a Go call (\<open>Ret\<close>, \<open>Fail\<close>, \<open>Panic\<close>), sequencing (\<open>andThen\<close>, \<open>attempt\<close>), loops over a state (\<open>forEach\<close>), integer
    conversions; the locales \<open>keeping\<close>, \<open>total_keeping\<close> and \<open>respecting\<close> with the facts about a loop that follow from its body.
  \<^item> \<open>Go_Strings\<close>, \<open>Go_Float\<close>: the parts of the standard library that are used, \<^verbatim>\<open>float64\<close> with its rounding included.
  \<^item> \<open>Hardware\<close> (\<^verbatim>\<open>internal/power/power.go\<close>): the files of sysfs and procfs, which writes fail (a sequence of which nothing is assumed), the
    feature table; the locale \<open>owning\<close> for loops whose turns write disjoint sets of files.

  \<^bold>\<open>The power library\<close> (\<^verbatim>\<open>internal/power\<close>) \<^bold>\<open>and CPU sets\<close> (\<^verbatim>\<open>pkg/cpuset\<close>).
  \<^item> \<open>Cpuset\<close>: the set operations refine those of mathematical sets, printing and parsing are inverse, and the one input form on which parsing does not end.
  \<^item> \<open>PStates\<close>, \<open>CStates\<close>, \<open>Profiles\<close>: what is written to the files of a CPU for a profile, that the limits stay ordered at every moment, and what
    validation guarantees.
  \<^item> \<open>Topology\<close>, \<open>Uncore\<close>: the tree of packages, dies (or clusters) and cores, and the uncore limits of its levels.
  \<^item> \<open>Pools\<close>, \<open>Host\<close>: pools, membership of CPUs, and start-up.  \<open>host_inv\<close> is the invariant (each CPU in one list, once, that of the pool it
    points to), \<open>host_step\<close> the relation of all operations, and the locale \<open>assigning\<close> describes loops that move CPUs, including those that stop in the middle.
  \<^item> \<open>Locking\<close>: the mutex of the host.  The operations on pools are cut into the single reads and writes they consist of (\<open>script\<close>), goroutines
    take turns in any way the mutex allows (\<open>lib_step\<close>), and the calls then behave as if each had run alone, in the order in which they took the mutex; every call returns.
  \<^item> \<open>Tuning\<close>: calls that succeed, concurrent ones included, leave every CPU running under the profile of its pool.

  \<^bold>\<open>The scaler\<close> (\<^verbatim>\<open>internal/scaling\<close>).
  \<^item> \<open>Telemetry\<close>: connections, their messages and the usage table.
  \<^item> \<open>Scaling\<close>: the updater, the workers and the manager, as interleaved steps.

  \<^bold>\<open>Kubernetes.\<close>
  \<^item> \<open>API\<close> (\<^verbatim>\<open>api/v1alpha1\<close>): the objects, and the client as a record of functions on an arbitrary state; the locale \<open>progress\<close> for code that only makes steps of a relation.
  \<^item> \<open>Webhooks\<close>, \<open>Admission\<close>: the admission checks, exactly what they admit, and that references never dangle.
  \<^item> \<open>Pod_Resources\<close>, \<open>Stores\<close>, \<open>Common\<close>: the kubelet's client (\<^verbatim>\<open>pkg/podresourcesclient\<close>), the stores of pods and nodes (\<^verbatim>\<open>pkg/podstate\<close>, \<^verbatim>\<open>pkg/state\<close>), \<^verbatim>\<open>controllers/common.go\<close>.
  \<^item> \<open>Library_Calls\<close>: the effect of each call of the library, as the controllers need it.
  \<^item> \<open>NodeConfig\<close>, \<open>ProfileController\<close>, \<open>UncoreSettings\<close> with \<open>UncoreController\<close>, \<open>PodRequests\<close> with \<open>PodController\<close>, \<open>ConfigController\<close>: one controller
    each (\<^verbatim>\<open>controllers\<close>), from \<^verbatim>\<open>Reconcile\<close> down.  For each: what holds after a reconciliation that succeeds, and what any reconciliation keeps.
  \<^item> \<open>PodEffects\<close>: the CPUs of a reconciled pod run under the profiles its containers ask for, and what the pod controller leaves behind.
  \<^item> \<open>Agent\<close>: the node agent as one system, from \<^verbatim>\<open>build/nodeagent/main.go\<close> on.  Its steps are the reconciliations of the four controllers and single calls of the
    library (which is what is seen of a reconciliation that others interrupt), the workers, the connections and changes of the cluster, in any order.
  \<^item> \<open>Watches\<close>: the \<^verbatim>\<open>SetupWithManager\<close> of the controllers, with the predicates and handlers of controller-runtime they use: which requests an event leads to.
  \<^item> \<open>Status_Owners\<close>: the controllers of a node patch disjoint parts of its status, under field managers of their own.
  \<^item> this theory: how admission and the controllers fit together.

  \<^bold>\<open>State and effects.\<close>  An operation on state \<open>'s\<close> is a function \<open>'s \<Rightarrow> 'a gores \<times> 's\<close>; the state is returned with every outcome, because
  Go code that fails has often changed something.  Every error return and every panic of the source is a branch.  Go maps are association lists where the order of a loop could
  matter, and the order is then an argument or a universally quantified permutation.

  \<^bold>\<open>Loops.\<close>  Loops over lists are structural recursion.  Two loops over integer ranges may not end, because their counter can wrap around
  (\<open>addRange\<close>, \<open>coreRange\<close>): they are partial functions whose value \<open>None\<close> means that the loop does not return; \<open>Parse_String\<close> and
  \<open>core_lists_agree\<close> show that they do return on what the program prints.  Loops driven by goroutines (telemetry, workers) are step
  relations.  No definition uses fuel; the only bound is the three attempts at the control plane, which is the source's.

  \<^bold>\<open>Parameters.\<close>  Not part of the repository and therefore arguments: the API server (\<open>client\<close>), the kubelet's listers, gRPC, label selectors (\<open>selectors\<close>), the
  JSON text of a duration, JSON decoding of telemetry, \<^verbatim>\<open>uname\<close>, the manifest and the environment of the operator, the order of Go's maps, fusing of floating-point operations and
  out-of-range conversions.  Where a property needs a truthful API server it says so (\<open>serves\<close>, \<open>servesStates\<close>).

  \<^bold>\<open>Not modelled.\<close>  The operator's \<^verbatim>\<open>main\<close> and the part of the agent's that builds the manager, and the registration of webhooks: no logic of
  their own.  The generated deep copies and scheme registration.  Logging.  In \<open>Locking\<close> the writes of scaling workers, which take no
  mutex; they are steps of \<open>Agent\<close>.  The readers of the library's state that take no mutex see the states
  in between (\<open>reader_misses_cpu\<close>); in \<open>Agent\<close> a reconciliation that is not interrupted is one step, and one that is interrupted is its calls.  The work queues of controller-runtime, which
  merge and retry requests: the steps of \<open>Agent\<close> reconcile any request at any time.  On aarch64 the library's own theorems hold; the composed invariant of \<open>Agent\<close> is stated for
  x86, where uncore settings exist.
\<close>

section \<open>From admission to the node\<close>

text \<open>A profile the node can use: it has a pool on the node, and its selector matches the node.\<close>

definition usable :: "selectors \<Rightarrow> cluster client \<Rightarrow> string \<Rightarrow> hostImpl \<Rightarrow> cluster \<Rightarrow> string \<Rightarrow> bool" where
  "usable sel c nodeName h k name \<longleftrightarrow> name = '''' \<or> GetExclusivePool name h \<noteq> None
     \<and> (case profileNamed k name of None \<Rightarrow> False | Some p \<Rightarrow> fst (nodeMatchesPowerProfile sel c p nodeName k) = Ret True)"

lemma nodeMatches_reads:
  assumes "\<And>n k. snd (Get_Node c n k) = k"
  shows "snd (nodeMatchesPowerProfile sel c p n k) = k"
proof -
  obtain r where "Get_Node c n k = (r, k)" using assms [of n k] by (metis prod.collapse)
  then show ?thesis by (cases r) (simp_all add: nodeMatchesPowerProfile_def Let_def split: sum.splits)
qed

lemma availability_usable:
  assumes "serves c PowerNamespace" "\<And>n k. snd (Get_Node c n k) = k"
  shows "snd (validateProfileAvailabilityOnNode sel c name n (Some h) k) = k"
    "fst (validateProfileAvailabilityOnNode sel c name n (Some h) k) = Ret True \<longleftrightarrow> usable sel c n h k name"
  using nodeMatches_reads [OF assms(2), where sel = sel and n = n and k = k]
  by (auto simp: validateProfileAvailabilityOnNode_def usable_def servesD [OF assms(1)] split: option.splits)

lemma validateAvailability_usable:
  assumes "serves c PowerNamespace" "\<And>n k. snd (Get_Node c n k) = k"
  shows "fst (validateAvailability sel c n (Some h) names k) = Ret () \<longleftrightarrow> (\<forall>name \<in> set names. usable sel c n h k name)"
proof (induction names)
  case (Cons name names)
  note a = availability_usable [OF assms, of sel name n h k]
  show ?case
  proof (cases "validateProfileAvailabilityOnNode sel c name n (Some h) k")
    case (Pair r k1)
    with a Cons.IH show ?thesis by (cases r) auto
  qed
qed simp

text \<open>
  C13. Admission and the controller on the node fit together: a PowerNodeConfig that the webhook has admitted passes the
  controller's validation on a node exactly if every profile it names has a pool on the node and matches it; nothing else of
  the configuration can make the validation fail.
\<close>

theorem admitted_config_validates:
  assumes "serves c PowerNamespace" "\<And>n k. snd (Get_Node c n k) = k"
    and "\<And>m. set (order m) = set m" "distinct (map (meta_Name \<circ> pnc_meta) (cl_Configs k))"
    and "powerNodeConfig_ValidateCreate sel order c PowerNamespace config k = (Ret None, k)"
  shows "fst (validatePowerNodeConfigProfiles sel c config nodeName (Some h) k) = Ret () \<longleftrightarrow>
    (\<forall>name \<in> insert (pncs_SharedPowerProfile (pnc_Spec config)) (rs_PowerProfile ` set (pncs_ReservedCPUs (pnc_Spec config))).
       usable sel c nodeName h k name)"
proof -
  let ?shared = "pncs_SharedPowerProfile (pnc_Spec config)" and ?reserved = "pncs_ReservedCPUs (pnc_Spec config)"
  have ok: "coresOk (pnc_Spec config)" "profilesOk k (pnc_Spec config)"
    using powerNodeConfig_validate_result [OF assms(1,3,4), of sel config] assms(5)
    by (auto simp: powerNodeConfig_ValidateCreate_def split: option.splits)
  obtain p where p: "profileNamed k ?shared = Some p" "pps_Shared (pp_Spec p)"
    using ok(2) by (auto simp: profilesOk_def split: option.splits)
  have "firstRepeated (concat (map rs_Cores ?reserved)) [] = None" using ok(1) by (simp add: coresOk_def firstRepeated_None)
  then have "fst (validatePowerNodeConfigProfiles sel c config nodeName (Some h) k)
      = fst (validateAvailability sel c nodeName (Some h) (?shared # filter (\<lambda>n. n \<noteq> '''') (map rs_PowerProfile ?reserved)) k)"
    using p by (simp add: validatePowerNodeConfigProfiles_def Let_def servesD [OF assms(1)] del: validateAvailability.simps)
  then show ?thesis
    using validateAvailability_usable [OF assms(1,2), of sel nodeName h "?shared # filter (\<lambda>n. n \<noteq> '''') (map rs_PowerProfile ?reserved)" k]
    by (auto simp: usable_def simp del: validateAvailability.simps)
qed

definition readableClient :: "cluster client" where
  "readableClient = clusterClient\<lparr>Get_Node := \<lambda>n k. (Ret \<lparr>node_meta = sampleMeta n, node_Capacity = []\<rparr>, k)\<rparr>"

theorem admitted_config_validates_witness:
  "fst (validatePowerNodeConfigProfiles labelSelectors readableClient (Admission.sampleConfig ''west'' (labelledSelector ''west'')) ''node''
     (Some (sampleHost plainMachine)) sampleCluster) \<noteq> Ret ()
   \<and> fst (validatePowerNodeConfigProfiles labelSelectors readableClient (Admission.sampleConfig ''west'' (labelledSelector ''west'')) ''node''
     (Some (snd (AddExclusivePool ''shared'' (sampleHost plainMachine)))) sampleCluster) = Ret ()"
proof -
  let ?h = "snd (AddExclusivePool ''shared'' (sampleHost plainMachine))"
  have s: "serves readableClient PowerNamespace" using clusterClient_serves by (simp add: serves_def readableClient_def)
  have g: "snd (Get_Node readableClient n k) = k" for n k by (simp add: readableClient_def)
  have d: "distinct (map (meta_Name \<circ> pnc_meta) (cl_Configs sampleCluster))" by (simp add: Admission.sample_defs)
  have v: "powerNodeConfig_ValidateCreate labelSelectors id readableClient PowerNamespace (Admission.sampleConfig ''west'' (labelledSelector ''west'')) sampleCluster
     = (Ret None, sampleCluster)" by code_simp
  have "\<not> usable labelSelectors readableClient ''node'' (sampleHost plainMachine) sampleCluster ''shared''"
    "usable labelSelectors readableClient ''node'' ?h sampleCluster ''shared''" "usable labelSelectors readableClient ''node'' ?h sampleCluster ''performance''"
    by code_simp+
  with admitted_config_validates [where order = id, OF s g _ d v] show ?thesis by (simp add: Admission.sampleConfig_def)
qed

end
